(* ===== verification/Prelude.thy ===== *)
theory Prelude
  imports Main "HOL-Library.Word" "HOL-Library.Monad_Syntax" "HOL-Library.Multiset"
begin

text \<open>
  Shared vocabulary of the development: the machine integer types of the Rust sources, the
  casts between them, bounds-checked vector accesses, and the error-propagating composition that
  models the \<^verbatim>\<open>?\<close> operator.

  Conventions.
  \<^item> \<^verbatim>\<open>u8\<close>, \<^verbatim>\<open>u32\<close>, \<^verbatim>\<open>u64\<close> are words of that width. \<^verbatim>\<open>usize\<close> values are vector lengths and
    positions and are natural numbers. \<^verbatim>\<open>i64\<close> values are integers; a cast between \<^verbatim>\<open>u64\<close> and
    \<^verbatim>\<open>i64\<close> keeps the 64 bits, as Rust's \<^verbatim>\<open>as\<close> does.
  \<^item> A Rust function that can panic (index out of range, slices of different length,
    \<^verbatim>\<open>unwrap\<close> on the wrong variant) has an \<open>option\<close> result, \<open>None\<close> being the panic.
  \<^item> A Rust function that returns \<^verbatim>\<open>Result<T, E>\<close> and changes a state \<open>'s\<close> has the result
    type \<open>('e + 'a) \<times> 's\<close>, with \<open>Inl\<close> for \<^verbatim>\<open>Err\<close> and \<open>Inr\<close> for \<^verbatim>\<open>Ok\<close>.
\<close>

unbundle bit_operations_syntax

section \<open>Machine integers\<close>

type_synonym u8 = "8 word"
type_synonym u32 = "32 word"
type_synonym u64 = "64 word"
type_synonym i64 = int
type_synonym usize = nat
type_synonym bytes = "u8 list"

named_theorems cast_simps \<open>casts between the integer types of the program\<close>
named_theorems vec_simps \<open>bounds-checked vector operations inside their bounds\<close>

definition i64_of_u64 :: "u64 \<Rightarrow> i64" where
  "i64_of_u64 x = sint x"

definition u64_of_i64 :: "i64 \<Rightarrow> u64" where
  "u64_of_i64 i = word_of_int i"

definition i64_of_u32 :: "u32 \<Rightarrow> i64" where
  "i64_of_u32 x = uint x"

definition u32_of_i64 :: "i64 \<Rightarrow> u32" where
  "u32_of_i64 i = word_of_int i"

definition i64_MIN :: i64 where "i64_MIN = - (2 ^ 63)"
definition i64_MAX :: i64 where "i64_MAX = 2 ^ 63 - 1"

definition in_i64 :: "int \<Rightarrow> bool" where
  "in_i64 i \<longleftrightarrow> i64_MIN \<le> i \<and> i \<le> i64_MAX"

lemma u64_i64_u64 [simp, cast_simps]: "u64_of_i64 (i64_of_u64 x) = x"
  by (simp add: i64_of_u64_def u64_of_i64_def)

lemma i64_of_u64_inject [simp, cast_simps]: "i64_of_u64 x = i64_of_u64 y \<longleftrightarrow> x = y"
  by (metis u64_i64_u64)

lemma u32_i64_u32 [simp, cast_simps]: "u32_of_i64 (i64_of_u32 x) = x"
  by (simp add: i64_of_u32_def u32_of_i64_def)

lemma i64_of_u64_range: "in_i64 (i64_of_u64 x)"
  using sint_ge[of x] sint_lt[of x]
  by (auto simp: in_i64_def i64_of_u64_def i64_MIN_def i64_MAX_def)

lemma unat_u64_bound: "unat (x :: u64) < 2 ^ 64"
  using unsigned_less[of x] by simp

lemma unat_of_nat_u64: "n < 2 ^ 64 \<Longrightarrow> unat (of_nat n :: u64) = n"
  by (simp add: unat_of_nat)

lemma i64_of_u64_small:
  assumes "unat x < 2 ^ 63"
  shows "i64_of_u64 x = int (unat x)"
proof -
  have "uint x < 2 ^ 63"
    using assms by (metis nat_less_numeral_power_cancel_iff unat_eq_nat_uint)
  then have "signed_take_bit 63 (uint x) = uint x"
    by (intro signed_take_bit_int_eq_self) (auto intro: order_trans[OF _ uint_ge_0])
  then show ?thesis
    by (simp add: i64_of_u64_def sint_uint)
qed

lemma i64_u64_i64:
  assumes "in_i64 i"
  shows "i64_of_u64 (u64_of_i64 i) = i"
proof -
  have "signed_take_bit 63 i = i"
    using assms by (intro signed_take_bit_int_eq_self) (auto simp: in_i64_def i64_MIN_def i64_MAX_def)
  then show ?thesis
    by (simp add: i64_of_u64_def u64_of_i64_def sint_uint signed_take_bit_take_bit unsigned_of_int)
qed

text \<open>Two-digit numbers to base \<open>n\<close> are equal only digit by digit.\<close>

lemma digits_inject:
  fixes a b k k' n :: nat
  assumes "k < n" and "k' < n"
  shows "a * n + k = b * n + k' \<longleftrightarrow> a = b \<and> k = k'"
proof
  assume e: "a * n + k = b * n + k'"
  have "(a * n + k) div n = a" "(b * n + k') div n = b" using assms by simp_all
  with e show "a = b \<and> k = k'" by auto
qed simp

section \<open>Bounds-checked vectors\<close>

text \<open>\<open>v[i]\<close>, \<open>v[i] = x\<close>, \<open>&v[s..e]\<close>, \<open>v[s..e].copy_from_slice(src)\<close> and
  \<open>v[s..e].fill(x)\<close>: each panics outside the vector.\<close>

definition idx :: "'a list \<Rightarrow> nat \<Rightarrow> 'a option" where
  "idx xs i = (if i < length xs then Some (xs ! i) else None)"

definition set_idx :: "'a list \<Rightarrow> nat \<Rightarrow> 'a \<Rightarrow> 'a list option" where
  "set_idx xs i x = (if i < length xs then Some (xs[i := x]) else None)"

definition subslice :: "'a list \<Rightarrow> nat \<Rightarrow> nat \<Rightarrow> 'a list option" where
  "subslice xs s e = (if s \<le> e \<and> e \<le> length xs then Some (take (e - s) (drop s xs)) else None)"

definition blit :: "'a list \<Rightarrow> nat \<Rightarrow> 'a list \<Rightarrow> 'a list" where
  "blit xs s ys = take s xs @ ys @ drop (s + length ys) xs"

definition copy_from_slice :: "'a list \<Rightarrow> nat \<Rightarrow> nat \<Rightarrow> 'a list \<Rightarrow> 'a list option" where
  "copy_from_slice xs s e ys =
     (if s \<le> e \<and> e \<le> length xs \<and> length ys = e - s then Some (blit xs s ys) else None)"

definition fill :: "'a list \<Rightarrow> nat \<Rightarrow> nat \<Rightarrow> 'a \<Rightarrow> 'a list option" where
  "fill xs s e x = copy_from_slice xs s e (replicate (e - s) x)"

lemma idx_in [simp, vec_simps]: "i < length xs \<Longrightarrow> idx xs i = Some (xs ! i)"
  by (simp add: idx_def)

lemma set_idx_in [simp, vec_simps]: "i < length xs \<Longrightarrow> set_idx xs i x = Some (xs[i := x])"
  by (simp add: set_idx_def)

lemma subslice_in [vec_simps]:
  "s \<le> e \<Longrightarrow> e \<le> length xs \<Longrightarrow> subslice xs s e = Some (take (e - s) (drop s xs))"
  by (simp add: subslice_def)

lemma copy_from_slice_in [vec_simps]:
  "s \<le> e \<Longrightarrow> e \<le> length xs \<Longrightarrow> length ys = e - s \<Longrightarrow> copy_from_slice xs s e ys = Some (blit xs s ys)"
  by (simp add: copy_from_slice_def)

lemma fill_in [vec_simps]:
  "s \<le> e \<Longrightarrow> e \<le> length xs \<Longrightarrow> fill xs s e x = Some (blit xs s (replicate (e - s) x))"
  by (simp add: fill_def copy_from_slice_def)

lemma length_blit [simp]: "s + length ys \<le> length xs \<Longrightarrow> length (blit xs s ys) = length xs"
  by (simp add: blit_def)

lemma nth_blit:
  assumes "s + length ys \<le> length xs" "i < length xs"
  shows "blit xs s ys ! i = (if s \<le> i \<and> i < s + length ys then ys ! (i - s) else xs ! i)"
  using assms by (auto simp: blit_def nth_append)

lemma blit_Nil [simp]: "blit xs s [] = xs"
  by (simp add: blit_def)

text \<open>\<open>byte_at xs i\<close> reads a byte of a stored chunk; past its end there is a hole, which is zero.\<close>

definition byte_at :: "bytes \<Rightarrow> nat \<Rightarrow> u8" where
  "byte_at xs i = (if i < length xs then xs ! i else 0)"

lemma byte_at_in [simp]: "i < length xs \<Longrightarrow> byte_at xs i = xs ! i"
  by (simp add: byte_at_def)

lemma byte_at_out [simp]: "length xs \<le> i \<Longrightarrow> byte_at xs i = 0"
  by (simp add: byte_at_def)

lemma byte_at_Nil [simp]: "byte_at [] i = 0"
  by simp

text \<open>\<open>write_at old s new\<close> is a positional write into a byte string: a gap between the old end
  and \<open>s\<close> is zero-filled. It is the specification of every buffered and stored write.\<close>

definition write_at :: "bytes \<Rightarrow> nat \<Rightarrow> bytes \<Rightarrow> bytes" where
  "write_at old s new =
     take s old @ replicate (s - length old) 0 @ new @ drop (s + length new) old"

lemma length_write_at [simp]: "length (write_at old s new) = max (length old) (s + length new)"
  by (auto simp: write_at_def)

lemma byte_at_write_at:
  "byte_at (write_at old s new) i =
     (if s \<le> i \<and> i < s + length new then new ! (i - s) else byte_at old i)"
  by (auto simp: write_at_def byte_at_def nth_append min_def)

lemma bytes_eqI:
  assumes "length xs = length ys" and "\<And>i. i < length xs \<Longrightarrow> byte_at xs i = byte_at ys i"
  shows "xs = ys"
  using assms by (auto intro!: nth_equalityI)

section \<open>Results\<close>

text \<open>\<open>and_then m (\<lambda>x s. \<dots>)\<close> is Rust's \<^verbatim>\<open>let x = m?; \<dots>\<close> with the state passed on: an
  error returns early.\<close>

definition and_then :: "('e + 'a) \<times> 's \<Rightarrow> ('a \<Rightarrow> 's \<Rightarrow> ('e + 'b) \<times> 's) \<Rightarrow> ('e + 'b) \<times> 's" where
  "and_then m f = (case m of (Inl e, s) \<Rightarrow> (Inl e, s) | (Inr a, s) \<Rightarrow> f a s)"

lemma and_then_simps [simp]:
  "and_then (Inl e, s) f = (Inl e, s)"
  "and_then (Inr a, s) f = f a s"
  by (simp_all add: and_then_def)

lemma and_then_Inr_iff:
  "and_then m f = (Inr b, s') \<longleftrightarrow> (\<exists>a s. m = (Inr a, s) \<and> f a s = (Inr b, s'))"
  by (auto simp: and_then_def split: prod.splits sum.splits)

text \<open>The same for methods that can also panic.\<close>

definition try_then :: "(('e + 'a) \<times> 's) option \<Rightarrow> ('a \<Rightarrow> 's \<Rightarrow> (('e + 'b) \<times> 's) option) \<Rightarrow>
    (('e + 'b) \<times> 's) option" where
  "try_then m f =
     (case m of None \<Rightarrow> None | Some (Inl e, s) \<Rightarrow> Some (Inl e, s) | Some (Inr a, s) \<Rightarrow> f a s)"

lemma try_then_simps [simp]:
  "try_then None f = None"
  "try_then (Some (Inl e, s)) f = Some (Inl e, s)"
  "try_then (Some (Inr a, s)) f = f a s"
  by (simp_all add: try_then_def)

lemma try_then_Inr_iff:
  "try_then m f = Some (Inr b, s') \<longleftrightarrow> (\<exists>a s. m = Some (Inr a, s) \<and> f a s = Some (Inr b, s'))"
  by (auto simp: try_then_def split: option.splits prod.splits sum.splits)

definition map_err :: "('e \<Rightarrow> 'f) \<Rightarrow> ('e + 'a) \<times> 's \<Rightarrow> ('f + 'a) \<times> 's" where
  "map_err f m = (case m of (Inl e, s) \<Rightarrow> (Inl (f e), s) | (Inr a, s) \<Rightarrow> (Inr a, s))"

lemma map_err_simps [simp]:
  "map_err f (Inl e, s) = (Inl (f e), s)"
  "map_err f (Inr a, s) = (Inr a, s)"
  by (simp_all add: map_err_def)

end
