(* ===== verification/Model.thy ===== *)
theory Model
  imports Prelude
begin

text \<open>
  The data types of \<^verbatim>\<open>src/src/model.rs\<close>: timestamps and their stored form, file kinds, inodes,
  metadata updates, and the errors of the storage layer with their translation from SQLite
  errors. The lemmas are the round trips between a value and its stored form.
\<close>

section \<open>Timestamps\<close>

text \<open>
  A \<^verbatim>\<open>SystemTime\<close> is the exact number of nanoseconds since the Unix epoch; the system type
  holds every time whose seconds fit in an \<^verbatim>\<open>i64\<close>.
\<close>

type_synonym SystemTime = int

abbreviation NANOS :: int where "NANOS \<equiv> 1000000000"

record Timestamp =
  secs :: i64
  nsec :: u32

text \<open>Casting a \<^verbatim>\<open>u64\<close> number of seconds to \<^verbatim>\<open>i64\<close>, and negating it, keep 64 bits.\<close>

definition from_system_time :: "SystemTime \<Rightarrow> Timestamp" where
  "from_system_time time =
     (if 0 \<le> time then
        \<lparr>secs = i64_of_u64 (word_of_int (time div NANOS)), nsec = word_of_int (time mod NANOS)\<rparr>
      else
        let duration = - time in
        \<lparr>secs = i64_of_u64 (- word_of_int (duration div NANOS)),
         nsec = word_of_int (duration mod NANOS)\<rparr>)"

definition clamp :: "int \<Rightarrow> int \<Rightarrow> int \<Rightarrow> int" where
  "clamp lo hi x = (if x < lo then lo else if hi < x then hi else x)"

definition to_ns :: "Timestamp \<Rightarrow> i64" where
  "to_ns self =
     (let magnitude = \<bar>secs self\<bar> * NANOS + uint (nsec self);
          ns = (if secs self < 0 then - magnitude else magnitude)
      in clamp i64_MIN i64_MAX ns)"

definition from_ns :: "i64 \<Rightarrow> Timestamp" where
  "from_ns ns =
     (let magnitude = \<bar>ns\<bar>; s = magnitude div NANOS
      in \<lparr>secs = (if ns < 0 then - s else s), nsec = word_of_int (magnitude mod NANOS)\<rparr>)"

definition to_system_time :: "Timestamp \<Rightarrow> SystemTime" where
  "to_system_time self =
     (if 0 \<le> secs self then secs self * NANOS + uint (nsec self)
      else - (\<bar>secs self\<bar> * NANOS + uint (nsec self)))"

section \<open>File kinds, inodes and entries\<close>

datatype FileKind = RegularFile | Directory | Symlink

record Inode =
  i_ino :: u64
  i_kind :: FileKind
  i_mode :: u32
  i_uid :: u32
  i_gid :: u32
  i_size :: u64
  i_atime :: Timestamp
  i_mtime :: Timestamp
  i_ctime :: Timestamp
  i_nlink :: u32

record DirEntry =
  de_name :: bytes
  de_ino :: u64
  de_kind :: FileKind

record MetadataUpdate =
  mu_mode :: "u32 option"
  mu_uid :: "u32 option"
  mu_gid :: "u32 option"
  mu_atime :: "Timestamp option"
  mu_mtime :: "Timestamp option"

section \<open>Errors\<close>

text \<open>
  The part of \<^verbatim>\<open>rusqlite::Error\<close> that the sources distinguish. The text that \<^verbatim>\<open>to_string\<close>
  makes of an error is represented by the error itself (\<open>Display\<close>); texts the sources write
  themselves are strings (\<open>Text\<close>).
\<close>

datatype ErrorCode = DiskFull | ConstraintViolation | OtherCode int

datatype SqlError =
    QueryReturnedNoRows
  | SqliteFailure ErrorCode int "string option"
  | FromSqlConversionFailure nat
  | OtherSqlError string

datatype message = Display SqlError | Text string

datatype DbError =
    AlreadyExists | DirectoryNotEmpty | InvalidInput | IsDirectory | NameTooLong | NoSpace
  | NotDirectory | NotFound | Corrupt | UnsupportedSchema i64 | FileTooLarge | Sqlite message

definition SQLITE_FULL :: int where "SQLITE_FULL = 13"
definition SQLITE_CONSTRAINT_PRIMARYKEY :: int where "SQLITE_CONSTRAINT_PRIMARYKEY = 1555"
definition SQLITE_CONSTRAINT_UNIQUE :: int where "SQLITE_CONSTRAINT_UNIQUE = 2067"
definition SQLITE_CONSTRAINT_FOREIGNKEY :: int where "SQLITE_CONSTRAINT_FOREIGNKEY = 787"

lemmas sqlite_codes =
  SQLITE_FULL_def SQLITE_CONSTRAINT_PRIMARYKEY_def SQLITE_CONSTRAINT_UNIQUE_def
  SQLITE_CONSTRAINT_FOREIGNKEY_def

definition sqlite_failure :: "ErrorCode \<Rightarrow> int \<Rightarrow> string option \<Rightarrow> DbError" where
  "sqlite_failure code extended_code msg =
     (if code = DiskFull \<or> extended_code = SQLITE_FULL then NoSpace
      else if code = ConstraintViolation \<and>
              (extended_code = SQLITE_CONSTRAINT_PRIMARYKEY \<or>
               extended_code = SQLITE_CONSTRAINT_UNIQUE) then AlreadyExists
      else Sqlite (Display (SqliteFailure code extended_code msg)))"

fun from_sql_error :: "SqlError \<Rightarrow> DbError" where
  "from_sql_error QueryReturnedNoRows = NotFound"
| "from_sql_error (SqliteFailure code extended_code msg) = sqlite_failure code extended_code msg"
| "from_sql_error other = Sqlite (Display other)"

fun kind_as_i64 :: "FileKind \<Rightarrow> i64" where
  "kind_as_i64 RegularFile = 1"
| "kind_as_i64 Directory = 2"
| "kind_as_i64 Symlink = 3"

definition kind_from_i64 :: "i64 \<Rightarrow> DbError + FileKind" where
  "kind_from_i64 value =
     (if value = 1 then Inr RegularFile
      else if value = 2 then Inr Directory
      else if value = 3 then Inr Symlink
      else Inl Corrupt)"

fun regular_file_error :: "FileKind \<Rightarrow> DbError option" where
  "regular_file_error RegularFile = None"
| "regular_file_error Directory = Some IsDirectory"
| "regular_file_error Symlink = Some InvalidInput"

lemma kind_from_as_i64 [simp]: "kind_from_i64 (kind_as_i64 k) = Inr k"
  by (cases k) (simp_all add: kind_from_i64_def)

lemma kind_as_from_i64: "kind_from_i64 v = Inr k \<longleftrightarrow> v = kind_as_i64 k"
  by (cases k) (auto simp: kind_from_i64_def)

lemma kind_as_i64_inject [simp]: "kind_as_i64 k = kind_as_i64 k' \<longleftrightarrow> k = k'"
  by (cases k; cases k') simp_all

lemma regular_file_error_None [simp]: "regular_file_error k = None \<longleftrightarrow> k = RegularFile"
  by (cases k) simp_all

section \<open>Stored timestamps\<close>

definition timestamp_ok :: "Timestamp \<Rightarrow> bool" where
  "timestamp_ok t \<longleftrightarrow> in_i64 (secs t) \<and> uint (nsec t) < NANOS"

text \<open>The signed number of nanoseconds that a timestamp stands for.\<close>

definition exact_ns :: "Timestamp \<Rightarrow> int" where
  "exact_ns t = (if secs t < 0 then - (\<bar>secs t\<bar> * NANOS + uint (nsec t))
                 else \<bar>secs t\<bar> * NANOS + uint (nsec t))"

lemma to_ns_exact: "to_ns t = clamp i64_MIN i64_MAX (exact_ns t)"
  by (simp add: to_ns_def exact_ns_def Let_def)

lemma clamp_range: "lo \<le> hi \<Longrightarrow> lo \<le> clamp lo hi x \<and> clamp lo hi x \<le> hi"
  by (simp add: clamp_def)

lemma clamp_id [simp]: "lo \<le> x \<Longrightarrow> x \<le> hi \<Longrightarrow> clamp lo hi x = x"
  by (simp add: clamp_def)

lemma to_ns_range [simp]: "in_i64 (to_ns t)"
  using clamp_range[of i64_MIN i64_MAX "exact_ns t"]
  by (simp add: to_ns_exact in_i64_def i64_MIN_def i64_MAX_def)

lemma uint_word_of_nanos [simp]: "uint (word_of_int (x mod NANOS) :: u32) = x mod NANOS"
proof -
  have "0 \<le> x mod NANOS" "x mod NANOS < NANOS" by simp_all
  then show ?thesis by (simp add: unsigned_of_int take_bit_int_eq_self)
qed

lemma from_ns_fields:
  "secs (from_ns ns) = (if ns < 0 then - (\<bar>ns\<bar> div NANOS) else \<bar>ns\<bar> div NANOS)"
  "uint (nsec (from_ns ns)) = \<bar>ns\<bar> mod NANOS"
  by (simp_all only: from_ns_def Let_def Timestamp.simps uint_word_of_nanos split: if_splits)

lemma exact_ns_from_ns:
  "exact_ns (from_ns ns) = (if - NANOS < ns \<and> ns < 0 then - ns else ns)"
proof -
  define q where "q = \<bar>ns\<bar> div NANOS"
  define r where "r = \<bar>ns\<bar> mod NANOS"
  have "\<bar>ns\<bar> = q * NANOS + r" "0 \<le> r" "r < NANOS" "0 \<le> q"
    by (simp_all add: q_def r_def pos_imp_zdiv_nonneg_iff)
  then show ?thesis
    unfolding exact_ns_def from_ns_fields q_def[symmetric] r_def[symmetric] by auto
qed

lemma timestamp_eqI: "secs t = secs u \<Longrightarrow> nsec t = nsec u \<Longrightarrow> (t :: Timestamp) = u"
  by simp

lemma from_ns_exact:
  assumes "uint (nsec t) < NANOS"
  shows "from_ns (exact_ns t) = t"
proof -
  define n where "n = uint (nsec t)"
  have n: "0 \<le> n" "n < NANOS" using assms by (simp_all add: n_def)
  have mag: "\<bar>exact_ns t\<bar> = \<bar>secs t\<bar> * NANOS + n" and sgn: "(exact_ns t < 0) = (secs t < 0)"
    unfolding exact_ns_def n_def[symmetric] using n by auto
  have d: "(\<bar>secs t\<bar> * NANOS + n) div NANOS = \<bar>secs t\<bar>"
    and m: "(\<bar>secs t\<bar> * NANOS + n) mod NANOS = n"
    using n by simp_all
  have "word_of_int n = nsec t" by (simp add: n_def)
  then show ?thesis
    using d m by (intro timestamp_eqI) (auto simp: from_ns_def Let_def mag sgn)
qed

text \<open>C33. A timestamp whose nanoseconds are below one second and that lies in the range of the
  stored column survives storing: reading the column back gives the same timestamp.\<close>

theorem timestamp_store_roundtrip:
  assumes "uint (nsec t) < NANOS" and "in_i64 (exact_ns t)"
  shows "from_ns (to_ns t) = t"
  using assms by (simp add: to_ns_exact in_i64_def from_ns_exact)

theorem timestamp_store_roundtrip_witness:
  "uint (nsec \<lparr>secs = -7, nsec = 5\<rparr>) < NANOS \<and> in_i64 (exact_ns \<lparr>secs = -7, nsec = 5\<rparr>) \<and>
   from_ns (to_ns \<lparr>secs = -7, nsec = 5\<rparr>) = \<lparr>secs = -7, nsec = 5\<rparr>"
proof -
  have a: "uint (nsec \<lparr>secs = -7, nsec = 5\<rparr>) < NANOS" by simp
  have b: "in_i64 (exact_ns \<lparr>secs = -7, nsec = 5\<rparr>)"
    by (simp add: in_i64_def exact_ns_def i64_MIN_def i64_MAX_def)
  show ?thesis using a b timestamp_store_roundtrip[OF a b] by simp
qed

text \<open>C34. Reading a stored column and storing it again keeps every value except those less than
  one second before the epoch, whose sign is lost: the seconds part is zero and carries no sign,
  so half a second before the epoch becomes half a second after it.\<close>

theorem stored_ns_roundtrip:
  assumes "in_i64 ns"
  shows "to_ns (from_ns ns) = (if - NANOS < ns \<and> ns < 0 then - ns else ns)"
  using assms by (auto simp: to_ns_exact exact_ns_from_ns in_i64_def i64_MIN_def i64_MAX_def)

theorem stored_ns_roundtrip_witness:
  "in_i64 (-500000000) \<and> to_ns (from_ns (-500000000)) = 500000000"
proof -
  have a: "in_i64 (-500000000)" by (simp add: in_i64_def i64_MIN_def i64_MAX_def)
  show ?thesis using a stored_ns_roundtrip[OF a] by simp
qed

text \<open>Every stored value reads back as a time inside the range of \<^verbatim>\<open>SystemTime\<close>, so converting
  it for a reply cannot overflow.\<close>

lemma from_ns_ok: "in_i64 ns \<Longrightarrow> timestamp_ok (from_ns ns)"
proof -
  assume ns: "in_i64 ns"
  then have "\<bar>ns\<bar> div NANOS \<le> 2 ^ 63 div NANOS"
    by (intro zdiv_mono1) (auto simp: in_i64_def i64_MIN_def i64_MAX_def)
  then have "\<bar>ns\<bar> div NANOS \<le> 9223372036" by simp
  moreover have "0 \<le> \<bar>ns\<bar> div NANOS" by (simp add: pos_imp_zdiv_nonneg_iff)
  ultimately show ?thesis
    unfolding timestamp_ok_def from_ns_fields in_i64_def i64_MIN_def i64_MAX_def by auto
qed

end
