(* ===== verification/Chunks.thy ===== *)
theory Chunks
  imports Model
begin

text \<open>
  Chunk keys and chunk spans (\<^verbatim>\<open>src/src/db.rs\<close>): how a byte range of a file is cut into 64 KiB
  chunks, and how a chunk of an inode is addressed by one 64-bit row id. Arithmetic on \<^verbatim>\<open>u64\<close>
  wraps, as it does in a release build; the lemmas say when it does not.
\<close>

section \<open>Constants and chunk keys\<close>

definition CHUNK_SIZE :: usize where "CHUNK_SIZE = 65536"
definition CHUNK_BITS :: nat where "CHUNK_BITS = 24"
definition MAX_CHUNKS :: u64 where "MAX_CHUNKS = push_bit CHUNK_BITS 1"
definition MAX_FILE_SIZE :: u64 where "MAX_FILE_SIZE = MAX_CHUNKS * of_nat CHUNK_SIZE"
definition MAX_INO :: u64 where "MAX_INO = push_bit (63 - CHUNK_BITS) 1 - 1"

definition chunk_key :: "u64 \<Rightarrow> u64 \<Rightarrow> i64" where
  "chunk_key ino chunk_index = i64_of_u64 (push_bit CHUNK_BITS ino OR chunk_index)"

definition chunk_keys :: "u64 \<Rightarrow> i64 \<times> i64" where
  "chunk_keys ino = (chunk_key ino 0, chunk_key ino (MAX_CHUNKS - 1))"

definition chunk_index_of :: "i64 \<Rightarrow> u64" where
  "chunk_index_of key = u64_of_i64 key AND (MAX_CHUNKS - 1)"

lemma CHUNK_SIZE_pos [simp]: "0 < CHUNK_SIZE"
  by (simp add: CHUNK_SIZE_def)

lemma unat_MAX_CHUNKS: "unat MAX_CHUNKS = 2 ^ 24"
  by (simp add: MAX_CHUNKS_def CHUNK_BITS_def push_bit_eq_mult)

lemma unat_MAX_CHUNKS_pred: "unat (MAX_CHUNKS - 1) = 2 ^ 24 - 1"
  by (simp add: MAX_CHUNKS_def CHUNK_BITS_def push_bit_eq_mult)

lemma unat_MAX_FILE_SIZE: "unat MAX_FILE_SIZE = 2 ^ 24 * CHUNK_SIZE"
  by (simp add: MAX_FILE_SIZE_def MAX_CHUNKS_def CHUNK_BITS_def CHUNK_SIZE_def push_bit_eq_mult)

lemma unat_MAX_INO: "unat MAX_INO = 2 ^ 39 - 1"
  by (simp add: MAX_INO_def CHUNK_BITS_def push_bit_eq_mult)

lemma take_bit_small:
  assumes "unat (k :: u64) < 2 ^ n"
  shows "take_bit n k = k"
  by (rule word_unat_eq_iff[THEN iffD2])
    (simp add: unsigned_take_bit_eq take_bit_nat_eq_self assms)

lemma bits_disjoint_key:
  assumes "unat chunk_index < 2 ^ 24"
  shows "push_bit 24 ino OR chunk_index = push_bit 24 ino + (chunk_index :: u64)"
proof -
  have "take_bit 24 chunk_index = chunk_index"
    using assms by (rule take_bit_small)
  then have "\<not> bit (push_bit 24 ino) n \<or> \<not> bit chunk_index n" for n
    by (metis bit_push_bit_iff bit_take_bit_iff not_le)
  then show ?thesis by (simp add: disjunctive_add)
qed

lemma unat_key_word:
  assumes "unat ino < 2 ^ 39" and "unat chunk_index < 2 ^ 24"
  shows "unat (push_bit 24 ino OR chunk_index :: u64) = unat ino * 2 ^ 24 + unat chunk_index"
proof -
  have "unat ino * 2 ^ 24 < 2 ^ 63" using assms(1) by simp
  then have p: "unat (push_bit 24 ino) = unat ino * 2 ^ 24"
    by (simp add: push_bit_eq_mult unat_word_ariths mult.commute)
  show ?thesis
    unfolding bits_disjoint_key[OF assms(2)] unat_word_ariths p using assms by simp
qed

lemma chunk_key_eq:
  assumes "unat ino < 2 ^ 39" and "unat chunk_index < 2 ^ 24"
  shows "chunk_key ino chunk_index = int (unat ino * 2 ^ 24 + unat chunk_index)"
proof -
  have "unat ino * 2 ^ 24 + unat chunk_index < 2 ^ 63" using assms by simp
  then show ?thesis
    unfolding chunk_key_def CHUNK_BITS_def
    by (subst i64_of_u64_small) (simp_all only: unat_key_word[OF assms])
qed

definition valid_ino :: "u64 \<Rightarrow> bool" where
  "valid_ino ino \<longleftrightarrow> ino \<le> MAX_INO"

definition valid_index :: "u64 \<Rightarrow> bool" where
  "valid_index chunk_index \<longleftrightarrow> chunk_index < MAX_CHUNKS"

lemma valid_ino_unat: "valid_ino ino \<longleftrightarrow> unat ino < 2 ^ 39"
  by (simp add: valid_ino_def word_le_nat_alt unat_MAX_INO) linarith

lemma valid_index_unat: "valid_index k \<longleftrightarrow> unat k < 2 ^ 24"
  by (simp add: valid_index_def word_less_nat_alt unat_MAX_CHUNKS)

lemma valid_index_pred [simp]: "valid_index (MAX_CHUNKS - 1)" "valid_index 0"
  by (simp_all add: valid_index_unat unat_MAX_CHUNKS_pred)

text \<open>C35. For every valid inode number and chunk index the row id is the non-negative number
  \<open>ino * 2^24 + index\<close>, so different chunks never share a row id, and the index is read back
  from the row id.\<close>

theorem chunk_key_faithful:
  assumes "valid_ino ino" and "valid_index k" and "valid_ino ino'" and "valid_index k'"
  shows "0 \<le> chunk_key ino k \<and> in_i64 (chunk_key ino k) \<and>
         (chunk_key ino k = chunk_key ino' k' \<longleftrightarrow> ino = ino' \<and> k = k') \<and>
         chunk_index_of (chunk_key ino k) = k"
proof -
  note k = chunk_key_eq[OF assms(1,2)[unfolded valid_ino_unat valid_index_unat]]
  note k' = chunk_key_eq[OF assms(3,4)[unfolded valid_ino_unat valid_index_unat]]
  have b: "unat k < 2 ^ 24" "unat k' < 2 ^ 24" "unat ino < 2 ^ 39"
    using assms by (simp_all add: valid_ino_unat valid_index_unat)
  have inj: "unat ino * 2 ^ 24 + unat k = unat ino' * 2 ^ 24 + unat k' \<longleftrightarrow> ino = ino' \<and> k = k'"
    unfolding word_unat_eq_iff using b(1,2) by (rule digits_inject)
  have "take_bit 24 (push_bit 24 ino OR k) = k"
    using take_bit_small[OF b(1)] by (simp add: take_bit_push_bit)
  moreover have "MAX_CHUNKS - 1 = mask 24"
    by (simp add: MAX_CHUNKS_def CHUNK_BITS_def mask_eq_exp_minus_1 push_bit_eq_mult)
  ultimately have idx: "chunk_index_of (chunk_key ino k) = k"
    by (simp add: chunk_index_of_def chunk_key_def CHUNK_BITS_def take_bit_eq_mask)
  have "in_i64 (chunk_key ino k)"
    by (simp add: chunk_key_def i64_of_u64_range)
  moreover have "chunk_key ino k = chunk_key ino' k' \<longleftrightarrow> ino = ino' \<and> k = k'"
    unfolding k k' of_nat_eq_iff by (rule inj)
  ultimately show ?thesis using idx k by simp
qed

theorem chunk_key_faithful_witness:
  "valid_ino 5 \<and> valid_index 7 \<and> valid_ino 6 \<and> valid_index 0 \<and>
   0 \<le> chunk_key 5 7 \<and> in_i64 (chunk_key 5 7) \<and>
   (chunk_key 5 7 = chunk_key 6 0 \<longleftrightarrow> (5 :: u64) = 6 \<and> (7 :: u64) = 0) \<and>
   chunk_index_of (chunk_key 5 7) = 7"
proof -
  have v: "valid_ino 5" "valid_index 7" "valid_ino 6" "valid_index 0"
    by (simp_all add: valid_ino_unat valid_index_unat)
  show ?thesis using v chunk_key_faithful[OF v] by simp
qed

section \<open>Spans and pieces\<close>

record ChunkSpan =
  sp_start :: u64
  sp_end :: u64
  sp_first :: u64
  sp_last :: u64

text \<open>A piece holds two half-open ranges of the same length: the bytes within the chunk and the
  same bytes within the caller's buffer.\<close>

record ChunkPiece =
  chunk_start :: usize
  chunk_end :: usize
  buf_start :: usize
  buf_end :: usize

definition is_full_chunk :: "ChunkPiece \<Rightarrow> bool" where
  "is_full_chunk self \<longleftrightarrow> chunk_start self = 0 \<and> chunk_end self = CHUNK_SIZE"

definition span_new :: "u64 \<Rightarrow> usize \<Rightarrow> ChunkSpan option" where
  "span_new offset len =
     (if len = 0 then None
      else let end = offset + of_nat len; chunk = (of_nat CHUNK_SIZE :: u64) in
        Some \<lparr>sp_start = offset, sp_end = end, sp_first = offset div chunk,
              sp_last = (end - 1) div chunk\<rparr>)"

definition piece :: "ChunkSpan \<Rightarrow> u64 \<Rightarrow> ChunkPiece" where
  "piece self chunk_index =
     (let cstart = chunk_index * of_nat CHUNK_SIZE;
          from = max (sp_start self) cstart;
          to = min (sp_end self) (cstart + of_nat CHUNK_SIZE)
      in \<lparr>chunk_start = unat (from - cstart), chunk_end = unat (to - cstart),
          buf_start = unat (from - sp_start self), buf_end = unat (to - sp_start self)\<rparr>)"

definition copy_out :: "ChunkSpan \<Rightarrow> u64 \<Rightarrow> bytes \<Rightarrow> bytes \<Rightarrow> bytes option" where
  "copy_out self chunk_index data out =
     (let piece = piece self chunk_index;
          avail = min (length data) (chunk_end piece)
      in if avail \<le> chunk_start piece then Some out
         else let len = avail - chunk_start piece in do {
           src \<leftarrow> subslice data (chunk_start piece) avail;
           copy_from_slice out (buf_start piece) (buf_start piece + len) src
         })"

text \<open>The loop range \<^verbatim>\<open>first..=last\<close>.\<close>

definition span_chunks :: "ChunkSpan \<Rightarrow> u64 list" where
  "span_chunks sp = map of_nat [unat (sp_first sp) ..< Suc (unat (sp_last sp))]"

text \<open>\<open>is_span off len sp\<close>: the span of \<open>len > 0\<close> bytes at \<open>off\<close>, computed without wrapping.\<close>

definition is_span :: "nat \<Rightarrow> nat \<Rightarrow> ChunkSpan \<Rightarrow> bool" where
  "is_span off len sp \<longleftrightarrow>
     0 < len \<and> off + len \<le> 2 ^ 63 \<and> unat (sp_start sp) = off \<and> unat (sp_end sp) = off + len \<and>
     unat (sp_first sp) = off div CHUNK_SIZE \<and> unat (sp_last sp) = (off + len - 1) div CHUNK_SIZE"

lemma span_new_is_span:
  assumes "span_new offset len = Some sp" and "unat offset + len \<le> 2 ^ 63"
  shows "is_span (unat offset) len sp"
proof -
  have len: "0 < len" "len < 2 ^ 64" using assms by (auto simp: span_new_def split: if_splits)
  have e: "unat (offset + of_nat len) = unat offset + len"
    using assms(2) len by (simp add: unat_word_ariths unat_of_nat)
  then have "unat (offset + of_nat len - 1) = unat offset + len - 1"
    using len by (subst unat_minus_one) auto
  then show ?thesis
    using assms len e
    by (auto simp: span_new_def is_span_def Let_def unat_div CHUNK_SIZE_def split: if_splits)
qed

lemma span_new_Some: "0 < len \<Longrightarrow> \<exists>sp. span_new offset len = Some sp"
  by (simp add: span_new_def Let_def)

lemma span_new_zero [simp]: "span_new offset 0 = None"
  by (simp add: span_new_def)

lemma unat_max: "unat (max a b) = max (unat a) (unat (b :: u64))"
  by (simp add: max_def word_le_nat_alt)

lemma unat_min: "unat (min a b) = min (unat a) (unat (b :: u64))"
  by (simp add: min_def word_le_nat_alt)

lemma span_chunk_bounds:
  assumes "is_span off len sp" and "unat (sp_first sp) \<le> k" and "k \<le> unat (sp_last sp)"
  shows "k * CHUNK_SIZE < off + len" and "off < k * CHUNK_SIZE + CHUNK_SIZE"
proof -
  have "k \<le> (off + len - 1) div CHUNK_SIZE" "off div CHUNK_SIZE \<le> k" "0 < len"
    using assms by (auto simp: is_span_def)
  then show "k * CHUNK_SIZE < off + len" "off < k * CHUNK_SIZE + CHUNK_SIZE"
    unfolding CHUNK_SIZE_def by linarith+
qed

lemma piece_eq:
  assumes sp: "is_span off len sp" and k: "unat (sp_first sp) \<le> unat k" "unat k \<le> unat (sp_last sp)"
  defines "c \<equiv> unat k * CHUNK_SIZE"
  shows "piece sp k =
    \<lparr>chunk_start = max off c - c, chunk_end = min (off + len) (c + CHUNK_SIZE) - c,
     buf_start = max off c - off, buf_end = min (off + len) (c + CHUNK_SIZE) - off\<rparr>"
proof -
  have b: "c < off + len" "off < c + CHUNK_SIZE" "off + len \<le> 2 ^ 63"
    using span_chunk_bounds[OF sp k] sp by (auto simp: c_def is_span_def)
  have u: "unat (of_nat CHUNK_SIZE :: u64) = CHUNK_SIZE" by (simp add: CHUNK_SIZE_def)
  have c: "unat (k * of_nat CHUNK_SIZE :: u64) = c"
    using b u by (simp add: unat_word_ariths c_def)
  have c': "unat (k * of_nat CHUNK_SIZE + of_nat CHUNK_SIZE :: u64) = c + CHUNK_SIZE"
    using b u c by (simp add: unat_word_ariths CHUNK_SIZE_def)
  have st: "unat (sp_start sp) = off" "unat (sp_end sp) = off + len"
    using sp by (auto simp: is_span_def)
  show ?thesis
    using b by (simp add: piece_def Let_def unat_sub word_le_nat_alt unat_max unat_min c c' st)
qed

lemma piece_fields:
  assumes "is_span off len sp" and "unat (sp_first sp) \<le> unat k" "unat k \<le> unat (sp_last sp)"
  shows "chunk_start (piece sp k) = off - unat k * CHUNK_SIZE"
    and "chunk_end (piece sp k) = min (off + len - unat k * CHUNK_SIZE) CHUNK_SIZE"
    and "buf_start (piece sp k) = unat k * CHUNK_SIZE - off"
    and "buf_end (piece sp k) = min len (unat k * CHUNK_SIZE + CHUNK_SIZE - off)"
    and "chunk_start (piece sp k) < chunk_end (piece sp k)"
    and "buf_end (piece sp k) - buf_start (piece sp k) = chunk_end (piece sp k) - chunk_start (piece sp k)"
    and "buf_start (piece sp k) < buf_end (piece sp k)" and "buf_end (piece sp k) \<le> len"
proof -
  have b: "unat k * CHUNK_SIZE < off + len" "off < unat k * CHUNK_SIZE + CHUNK_SIZE" "0 < len"
    using span_chunk_bounds[OF assms] assms by (auto simp: is_span_def)
  note e = piece_eq[OF assms]
  show "chunk_start (piece sp k) = off - unat k * CHUNK_SIZE" by (simp add: e)
  show "chunk_end (piece sp k) = min (off + len - unat k * CHUNK_SIZE) CHUNK_SIZE"
    using b by (simp add: e min_def; linarith)
  show "buf_start (piece sp k) = unat k * CHUNK_SIZE - off" by (simp add: e)
  show "buf_end (piece sp k) = min len (unat k * CHUNK_SIZE + CHUNK_SIZE - off)"
    using b by (simp add: e min_def; linarith)
  show "chunk_start (piece sp k) < chunk_end (piece sp k)"
    using b by (simp add: e max_def min_def; linarith)
  show "buf_end (piece sp k) - buf_start (piece sp k) = chunk_end (piece sp k) - chunk_start (piece sp k)"
    using b by (simp add: e max_def min_def; linarith)
  show "buf_start (piece sp k) < buf_end (piece sp k)"
    using b unfolding e by (simp add: less_diff_conv2)
  show "buf_end (piece sp k) \<le> len" by (simp add: e)
qed

text \<open>The chunk and the position in it of byte \<open>p\<close> of a file.\<close>

lemma chunk_pos_iff:
  "p div CHUNK_SIZE = k \<longleftrightarrow> k * CHUNK_SIZE \<le> p \<and> p < k * CHUNK_SIZE + CHUNK_SIZE"
  using div_nat_eqI[of CHUNK_SIZE k p] dividend_less_times_div[of CHUNK_SIZE p]
  by (auto simp: ac_simps div_times_less_eq_dividend)

lemma chunk_pos_mod:
  "k * CHUNK_SIZE \<le> p \<Longrightarrow> p < k * CHUNK_SIZE + CHUNK_SIZE \<Longrightarrow> p mod CHUNK_SIZE = p - k * CHUNK_SIZE"
  using chunk_pos_iff[of p k] by (simp add: modulo_nat_def)

text \<open>Byte \<open>j\<close> of the buffer lies in the piece of chunk \<open>k\<close> exactly when \<open>k\<close> is the chunk of
  file position \<open>off + j\<close>.\<close>

lemma piece_covers:
  assumes "is_span off len sp" and "unat (sp_first sp) \<le> unat k" "unat k \<le> unat (sp_last sp)" and "j < len"
  shows "buf_start (piece sp k) \<le> j \<and> j < buf_end (piece sp k) \<longleftrightarrow> (off + j) div CHUNK_SIZE = unat k"
  using span_chunk_bounds[OF assms(1-3)] assms
  by (auto simp: piece_fields(3,4)[OF assms(1-3)] chunk_pos_iff)

lemma piece_position:
  assumes "is_span off len sp" and "unat (sp_first sp) \<le> unat k" "unat k \<le> unat (sp_last sp)"
    and "(off + j) div CHUNK_SIZE = unat k"
  shows "chunk_start (piece sp k) + (j - buf_start (piece sp k)) = (off + j) mod CHUNK_SIZE"
  using span_chunk_bounds[OF assms(1-3)] assms(4)
  by (auto simp: piece_fields(1,3)[OF assms(1-3)] chunk_pos_iff chunk_pos_mod)

lemma copy_out_eq:
  assumes "chunk_start (piece sp k) < av" and "av = min (length data) (chunk_end (piece sp k))"
    and "buf_start (piece sp k) + (av - chunk_start (piece sp k)) \<le> length out"
  shows "copy_out sp k data out =
    Some (blit out (buf_start (piece sp k)) (take (av - chunk_start (piece sp k)) (drop (chunk_start (piece sp k)) data)))"
proof -
  have "av \<le> length data" using assms(2) by simp
  then show ?thesis
    unfolding copy_out_def Let_def assms(2)[symmetric] using assms(1,3) by (simp add: vec_simps)
qed

lemma copy_out_spec:
  assumes sp: "is_span off len sp" and k: "unat (sp_first sp) \<le> unat k" "unat k \<le> unat (sp_last sp)"
    and out: "length out = len"
  shows "\<exists>out'. copy_out sp k data out = Some out' \<and> length out' = len \<and>
    (\<forall>j<len. out' ! j =
      (if (off + j) div CHUNK_SIZE = unat k \<and> (off + j) mod CHUNK_SIZE < length data
       then data ! ((off + j) mod CHUNK_SIZE) else out ! j))"
proof -
  define cs where "cs = chunk_start (piece sp k)"
  define ce where "ce = chunk_end (piece sp k)"
  define bs where "bs = buf_start (piece sp k)"
  define be where "be = buf_end (piece sp k)"
  define av where "av = min (length data) ce"
  have pf: "cs < ce" "be - bs = ce - cs" "bs < be" "be \<le> len"
    using piece_fields(5-8)[OF sp k] by (simp_all add: cs_def ce_def bs_def be_def)
  have av: "av \<le> length data" "av \<le> ce" by (simp_all add: av_def)
  have cov: "bs \<le> j \<and> j < be \<longleftrightarrow> (off + j) div CHUNK_SIZE = unat k" if "j < len" for j
    using piece_covers[OF sp k that] by (simp add: bs_def be_def)
  have pos: "cs + (j - bs) = (off + j) mod CHUNK_SIZE" if "(off + j) div CHUNK_SIZE = unat k" for j
    using piece_position[OF sp k that] by (simp add: cs_def bs_def)
  have hit: "bs \<le> j \<and> j < bs + (av - cs) \<longleftrightarrow>
      (off + j) div CHUNK_SIZE = unat k \<and> (off + j) mod CHUNK_SIZE < length data" if "j < len" for j
  proof (cases "(off + j) div CHUNK_SIZE = unat k")
    case True
    then have j: "bs \<le> j" "j < be" "cs + (j - bs) = (off + j) mod CHUNK_SIZE"
      using cov[OF that] pos[OF True] by blast+
    then have "(off + j) mod CHUNK_SIZE < ce" using pf by linarith
    then have "(off + j) mod CHUNK_SIZE < length data \<longleftrightarrow> cs + (j - bs) < av"
      using j by (simp add: av_def)
    with True j show ?thesis by linarith
  next
    case False
    with cov[OF that] pf av show ?thesis by linarith
  qed
  show ?thesis
  proof (cases "av \<le> cs")
    case True
    then have "copy_out sp k data out = Some out"
      by (simp add: copy_out_def Let_def av_def cs_def ce_def)
    moreover have "\<not> ((off + j) div CHUNK_SIZE = unat k \<and> (off + j) mod CHUNK_SIZE < length data)"
      if "j < len" for j
      using hit[OF that] True by linarith
    ultimately show ?thesis using out by auto
  next
    case False
    let ?src = "take (av - cs) (drop cs data)"
    have l: "length ?src = av - cs" "bs + (av - cs) \<le> len" using False pf av by auto
    have "copy_out sp k data out = Some (blit out bs ?src)"
      by (rule copy_out_eq[of sp k av data out, folded cs_def ce_def bs_def])
        (use False l(2) out av_def in \<open>simp_all add: not_le\<close>)
    moreover have "blit out bs ?src ! j =
      (if (off + j) div CHUNK_SIZE = unat k \<and> (off + j) mod CHUNK_SIZE < length data
       then data ! ((off + j) mod CHUNK_SIZE) else out ! j)" if j: "j < len" for j
    proof (cases "bs \<le> j \<and> j < bs + (av - cs)")
      case True
      then have "j - bs < av - cs" "cs \<le> length data" using av by linarith+
      then have "?src ! (j - bs) = data ! (cs + (j - bs))" by (simp only: nth_take nth_drop)
      with True hit[OF j] pos[of j] l out j show ?thesis by (subst nth_blit) simp_all
    next
      case miss: False
      have "blit out bs ?src ! j = out ! j"
        using miss l out j by (subst nth_blit) auto
      moreover have "\<not> ((off + j) div CHUNK_SIZE = unat k \<and> (off + j) mod CHUNK_SIZE < length data)"
        using miss hit[OF j] by blast
      ultimately show ?thesis by auto
    qed
    ultimately show ?thesis using l out by simp
  qed
qed

text \<open>The chunks of a span are those of its bytes.\<close>

lemma span_chunk_of:
  assumes "is_span off len sp" and "j < len"
  shows "unat (sp_first sp) \<le> (off + j) div CHUNK_SIZE" "(off + j) div CHUNK_SIZE \<le> unat (sp_last sp)"
proof -
  have "off div CHUNK_SIZE \<le> (off + j) div CHUNK_SIZE"
    "(off + j) div CHUNK_SIZE \<le> (off + len - 1) div CHUNK_SIZE"
    using assms(2) by (auto intro!: div_le_mono)
  then show "unat (sp_first sp) \<le> (off + j) div CHUNK_SIZE" "(off + j) div CHUNK_SIZE \<le> unat (sp_last sp)"
    using assms(1) by (simp_all add: is_span_def)
qed

lemma span_chunks_set:
  assumes "is_span off len sp"
  shows "set (map unat (span_chunks sp)) = {unat (sp_first sp) .. unat (sp_last sp)}"
    and "map unat (span_chunks sp) = [unat (sp_first sp) ..< Suc (unat (sp_last sp))]"
proof -
  have b: "unat (of_nat k :: u64) = k" if "k < Suc (unat (sp_last sp))" for k
    using that unat_u64_bound[of "sp_last sp"] by (simp add: unat_of_nat)
  then have "map (unat \<circ> (of_nat :: nat \<Rightarrow> u64)) [unat (sp_first sp) ..< Suc (unat (sp_last sp))] =
      map id [unat (sp_first sp) ..< Suc (unat (sp_last sp))]"
    by (intro map_cong) auto
  then show e: "map unat (span_chunks sp) = [unat (sp_first sp) ..< Suc (unat (sp_last sp))]"
    by (simp add: span_chunks_def)
  show "set (map unat (span_chunks sp)) = {unat (sp_first sp) .. unat (sp_last sp)}"
    unfolding e by auto
qed

text \<open>C36. The pieces of a span tile the caller's buffer: every byte of the buffer lies in the
  piece of exactly one chunk of the span, and at the position of the chunk that its file offset
  has.\<close>

theorem span_pieces_tile:
  assumes "span_new offset len = Some sp" and "unat offset + len \<le> 2 ^ 63" and "j < len"
  shows "\<exists>!k. k \<in> set (span_chunks sp) \<and> buf_start (piece sp k) \<le> j \<and> j < buf_end (piece sp k) \<and>
    chunk_start (piece sp k) + (j - buf_start (piece sp k)) = (unat offset + j) mod CHUNK_SIZE \<and>
    unat k = (unat offset + j) div CHUNK_SIZE"
proof -
  note sp = span_new_is_span[OF assms(1,2)]
  define k where "k = (of_nat ((unat offset + j) div CHUNK_SIZE) :: u64)"
  note b = span_chunk_of[OF sp assms(3)]
  have u: "unat k = (unat offset + j) div CHUNK_SIZE"
    unfolding k_def using b(2) unat_u64_bound[of "sp_last sp"] by (simp add: unat_of_nat)
  have "k \<in> set (span_chunks sp)"
    using b unfolding span_chunks_def k_def by (force simp del: upt_Suc)
  moreover have "unat (sp_first sp) \<le> unat k" "unat k \<le> unat (sp_last sp)" using b u by simp_all
  ultimately show ?thesis
    using u piece_covers[OF sp _ _ assms(3), of k] piece_position[OF sp, of k j]
    by (intro ex1I[of _ k]) (metis, metis word_unat_eq_iff)
qed

theorem span_pieces_tile_witness:
  "\<exists>sp. span_new 65530 10 = Some sp \<and> unat (65530 :: u64) + 10 \<le> 2 ^ 63 \<and> (7 :: nat) < 10 \<and>
   (\<exists>!k. k \<in> set (span_chunks sp) \<and> buf_start (piece sp k) \<le> 7 \<and> 7 < buf_end (piece sp k) \<and>
     chunk_start (piece sp k) + (7 - buf_start (piece sp k)) = (unat (65530 :: u64) + 7) mod CHUNK_SIZE \<and>
     unat k = (unat (65530 :: u64) + 7) div CHUNK_SIZE)"
proof -
  obtain sp where sp: "span_new 65530 10 = Some sp" using span_new_Some[of 10 65530] by auto
  have h: "unat (65530 :: u64) + 10 \<le> 2 ^ 63" "(7 :: nat) < 10" by simp_all
  show ?thesis using sp h span_pieces_tile[OF sp h] by blast
qed

end
