(* ===== verification/Arena.thy ===== *)
theory Arena
  imports Chunks
begin

text \<open>
  Memory for buffered chunk data (\<^verbatim>\<open>src/src/arena.rs\<close>): the arena of chunk slots shared by all
  open inodes, and the per-inode index of dirty chunks. The lemmas show that an arena behaves as
  a partial map from slots to byte strings of at most one chunk, and that a dirty index is a
  sorted finite map.
\<close>

section \<open>The chunk arena\<close>

type_synonym ArenaSlot = u32

record ChunkArena =
  ar_bytes :: bytes
  ar_len :: "u32 list"
  ar_free :: "ArenaSlot list"
  max_slots :: usize

definition arena_new :: "usize \<Rightarrow> ChunkArena" where
  "arena_new budget =
     \<lparr>ar_bytes = [], ar_len = [], ar_free = [], max_slots = max (budget div CHUNK_SIZE) 1\<rparr>"

definition alloc :: "ChunkArena \<Rightarrow> (ArenaSlot option \<times> ChunkArena) option" where
  "alloc self =
     (let claimed =
        (if ar_free self \<noteq> [] then
           Some (last (ar_free self), self\<lparr>ar_free := butlast (ar_free self)\<rparr>)
         else if length (ar_len self) < max_slots self then
           Some (of_nat (length (ar_len self @ [0]) - 1),
                 self\<lparr>ar_bytes := ar_bytes self @ replicate CHUNK_SIZE 0, ar_len := ar_len self @ [0]\<rparr>)
         else None)
      in case claimed of
           None \<Rightarrow> Some (None, self)
         | Some (slot, self) \<Rightarrow> do {
             len \<leftarrow> set_idx (ar_len self) (unat slot) 0;
             Some (Some slot, self\<lparr>ar_len := len\<rparr>)
           })"

definition release :: "ChunkArena \<Rightarrow> ArenaSlot \<Rightarrow> ChunkArena" where
  "release self slot = self\<lparr>ar_free := ar_free self @ [slot]\<rparr>"

definition chunk :: "ChunkArena \<Rightarrow> ArenaSlot \<Rightarrow> bytes option" where
  "chunk self slot = do {
     let start = unat slot * CHUNK_SIZE;
     len \<leftarrow> idx (ar_len self) (unat slot);
     subslice (ar_bytes self) start (start + unat len)
   }"

text \<open>\<^verbatim>\<open>buffer_mut\<close> borrows the whole slot mutably: \<open>buffer_mut\<close> is what the borrow reads and
  \<open>buffer_put\<close> the arena once the borrower has left \<open>buf\<close> in it.\<close>

definition buffer_mut :: "ChunkArena \<Rightarrow> ArenaSlot \<Rightarrow> bytes option" where
  "buffer_mut self slot =
     subslice (ar_bytes self) (unat slot * CHUNK_SIZE) (unat slot * CHUNK_SIZE + CHUNK_SIZE)"

definition buffer_put :: "ChunkArena \<Rightarrow> ArenaSlot \<Rightarrow> bytes \<Rightarrow> ChunkArena option" where
  "buffer_put self slot buf = do {
     b \<leftarrow> copy_from_slice (ar_bytes self) (unat slot * CHUNK_SIZE) (unat slot * CHUNK_SIZE + CHUNK_SIZE) buf;
     Some (self\<lparr>ar_bytes := b\<rparr>)
   }"

definition set_len :: "ChunkArena \<Rightarrow> ArenaSlot \<Rightarrow> usize \<Rightarrow> ChunkArena option" where
  "set_len self slot len = do {
     l \<leftarrow> set_idx (ar_len self) (unat slot) (of_nat len);
     Some (self\<lparr>ar_len := l\<rparr>)
   }"

definition arena_write :: "ChunkArena \<Rightarrow> ArenaSlot \<Rightarrow> usize \<Rightarrow> usize \<Rightarrow> bytes \<Rightarrow> ChunkArena option" where
  "arena_write self slot range_start range_end data = do {
     let base = unat slot * CHUNK_SIZE;
     l \<leftarrow> idx (ar_len self) (unat slot);
     let len = unat l;
     b \<leftarrow> (if len < range_start then fill (ar_bytes self) (base + len) (base + range_start) 0
           else Some (ar_bytes self));
     b' \<leftarrow> copy_from_slice b (base + range_start) (base + range_end) data;
     lens \<leftarrow> set_idx (ar_len self) (unat slot) (of_nat (max len range_end));
     Some (self\<lparr>ar_bytes := b', ar_len := lens\<rparr>)
   }"

definition capacity_bytes :: "ChunkArena \<Rightarrow> usize" where
  "capacity_bytes self = length (ar_bytes self)"

definition slots_in_use :: "ChunkArena \<Rightarrow> usize" where
  "slots_in_use self = length (ar_len self) - length (ar_free self)"

subsection \<open>Invariant and contents\<close>

definition arena_ok :: "ChunkArena \<Rightarrow> bool" where
  "arena_ok a \<longleftrightarrow>
     length (ar_bytes a) = length (ar_len a) * CHUNK_SIZE \<and>
     (\<forall>l \<in> set (ar_len a). unat l \<le> CHUNK_SIZE) \<and>
     distinct (ar_free a) \<and> (\<forall>s \<in> set (ar_free a). unat s < length (ar_len a)) \<and>
     length (ar_len a) \<le> max_slots a \<and> 0 < max_slots a \<and> max_slots a \<le> 2 ^ 32"

definition in_use :: "ChunkArena \<Rightarrow> ArenaSlot set" where
  "in_use a = {s. unat s < length (ar_len a) \<and> s \<notin> set (ar_free a)}"

text \<open>The valid bytes of a slot.\<close>

definition slot_bytes :: "ChunkArena \<Rightarrow> ArenaSlot \<Rightarrow> bytes" where
  "slot_bytes a s = take (unat (ar_len a ! unat s)) (drop (unat s * CHUNK_SIZE) (ar_bytes a))"

lemma arena_slot_room:
  assumes "arena_ok a" and "unat s < length (ar_len a)"
  shows "unat s * CHUNK_SIZE + CHUNK_SIZE \<le> length (ar_bytes a)"
    and "unat (ar_len a ! unat s) \<le> CHUNK_SIZE"
proof -
  have "Suc (unat s) * CHUNK_SIZE \<le> length (ar_len a) * CHUNK_SIZE"
    using assms(2) by (intro mult_le_mono1) simp
  then show "unat s * CHUNK_SIZE + CHUNK_SIZE \<le> length (ar_bytes a)"
    using assms(1) by (simp add: arena_ok_def)
  show "unat (ar_len a ! unat s) \<le> CHUNK_SIZE"
    using assms by (simp add: arena_ok_def)
qed

lemma length_slot_bytes:
  assumes "arena_ok a" and "unat s < length (ar_len a)"
  shows "length (slot_bytes a s) = unat (ar_len a ! unat s)"
  using arena_slot_room[OF assms] by (simp add: slot_bytes_def)

lemma slot_bytes_bound:
  assumes "arena_ok a" and "unat s < length (ar_len a)"
  shows "length (slot_bytes a s) \<le> CHUNK_SIZE"
  using arena_slot_room[OF assms] length_slot_bytes[OF assms] by simp

lemma nth_slot_bytes:
  assumes "arena_ok a" and "unat s < length (ar_len a)" and "i < unat (ar_len a ! unat s)"
  shows "slot_bytes a s ! i = ar_bytes a ! (unat s * CHUNK_SIZE + i)"
  using arena_slot_room[OF assms(1,2)] assms(3) by (simp add: slot_bytes_def)

lemma chunk_eq:
  assumes "arena_ok a" and "unat s < length (ar_len a)"
  shows "chunk a s = Some (slot_bytes a s)"
  using arena_slot_room[OF assms] assms by (simp add: chunk_def subslice_in slot_bytes_def Let_def)

text \<open>Overwriting bytes inside one slot leaves the other slots alone.\<close>

lemma slot_disjoint:
  assumes "s \<noteq> t" and "i < CHUNK_SIZE" and "j < CHUNK_SIZE"
  shows "unat (s :: u32) * CHUNK_SIZE + i \<noteq> unat t * CHUNK_SIZE + j"
  using assms by (simp add: digits_inject word_unat_eq_iff)

lemma slot_bytes_blit_other:
  assumes a: "arena_ok a" and s: "unat s < length (ar_len a)" and t: "unat t < length (ar_len a)"
    and "s \<noteq> t" and r: "r + length ys \<le> CHUNK_SIZE" and l: "lens ! unat t = ar_len a ! unat t"
  shows "slot_bytes (a\<lparr>ar_bytes := blit (ar_bytes a) (unat s * CHUNK_SIZE + r) ys, ar_len := lens\<rparr>) t
    = slot_bytes a t"
proof -
  note room = arena_slot_room[OF a s] arena_slot_room[OF a t]
  have len: "length (blit (ar_bytes a) (unat s * CHUNK_SIZE + r) ys) = length (ar_bytes a)"
    using room r by (intro length_blit) linarith
  show ?thesis
  proof (rule nth_equalityI)
    show "length (slot_bytes (a\<lparr>ar_bytes := blit (ar_bytes a) (unat s * CHUNK_SIZE + r) ys, ar_len := lens\<rparr>) t)
      = length (slot_bytes a t)"
      using len by (simp add: slot_bytes_def l)
  next
    fix i
    assume "i < length (slot_bytes (a\<lparr>ar_bytes := blit (ar_bytes a) (unat s * CHUNK_SIZE + r) ys, ar_len := lens\<rparr>) t)"
    then have i: "i < unat (ar_len a ! unat t)" "i < CHUNK_SIZE"
      using room by (auto simp: slot_bytes_def l)
    have "\<not> (unat s * CHUNK_SIZE + r \<le> unat t * CHUNK_SIZE + i \<and>
        unat t * CHUNK_SIZE + i < unat s * CHUNK_SIZE + r + length ys)"
    proof
      assume h: "unat s * CHUNK_SIZE + r \<le> unat t * CHUNK_SIZE + i \<and>
        unat t * CHUNK_SIZE + i < unat s * CHUNK_SIZE + r + length ys"
      define j where "j = unat t * CHUNK_SIZE + i - unat s * CHUNK_SIZE"
      have "j < CHUNK_SIZE" "unat s * CHUNK_SIZE + j = unat t * CHUNK_SIZE + i"
        using h r by (auto simp: j_def)
      with slot_disjoint[OF \<open>s \<noteq> t\<close> _ i(2)] show False by blast
    qed
    then have "blit (ar_bytes a) (unat s * CHUNK_SIZE + r) ys ! (unat t * CHUNK_SIZE + i)
        = ar_bytes a ! (unat t * CHUNK_SIZE + i)"
      using room i r by (subst nth_blit) auto
    then show "slot_bytes (a\<lparr>ar_bytes := blit (ar_bytes a) (unat s * CHUNK_SIZE + r) ys, ar_len := lens\<rparr>) t ! i
      = slot_bytes a t ! i"
      using i room len by (simp add: slot_bytes_def l)
  qed
qed

subsection \<open>What each operation does to the contents\<close>

lemma arena_new_ok:
  assumes "budget \<le> 2 ^ 48"
  shows "arena_ok (arena_new budget)" and "in_use (arena_new budget) = {}"
proof -
  have "budget div CHUNK_SIZE \<le> 2 ^ 48 div CHUNK_SIZE" using assms by (rule div_le_mono)
  then have "budget div CHUNK_SIZE \<le> 2 ^ 32" by (simp add: CHUNK_SIZE_def)
  then show "arena_ok (arena_new budget)" by (simp add: arena_ok_def arena_new_def)
  show "in_use (arena_new budget) = {}" by (simp add: in_use_def arena_new_def)
qed

lemma in_use_bound: "s \<in> in_use a \<Longrightarrow> unat s < length (ar_len a)"
  by (simp add: in_use_def)

lemma release_spec:
  assumes "arena_ok a" and "s \<in> in_use a"
  shows "arena_ok (release a s)" and "in_use (release a s) = in_use a - {s}"
    and "slot_bytes (release a s) t = slot_bytes a t" and "max_slots (release a s) = max_slots a"
  using assms by (auto simp: release_def arena_ok_def in_use_def slot_bytes_def)

lemma alloc_reuse:
  assumes ok: "arena_ok a" and free: "ar_free a \<noteq> []"
  defines "s \<equiv> last (ar_free a)"
  shows "\<exists>a'. alloc a = Some (Some s, a') \<and> arena_ok a' \<and> s \<notin> in_use a \<and>
    in_use a' = insert s (in_use a) \<and> slot_bytes a' s = [] \<and>
    (\<forall>t \<in> in_use a. slot_bytes a' t = slot_bytes a t) \<and> max_slots a' = max_slots a"
proof -
  obtain fs where fs: "ar_free a = fs @ [s]"
    using free append_butlast_last_id[OF free] by (metis s_def)
  have d: "distinct (fs @ [s])" and b: "unat s < length (ar_len a)"
    and bs: "\<forall>t \<in> set fs. unat t < length (ar_len a)"
    using ok fs by (auto simp: arena_ok_def)
  let ?a = "a\<lparr>ar_free := fs, ar_len := (ar_len a)[unat s := 0]\<rparr>"
  have "alloc a = Some (Some s, ?a)"
    using b fs by (simp add: alloc_def)
  moreover have "arena_ok ?a"
    using ok d bs by (auto simp: arena_ok_def dest!: set_update_subset_insert[THEN subsetD])
  moreover have "in_use ?a = insert s (in_use a)"
    using b d fs by (auto simp: in_use_def)
  moreover have "slot_bytes ?a t = slot_bytes a t" if "t \<in> in_use a" for t
    using that fs by (auto simp: in_use_def slot_bytes_def nth_list_update word_unat_eq_iff)
  ultimately show ?thesis
    using b fs by (auto simp: in_use_def slot_bytes_def)
qed

lemma alloc_grow:
  assumes ok: "arena_ok a" and free: "ar_free a = []" and room: "length (ar_len a) < max_slots a"
  defines "s \<equiv> (of_nat (length (ar_len a)) :: u32)"
  shows "\<exists>a'. alloc a = Some (Some s, a') \<and> arena_ok a' \<and> s \<notin> in_use a \<and>
    in_use a' = insert s (in_use a) \<and> slot_bytes a' s = [] \<and>
    (\<forall>t \<in> in_use a. slot_bytes a' t = slot_bytes a t) \<and> max_slots a' = max_slots a"
proof -
  have "length (ar_len a) < 2 ^ 32" using ok room by (simp add: arena_ok_def)
  then have b: "unat s = length (ar_len a)" by (simp add: s_def unat_of_nat)
  let ?a = "a\<lparr>ar_bytes := ar_bytes a @ replicate CHUNK_SIZE 0, ar_len := ar_len a @ [0]\<rparr>"
  have "alloc a = Some (Some s, ?a)"
    using free room b by (simp add: alloc_def s_def[symmetric] Let_def)
  moreover have "arena_ok ?a"
    using ok free room by (auto simp: arena_ok_def)
  moreover have "in_use ?a = insert s (in_use a)"
    using b free by (auto simp: in_use_def word_unat_eq_iff less_Suc_eq)
  moreover have "slot_bytes ?a t = slot_bytes a t" if "t \<in> in_use a" for t
    using arena_slot_room[OF ok in_use_bound[OF that]] in_use_bound[OF that]
    by (simp add: slot_bytes_def nth_append)
  ultimately show ?thesis
    using b by (auto simp: in_use_def slot_bytes_def nth_append)
qed

lemma card_small_slots: "n \<le> 2 ^ 32 \<Longrightarrow> card {s :: u32. unat s < n} = n"
proof -
  assume n: "n \<le> 2 ^ 32"
  have "{s :: u32. unat s < n} = of_nat ` {..<n}"
    using n by (force simp: unat_of_nat)
  moreover have "inj_on (of_nat :: nat \<Rightarrow> u32) {..<n}"
    using n by (intro inj_onI) (auto dest!: arg_cong[where f = unat] simp: unat_of_nat)
  ultimately show ?thesis by (simp add: card_image)
qed

lemma alloc_full:
  assumes ok: "arena_ok a" and "ar_free a = []" and "\<not> length (ar_len a) < max_slots a"
  shows "alloc a = Some (None, a)" and "card (in_use a) = max_slots a"
proof -
  show "alloc a = Some (None, a)" using assms by (simp add: alloc_def)
  have "length (ar_len a) = max_slots a" "max_slots a \<le> 2 ^ 32" using assms by (auto simp: arena_ok_def)
  then show "card (in_use a) = max_slots a"
    using assms by (simp add: in_use_def card_small_slots)
qed

lemma alloc_cases:
  assumes ok: "arena_ok a"
  obtains (slot) s a' where "alloc a = Some (Some s, a')" "arena_ok a'" "s \<notin> in_use a"
      "in_use a' = insert s (in_use a)" "slot_bytes a' s = []"
      "\<forall>t \<in> in_use a. slot_bytes a' t = slot_bytes a t" "max_slots a' = max_slots a"
  | (full) "alloc a = Some (None, a)" "card (in_use a) = max_slots a"
  using alloc_reuse[OF ok] alloc_grow[OF ok] alloc_full[OF ok] by blast

lemma arena_ok_update:
  assumes "arena_ok a" and "length b = length (ar_bytes a)" and "length ls = length (ar_len a)"
    and "\<forall>l \<in> set ls. unat l \<le> CHUNK_SIZE"
  shows "arena_ok (a\<lparr>ar_bytes := b, ar_len := ls\<rparr>)"
    and "in_use (a\<lparr>ar_bytes := b, ar_len := ls\<rparr>) = in_use a"
  using assms by (simp_all add: arena_ok_def in_use_def)

lemma unat_small_len: "n \<le> CHUNK_SIZE \<Longrightarrow> unat (of_nat n :: u32) = n"
  by (simp add: unat_of_nat CHUNK_SIZE_def)

text \<open>A write of a slot is a positional write of its bytes: a gap before the range is zeroed, so
  a reused slot never shows stale bytes.\<close>

lemma arena_write_value:
  assumes ok: "arena_ok a" and s: "unat s < length (ar_len a)"
    and r: "rs \<le> re" "re \<le> CHUNK_SIZE" "length data = re - rs"
  defines "len \<equiv> unat (ar_len a ! unat s)"
  defines "ys \<equiv> replicate (rs - len) 0 @ data"
  shows "arena_write a s rs re data =
    Some (a\<lparr>ar_bytes := blit (ar_bytes a) (unat s * CHUNK_SIZE + min len rs) ys,
            ar_len := (ar_len a)[unat s := of_nat (max len re)]\<rparr>)"
proof -
  note room = arena_slot_room[OF ok s]
  have blit2: "blit (blit xs p (replicate (q - p) 0)) q data = blit xs p (replicate (q - p) 0 @ data)"
    if "p \<le> q" "q + length data \<le> length xs" for xs :: bytes and p q
    using that by (simp add: blit_def add.commute)
  show ?thesis
  proof (cases "len < rs")
    case True
    then have "unat s * CHUNK_SIZE + rs - (unat s * CHUNK_SIZE + len) = rs - len" by simp
    with True room r s show ?thesis
      unfolding ys_def
      by (simp add: arena_write_def Let_def fill_in copy_from_slice_in len_def[symmetric]
          blit2[of "unat s * CHUNK_SIZE + len" "unat s * CHUNK_SIZE + rs" "ar_bytes a", simplified])
  next
    case False
    with room r s show ?thesis
      unfolding ys_def
      by (simp add: arena_write_def Let_def copy_from_slice_in len_def[symmetric] min_def)
  qed
qed

lemma arena_write_spec:
  assumes ok: "arena_ok a" and s: "unat s < length (ar_len a)"
    and r: "rs \<le> re" "re \<le> CHUNK_SIZE" "length data = re - rs"
  shows "\<exists>a'. arena_write a s rs re data = Some a' \<and> arena_ok a' \<and> in_use a' = in_use a \<and>
    length (ar_len a') = length (ar_len a) \<and>
    slot_bytes a' s = write_at (slot_bytes a s) rs data \<and>
    (\<forall>t. t \<noteq> s \<longrightarrow> unat t < length (ar_len a) \<longrightarrow> slot_bytes a' t = slot_bytes a t) \<and>
    max_slots a' = max_slots a"
proof -
  define len where "len = unat (ar_len a ! unat s)"
  define ys where "ys = replicate (rs - len) 0 @ data"
  define b where "b = blit (ar_bytes a) (unat s * CHUNK_SIZE + min len rs) ys"
  define ls where "ls = (ar_len a)[unat s := (of_nat (max len re) :: u32)]"
  define a' where "a' = a\<lparr>ar_bytes := b, ar_len := ls\<rparr>"
  note room = arena_slot_room[OF ok s, folded len_def]
  have w: "arena_write a s rs re data = Some a'"
    unfolding a'_def b_def ls_def ys_def len_def by (rule arena_write_value[OF ok s r])
  have ylen: "length ys = re - min len rs" using r by (auto simp: ys_def min_def)
  have blen: "length b = length (ar_bytes a)"
    unfolding b_def using room r ylen by (intro length_blit) auto
  have lens: "length ls = length (ar_len a)" "\<forall>l \<in> set ls. unat l \<le> CHUNK_SIZE"
    using ok r room
    by (auto simp: ls_def arena_ok_def unat_small_len dest!: set_update_subset_insert[THEN subsetD])
  have a': "arena_ok a'" "in_use a' = in_use a"
    unfolding a'_def using arena_ok_update[OF ok blen lens] by auto
  have s': "unat s < length (ar_len a')" using s lens by (simp add: a'_def)
  have len': "unat (ar_len a' ! unat s) = max len re"
    using s room r by (simp add: a'_def ls_def unat_small_len)
  have "slot_bytes a' s = write_at (slot_bytes a s) rs data"
  proof (rule bytes_eqI)
    show "length (slot_bytes a' s) = length (write_at (slot_bytes a s) rs data)"
      using r by (simp add: length_slot_bytes[OF a'(1) s'] length_slot_bytes[OF ok s] len' len_def[symmetric])
  next
    fix i assume "i < length (slot_bytes a' s)"
    then have i: "i < max len re" by (simp add: length_slot_bytes[OF a'(1) s'] len')
    have "slot_bytes a' s ! i = b ! (unat s * CHUNK_SIZE + i)"
      using nth_slot_bytes[OF a'(1) s', of i] i len' by (simp add: a'_def)
    also have "\<dots> = (if min len rs \<le> i \<and> i < re then ys ! (i - min len rs) else ar_bytes a ! (unat s * CHUNK_SIZE + i))"
      unfolding b_def using room i r ylen by (subst nth_blit) auto
    also have "\<dots> = (if rs \<le> i \<and> i < re then data ! (i - rs)
        else if i < len then ar_bytes a ! (unat s * CHUNK_SIZE + i) else 0)"
      using i by (auto simp: ys_def nth_append min_def)
    also have "\<dots> = byte_at (write_at (slot_bytes a s) rs data) i"
      using r nth_slot_bytes[OF ok s, of i] length_slot_bytes[OF ok s]
      by (subst byte_at_write_at) (simp add: byte_at_def len_def[symmetric])
    finally show "byte_at (slot_bytes a' s) i = byte_at (write_at (slot_bytes a s) rs data) i"
      using i by (simp add: byte_at_def length_slot_bytes[OF a'(1) s'] len')
  qed
  moreover have "slot_bytes a' t = slot_bytes a t" if "t \<noteq> s" "unat t < length (ar_len a)" for t
    unfolding a'_def b_def
    using that ylen r by (intro slot_bytes_blit_other[OF ok s that(2) that(1)[symmetric]])
      (auto simp: ls_def word_unat_eq_iff)
  ultimately show ?thesis using w a' lens by (simp add: a'_def)
qed

text \<open>Loading a slot from storage: the borrowed buffer is filled with \<open>data\<close> from its start and
  the length set; the slot then holds exactly \<open>data\<close>.\<close>

lemma arena_load_spec:
  assumes ok: "arena_ok a" and s: "unat s < length (ar_len a)" and d: "length data \<le> CHUNK_SIZE"
  shows "\<exists>buf a1 a'. buffer_mut a s = Some buf \<and> length buf = CHUNK_SIZE \<and>
    buffer_put a s (blit buf 0 data) = Some a1 \<and> set_len a1 s (length data) = Some a' \<and>
    arena_ok a' \<and> in_use a' = in_use a \<and> length (ar_len a') = length (ar_len a) \<and> slot_bytes a' s = data \<and>
    (\<forall>t. t \<noteq> s \<longrightarrow> unat t < length (ar_len a) \<longrightarrow> slot_bytes a' t = slot_bytes a t) \<and>
    max_slots a' = max_slots a"
proof -
  note room = arena_slot_room[OF ok s]
  define base where "base = unat s * CHUNK_SIZE"
  define buf where "buf = take CHUNK_SIZE (drop base (ar_bytes a))"
  define b where "b = blit (ar_bytes a) base (blit buf 0 data)"
  define ls where "ls = (ar_len a)[unat s := (of_nat (length data) :: u32)]"
  define a' where "a' = a\<lparr>ar_bytes := b, ar_len := ls\<rparr>"
  have bufl: "length buf = CHUNK_SIZE" using room by (simp add: buf_def base_def)
  have nb: "length (blit buf 0 data) = CHUNK_SIZE" using bufl d by simp
  have 1: "buffer_mut a s = Some buf"
    using room by (simp add: buffer_mut_def subslice_in buf_def base_def)
  have 2: "buffer_put a s (blit buf 0 data) = Some (a\<lparr>ar_bytes := b\<rparr>)"
    using room nb by (simp add: buffer_put_def copy_from_slice_in b_def base_def)
  have 3: "set_len (a\<lparr>ar_bytes := b\<rparr>) s (length data) = Some a'"
    using s by (simp add: set_len_def a'_def ls_def)
  have blen: "length b = length (ar_bytes a)"
    unfolding b_def using room nb by (intro length_blit) (simp add: base_def)
  have lens: "length ls = length (ar_len a)" "\<forall>l \<in> set ls. unat l \<le> CHUNK_SIZE"
    using ok d by (auto simp: ls_def arena_ok_def unat_small_len dest!: set_update_subset_insert[THEN subsetD])
  have a': "arena_ok a'" "in_use a' = in_use a"
    unfolding a'_def using arena_ok_update[OF ok blen lens] by auto
  have "slot_bytes a' s = data"
    using room s d bufl by (simp add: slot_bytes_def a'_def ls_def unat_small_len b_def base_def blit_def)
  moreover have "slot_bytes a' t = slot_bytes a t" if "t \<noteq> s" "unat t < length (ar_len a)" for t
    unfolding a'_def b_def base_def
    using that nb by (intro slot_bytes_blit_other[OF ok s that(2) that(1)[symmetric], where r = 0, simplified])
      (auto simp: ls_def word_unat_eq_iff)
  ultimately show ?thesis using 1 2 3 a' lens bufl by (auto simp: a'_def)
qed

section \<open>The slot store contract\<close>

text \<open>
  What the write path relies on: a bounded pool of slots, each holding at most one chunk of
  bytes. Taking a slot hands out an unused, empty one unless the pool is exhausted; a write is a
  positional write of one slot; giving a slot back keeps the others.
\<close>

locale slot_store =
  fixes ok :: "'a \<Rightarrow> bool" and used :: "'a \<Rightarrow> 's set" and bytes_of :: "'a \<Rightarrow> 's \<Rightarrow> bytes"
    and limit :: "'a \<Rightarrow> nat" and claim :: "'a \<Rightarrow> ('s option \<times> 'a) option"
    and give :: "'a \<Rightarrow> 's \<Rightarrow> 'a" and put :: "'a \<Rightarrow> 's \<Rightarrow> nat \<Rightarrow> nat \<Rightarrow> bytes \<Rightarrow> 'a option"
  assumes claim_total: "ok a \<Longrightarrow> \<exists>r a'. claim a = Some (r, a')"
    and claim_slot: "ok a \<Longrightarrow> claim a = Some (Some s, a') \<Longrightarrow>
      ok a' \<and> s \<notin> used a \<and> used a' = insert s (used a) \<and> bytes_of a' s = [] \<and>
      (\<forall>t \<in> used a. bytes_of a' t = bytes_of a t) \<and> limit a' = limit a"
    and claim_full: "ok a \<Longrightarrow> claim a = Some (None, a') \<Longrightarrow> a' = a \<and> card (used a) = limit a"
    and used_bounded: "ok a \<Longrightarrow> finite (used a) \<and> card (used a) \<le> limit a"
    and give_ok: "ok a \<Longrightarrow> s \<in> used a \<Longrightarrow>
      ok (give a s) \<and> used (give a s) = used a - {s} \<and> limit (give a s) = limit a \<and>
      bytes_of (give a s) t = bytes_of a t"
    and put_ok: "ok a \<Longrightarrow> s \<in> used a \<Longrightarrow> rs \<le> re \<Longrightarrow> re \<le> CHUNK_SIZE \<Longrightarrow> length data = re - rs \<Longrightarrow>
      \<exists>a'. put a s rs re data = Some a' \<and> ok a' \<and> used a' = used a \<and> limit a' = limit a \<and>
        bytes_of a' s = write_at (bytes_of a s) rs data \<and>
        (\<forall>t \<in> used a. t \<noteq> s \<longrightarrow> bytes_of a' t = bytes_of a t)"
begin

lemma claim_succeeds:
  assumes "ok a" and "card (used a) < limit a"
  shows "\<exists>s a'. claim a = Some (Some s, a')"
proof -
  obtain r a' where c: "claim a = Some (r, a')" using claim_total[OF assms(1)] by blast
  then have "r \<noteq> None" using claim_full[OF assms(1)] assms(2) by auto
  with c show ?thesis by auto
qed

text \<open>A slot given back makes room for the next claim.\<close>

lemma give_then_claim:
  assumes "ok a" and "s \<in> used a"
  shows "\<exists>t a'. claim (give a s) = Some (Some t, a') \<and> bytes_of a' t = []"
proof -
  note g = give_ok[OF assms]
  have "card (used (give a s)) < limit (give a s)"
    using g assms used_bounded[OF assms(1)] by (metis card_Diff1_less less_le_trans)
  then obtain t a' where c: "claim (give a s) = Some (Some t, a')"
    using claim_succeeds g by blast
  with claim_slot[OF _ c] g show ?thesis by auto
qed

text \<open>The first write of a claimed slot shows zeros before its range: nothing of an earlier use
  of the memory is visible.\<close>

lemma fresh_write:
  assumes "ok a" and "claim a = Some (Some s, a1)"
    and "rs \<le> re" "re \<le> CHUNK_SIZE" "length data = re - rs"
  shows "\<exists>a'. put a1 s rs re data = Some a' \<and> ok a' \<and> bytes_of a' s = replicate rs 0 @ data"
proof -
  note c = claim_slot[OF assms(1,2)]
  have "s \<in> used a1" using c by auto
  from put_ok[OF _ this assms(3-5)] c show ?thesis by (auto simp: write_at_def)
qed

end

lemma finite_in_use: "finite (in_use a)"
  by (rule finite_subset[OF subset_UNIV]) simp

lemma in_use_le_max:
  assumes "arena_ok a"
  shows "card (in_use a) \<le> max_slots a"
proof -
  have "in_use a \<subseteq> {s. unat s < length (ar_len a)}" by (auto simp: in_use_def)
  then have "card (in_use a) \<le> card {s :: u32. unat s < length (ar_len a)}"
    by (intro card_mono) (auto intro: finite_subset[OF subset_UNIV])
  also have "\<dots> = length (ar_len a)" using assms by (intro card_small_slots) (simp add: arena_ok_def)
  finally show ?thesis using assms by (simp add: arena_ok_def)
qed

interpretation arena: slot_store arena_ok in_use slot_bytes max_slots alloc release arena_write
proof (unfold_locales, goal_cases)
  case (1 a) then show ?case by (cases rule: alloc_cases) auto
next
  case (2 a s a') from 2(1) show ?case by (cases rule: alloc_cases) (use 2(2) in auto)
next
  case (3 a a') from 3(1) show ?case by (cases rule: alloc_cases) (use 3(2) in auto)
next
  case (4 a) then show ?case by (simp add: in_use_le_max finite_in_use)
next
  case (5 a s t) then show ?case by (simp add: release_spec)
next
  case (6 a s rs re data)
  from arena_write_spec[OF 6(1) in_use_bound[OF 6(2)] 6(3-5)] show ?case
    by (auto dest: in_use_bound)
qed

text \<open>C37. The first write into a slot handed out by the arena leaves zeros before the written
  range and the data in it, whatever the slot held in an earlier use.\<close>

theorem arena_no_stale_bytes:
  assumes "arena_ok a" and "alloc a = Some (Some s, a1)"
    and "rs \<le> re" and "re \<le> CHUNK_SIZE" and "length data = re - rs"
  shows "\<exists>a'. arena_write a1 s rs re data = Some a' \<and> arena_ok a' \<and>
    chunk a' s = Some (replicate rs 0 @ data)"
proof -
  obtain a' where w: "arena_write a1 s rs re data = Some a'" "arena_ok a'"
    "slot_bytes a' s = replicate rs 0 @ data"
    using arena.fresh_write[OF assms] by blast
  have "s \<in> in_use a1" using arena.claim_slot[OF assms(1,2)] by simp
  then have "s \<in> in_use a'"
    using arena.put_ok[of a1 s rs re data] arena.claim_slot[OF assms(1,2)] w assms(3-5) by auto
  from chunk_eq[OF w(2) in_use_bound[OF this]] w show ?thesis by auto
qed

theorem arena_no_stale_bytes_witness:
  "\<exists>a1 a'. arena_ok (arena_new 65536) \<and> alloc (arena_new 65536) = Some (Some 0, a1) \<and>
     arena_write a1 0 2 3 [120] = Some a' \<and> arena_ok a' \<and> chunk a' 0 = Some [0, 0, 120]"
proof -
  have ok: "arena_ok (arena_new 65536)" by (rule arena_new_ok) simp
  obtain a1 where c: "alloc (arena_new 65536) = Some (Some 0, a1)"
    by (simp add: alloc_def arena_new_def CHUNK_SIZE_def)
  have "(2 :: nat) \<le> 3" "3 \<le> CHUNK_SIZE" "length [120 :: u8] = 3 - 2" by (simp_all add: CHUNK_SIZE_def)
  from arena_no_stale_bytes[OF ok c this] ok c show ?thesis
    by (auto simp: numeral_2_eq_2)
qed

subsection \<open>Runs of the arena\<close>

text \<open>The states an arena reaches from \<open>arena_new budget\<close> by the calls its clients make.\<close>

inductive arena_reach :: "usize \<Rightarrow> ChunkArena \<Rightarrow> bool" for budget where
  fresh: "arena_reach budget (arena_new budget)"
| allocated: "arena_reach budget a \<Longrightarrow> alloc a = Some (r, a') \<Longrightarrow> arena_reach budget a'"
| released: "arena_reach budget a \<Longrightarrow> s \<in> in_use a \<Longrightarrow> arena_reach budget (release a s)"
| written: "arena_reach budget a \<Longrightarrow> s \<in> in_use a \<Longrightarrow> rs \<le> re \<Longrightarrow> re \<le> CHUNK_SIZE \<Longrightarrow>
    length data = re - rs \<Longrightarrow> arena_write a s rs re data = Some a' \<Longrightarrow> arena_reach budget a'"
| loaded: "arena_reach budget a \<Longrightarrow> s \<in> in_use a \<Longrightarrow> length data \<le> CHUNK_SIZE \<Longrightarrow>
    buffer_mut a s = Some buf \<Longrightarrow> buffer_put a s (blit buf 0 data) = Some a1 \<Longrightarrow>
    set_len a1 s (length data) = Some a' \<Longrightarrow> arena_reach budget a'"

lemma arena_reach_ok:
  assumes "budget \<le> 2 ^ 48" and "arena_reach budget a"
  shows "arena_ok a \<and> max_slots a = max (budget div CHUNK_SIZE) 1"
  using assms(2)
proof (induction rule: arena_reach.induct)
  case fresh
  show ?case using arena_new_ok[OF assms(1)] by (simp add: arena_new_def)
next
  case (allocated a r a')
  then show ?case
    using arena.claim_slot[of a _ a'] arena.claim_full[of a a'] by (cases r) simp_all
next
  case (released a s)
  then show ?case using release_spec by simp
next
  case (written a s rs re data a')
  then show ?case using arena.put_ok[of a s rs re data] by auto
next
  case (loaded a s data buf a1 a')
  then show ?case using arena_load_spec[OF _ in_use_bound, of a s data] by auto
qed

text \<open>C38. Whatever its clients do, the arena never reserves more memory than its budget (or one
  chunk, if the budget is smaller), never holds more slots than that, and never panics on an
  allocation.\<close>

theorem arena_within_budget:
  assumes "budget \<le> 2 ^ 48" and "arena_reach budget a"
  shows "capacity_bytes a \<le> max budget CHUNK_SIZE \<and>
    card (in_use a) * CHUNK_SIZE \<le> capacity_bytes a \<and> slots_in_use a = card (in_use a) \<and>
    alloc a \<noteq> None"
proof -
  note r = arena_reach_ok[OF assms]
  then have ok: "arena_ok a" by simp
  have n: "length (ar_len a) \<le> 2 ^ 32" using ok by (simp add: arena_ok_def)
  have "in_use a = {s. unat s < length (ar_len a)} - set (ar_free a)" by (auto simp: in_use_def)
  then have c: "card (in_use a) = length (ar_len a) - length (ar_free a)"
    using ok card_small_slots[OF n]
    by (simp add: card_Diff_subset arena_ok_def distinct_card subset_eq)
  have "max (budget div CHUNK_SIZE) 1 * CHUNK_SIZE \<le> max budget CHUNK_SIZE"
    unfolding nat_mult_max_left by (intro max.mono) simp_all
  moreover have "length (ar_len a) * CHUNK_SIZE \<le> max (budget div CHUNK_SIZE) 1 * CHUNK_SIZE"
    using r by (intro mult_le_mono1) (simp add: arena_ok_def)
  moreover have "capacity_bytes a = length (ar_len a) * CHUNK_SIZE"
    using ok by (simp add: capacity_bytes_def arena_ok_def)
  ultimately have "capacity_bytes a \<le> max budget CHUNK_SIZE" by linarith
  then show ?thesis
    using ok c arena.claim_total[OF ok] by (auto simp: capacity_bytes_def slots_in_use_def arena_ok_def)
qed

theorem arena_within_budget_witness:
  "(65536 :: nat) \<le> 2 ^ 48 \<and> arena_reach 65536 (arena_new 65536) \<and>
   capacity_bytes (arena_new 65536) \<le> max 65536 CHUNK_SIZE \<and>
   card (in_use (arena_new 65536)) * CHUNK_SIZE \<le> capacity_bytes (arena_new 65536) \<and>
   slots_in_use (arena_new 65536) = card (in_use (arena_new 65536)) \<and> alloc (arena_new 65536) \<noteq> None"
proof -
  have b: "(65536 :: nat) \<le> 2 ^ 48" by simp
  note f = arena_reach.fresh[of 65536]
  show ?thesis using arena_within_budget[OF b f] b f by blast
qed

section \<open>The dirty index\<close>

type_synonym DirtyIdx = "(u64 \<times> ArenaSlot) list"

definition dirty_is_empty :: "DirtyIdx \<Rightarrow> bool" where
  "dirty_is_empty self \<longleftrightarrow> self = []"

definition dirty_len :: "DirtyIdx \<Rightarrow> usize" where
  "dirty_len self = length self"

text \<open>\<^verbatim>\<open>slice::binary_search_by_key\<close> of the standard library on the positions \<open>lo ..< hi\<close>:
  \<open>Inr\<close> is \<^verbatim>\<open>Ok\<close>, the position of a match, and \<open>Inl\<close> is \<^verbatim>\<open>Err\<close>, the insertion point.\<close>

function bsearch :: "DirtyIdx \<Rightarrow> u64 \<Rightarrow> nat \<Rightarrow> nat \<Rightarrow> nat + nat" where
  "bsearch xs key lo hi =
     (if lo < hi then
        let mid = lo + (hi - lo) div 2; m = fst (xs ! mid) in
        if m = key then Inr mid
        else if m < key then bsearch xs key (Suc mid) hi
        else bsearch xs key lo mid
      else Inl lo)"
  by pat_completeness auto
termination
  by (relation "measure (\<lambda>(xs, key, lo, hi). hi - lo)") auto

declare bsearch.simps [simp del]

definition dirty_find :: "DirtyIdx \<Rightarrow> u64 \<Rightarrow> usize + usize" where
  "dirty_find self chunk_index =
     (if self = [] then Inl 0
      else let l = fst (last self) in
        if l = chunk_index then Inr (length self - 1)
        else if l < chunk_index then Inl (length self)
        else bsearch self chunk_index 0 (length self))"

definition slot_at :: "DirtyIdx \<Rightarrow> usize \<Rightarrow> ArenaSlot option" where
  "slot_at self position = map_option snd (idx self position)"

definition dirty_insert :: "DirtyIdx \<Rightarrow> usize \<Rightarrow> u64 \<Rightarrow> ArenaSlot \<Rightarrow> DirtyIdx option" where
  "dirty_insert self position chunk_index slot =
     (if position \<le> length self
      then Some (take position self @ (chunk_index, slot) # drop position self) else None)"

text \<open>\<^verbatim>\<open>partition_point\<close> of the standard library on a slice partitioned by \<open>P\<close>.\<close>

definition partition_point :: "('a \<Rightarrow> bool) \<Rightarrow> 'a list \<Rightarrow> usize" where
  "partition_point P xs = length (takeWhile P xs)"

definition dirty_range :: "DirtyIdx \<Rightarrow> u64 \<Rightarrow> u64 \<Rightarrow> DirtyIdx option" where
  "dirty_range self first_index last_index =
     (let start = partition_point (\<lambda>(index, _). index < first_index) self;
          end = partition_point (\<lambda>(index, _). index \<le> last_index) self
      in subslice self start end)"

definition entries :: "DirtyIdx \<Rightarrow> DirtyIdx" where
  "entries self = self"

definition release_into :: "DirtyIdx \<Rightarrow> ChunkArena \<Rightarrow> DirtyIdx \<times> ChunkArena" where
  "release_into self arena = ([], fold (\<lambda>(_, slot) arena. release arena slot) self arena)"

subsection \<open>The index is a sorted finite map\<close>

definition dirty_ok :: "DirtyIdx \<Rightarrow> bool" where
  "dirty_ok xs \<longleftrightarrow> sorted_wrt (<) (map fst xs)"

lemma dirty_ok_Nil [simp]: "dirty_ok []"
  by (simp add: dirty_ok_def)

lemma dirty_ok_distinct: "dirty_ok xs \<Longrightarrow> distinct (map fst xs)"
  by (simp add: dirty_ok_def strict_sorted_iff)

lemma dirty_ok_nth: "dirty_ok xs \<Longrightarrow> i < j \<Longrightarrow> j < length xs \<Longrightarrow> fst (xs ! i) < fst (xs ! j)"
  unfolding dirty_ok_def sorted_wrt_iff_nth_less by simp

text \<open>\<open>splits_at xs key p\<close>: \<open>p\<close> is where \<open>key\<close> belongs, and it is not there yet.\<close>

definition splits_at :: "DirtyIdx \<Rightarrow> u64 \<Rightarrow> nat \<Rightarrow> bool" where
  "splits_at xs key p \<longleftrightarrow>
     p \<le> length xs \<and> (\<forall>i < p. fst (xs ! i) < key) \<and> (\<forall>i. p \<le> i \<longrightarrow> i < length xs \<longrightarrow> key < fst (xs ! i))"

lemma bsearch_correct:
  assumes "dirty_ok xs" and "hi \<le> length xs" and "lo \<le> hi"
    and "\<forall>i < lo. fst (xs ! i) < key" and "\<forall>i. hi \<le> i \<longrightarrow> i < length xs \<longrightarrow> key < fst (xs ! i)"
  shows "case bsearch xs key lo hi of
      Inr p \<Rightarrow> p < length xs \<and> fst (xs ! p) = key | Inl p \<Rightarrow> splits_at xs key p"
  using assms
proof (induction xs key lo hi rule: bsearch.induct)
  case (1 xs key lo hi)
  show ?case
  proof (cases "lo < hi")
    case False
    with 1(3-7) show ?thesis by (subst bsearch.simps) (auto simp: splits_at_def)
  next
    case True
    define mid where "mid = lo + (hi - lo) div 2"
    have mid: "lo \<le> mid" "mid < hi" "mid < length xs" using True 1(4) by (auto simp: mid_def)
    have left: "fst (xs ! i) < key" if "fst (xs ! mid) < key" "i < Suc mid" for i
      using that dirty_ok_nth[OF 1(3), of i mid] mid by (cases "i = mid") (auto intro: less_trans)
    have right: "key < fst (xs ! i)" if "\<not> fst (xs ! mid) < key" "fst (xs ! mid) \<noteq> key" "mid \<le> i" "i < length xs" for i
      using that dirty_ok_nth[OF 1(3), of mid i] mid by (cases "i = mid") (auto intro: less_trans)
    consider "fst (xs ! mid) = key" | "fst (xs ! mid) < key" | "\<not> fst (xs ! mid) < key" "fst (xs ! mid) \<noteq> key"
      by blast
    then show ?thesis
    proof cases
      case 1
      then show ?thesis using True mid by (subst bsearch.simps) (simp add: mid_def[symmetric] Let_def)
    next
      case 2
      then show ?thesis
        using True mid left "1.IH"(1)[OF True mid_def refl] "1.prems"
        by (subst bsearch.simps) (simp add: mid_def[symmetric] Let_def)
    next
      case 3
      then show ?thesis
        using True mid right "1.IH"(2)[OF True mid_def refl] "1.prems"
        by (subst bsearch.simps) (simp add: mid_def[symmetric] Let_def)
    qed
  qed
qed

lemma dirty_find_correct:
  assumes "dirty_ok xs"
  shows "case dirty_find xs key of
      Inr p \<Rightarrow> p < length xs \<and> fst (xs ! p) = key | Inl p \<Rightarrow> splits_at xs key p"
proof (cases "xs = []")
  case True
  then show ?thesis by (simp add: dirty_find_def splits_at_def)
next
  case False
  then have l: "fst (last xs) = fst (xs ! (length xs - 1))" by (simp add: last_conv_nth)
  have before: "fst (xs ! i) < key" if "fst (last xs) < key" "i < length xs" for i
  proof (cases "i = length xs - 1")
    case False
    then have "fst (xs ! i) < fst (last xs)"
      using that(2) dirty_ok_nth[OF assms, of i "length xs - 1"] l by simp
    then show ?thesis using that(1) by (rule less_trans)
  qed (use that l in simp)
  show ?thesis
    using bsearch_correct[OF assms order_refl, of 0 key] False l before
    by (auto simp: dirty_find_def Let_def splits_at_def)
qed

lemma map_of_dirty_nth: "dirty_ok xs \<Longrightarrow> p < length xs \<Longrightarrow> map_of xs (fst (xs ! p)) = Some (snd (xs ! p))"
  by (simp add: dirty_ok_distinct)

lemma splits_at_fresh:
  assumes "splits_at xs key p"
  shows "key \<notin> fst ` set xs" and "map_of xs key = None"
proof -
  show "key \<notin> fst ` set xs"
  proof
    assume "key \<in> fst ` set xs"
    then obtain i where i: "i < length xs" "key = fst (xs ! i)"
      by (metis imageE in_set_conv_nth)
    with assms have "fst (xs ! i) < fst (xs ! i)"
      unfolding splits_at_def by (metis not_less)
    then show False by simp
  qed
  then show "map_of xs key = None" by (simp add: map_of_eq_None_iff)
qed

lemma splits_at_insert:
  assumes "splits_at xs key p" and "dirty_ok xs"
  shows "dirty_ok (take p xs @ (key, s) # drop p xs)"
    and "map_of (take p xs @ (key, s) # drop p xs) = (map_of xs)(key \<mapsto> s)"
proof -
  have sorted: "sorted_wrt (<) (map fst (take p xs) @ map fst (drop p xs))"
    using assms(2) by (simp add: dirty_ok_def flip: map_append)
  have lo: "\<forall>x \<in> set (map fst (take p xs)). x < key" and hi: "\<forall>x \<in> set (map fst (drop p xs)). key < x"
    using assms(1) by (simp_all add: splits_at_def all_set_conv_all_nth)
  show "dirty_ok (take p xs @ (key, s) # drop p xs)"
    using sorted lo hi by (auto simp: dirty_ok_def sorted_wrt_append intro: less_trans)
  have "map_of (take p xs) key = None"
    using splits_at_fresh(1)[OF assms(1)] by (auto simp: map_of_eq_None_iff dest: in_set_takeD)
  moreover have "map_of xs = map_of (drop p xs) ++ map_of (take p xs)"
    by (metis append_take_drop_id map_of_append)
  ultimately show "map_of (take p xs @ (key, s) # drop p xs) = (map_of xs)(key \<mapsto> s)"
    by (auto simp: fun_eq_iff map_add_def split: option.splits)
qed

lemma dirty_find_Ok:
  assumes "dirty_ok xs" and "dirty_find xs key = Inr p"
  shows "\<exists>s. slot_at xs p = Some s \<and> map_of xs key = Some s"
  using dirty_find_correct[OF assms(1), of key] map_of_dirty_nth[OF assms(1), of p] assms(2)
  by (auto simp: slot_at_def)

lemma dirty_find_Err:
  assumes "dirty_ok xs" and "dirty_find xs key = Inl p"
  shows "map_of xs key = None"
    and "\<exists>xs'. dirty_insert xs p key s = Some xs' \<and> dirty_ok xs' \<and>
      map_of xs' = (map_of xs)(key \<mapsto> s) \<and> set xs' = insert (key, s) (set xs) \<and> xs' \<noteq> []"
proof -
  have sp: "splits_at xs key p" using dirty_find_correct[OF assms(1), of key] assms(2) by simp
  show "map_of xs key = None" by (rule splits_at_fresh(2)[OF sp])
  have "set (take p xs) \<union> set (drop p xs) = set xs"
    by (metis append_take_drop_id set_append)
  then show "\<exists>xs'. dirty_insert xs p key s = Some xs' \<and> dirty_ok xs' \<and>
      map_of xs' = (map_of xs)(key \<mapsto> s) \<and> set xs' = insert (key, s) (set xs) \<and> xs' \<noteq> []"
    using splits_at_insert[OF sp assms(1)] sp by (auto simp: dirty_insert_def splits_at_def)
qed

text \<open>On a sorted index the two partition points select the entries of the range.\<close>

lemma takeWhile_sorted_filter:
  assumes "sorted_wrt (<) (map fst xs)" and "\<And>x y. P y \<Longrightarrow> x \<le> y \<Longrightarrow> P (x :: u64)"
  shows "takeWhile (\<lambda>(i, _). P i) xs = filter (\<lambda>(i, _). P i) xs"
  using assms(1)
proof (induction xs)
  case (Cons x xs)
  have "filter (\<lambda>(i, _). P i) xs = []" if "\<not> P (fst x)"
    using Cons.prems assms(2) that by (force simp: filter_empty_conv dest: less_imp_le)
  with Cons show ?case by (cases x) auto
qed simp

lemma dropWhile_sorted_filter:
  "sorted_wrt (<) (map fst ys) \<Longrightarrow>
   dropWhile (\<lambda>(i, _). i < lo) ys = filter (\<lambda>(i, _). lo \<le> i) (ys :: DirtyIdx)"
proof (induction ys)
  case (Cons y ys)
  have "filter (\<lambda>(i, _). lo \<le> i) ys = ys" if "lo \<le> fst y"
    using Cons.prems that by (fastforce simp: filter_id_conv)
  with Cons show ?case by (cases y) (auto simp: not_less)
qed simp

lemma dirty_range_eq:
  assumes "dirty_ok xs" and "lo \<le> hi"
  shows "dirty_range xs lo hi = Some (filter (\<lambda>(i, _). lo \<le> i \<and> i \<le> hi) xs)"
proof -
  let ?a = "takeWhile (\<lambda>(i, _). i < lo) xs" and ?b = "takeWhile (\<lambda>(i, _). i \<le> hi) xs"
  have fa: "?a = filter (\<lambda>(i, _). i < lo) xs" and fb: "?b = filter (\<lambda>(i, _). i \<le> hi) xs"
    using assms(1) unfolding dirty_ok_def by (auto intro!: takeWhile_sorted_filter)
  have sub: "takeWhile (\<lambda>(i, _). i < lo) ?b = ?a"
    using assms(2) by (induction xs) auto
  have le: "length ?a \<le> length ?b" by (metis sub length_takeWhile_le)
  have "take (length ?b - length ?a) (drop (length ?a) xs) = drop (length ?a) ?b"
    by (metis drop_take takeWhile_eq_take)
  also have "\<dots> = dropWhile (\<lambda>(i, _). i < lo) ?b"
    by (metis sub dropWhile_eq_drop)
  also have "\<dots> = filter (\<lambda>(i, _). lo \<le> i) ?b"
  proof -
    have "sorted_wrt (<) (map fst ?b)"
      using assms(1) unfolding dirty_ok_def fb by (simp add: sorted_wrt_filter sorted_wrt_map)
    then show ?thesis by (rule dropWhile_sorted_filter)
  qed
  also have "\<dots> = filter (\<lambda>(i, _). lo \<le> i \<and> i \<le> hi) xs"
    unfolding fb filter_filter by (rule filter_cong) auto
  finally show ?thesis
    using le length_takeWhile_le[of "\<lambda>(i, _). i \<le> hi" xs]
    by (simp add: dirty_range_def partition_point_def subslice_in)
qed

text \<open>Emptying an index gives all its slots back.\<close>

lemma fold_release:
  assumes "arena_ok a" and "distinct (map snd xs)" and "snd ` set xs \<subseteq> in_use a"
  shows "arena_ok (fold (\<lambda>(_, slot) arena. release arena slot) xs a) \<and>
    in_use (fold (\<lambda>(_, slot) arena. release arena slot) xs a) = in_use a - snd ` set xs \<and>
    (\<forall>t. slot_bytes (fold (\<lambda>(_, slot) arena. release arena slot) xs a) t = slot_bytes a t) \<and>
    max_slots (fold (\<lambda>(_, slot) arena. release arena slot) xs a) = max_slots a"
  using assms
proof (induction xs arbitrary: a)
  case (Cons x xs)
  obtain k s where x: "x = (k, s)" by (cases x)
  then have r: "arena_ok (release a s)" "in_use (release a s) = in_use a - {s}"
    "\<And>t. slot_bytes (release a s) t = slot_bytes a t" "max_slots (release a s) = max_slots a"
    using Cons.prems release_spec[of a s] by auto
  have "snd ` set xs \<subseteq> in_use (release a s)" using Cons.prems x r(2) by auto
  from Cons.IH[OF r(1) _ this] Cons.prems(2) show ?case using x r by auto
qed simp

lemma release_into_spec:
  assumes "arena_ok a" and "distinct (map snd xs)" and "snd ` set xs \<subseteq> in_use a"
  shows "\<exists>a'. release_into xs a = ([], a') \<and> arena_ok a' \<and> in_use a' = in_use a - snd ` set xs \<and>
    (\<forall>t. slot_bytes a' t = slot_bytes a t) \<and> max_slots a' = max_slots a"
  using fold_release[OF assms] by (simp add: release_into_def)

section \<open>The index contract\<close>

text \<open>
  What the write and read paths rely on: a finite map from chunk indices to slots with a search
  that either finds the slot of a chunk or the position where the chunk is to be inserted, and a
  range query.
\<close>

locale chunk_index =
  fixes ok :: "'i \<Rightarrow> bool" and lookup :: "'i \<Rightarrow> u64 \<Rightarrow> 's option"
    and locate :: "'i \<Rightarrow> u64 \<Rightarrow> nat + nat" and at :: "'i \<Rightarrow> nat \<Rightarrow> 's option"
    and add :: "'i \<Rightarrow> nat \<Rightarrow> u64 \<Rightarrow> 's \<Rightarrow> 'i option"
  assumes locate_hit: "ok i \<Longrightarrow> locate i k = Inr p \<Longrightarrow> \<exists>s. at i p = Some s \<and> lookup i k = Some s"
    and locate_miss: "ok i \<Longrightarrow> locate i k = Inl p \<Longrightarrow> lookup i k = None"
    and add_ok: "ok i \<Longrightarrow> locate i k = Inl p \<Longrightarrow>
      \<exists>i'. add i p k s = Some i' \<and> ok i' \<and> lookup i' = (lookup i)(k \<mapsto> s)"
begin

text \<open>Searching decides membership, and an added chunk is found at its slot while the others
  keep theirs.\<close>

lemma locate_iff: "ok i \<Longrightarrow> (\<exists>p. locate i k = Inr p) \<longleftrightarrow> lookup i k \<noteq> None"
  using locate_hit[of i k] locate_miss[of i k] by (cases "locate i k") auto

lemma add_then_locate:
  assumes "ok i" and "locate i k = Inl p"
  shows "\<exists>i' q. add i p k s = Some i' \<and> ok i' \<and> locate i' k = Inr q \<and> at i' q = Some s \<and>
    (\<forall>k'. k' \<noteq> k \<longrightarrow> lookup i' k' = lookup i k')"
proof -
  obtain i' where i': "add i p k s = Some i'" "ok i'" "lookup i' = (lookup i)(k \<mapsto> s)"
    using add_ok[OF assms] by blast
  then obtain q where q: "locate i' k = Inr q" using locate_iff[OF i'(2), of k] by auto
  with locate_hit[OF i'(2) q] i' show ?thesis by auto
qed

end

interpretation dirty: chunk_index dirty_ok map_of dirty_find slot_at dirty_insert
proof (unfold_locales, goal_cases)
  case (1 i k p) then show ?case by (rule dirty_find_Ok)
next
  case (2 i k p) then show ?case by (rule dirty_find_Err(1))
next
  case (3 i k p s) then show ?case using dirty_find_Err(2)[of i k p s] by blast
qed

text \<open>The dirty index implements a finite map from chunk indices to arena slots. Searching a
  chunk that is not in a sorted index gives the position where inserting it keeps the index
  sorted; afterwards the search finds exactly the inserted slot and every other chunk is
  unchanged.\<close>

theorem dirty_index_insert_found:
  assumes "dirty_ok xs" and "dirty_find xs k = Inl p"
  shows "map_of xs k = None \<and> (\<exists>xs' q. dirty_insert xs p k s = Some xs' \<and> dirty_ok xs' \<and>
    dirty_find xs' k = Inr q \<and> slot_at xs' q = Some s \<and> (\<forall>k'. k' \<noteq> k \<longrightarrow> map_of xs' k' = map_of xs k'))"
  using dirty.add_then_locate[OF assms] dirty.locate_miss[OF assms] by blast

theorem dirty_index_insert_found_witness:
  "dirty_ok [(1, 1), (5, 0), (9, 2)] \<and> dirty_find [(1, 1), (5, 0), (9, 2)] 3 = Inl 1 \<and>
   (\<exists>xs' q. dirty_insert [(1, 1), (5, 0), (9, 2)] 1 3 3 = Some xs' \<and> dirty_ok xs' \<and>
     dirty_find xs' 3 = Inr q \<and> slot_at xs' q = Some 3)"
proof -
  have a: "dirty_ok [(1, 1), (5, 0), (9, 2)]" by (simp add: dirty_ok_def)
  have b: "dirty_find [(1, 1), (5, 0), (9, 2)] 3 = Inl 1"
    by (simp add: dirty_find_def bsearch.simps)
  show ?thesis using a b dirty_index_insert_found[OF a b, of 3] by blast
qed

end
