(* ===== verification/Open_Table.thy ===== *)
theory Open_Table
  imports Arena
begin

text \<open>
  Process-lifetime state (\<^verbatim>\<open>src/src/open_table.rs\<close>): the struct of arrays of open inodes, the
  table of FUSE file handles, and the table that joins them with the arena. The lemmas show that
  the arrays implement a finite map from inode numbers to slots and that handles implement a
  finite map from handle numbers to slots.
\<close>

section \<open>Open inodes\<close>

type_synonym Slot = u32

definition NO_SLOT :: Slot where "NO_SLOT = - 1"

text \<open>
  The standard library's \<^verbatim>\<open>HashMap\<close> is its list of entries together with the order in which its
  random hasher makes \<^verbatim>\<open>values()\<close> visit them. The order is a parameter of the map; all that is
  known of it is that it visits every entry once (\<open>visits_all\<close>).
\<close>

record OpenInodes =
  oi_ino :: "u64 list"
  oi_kind :: "FileKind list"
  oi_size :: "u64 list"
  oi_mtime :: "Timestamp list"
  oi_refs :: "u32 list"
  oi_unlinked :: "bool list"
  oi_dirty :: "DirtyIdx list"
  by_ino :: "(u64 \<times> Slot) list"
  by_ino_order :: "(u64 \<times> Slot) list \<Rightarrow> (u64 \<times> Slot) list"
  oi_free :: "Slot list"

definition visits_all :: "(('k \<times> 'v) list \<Rightarrow> ('k \<times> 'v) list) \<Rightarrow> bool" where
  "visits_all order \<longleftrightarrow> (\<forall>es. mset (order es) = mset es)"

definition map_insert :: "'k \<Rightarrow> 'v \<Rightarrow> ('k \<times> 'v) list \<Rightarrow> ('k \<times> 'v) list" where
  "map_insert k v m = (k, v) # filter (\<lambda>(k', _). k' \<noteq> k) m"

definition map_remove :: "'k \<Rightarrow> ('k \<times> 'v) list \<Rightarrow> ('k \<times> 'v) list" where
  "map_remove k m = filter (\<lambda>(k', _). k' \<noteq> k) m"

definition epoch :: Timestamp where
  "epoch = \<lparr>secs = 0, nsec = 0\<rparr>"

definition inodes_default :: "((u64 \<times> Slot) list \<Rightarrow> (u64 \<times> Slot) list) \<Rightarrow> OpenInodes" where
  "inodes_default order =
     \<lparr>oi_ino = [], oi_kind = [], oi_size = [], oi_mtime = [], oi_refs = [], oi_unlinked = [],
      oi_dirty = [], by_ino = [], by_ino_order = order, oi_free = []\<rparr>"

definition inodes_find :: "OpenInodes \<Rightarrow> u64 \<Rightarrow> Slot option" where
  "inodes_find self ino = map_of (by_ino self) ino"

definition inodes_insert :: "OpenInodes \<Rightarrow> u64 \<Rightarrow> FileKind \<Rightarrow> u64 \<Rightarrow> (Slot \<times> OpenInodes) option" where
  "inodes_insert self ino kind sz = do {
     (slot, self) \<leftarrow>
       (if oi_free self \<noteq> [] then do {
          let slot = last (oi_free self);
          let i = unat slot;
          inos \<leftarrow> set_idx (oi_ino self) i ino;
          kinds \<leftarrow> set_idx (oi_kind self) i kind;
          sizes \<leftarrow> set_idx (oi_size self) i sz;
          mtimes \<leftarrow> set_idx (oi_mtime self) i epoch;
          refs \<leftarrow> set_idx (oi_refs self) i 0;
          unlinkeds \<leftarrow> set_idx (oi_unlinked self) i False;
          Some (slot, self\<lparr>oi_ino := inos, oi_kind := kinds, oi_size := sizes, oi_mtime := mtimes,
                           oi_refs := refs, oi_unlinked := unlinkeds,
                           oi_free := butlast (oi_free self)\<rparr>)
        }
        else do {
          let inos = oi_ino self @ [ino];
          Some (of_nat (length inos - 1),
                self\<lparr>oi_ino := inos, oi_kind := oi_kind self @ [kind], oi_size := oi_size self @ [sz],
                     oi_mtime := oi_mtime self @ [epoch], oi_refs := oi_refs self @ [0],
                     oi_unlinked := oi_unlinked self @ [False], oi_dirty := oi_dirty self @ [[]]\<rparr>)
        });
     Some (slot, self\<lparr>by_ino := map_insert ino slot (by_ino self)\<rparr>)
   }"

definition inodes_remove :: "OpenInodes \<Rightarrow> Slot \<Rightarrow> OpenInodes option" where
  "inodes_remove self slot = do {
     let i = unat slot;
     ino \<leftarrow> idx (oi_ino self) i;
     refs \<leftarrow> set_idx (oi_refs self) i 0;
     unlinkeds \<leftarrow> set_idx (oi_unlinked self) i False;
     Some (self\<lparr>by_ino := map_remove ino (by_ino self), oi_refs := refs, oi_unlinked := unlinkeds,
                oi_free := oi_free self @ [slot]\<rparr>)
   }"

definition inodes_is_open :: "OpenInodes \<Rightarrow> Slot \<Rightarrow> bool option" where
  "inodes_is_open self slot = map_option (\<lambda>r. 0 < r) (idx (oi_refs self) (unat slot))"

definition live_slots :: "OpenInodes \<Rightarrow> Slot list" where
  "live_slots self = map snd (by_ino_order self (by_ino self))"

text \<open>\<^verbatim>\<open>Iterator::max_by_key\<close>: the last of the elements with the greatest key.\<close>

fun max_by_key :: "('a \<Rightarrow> nat) \<Rightarrow> 'a list \<Rightarrow> 'a option" where
  "max_by_key key [] = None"
| "max_by_key key (x # xs) = Some (foldl (\<lambda>m y. if key m \<le> key y then y else m) x xs)"

definition largest_dirty :: "OpenInodes \<Rightarrow> Slot option option" where
  "largest_dirty self = do {
     dirties \<leftarrow> those (map (\<lambda>slot. map_option (Pair slot) (idx (oi_dirty self) (unat slot))) (live_slots self));
     Some (map_option fst
       (max_by_key (\<lambda>(_, dirty). dirty_len dirty)
         (filter (\<lambda>(_, dirty). \<not> dirty_is_empty dirty) dirties)))
   }"

section \<open>Handles\<close>

record Handles =
  h_slot :: "Slot list"
  h_free :: "u32 list"

definition handles_default :: Handles where
  "handles_default = \<lparr>h_slot = [], h_free = []\<rparr>"

definition handles_alloc :: "Handles \<Rightarrow> Slot \<Rightarrow> (u64 \<times> Handles) option" where
  "handles_alloc self slot =
     (if h_free self \<noteq> [] then do {
        let fh = last (h_free self);
        slots \<leftarrow> set_idx (h_slot self) (unat fh) slot;
        Some (ucast fh, self\<lparr>h_slot := slots, h_free := butlast (h_free self)\<rparr>)
      }
      else do {
        let slots = h_slot self @ [slot];
        Some (of_nat (length slots - 1), self\<lparr>h_slot := slots\<rparr>)
      })"

definition handles_get :: "Handles \<Rightarrow> u64 \<Rightarrow> Slot option" where
  "handles_get self fh =
     (case idx (h_slot self) (unat fh) of
        Some slot \<Rightarrow> if slot \<noteq> NO_SLOT then Some slot else None
      | None \<Rightarrow> None)"

definition handles_release :: "Handles \<Rightarrow> u64 \<Rightarrow> Slot option \<times> Handles" where
  "handles_release self fh =
     (case handles_get self fh of
        None \<Rightarrow> (None, self)
      | Some slot \<Rightarrow>
          (Some slot, self\<lparr>h_slot := (h_slot self)[unat fh := NO_SLOT], h_free := h_free self @ [ucast fh]\<rparr>))"

section \<open>The open table\<close>

record OpenTable =
  inodes :: OpenInodes
  handles :: Handles
  arena :: ChunkArena
  closing :: bool

definition table_new :: "((u64 \<times> Slot) list \<Rightarrow> (u64 \<times> Slot) list) \<Rightarrow> usize \<Rightarrow> OpenTable" where
  "table_new order write_buffer =
     \<lparr>inodes = inodes_default order, handles = handles_default, arena = arena_new write_buffer,
      closing = False\<rparr>"

section \<open>Open inodes are a finite map\<close>

abbreviation slot_count :: "OpenInodes \<Rightarrow> nat" where
  "slot_count t \<equiv> length (oi_ino t)"

definition live :: "OpenInodes \<Rightarrow> Slot set" where
  "live t = snd ` set (by_ino t)"

text \<open>Everything stored for one slot.\<close>

definition entry :: "OpenInodes \<Rightarrow> Slot \<Rightarrow> u64 \<times> FileKind \<times> u64 \<times> Timestamp \<times> u32 \<times> bool \<times> DirtyIdx" where
  "entry t s = (oi_ino t ! unat s, oi_kind t ! unat s, oi_size t ! unat s, oi_mtime t ! unat s,
     oi_refs t ! unat s, oi_unlinked t ! unat s, oi_dirty t ! unat s)"

definition columns_ok :: "OpenInodes \<Rightarrow> bool" where
  "columns_ok t \<longleftrightarrow>
     length (oi_kind t) = slot_count t \<and> length (oi_size t) = slot_count t \<and>
     length (oi_mtime t) = slot_count t \<and> length (oi_refs t) = slot_count t \<and>
     length (oi_unlinked t) = slot_count t \<and> length (oi_dirty t) = slot_count t \<and>
     slot_count t < 2 ^ 32"

definition inodes_ok :: "OpenInodes \<Rightarrow> bool" where
  "inodes_ok t \<longleftrightarrow>
     columns_ok t \<and> visits_all (by_ino_order t) \<and>
     distinct (map fst (by_ino t)) \<and> distinct (map snd (by_ino t)) \<and>
     (\<forall>(ino, s) \<in> set (by_ino t). unat s < slot_count t \<and> oi_ino t ! unat s = ino) \<and>
     distinct (oi_free t) \<and> set (oi_free t) \<inter> live t = {} \<and>
     (\<forall>s \<in> set (oi_free t). unat s < slot_count t \<and> oi_dirty t ! unat s = [])"

text \<open>A new slot can be made: one is free, or the slot numbers are not used up.\<close>

definition slot_available :: "OpenInodes \<Rightarrow> bool" where
  "slot_available t \<longleftrightarrow> oi_free t \<noteq> [] \<or> slot_count t < 2 ^ 32 - 1"

lemma columns_okD:
  assumes "columns_ok t" and "i < slot_count t"
  shows "i < length (oi_kind t)" "i < length (oi_size t)" "i < length (oi_mtime t)"
    "i < length (oi_refs t)" "i < length (oi_unlinked t)" "i < length (oi_dirty t)"
  using assms by (simp_all add: columns_ok_def)

lemma inodes_ok_columns: "inodes_ok t \<Longrightarrow> columns_ok t"
  by (simp add: inodes_ok_def)

lemma live_bound: "inodes_ok t \<Longrightarrow> s \<in> live t \<Longrightarrow> unat s < slot_count t"
  by (auto simp: inodes_ok_def live_def)

lemma find_live:
  assumes "inodes_ok t" and "inodes_find t ino = Some s"
  shows "s \<in> live t" and "oi_ino t ! unat s = ino"
proof -
  have "(ino, s) \<in> set (by_ino t)" using assms(2) by (auto simp: inodes_find_def dest: map_of_SomeD)
  then show "s \<in> live t" "oi_ino t ! unat s = ino"
    using assms(1) by (auto simp: inodes_ok_def live_def intro: rev_image_eqI)
qed

lemma live_find:
  assumes "inodes_ok t" and "s \<in> live t"
  shows "inodes_find t (oi_ino t ! unat s) = Some s"
  using assms by (auto simp: inodes_ok_def live_def inodes_find_def)

lemma find_inject:
  assumes "inodes_ok t" and "inodes_find t i = Some s" and "inodes_find t j = Some s"
  shows "i = j"
  using find_live(2)[OF assms(1,2)] find_live(2)[OF assms(1,3)] by simp

lemma live_slots_mset:
  assumes "inodes_ok t"
  shows "mset (live_slots t) = mset (map snd (by_ino t))"
proof -
  have "mset (by_ino_order t (by_ino t)) = mset (by_ino t)"
    using assms unfolding inodes_ok_def visits_all_def by blast
  then show ?thesis by (simp add: live_slots_def)
qed

lemma live_slots_set: "inodes_ok t \<Longrightarrow> set (live_slots t) = live t"
  using mset_eq_setD[OF live_slots_mset] by (simp add: live_def)

lemma live_slots_distinct: "inodes_ok t \<Longrightarrow> distinct (live_slots t)"
  using mset_eq_imp_distinct_iff[OF live_slots_mset] by (simp add: inodes_ok_def)

lemma map_remove_fresh: "k \<notin> fst ` set m \<Longrightarrow> map_remove k m = m"
  by (force simp: map_remove_def filter_id_conv)

lemma map_insert_fresh: "map_of m k = None \<Longrightarrow> map_insert k v m = (k, v) # m"
  using map_remove_fresh[of k m] by (simp add: map_insert_def map_remove_def map_of_eq_None_iff)

lemma map_of_map_remove: "map_of (map_remove k m) = (map_of m)(k := None)"
  by (induction m) (auto simp: map_remove_def)

text \<open>What an insertion leaves behind, common to a reused and a new slot.\<close>

definition inserted :: "OpenInodes \<Rightarrow> u64 \<Rightarrow> FileKind \<Rightarrow> u64 \<Rightarrow> Slot \<Rightarrow> OpenInodes \<Rightarrow> bool" where
  "inserted t ino kind sz s t' \<longleftrightarrow>
     inodes_ok t' \<and> s \<notin> live t \<and> by_ino t' = (ino, s) # by_ino t \<and> by_ino_order t' = by_ino_order t \<and>
     entry t' s = (ino, kind, sz, epoch, 0, False, []) \<and> (\<forall>u \<in> live t. entry t' u = entry t u)"

lemma inodes_insert_reuse:
  assumes ok: "inodes_ok t" and fresh: "inodes_find t ino = None" and free: "oi_free t \<noteq> []"
  shows "\<exists>t'. inodes_insert t ino kind sz = Some (last (oi_free t), t') \<and>
    inserted t ino kind sz (last (oi_free t)) t'"
proof -
  define s where "s = last (oi_free t)"
  obtain fs where fs: "oi_free t = fs @ [s]"
    using free append_butlast_last_id[OF free] by (metis s_def)
  have s: "unat s < slot_count t" "oi_dirty t ! unat s = []" "s \<notin> live t"
    using ok fs by (auto simp: inodes_ok_def)
  note cols = columns_okD[OF inodes_ok_columns[OF ok] s(1)]
  define t' where "t' = t\<lparr>oi_ino := (oi_ino t)[unat s := ino], oi_kind := (oi_kind t)[unat s := kind],
    oi_size := (oi_size t)[unat s := sz], oi_mtime := (oi_mtime t)[unat s := epoch],
    oi_refs := (oi_refs t)[unat s := 0], oi_unlinked := (oi_unlinked t)[unat s := False],
    oi_free := fs, by_ino := (ino, s) # by_ino t\<rparr>"
  have m: "map_insert ino s (by_ino t) = (ino, s) # by_ino t"
    using fresh by (simp add: map_insert_fresh inodes_find_def)
  have "inodes_insert t ino kind sz = Some (s, t')"
    using cols s fs m by (simp add: inodes_insert_def Let_def t'_def)
  moreover have "inodes_ok t'"
    using ok s fs fresh cols
    by (auto simp: inodes_ok_def columns_ok_def t'_def live_def inodes_find_def map_of_eq_None_iff
        nth_list_update word_unat_eq_iff image_iff)
  moreover have "entry t' s = (ino, kind, sz, epoch, 0, False, [])"
    using cols s by (simp add: entry_def t'_def)
  moreover have "entry t' u = entry t u" if "u \<in> live t" for u
  proof -
    have "unat u \<noteq> unat s" using that s(3) by (metis word_unat_eq_iff)
    then show ?thesis by (simp add: entry_def t'_def)
  qed
  ultimately show ?thesis using s(3) unfolding inserted_def s_def[symmetric] by (auto simp: t'_def)
qed

lemma inodes_insert_grow:
  assumes ok: "inodes_ok t" and fresh: "inodes_find t ino = None" and free: "oi_free t = []"
    and room: "slot_count t < 2 ^ 32 - 1"
  defines "s \<equiv> of_nat (slot_count t) :: u32"
  shows "\<exists>t'. inodes_insert t ino kind sz = Some (s, t') \<and> inserted t ino kind sz s t'"
proof -
  have u: "unat s = slot_count t" using room by (simp add: s_def unat_of_nat)
  have s: "s \<notin> live t" using live_bound[OF ok, of s] u by auto
  have cols: "length (oi_kind t) = slot_count t" "length (oi_size t) = slot_count t"
    "length (oi_mtime t) = slot_count t" "length (oi_refs t) = slot_count t"
    "length (oi_unlinked t) = slot_count t" "length (oi_dirty t) = slot_count t"
    using ok by (auto simp: inodes_ok_def columns_ok_def)
  define t' where "t' = t\<lparr>oi_ino := oi_ino t @ [ino], oi_kind := oi_kind t @ [kind],
    oi_size := oi_size t @ [sz], oi_mtime := oi_mtime t @ [epoch], oi_refs := oi_refs t @ [0],
    oi_unlinked := oi_unlinked t @ [False], oi_dirty := oi_dirty t @ [[]],
    by_ino := (ino, s) # by_ino t\<rparr>"
  have m: "map_insert ino s (by_ino t) = (ino, s) # by_ino t"
    using fresh by (simp add: map_insert_fresh inodes_find_def)
  have "inodes_insert t ino kind sz = Some (s, t')"
    using free m by (simp add: inodes_insert_def Let_def t'_def s_def)
  moreover have "inodes_ok t'"
    using ok s u free fresh room cols
    by (auto simp: inodes_ok_def columns_ok_def t'_def live_def inodes_find_def map_of_eq_None_iff
        nth_append image_iff)
  moreover have "entry t' s = (ino, kind, sz, epoch, 0, False, [])"
    using cols u by (simp add: entry_def t'_def nth_append)
  moreover have "entry t' v = entry t v" if "v \<in> live t" for v
    using live_bound[OF ok that] cols by (simp add: entry_def t'_def nth_append)
  ultimately show ?thesis using s unfolding inserted_def by (auto simp: t'_def)
qed

lemma inodes_insert_spec:
  assumes "inodes_ok t" and "inodes_find t ino = None" and "slot_available t"
  shows "\<exists>s t'. inodes_insert t ino kind sz = Some (s, t') \<and> inserted t ino kind sz s t'"
  using inodes_insert_reuse[OF assms(1,2)] inodes_insert_grow[OF assms(1,2)] assms(3)
  by (cases "oi_free t = []") (simp_all add: slot_available_def, blast+)

lemma inserted_find: "inserted t ino kind sz s t' \<Longrightarrow> inodes_find t' = (inodes_find t)(ino \<mapsto> s)"
  by (auto simp: inserted_def inodes_find_def)

lemma inserted_live: "inserted t ino kind sz s t' \<Longrightarrow> live t' = insert s (live t)"
  by (auto simp: inserted_def live_def)

lemma inodes_remove_spec:
  assumes ok: "inodes_ok t" and s: "s \<in> live t" and clean: "oi_dirty t ! unat s = []"
  shows "\<exists>t'. inodes_remove t s = Some t' \<and> inodes_ok t' \<and> live t' = live t - {s} \<and>
    inodes_find t' = (inodes_find t)(oi_ino t ! unat s := None) \<and>
    (\<forall>u \<in> live t'. entry t' u = entry t u) \<and> by_ino_order t' = by_ino_order t \<and> slot_available t'"
proof -
  have b: "unat s < slot_count t" by (rule live_bound[OF ok s])
  note cols = columns_okD[OF inodes_ok_columns[OF ok] b]
  define k where "k = oi_ino t ! unat s"
  have inj: "(k' = k) = (s' = s)" if "(k', s') \<in> set (by_ino t)" for k' s'
  proof -
    have f: "inodes_find t k' = Some s'" using ok that by (simp add: inodes_ok_def inodes_find_def)
    have "k' = k \<Longrightarrow> s' = s" using f live_find[OF ok s] unfolding k_def by simp
    moreover have "s' = s \<Longrightarrow> k' = k" using find_live(2)[OF ok f] unfolding k_def by simp
    ultimately show ?thesis by blast
  qed
  define t' where "t' = t\<lparr>by_ino := map_remove k (by_ino t), oi_refs := (oi_refs t)[unat s := 0],
    oi_unlinked := (oi_unlinked t)[unat s := False], oi_free := oi_free t @ [s]\<rparr>"
  have "inodes_remove t s = Some t'"
    using b cols by (simp add: inodes_remove_def Let_def t'_def k_def)
  moreover have set': "set (by_ino t') = {e \<in> set (by_ino t). snd e \<noteq> s}"
    by (auto simp: t'_def map_remove_def dest: inj)
  then have live': "live t' = live t - {s}"
    unfolding live_def by auto
  moreover have "inodes_ok t'"
  proof -
    have "columns_ok t'" using inodes_ok_columns[OF ok] by (simp add: t'_def columns_ok_def)
    moreover have "distinct (map fst (by_ino t'))" "distinct (map snd (by_ino t'))"
      using ok by (simp_all add: t'_def map_remove_def inodes_ok_def distinct_map_filter)
    moreover have "distinct (oi_free t')" "set (oi_free t') \<inter> live t' = {}"
      using ok s by (auto simp: t'_def inodes_ok_def live'[unfolded t'_def])
    moreover have "\<forall>u \<in> set (oi_free t'). unat u < slot_count t' \<and> oi_dirty t' ! unat u = []"
      using ok b clean by (simp add: t'_def inodes_ok_def)
    moreover have "\<forall>(i, u) \<in> set (by_ino t'). unat u < slot_count t' \<and> oi_ino t' ! unat u = i"
      using ok unfolding set' by (auto simp: t'_def inodes_ok_def)
    ultimately show ?thesis using ok by (simp add: inodes_ok_def t'_def)
  qed
  moreover have "inodes_find t' = (inodes_find t)(oi_ino t ! unat s := None)"
    by (simp add: fun_eq_iff t'_def inodes_find_def map_of_map_remove k_def)
  moreover have "entry t' u = entry t u" if "u \<in> live t'" for u
  proof -
    have "unat u \<noteq> unat s" using that live' by (metis DiffD2 insertI1 word_unat_eq_iff)
    then show ?thesis by (simp add: entry_def t'_def)
  qed
  ultimately show ?thesis by (auto simp: t'_def slot_available_def)
qed

text \<open>\<open>max_by_key\<close> returns a maximum.\<close>

lemma foldl_max:
  "let m = foldl (\<lambda>m y. if key m \<le> key y then y else m) x xs in
   m \<in> insert x (set xs) \<and> (\<forall>y \<in> insert x (set xs). key y \<le> (key m :: nat))"
proof (induction xs arbitrary: x)
  case (Cons y ys)
  show ?case using Cons[of "if key x \<le> key y then y else x"] by (auto simp: Let_def)
qed simp

lemma max_by_key_spec:
  assumes "xs \<noteq> []"
  shows "\<exists>m \<in> set xs. max_by_key key xs = Some m \<and> (\<forall>x \<in> set xs. key x \<le> key m)"
  using assms
proof (cases xs)
  case (Cons x ys)
  then show ?thesis using foldl_max[of key x ys] by (simp add: Let_def)
qed simp

lemma those_idx:
  "(\<forall>s \<in> set ss. unat s < length d) \<Longrightarrow>
   those (map (\<lambda>s. map_option (Pair s) (idx d (unat s))) ss) = Some (map (\<lambda>s. (s, d ! unat s)) ss)"
  by (induction ss) simp_all

lemma largest_dirty_spec:
  assumes ok: "inodes_ok t"
  shows "case largest_dirty t of
      None \<Rightarrow> False
    | Some None \<Rightarrow> \<forall>s \<in> live t. oi_dirty t ! unat s = []
    | Some (Some s) \<Rightarrow> s \<in> live t \<and> oi_dirty t ! unat s \<noteq> [] \<and>
        (\<forall>u \<in> live t. length (oi_dirty t ! unat u) \<le> length (oi_dirty t ! unat s))"
proof -
  let ?all = "map (\<lambda>s. (s, oi_dirty t ! unat s)) (live_slots t)"
  let ?xs = "filter (\<lambda>(_, dirty). \<not> dirty_is_empty dirty) ?all"
  have "\<forall>s \<in> set (live_slots t). unat s < length (oi_dirty t)"
    using live_bound[OF ok] columns_okD(6)[OF inodes_ok_columns[OF ok]] by (auto simp: live_slots_set[OF ok])
  then have l: "largest_dirty t = Some (map_option fst (max_by_key (\<lambda>(_, dirty). dirty_len dirty) ?xs))"
    unfolding largest_dirty_def by (simp add: those_idx)
  have set: "set ?xs = {(s, oi_dirty t ! unat s) | s. s \<in> live t \<and> oi_dirty t ! unat s \<noteq> []}"
    using live_slots_set[OF ok] by (auto simp: dirty_is_empty_def)
  show ?thesis
  proof (cases "?xs = []")
    case True
    then have "\<forall>s \<in> live t. oi_dirty t ! unat s = []"
      using set by (metis (mono_tags, lifting) empty_iff empty_set mem_Collect_eq)
    then show ?thesis using l True by simp
  next
    case False
    then obtain m where m: "m \<in> set ?xs" "max_by_key (\<lambda>(_, dirty). dirty_len dirty) ?xs = Some m"
      "\<forall>x \<in> set ?xs. (\<lambda>(_, dirty). dirty_len dirty) x \<le> (\<lambda>(_, dirty). dirty_len dirty) m"
      using max_by_key_spec[of ?xs "\<lambda>(_, dirty). dirty_len dirty"] by blast
    then obtain s where s: "m = (s, oi_dirty t ! unat s)" "s \<in> live t" "oi_dirty t ! unat s \<noteq> []"
      unfolding set by blast
    have "length (oi_dirty t ! unat u) \<le> length (oi_dirty t ! unat s)" if "u \<in> live t" for u
      using m(3) s(1) that unfolding set by (cases "oi_dirty t ! unat u = []") (auto simp: dirty_len_def)
    then show ?thesis using l m(2) s by simp
  qed
qed

section \<open>Handles are a finite map\<close>

definition handles_ok :: "Handles \<Rightarrow> bool" where
  "handles_ok h \<longleftrightarrow>
     length (h_slot h) \<le> 2 ^ 32 \<and> distinct (h_free h) \<and>
     (\<forall>f \<in> set (h_free h). unat f < length (h_slot h) \<and> h_slot h ! unat f = NO_SLOT)"

definition handle_available :: "Handles \<Rightarrow> bool" where
  "handle_available h \<longleftrightarrow> h_free h \<noteq> [] \<or> length (h_slot h) < 2 ^ 32"

lemma count_list_update:
  assumes "i < length xs"
  shows "count_list (xs[i := y]) x =
    count_list xs x - (if xs ! i = x then 1 else 0) + (if y = x then 1 else 0)"
  using assms
proof (induction xs arbitrary: i)
  case (Cons z zs)
  show ?case
  proof (cases i)
    case (Suc j)
    have "zs ! j = x \<Longrightarrow> 0 < count_list zs x"
      using Cons.prems Suc by (metis Suc_less_eq count_list_0_iff length_Cons neq0_conv nth_mem)
    with Cons Suc show ?thesis by auto
  qed simp
qed simp

lemma unat_ucast_u32: "unat (ucast (f :: u32) :: u64) = unat f"
proof -
  have "unat f < 2 ^ 32" using unsigned_less[of f] by simp
  then show ?thesis by (simp add: unsigned_ucast_eq take_bit_nat_eq_self_iff)
qed

lemma ucast_ucast_fh: "unat (fh :: u64) < 2 ^ 32 \<Longrightarrow> unat (ucast fh :: u32) = unat fh"
  by (simp add: unsigned_ucast_eq take_bit_nat_eq_self_iff)

lemma handles_alloc_spec:
  assumes ok: "handles_ok h" and av: "handle_available h" and s: "s \<noteq> NO_SLOT"
  shows "\<exists>fh h'. handles_alloc h s = Some (fh, h') \<and> handles_ok h' \<and> handles_get h fh = None \<and>
    handles_get h' = (handles_get h)(fh \<mapsto> s) \<and>
    (\<forall>u. u \<noteq> NO_SLOT \<longrightarrow> count_list (h_slot h') u = count_list (h_slot h) u + (if u = s then 1 else 0))"
proof (cases "h_free h = []")
  case False
  then obtain fs f where fs: "h_free h = fs @ [f]" by (metis rev_exhaust)
  have f: "unat f < length (h_slot h)" "h_slot h ! unat f = NO_SLOT" using ok fs by (auto simp: handles_ok_def)
  define h' where "h' = h\<lparr>h_slot := (h_slot h)[unat f := s], h_free := fs\<rparr>"
  have a: "handles_alloc h s = Some (ucast f, h')"
    using fs f by (simp add: handles_alloc_def Let_def h'_def)
  have u: "unat (ucast f :: u64) = unat f" by (rule unat_ucast_u32)
  have "f \<notin> set fs" using ok fs by (simp add: handles_ok_def)
  then have "unat f \<noteq> unat g" if "g \<in> set fs" for g using that by (metis word_unat_eq_iff)
  then have "handles_ok h'"
    using ok fs f by (auto simp: handles_ok_def h'_def nth_list_update)
  moreover have "handles_get h' = (handles_get h)(ucast f \<mapsto> s)"
    using f s u by (auto simp: fun_eq_iff handles_get_def h'_def idx_def nth_list_update word_unat_eq_iff)
  moreover have "handles_get h (ucast f) = None" using f u by (simp add: handles_get_def)
  moreover have "\<forall>v. v \<noteq> NO_SLOT \<longrightarrow> count_list (h_slot h') v = count_list (h_slot h) v + (if v = s then 1 else 0)"
    using f by (auto simp: h'_def count_list_update)
  ultimately show ?thesis using a by blast
next
  case True
  define h' where "h' = h\<lparr>h_slot := h_slot h @ [s]\<rparr>"
  have len: "length (h_slot h) < 2 ^ 32" using av True by (simp add: handle_available_def)
  define fh where "fh = (of_nat (length (h_slot h)) :: u64)"
  have u: "unat fh = length (h_slot h)" using len by (simp add: fh_def unat_of_nat)
  have a: "handles_alloc h s = Some (fh, h')"
    using True by (simp add: handles_alloc_def Let_def h'_def fh_def)
  have "handles_ok h'" using ok True len by (auto simp: handles_ok_def h'_def)
  moreover have "handles_get h' = (handles_get h)(fh \<mapsto> s)"
    using s u by (auto simp: fun_eq_iff handles_get_def h'_def idx_def nth_append word_unat_eq_iff)
  moreover have "handles_get h fh = None" using u by (simp add: handles_get_def idx_def)
  moreover have "\<forall>v. v \<noteq> NO_SLOT \<longrightarrow> count_list (h_slot h') v = count_list (h_slot h) v + (if v = s then 1 else 0)"
    by (auto simp: h'_def)
  ultimately show ?thesis using a by blast
qed

lemma handles_release_None: "handles_get h fh = None \<Longrightarrow> handles_release h fh = (None, h)"
  by (simp add: handles_release_def)

lemma handles_release_spec:
  assumes ok: "handles_ok h" and g: "handles_get h fh = Some s"
  shows "\<exists>h'. handles_release h fh = (Some s, h') \<and> handles_ok h' \<and>
    handles_get h' = (handles_get h)(fh := None) \<and> handle_available h' \<and>
    (\<forall>u. u \<noteq> NO_SLOT \<longrightarrow> count_list (h_slot h') u = count_list (h_slot h) u - (if u = s then 1 else 0)) \<and>
    0 < count_list (h_slot h) s"
proof -
  have f: "unat fh < length (h_slot h)" "h_slot h ! unat fh = s" "s \<noteq> NO_SLOT"
    using g by (auto simp: handles_get_def idx_def split: if_splits)
  then have small: "unat fh < 2 ^ 32" using ok by (auto simp: handles_ok_def)
  note u = ucast_ucast_fh[OF small]
  define h' where "h' = h\<lparr>h_slot := (h_slot h)[unat fh := NO_SLOT], h_free := h_free h @ [ucast fh]\<rparr>"
  have r: "handles_release h fh = (Some s, h')" using g by (simp add: handles_release_def h'_def)
  have notin: "unat x \<noteq> unat fh" if "x \<in> set (h_free h)" for x
    using that ok f by (auto simp: handles_ok_def)
  then have "ucast fh \<notin> set (h_free h)" using u by metis
  then have "handles_ok h'"
    using ok f u notin by (auto simp: handles_ok_def h'_def nth_list_update)
  moreover have "handles_get h' = (handles_get h)(fh := None)"
    using f by (auto simp: fun_eq_iff handles_get_def h'_def idx_def nth_list_update word_unat_eq_iff)
  moreover have "\<forall>v. v \<noteq> NO_SLOT \<longrightarrow> count_list (h_slot h') v = count_list (h_slot h) v - (if v = s then 1 else 0)"
    using f by (auto simp: h'_def count_list_update)
  moreover have "0 < count_list (h_slot h) s"
    using f by (metis count_list_0_iff neq0_conv nth_mem)
  ultimately show ?thesis using r by (auto simp: h'_def handle_available_def)
qed

lemma handles_default_ok: "handles_ok handles_default" "handles_get handles_default fh = None"
  by (simp_all add: handles_ok_def handles_default_def handles_get_def idx_def)

section \<open>Contracts\<close>

text \<open>The handle table: a finite map with allocation of unused keys. This is what the data path
  relies on when it turns a FUSE file handle into a slot.\<close>

locale handle_map =
  fixes ok :: "'h \<Rightarrow> bool" and room :: "'h \<Rightarrow> bool" and valid :: "'s \<Rightarrow> bool"
    and get :: "'h \<Rightarrow> 'k \<Rightarrow> 's option" and new :: "'h \<Rightarrow> 's \<Rightarrow> ('k \<times> 'h) option"
    and drop_key :: "'h \<Rightarrow> 'k \<Rightarrow> 's option \<times> 'h"
  assumes new_ok: "ok h \<Longrightarrow> room h \<Longrightarrow> valid s \<Longrightarrow>
      \<exists>k h'. new h s = Some (k, h') \<and> ok h' \<and> get h k = None \<and> get h' = (get h)(k \<mapsto> s)"
    and drop_none: "get h k = None \<Longrightarrow> drop_key h k = (None, h)"
    and drop_some: "ok h \<Longrightarrow> get h k = Some s \<Longrightarrow>
      \<exists>h'. drop_key h k = (Some s, h') \<and> ok h' \<and> room h' \<and> get h' = (get h)(k := None)"
begin

lemma new_then_drop:
  assumes "ok h" and "room h" and "valid s" and "new h s = Some (k, h1)"
  shows "\<exists>h2. drop_key h1 k = (Some s, h2) \<and> ok h2 \<and> get h2 = get h \<and> drop_key h2 k = (None, h2)"
proof -
  have h1: "ok h1" "get h k = None" "get h1 = (get h)(k \<mapsto> s)" using new_ok[OF assms(1-3)] assms(4) by auto
  then obtain h2 where h2: "drop_key h1 k = (Some s, h2)" "ok h2" "get h2 = (get h1)(k := None)"
    using drop_some[OF h1(1), of k s] by auto
  then have "get h2 = get h" using h1 by (simp add: fun_upd_idem_iff)
  with h1(2) h2 drop_none[of h2 k] show ?thesis by simp
qed

end

interpretation fh: handle_map handles_ok handle_available "\<lambda>s. s \<noteq> NO_SLOT" handles_get handles_alloc handles_release
proof (unfold_locales, goal_cases)
  case (1 h s) then show ?case using handles_alloc_spec[of h s] by blast
next
  case (2 h k) then show ?case by (rule handles_release_None)
next
  case (3 h k s) then show ?case using handles_release_spec[of h k s] by blast
qed

text \<open>C39. A handle returned by the handle table was not in use, resolves to its slot until it is
  released, resolves to nothing afterwards, and releasing it a second time is refused; every
  other handle is unaffected.\<close>

theorem handle_lifecycle:
  assumes "handles_ok h" and "handle_available h" and "s \<noteq> NO_SLOT"
  shows "\<exists>k h1 h2. handles_alloc h s = Some (k, h1) \<and> handles_get h k = None \<and>
    handles_get h1 = (handles_get h)(k \<mapsto> s) \<and> handles_release h1 k = (Some s, h2) \<and>
    handles_get h2 = handles_get h \<and> handles_release h2 k = (None, h2)"
  using fh.new_ok[OF assms] fh.new_then_drop[OF assms] by blast

theorem handle_lifecycle_witness:
  "handles_ok handles_default \<and> handle_available handles_default \<and> (7 :: u32) \<noteq> NO_SLOT \<and>
   (\<exists>k h1 h2. handles_alloc handles_default 7 = Some (k, h1) \<and> handles_get handles_default k = None \<and>
     handles_get h1 = (handles_get handles_default)(k \<mapsto> 7) \<and> handles_release h1 k = (Some 7, h2) \<and>
     handles_get h2 = handles_get handles_default \<and> handles_release h2 k = (None, h2))"
proof -
  have a: "handles_ok handles_default" by (rule handles_default_ok)
  have b: "handle_available handles_default" by (simp add: handle_available_def handles_default_def)
  have c: "(7 :: u32) \<noteq> NO_SLOT" by (simp add: NO_SLOT_def)
  show ?thesis using a b c handle_lifecycle[OF a b c] by blast
qed

text \<open>The open-inode table: a finite map from inode numbers to slots, where a new slot starts in
  a given initial state and the others keep theirs. The FUSE layer relies on it when it opens,
  creates and forgets inodes.\<close>

locale slot_map =
  fixes ok :: "'t \<Rightarrow> bool" and room :: "'t \<Rightarrow> bool" and find :: "'t \<Rightarrow> 'k \<Rightarrow> 's option"
    and state :: "'t \<Rightarrow> 's \<Rightarrow> 'e" and clean :: "'t \<Rightarrow> 's \<Rightarrow> bool" and start :: "'k \<Rightarrow> 'x \<Rightarrow> 'e"
    and new :: "'t \<Rightarrow> 'k \<Rightarrow> 'x \<Rightarrow> ('s \<times> 't) option" and forget :: "'t \<Rightarrow> 's \<Rightarrow> 't option"
  assumes new_ok: "ok t \<Longrightarrow> room t \<Longrightarrow> find t k = None \<Longrightarrow>
      \<exists>s t'. new t k x = Some (s, t') \<and> ok t' \<and> find t' = (find t)(k \<mapsto> s) \<and> state t' s = start k x \<and>
        (\<forall>k' s'. find t k' = Some s' \<longrightarrow> s' \<noteq> s \<and> state t' s' = state t s')"
    and start_clean: "ok t \<Longrightarrow> find t k = Some s \<Longrightarrow> state t s = start k x \<Longrightarrow> clean t s"
    and forget_ok: "ok t \<Longrightarrow> find t k = Some s \<Longrightarrow> clean t s \<Longrightarrow>
      \<exists>t'. forget t s = Some t' \<and> ok t' \<and> room t' \<and> find t' = (find t)(k := None) \<and>
        (\<forall>k' s'. find t' k' = Some s' \<longrightarrow> state t' s' = state t s')"
begin

lemma new_then_forget:
  assumes "ok t" and "room t" and "find t k = None"
  shows "\<exists>s t1 t2. new t k x = Some (s, t1) \<and> forget t1 s = Some t2 \<and> ok t2 \<and> room t2 \<and>
    find t2 = find t \<and> (\<forall>k' s'. find t k' = Some s' \<longrightarrow> state t2 s' = state t s')"
proof -
  obtain s t1 where t1: "new t k x = Some (s, t1)" "ok t1" "find t1 = (find t)(k \<mapsto> s)"
    "state t1 s = start k x" "\<forall>k' s'. find t k' = Some s' \<longrightarrow> s' \<noteq> s \<and> state t1 s' = state t s'"
    using new_ok[OF assms] by blast
  then have "clean t1 s" using start_clean[of t1 k s x] by simp
  then obtain t2 where t2: "forget t1 s = Some t2" "ok t2" "room t2" "find t2 = (find t1)(k := None)"
    "\<forall>k' s'. find t2 k' = Some s' \<longrightarrow> state t2 s' = state t1 s'"
    using forget_ok[OF t1(2), of k s] t1(3) by auto
  have f: "find t2 = find t" using t1(3) t2(4) assms(3) by (simp add: fun_upd_idem_iff)
  have "state t2 s' = state t s'" if "find t k' = Some s'" for k' s'
    using that t1(5) t2(5) f by metis
  with t1 t2 f show ?thesis by blast
qed

end

interpretation open_slots: slot_map inodes_ok slot_available inodes_find entry
  "\<lambda>t s. oi_dirty t ! unat s = []" "\<lambda>ino (kind, sz). (ino, kind, sz, epoch, 0, False, [])"
  "\<lambda>t ino (kind, sz). inodes_insert t ino kind sz" inodes_remove
proof (unfold_locales, goal_cases)
  case (1 t k x)
  obtain kind sz where x: "x = (kind, sz)" by (cases x)
  obtain s t' where t': "inodes_insert t k kind sz = Some (s, t')" "inserted t k kind sz s t'"
    using inodes_insert_spec[OF 1(1,3,2)] by blast
  have "s' \<noteq> s \<and> entry t' s' = entry t s'" if "inodes_find t k' = Some s'" for k' s'
    using find_live(1)[OF 1(1) that] t'(2) by (auto simp: inserted_def)
  then show ?case using t' inserted_find[OF t'(2)] x by (auto simp: inserted_def)
next
  case (2 t k s x) then show ?case by (cases x) (simp add: entry_def)
next
  case (3 t k s)
  note l = find_live[OF 3(1,2)]
  obtain t' where t': "inodes_remove t s = Some t'" "inodes_ok t'" "slot_available t'"
    "inodes_find t' = (inodes_find t)(oi_ino t ! unat s := None)" "\<forall>u \<in> live t'. entry t' u = entry t u"
    using inodes_remove_spec[OF 3(1) l(1) 3(3)] by blast
  then show ?case using l(2) find_live(1)[OF t'(2)] by blast
qed

text \<open>C40. Freed slots are reused without stale state: a new slot for an inode holds exactly the
  given kind and size, no handles, no unlinked mark and no dirty data, whichever slot it is;
  forgetting it again restores the map from inodes to slots and the state of every other
  inode.\<close>

theorem slot_reuse_fresh:
  assumes "inodes_ok t" and "slot_available t" and "inodes_find t ino = None"
  shows "\<exists>s t1 t2. inodes_insert t ino kind sz = Some (s, t1) \<and>
    inodes_find t1 ino = Some s \<and> entry t1 s = (ino, kind, sz, epoch, 0, False, []) \<and>
    inodes_remove t1 s = Some t2 \<and> inodes_find t2 = inodes_find t \<and>
    (\<forall>k' s'. inodes_find t k' = Some s' \<longrightarrow> entry t1 s' = entry t s' \<and> entry t2 s' = entry t s')"
  using open_slots.new_ok[OF assms, of "(kind, sz)"] open_slots.new_then_forget[OF assms, of "(kind, sz)"]
  by auto

lemma inodes_default_ok: "visits_all order \<Longrightarrow> inodes_ok (inodes_default order)"
  by (simp add: inodes_ok_def inodes_default_def columns_ok_def live_def)

lemma visits_all_id: "visits_all (\<lambda>es. es)"
  by (simp add: visits_all_def)

theorem slot_reuse_fresh_witness:
  "inodes_ok (inodes_default (\<lambda>es. es)) \<and> slot_available (inodes_default (\<lambda>es. es)) \<and>
   inodes_find (inodes_default (\<lambda>es. es)) 10 = None \<and>
   (\<exists>s t1 t2. inodes_insert (inodes_default (\<lambda>es. es)) 10 RegularFile 5 = Some (s, t1) \<and>
     inodes_find t1 10 = Some s \<and> entry t1 s = (10, RegularFile, 5, epoch, 0, False, []) \<and>
     inodes_remove t1 s = Some t2 \<and> inodes_find t2 = inodes_find (inodes_default (\<lambda>es. es)))"
proof -
  let ?t = "inodes_default (\<lambda>es. es)"
  have a: "inodes_ok ?t" by (rule inodes_default_ok[OF visits_all_id])
  have b: "slot_available ?t" by (simp add: slot_available_def inodes_default_def)
  have c: "inodes_find ?t 10 = None" by (simp add: inodes_find_def inodes_default_def)
  show ?thesis using a b c slot_reuse_fresh[OF a b c, of RegularFile 5] by blast
qed

text \<open>When the write buffer is full, the inode chosen for eviction is a live one with unflushed
  chunks, and no live inode has more; none is chosen exactly when nothing is dirty. This holds
  for every iteration order of the hash map.\<close>

theorem eviction_victim_is_largest:
  assumes "inodes_ok t"
  shows "case largest_dirty t of
      None \<Rightarrow> False
    | Some None \<Rightarrow> \<forall>s \<in> live t. oi_dirty t ! unat s = []
    | Some (Some s) \<Rightarrow> s \<in> live t \<and> oi_dirty t ! unat s \<noteq> [] \<and>
        (\<forall>u \<in> live t. length (oi_dirty t ! unat u) \<le> length (oi_dirty t ! unat s))"
  using assms by (rule largest_dirty_spec)

definition two_dirty :: OpenInodes where
  "two_dirty = \<lparr>oi_ino = [10, 20], oi_kind = [RegularFile, RegularFile], oi_size = [4, 4],
     oi_mtime = [epoch, epoch], oi_refs = [1, 1], oi_unlinked = [False, False],
     oi_dirty = [[(0, 3)], [(0, 1), (2, 2)]], by_ino = [(20, 1), (10, 0)],
     by_ino_order = (\<lambda>es. es), oi_free = []\<rparr>"

theorem eviction_victim_is_largest_witness:
  "inodes_ok two_dirty \<and> largest_dirty two_dirty = Some (Some 1) \<and> 1 \<in> live two_dirty \<and>
   0 \<in> live two_dirty \<and> length (oi_dirty two_dirty ! unat (0 :: u32)) \<le> length (oi_dirty two_dirty ! unat (1 :: u32))"
proof -
  have a: "inodes_ok two_dirty"
    by (simp add: two_dirty_def inodes_ok_def columns_ok_def visits_all_def live_def)
  have b: "largest_dirty two_dirty = Some (Some 1)"
    by (simp add: two_dirty_def largest_dirty_def live_slots_def dirty_is_empty_def dirty_len_def)
  have "1 \<in> live two_dirty \<and> (\<forall>u \<in> live two_dirty.
      length (oi_dirty two_dirty ! unat u) \<le> length (oi_dirty two_dirty ! unat (1 :: u32)))"
    using eviction_victim_is_largest[OF a] by (simp add: b)
  moreover have "0 \<in> live two_dirty" by (simp add: live_def two_dirty_def)
  ultimately show ?thesis using a b by blast
qed

end
