(* ===== verification/Tables.thy ===== *)
theory Tables
  imports Open_Table "HOL-Library.List_Lexorder"
begin

text \<open>
  The SQLite tables of the storage layer and the SQL statements that \<^verbatim>\<open>src/src/db.rs\<close> runs on
  them. SQL is read as a language: a table is its rows in row id order, and each statement is a
  function on the tables. What SQLite itself decides is a parameter: the row id of an inserted
  row (\<open>new_rowid\<close>) and the failures it reports (\<open>faults\<close>, one entry per statement scope, \<open>None\<close>
  when nothing fails). A failed transaction leaves the tables as they were.
\<close>

section \<open>Row id tables\<close>

type_synonym 'r table = "(i64 \<times> 'r) list"

definition tbl_ok :: "'r table \<Rightarrow> bool" where
  "tbl_ok t \<longleftrightarrow> sorted_wrt (<) (map fst t)"

fun tbl_put :: "i64 \<Rightarrow> 'r \<Rightarrow> 'r table \<Rightarrow> 'r table" where
  "tbl_put k r [] = [(k, r)]"
| "tbl_put k r ((i, x) # t) =
     (if k < i then (k, r) # (i, x) # t else if k = i then (k, r) # t else (i, x) # tbl_put k r t)"

definition tbl_update :: "i64 \<Rightarrow> ('r \<Rightarrow> 'r) \<Rightarrow> 'r table \<Rightarrow> 'r table" where
  "tbl_update k f t = map (\<lambda>(i, r). (i, if i = k then f r else r)) t"

definition tbl_delete :: "(i64 \<Rightarrow> 'r \<Rightarrow> bool) \<Rightarrow> 'r table \<Rightarrow> 'r table" where
  "tbl_delete P t = filter (\<lambda>(i, r). \<not> P i r) t"

named_theorems tbl_simps \<open>lookup laws of row id tables\<close>

lemma map_of_tbl_put [tbl_simps]: "map_of (tbl_put k r t) = (map_of t)(k \<mapsto> r)"
  by (induction t) (auto simp: fun_eq_iff)

lemma set_tbl_put_keys: "fst ` set (tbl_put k r t) = insert k (fst ` set t)"
  by (induction k r t rule: tbl_put.induct) auto

lemma tbl_ok_put: "tbl_ok t \<Longrightarrow> tbl_ok (tbl_put k r t)"
proof (induction t)
  case (Cons x t)
  have "\<forall>y \<in> set (tbl_put k r t). fst x < fst y" if "fst x < k"
  proof -
    have "\<forall>y \<in> fst ` set (tbl_put k r t). fst x < y"
      using Cons.prems that unfolding set_tbl_put_keys by (auto simp: tbl_ok_def)
    then show ?thesis by simp
  qed
  with Cons show ?case by (cases x) (auto simp: tbl_ok_def intro: less_trans)
qed (simp add: tbl_ok_def)

lemma map_of_tbl_update [tbl_simps]:
  "map_of (tbl_update k f t) = (\<lambda>i. if i = k then map_option f (map_of t i) else map_of t i)"
  by (induction t) (auto simp: tbl_update_def fun_eq_iff)

lemma map_fst_tbl_update [simp]: "map fst (tbl_update k f t) = map fst t"
  by (simp add: tbl_update_def comp_def case_prod_beta)

lemma tbl_ok_update [simp]: "tbl_ok (tbl_update k f t) = tbl_ok t"
  by (simp add: tbl_ok_def)

lemma tbl_ok_distinct: "tbl_ok t \<Longrightarrow> distinct (map fst t)"
  by (simp add: tbl_ok_def strict_sorted_iff)

lemma tbl_ok_delete: "tbl_ok t \<Longrightarrow> tbl_ok (tbl_delete P t)"
  by (simp add: tbl_ok_def tbl_delete_def sorted_wrt_map sorted_wrt_filter)

lemma map_of_tbl_delete [tbl_simps]:
  assumes "tbl_ok t"
  shows "map_of (tbl_delete P t) k =
    (case map_of t k of None \<Rightarrow> None | Some r \<Rightarrow> if P k r then None else Some r)"
  using tbl_ok_distinct[OF assms]
proof (induction t)
  case (Cons x t)
  have "fst x \<notin> fst ` set t" using Cons.prems by simp
  then have "map_of t (fst x) = None" by (simp add: map_of_eq_None_iff)
  with Cons show ?case by (cases x) (auto simp: tbl_delete_def split: option.splits)
qed (simp add: tbl_delete_def)

lemma set_tbl_delete: "set (tbl_delete P t) = {(i, r) \<in> set t. \<not> P i r}"
  by (auto simp: tbl_delete_def)

lemma set_tbl_update: "set (tbl_update k f t) = (\<lambda>(i, r). (i, if i = k then f r else r)) ` set t"
  by (simp add: tbl_update_def)

lemma set_tbl_put_fresh: "k \<notin> fst ` set t \<Longrightarrow> set (tbl_put k r t) = insert (k, r) (set t)"
  by (induction k r t rule: tbl_put.induct) auto

section \<open>The schema\<close>

record inode_row =
  r_kind :: i64
  r_mode :: i64
  r_uid :: i64
  r_gid :: i64
  r_size :: i64
  r_atime_ns :: i64
  r_mtime_ns :: i64
  r_ctime_ns :: i64
  r_nlink :: i64

record dirent_row =
  d_parent :: i64
  d_name :: bytes
  d_child :: i64

record tables =
  t_inodes :: "inode_row table"
  t_dirents :: "dirent_row table"
  t_chunks :: "bytes table"
  t_symlinks :: "bytes table"

text \<open>The connection: the committed tables, and SQLite's own decisions.\<close>

record Db =
  tabs :: tables
  faults :: "SqlError option list"
  new_rowid :: "i64 list \<Rightarrow> i64 option"

text \<open>What SQLite documents of the row id it picks for an \<^verbatim>\<open>INTEGER PRIMARY KEY\<close> column: an
  unused one, positive as long as the others are.\<close>

definition rowids_fresh :: "(i64 list \<Rightarrow> i64 option) \<Rightarrow> bool" where
  "rowids_fresh pick \<longleftrightarrow>
     (\<forall>ks k. pick ks = Some k \<longrightarrow> k \<notin> set ks \<and> in_i64 k \<and> ((\<forall>j \<in> set ks. 0 < j) \<longrightarrow> 0 < k))"

text \<open>The documented choice: one more than the largest row id in use.\<close>

definition sqlite_rowid :: "i64 list \<Rightarrow> i64 option" where
  "sqlite_rowid ks =
     (let m = fold max ks 0 in if m < i64_MAX then Some (m + 1) else None)"

lemma fold_max_ge: "(x :: int) \<le> fold max ks x \<and> (\<forall>k \<in> set ks. k \<le> fold max ks x)"
proof (induction ks arbitrary: x)
  case (Cons k ks)
  have "max k x \<le> fold max ks (max k x)" using Cons by blast
  then show ?case using Cons[of "max k x"] by auto
qed simp

lemma sqlite_rowid_fresh: "rowids_fresh sqlite_rowid"
proof -
  have "k \<notin> set ks \<and> in_i64 k \<and> 0 < k" if "sqlite_rowid ks = Some k" for ks k
    using that fold_max_ge[of 0 ks]
    by (force simp: sqlite_rowid_def Let_def in_i64_def i64_MIN_def i64_MAX_def split: if_splits)
  then show ?thesis by (auto simp: rowids_fresh_def)
qed

section \<open>Statement scopes\<close>

definition pop_fault :: "Db \<Rightarrow> SqlError option \<times> Db" where
  "pop_fault db = (case faults db of [] \<Rightarrow> (None, db) | f # fs \<Rightarrow> (f, db\<lparr>faults := fs\<rparr>))"

definition query :: "Db \<Rightarrow> (tables \<Rightarrow> DbError + 'a) \<Rightarrow> (DbError + 'a) \<times> Db" where
  "query db body =
     (case pop_fault db of
        (Some e, db) \<Rightarrow> (Inl (from_sql_error e), db)
      | (None, db) \<Rightarrow> (body (tabs db), db))"

definition transaction :: "Db \<Rightarrow> (tables \<Rightarrow> DbError + 'a \<times> tables) \<Rightarrow> (DbError + 'a) \<times> Db" where
  "transaction db body =
     (case pop_fault db of
        (Some e, db) \<Rightarrow> (Inl (from_sql_error e), db)
      | (None, db) \<Rightarrow>
          (case body (tabs db) of
             Inl e \<Rightarrow> (Inl e, db)
           | Inr (a, t) \<Rightarrow> (Inr a, db\<lparr>tabs := t\<rparr>)))"

text \<open>A transaction whose body can panic; the panic unwinds before the commit.\<close>

definition try_transaction :: "Db \<Rightarrow> (tables \<Rightarrow> (DbError + 'a \<times> tables) option) \<Rightarrow>
    ((DbError + 'a) \<times> Db) option" where
  "try_transaction db body =
     (case pop_fault db of
        (Some e, db) \<Rightarrow> Some (Inl (from_sql_error e), db)
      | (None, db) \<Rightarrow>
          (case body (tabs db) of
             None \<Rightarrow> None
           | Some (Inl e) \<Rightarrow> Some (Inl e, db)
           | Some (Inr (a, t)) \<Rightarrow> Some (Inr a, db\<lparr>tabs := t\<rparr>)))"

text \<open>One statement outside a transaction commits on its own.\<close>

definition execute :: "Db \<Rightarrow> (tables \<Rightarrow> tables) \<Rightarrow> (DbError + unit) \<times> Db" where
  "execute db stmt = transaction db (\<lambda>t. Inr ((), stmt t))"

lemma pop_fault_frame: "pop_fault db = (f, db') \<Longrightarrow> tabs db' = tabs db \<and> new_rowid db' = new_rowid db"
  by (auto simp: pop_fault_def split: list.splits)

text \<open>Reading never changes the tables; a transaction changes them only by committing.\<close>

lemma query_frame: "query db q = (r, db') \<Longrightarrow> tabs db' = tabs db \<and> new_rowid db' = new_rowid db"
  by (auto simp: query_def split: prod.splits option.splits dest: pop_fault_frame)

lemma query_Inr: "query db q = (Inr a, db') \<Longrightarrow> q (tabs db) = Inr a"
  by (auto simp: query_def split: prod.splits option.splits dest: pop_fault_frame)

lemma transaction_Inr:
  "transaction db body = (Inr a, db') \<Longrightarrow> body (tabs db) = Inr (a, tabs db') \<and> new_rowid db' = new_rowid db"
  by (auto simp: transaction_def split: prod.splits option.splits sum.splits dest: pop_fault_frame)

lemma transaction_Inl:
  "transaction db body = (Inl e, db') \<Longrightarrow> tabs db' = tabs db \<and> new_rowid db' = new_rowid db"
  by (auto simp: transaction_def split: prod.splits option.splits sum.splits dest: pop_fault_frame)

lemma try_transaction_Some:
  assumes "try_transaction db body = Some (r, db')"
  shows "new_rowid db' = new_rowid db \<and>
    (case r of Inl e \<Rightarrow> tabs db' = tabs db | Inr a \<Rightarrow> body (tabs db) = Some (Inr (a, tabs db')))"
  using assms
  by (auto simp: try_transaction_def split: prod.splits option.splits sum.splits dest: pop_fault_frame)

lemma try_transaction_no_panic:
  "body (tabs db) \<noteq> None \<Longrightarrow> \<exists>r. try_transaction db body = Some r"
  by (auto simp: try_transaction_def split: prod.splits option.splits sum.splits dest: pop_fault_frame)

lemma try_transaction_commits:
  assumes "body (tabs db) = Some (Inr (a, t))"
  shows "\<exists>r db'. try_transaction db body = Some (r, db') \<and> new_rowid db' = new_rowid db \<and>
    (faults db = [] \<longrightarrow> faults db' = []) \<and>
    (case r of Inl e \<Rightarrow> tabs db' = tabs db \<and> faults db \<noteq> [] | Inr x \<Rightarrow> x = a \<and> tabs db' = t)"
  using assms by (auto simp: try_transaction_def pop_fault_def split: list.splits option.splits)

lemma transaction_commits:
  assumes "body (tabs db) = Inr (a, t)"
  shows "\<exists>r db'. transaction db body = (r, db') \<and> new_rowid db' = new_rowid db \<and>
    (faults db = [] \<longrightarrow> faults db' = []) \<and>
    (case r of Inl e \<Rightarrow> tabs db' = tabs db \<and> faults db \<noteq> [] | Inr x \<Rightarrow> x = a \<and> tabs db' = t)"
  using assms by (auto simp: transaction_def pop_fault_def split: list.splits option.splits)

lemma execute_tabs:
  "execute db stmt = (r, db') \<Longrightarrow> new_rowid db' = new_rowid db \<and>
    (case r of Inl e \<Rightarrow> tabs db' = tabs db | Inr _ \<Rightarrow> tabs db' = stmt (tabs db))"
  by (auto simp: execute_def split: sum.splits dest!: transaction_Inr transaction_Inl)

lemma query_no_fault: "faults db = [] \<Longrightarrow> query db q = (q (tabs db), db)"
  by (simp add: query_def pop_fault_def)

lemma transaction_no_fault:
  "faults db = [] \<Longrightarrow> transaction db body =
    (case body (tabs db) of Inl e \<Rightarrow> (Inl e, db) | Inr (a, t) \<Rightarrow> (Inr a, db\<lparr>tabs := t\<rparr>))"
  by (simp add: transaction_def pop_fault_def)

end
