(* ===== verification/Storage.thy ===== *)
theory Storage
  imports Tables
begin

text \<open>
  The storage layer \<^verbatim>\<open>Db\<close> of \<^verbatim>\<open>src/src/db.rs\<close>: one definition per method, in the order of the
  source. \<open>now\<close> arguments are the values that \<^verbatim>\<open>now_ts()\<close> returns inside the method. Methods
  that slice buffers have an \<open>option\<close> result (\<open>None\<close> for a panic), and so do the two that follow
  parent links, \<open>is_descendant\<close> and \<open>rename_entry\<close>, where \<open>None\<close> also stands for a loop that never
  ends.
\<close>

section \<open>Rows and statements\<close>

definition NAME_MAX :: usize where "NAME_MAX = 255"

definition check_name :: "bytes \<Rightarrow> DbError + unit" where
  "check_name name = (if NAME_MAX < length name then Inl NameTooLong else Inr ())"

definition inode_from_row :: "i64 \<Rightarrow> inode_row \<Rightarrow> SqlError + Inode" where
  "inode_from_row ino row =
     (case kind_from_i64 (r_kind row) of
        Inl _ \<Rightarrow> Inl (FromSqlConversionFailure 1)
      | Inr kind \<Rightarrow> Inr
          \<lparr>i_ino = u64_of_i64 ino, i_kind = kind, i_mode = u32_of_i64 (r_mode row),
           i_uid = u32_of_i64 (r_uid row), i_gid = u32_of_i64 (r_gid row),
           i_size = u64_of_i64 (r_size row), i_atime = from_ns (r_atime_ns row),
           i_mtime = from_ns (r_mtime_ns row), i_ctime = from_ns (r_ctime_ns row),
           i_nlink = u32_of_i64 (r_nlink row)\<rparr>)"

definition sql_result :: "SqlError + 'a \<Rightarrow> DbError + 'a" where
  "sql_result r = map_sum from_sql_error id r"

definition set_size :: "tables \<Rightarrow> u64 \<Rightarrow> u64 \<Rightarrow> Timestamp \<Rightarrow> tables" where
  "set_size t ino sz modified = t\<lparr>t_inodes := tbl_update (i64_of_u64 ino)
     (\<lambda>r. r\<lparr>r_size := i64_of_u64 sz, r_mtime_ns := to_ns modified, r_ctime_ns := to_ns modified\<rparr>) (t_inodes t)\<rparr>"

definition touch_dir :: "tables \<Rightarrow> u64 \<Rightarrow> Timestamp \<Rightarrow> tables" where
  "touch_dir t ino now = t\<lparr>t_inodes := tbl_update (i64_of_u64 ino)
     (\<lambda>r. r\<lparr>r_mtime_ns := to_ns now, r_ctime_ns := to_ns now\<rparr>) (t_inodes t)\<rparr>"

definition add_directory_nlink :: "tables \<Rightarrow> u64 \<Rightarrow> i64 \<Rightarrow> tables" where
  "add_directory_nlink t ino delta = t\<lparr>t_inodes := tbl_update (i64_of_u64 ino)
     (\<lambda>r. r\<lparr>r_nlink := r_nlink r + delta\<rparr>) (t_inodes t)\<rparr>"

definition set_nlink :: "tables \<Rightarrow> u64 \<Rightarrow> u32 \<Rightarrow> Timestamp \<Rightarrow> tables" where
  "set_nlink t ino nlink now = t\<lparr>t_inodes := tbl_update (i64_of_u64 ino)
     (\<lambda>r. r\<lparr>r_nlink := i64_of_u32 nlink, r_ctime_ns := to_ns now\<rparr>) (t_inodes t)\<rparr>"

text \<open>\<^verbatim>\<open>DELETE FROM file_chunks\<close> over the chunk range of an inode, and \<^verbatim>\<open>DELETE FROM inodes\<close>, which
  cascades to the entries that name the inode as parent or child and to its symlink target.\<close>

definition delete_chunk_range :: "tables \<Rightarrow> u64 \<Rightarrow> tables" where
  "delete_chunk_range t ino =
     (let (first_key, last_key) = chunk_keys ino in
      t\<lparr>t_chunks := tbl_delete (\<lambda>key _. first_key \<le> key \<and> key \<le> last_key) (t_chunks t)\<rparr>)"

definition delete_inode_row :: "tables \<Rightarrow> u64 \<Rightarrow> tables" where
  "delete_inode_row t ino =
     (let i = i64_of_u64 ino in
      t\<lparr>t_inodes := tbl_delete (\<lambda>k _. k = i) (t_inodes t),
        t_dirents := tbl_delete (\<lambda>_ d. d_parent d = i \<or> d_child d = i) (t_dirents t),
        t_symlinks := tbl_delete (\<lambda>k _. k = i) (t_symlinks t)\<rparr>)"

definition delete_inode_rows :: "tables \<Rightarrow> u64 \<Rightarrow> tables" where
  "delete_inode_rows t ino = delete_inode_row (delete_chunk_range t ino) ino"

definition drop_unlinked_inode :: "tables \<Rightarrow> Inode \<Rightarrow> Timestamp \<Rightarrow> bool \<Rightarrow> tables" where
  "drop_unlinked_inode t target now is_open =
     (if i_kind target = Directory then delete_inode_rows t (i_ino target)
      else if 1 < i_nlink target \<or> is_open then
        let nlink = (if i_nlink target = 0 then 0 else i_nlink target - 1)
        in set_nlink t (i_ino target) nlink now
      else delete_inode_rows t (i_ino target))"

definition full_error :: SqlError where
  "full_error = SqliteFailure DiskFull SQLITE_FULL None"

definition unique_error :: SqlError where
  "unique_error = SqliteFailure ConstraintViolation SQLITE_CONSTRAINT_UNIQUE None"

definition primary_key_error :: SqlError where
  "primary_key_error = SqliteFailure ConstraintViolation SQLITE_CONSTRAINT_PRIMARYKEY None"

definition foreign_key_error :: SqlError where
  "foreign_key_error = SqliteFailure ConstraintViolation SQLITE_CONSTRAINT_FOREIGNKEY
     (Some ''FOREIGN KEY constraint failed'')"

text \<open>\<^verbatim>\<open>INSERT INTO dirents\<close>: the unique index on \<open>(parent_ino, name)\<close> is checked as the row goes in,
  the foreign keys at the end of the statement.\<close>

definition insert_dirent :: "(i64 list \<Rightarrow> i64 option) \<Rightarrow> tables \<Rightarrow> u64 \<Rightarrow> bytes \<Rightarrow> u64 \<Rightarrow> DbError + tables" where
  "insert_dirent pick t parent_ino name child_ino =
     (let p = i64_of_u64 parent_ino; c = i64_of_u64 child_ino in
      case pick (map fst (t_dirents t)) of
        None \<Rightarrow> Inl (from_sql_error full_error)
      | Some rid \<Rightarrow>
          if list_ex (\<lambda>(_, d). d_parent d = p \<and> d_name d = name) (t_dirents t)
          then Inl (from_sql_error unique_error)
          else if map_of (t_inodes t) p = None \<or> map_of (t_inodes t) c = None
          then Inl (from_sql_error foreign_key_error)
          else Inr (t\<lparr>t_dirents := tbl_put rid \<lparr>d_parent = p, d_name = name, d_child = c\<rparr> (t_dirents t)\<rparr>))"

text \<open>\<^verbatim>\<open>INSERT INTO symlink_targets\<close>.\<close>

definition insert_symlink :: "tables \<Rightarrow> u64 \<Rightarrow> bytes \<Rightarrow> DbError + tables" where
  "insert_symlink t ino target =
     (let i = i64_of_u64 ino in
      if map_of (t_symlinks t) i \<noteq> None then Inl (from_sql_error primary_key_error)
      else if map_of (t_inodes t) i = None then Inl (from_sql_error foreign_key_error)
      else Inr (t\<lparr>t_symlinks := tbl_put i target (t_symlinks t)\<rparr>))"

definition delete_dirent :: "tables \<Rightarrow> u64 \<Rightarrow> bytes \<Rightarrow> tables" where
  "delete_dirent t parent_ino name =
     t\<lparr>t_dirents := tbl_delete (\<lambda>_ d. d_parent d = i64_of_u64 parent_ino \<and> d_name d = name) (t_dirents t)\<rparr>"

text \<open>\<^verbatim>\<open>UPDATE dirents SET parent_ino, name\<close> of the entry that \<^verbatim>\<open>rename\<close> moves.\<close>

definition move_dirent :: "tables \<Rightarrow> u64 \<Rightarrow> bytes \<Rightarrow> u64 \<Rightarrow> bytes \<Rightarrow> DbError + tables" where
  "move_dirent t parent_ino name new_parent_ino new_name =
     (let p = i64_of_u64 parent_ino; q = i64_of_u64 new_parent_ino;
          hit = (\<lambda>d. d_parent d = p \<and> d_name d = name) in
      if \<not> list_ex (\<lambda>(_, d). hit d) (t_dirents t) then Inr t
      else if list_ex (\<lambda>(_, d). \<not> hit d \<and> d_parent d = q \<and> d_name d = new_name) (t_dirents t)
      then Inl (from_sql_error unique_error)
      else if map_of (t_inodes t) q = None then Inl (from_sql_error foreign_key_error)
      else Inr (t\<lparr>t_dirents := map (\<lambda>(rid, d). (rid, if hit d then d\<lparr>d_parent := q, d_name := new_name\<rparr> else d))
                    (t_dirents t)\<rparr>))"

definition upsert_chunk :: "tables \<Rightarrow> i64 \<Rightarrow> bytes \<Rightarrow> tables" where
  "upsert_chunk t key data = t\<lparr>t_chunks := tbl_put key data (t_chunks t)\<rparr>"

section \<open>Reading inodes and entries\<close>

definition get_inode :: "Db \<Rightarrow> u64 \<Rightarrow> (DbError + Inode) \<times> Db" where
  "get_inode db ino = query db (\<lambda>t.
     case map_of (t_inodes t) (i64_of_u64 ino) of
       None \<Rightarrow> Inl (from_sql_error QueryReturnedNoRows)
     | Some row \<Rightarrow> sql_result (inode_from_row (i64_of_u64 ino) row))"

definition inode_head :: "Db \<Rightarrow> u64 \<Rightarrow> (DbError + FileKind \<times> u64) \<times> Db" where
  "inode_head db ino = query db (\<lambda>t.
     case map_of (t_inodes t) (i64_of_u64 ino) of
       None \<Rightarrow> Inl (from_sql_error QueryReturnedNoRows)
     | Some row \<Rightarrow>
         (case kind_from_i64 (r_kind row) of
            Inl e \<Rightarrow> Inl e
          | Inr kind \<Rightarrow> Inr (kind, u64_of_i64 (r_size row))))"

definition inode_kind_of :: "Db \<Rightarrow> u64 \<Rightarrow> (DbError + FileKind) \<times> Db" where
  "inode_kind_of db ino = query db (\<lambda>t.
     case map_of (t_inodes t) (i64_of_u64 ino) of
       None \<Rightarrow> Inl (from_sql_error QueryReturnedNoRows)
     | Some row \<Rightarrow> kind_from_i64 (r_kind row))"

text \<open>The rows of \<^verbatim>\<open>dirents d JOIN inodes i ON i.ino = d.child_ino\<close> that satisfy \<open>P\<close>, in row id
  order of the entries.\<close>

definition join_children :: "(i64 \<Rightarrow> dirent_row \<Rightarrow> bool) \<Rightarrow> tables \<Rightarrow> (i64 \<times> dirent_row \<times> inode_row) list" where
  "join_children P t = List.map_filter
     (\<lambda>(rid, d). if P rid d then map_option (\<lambda>r. (rid, d, r)) (map_of (t_inodes t) (d_child d)) else None)
     (t_dirents t)"

definition lookup :: "Db \<Rightarrow> u64 \<Rightarrow> bytes \<Rightarrow> (DbError + Inode) \<times> Db" where
  "lookup db parent_ino name =
     (case check_name name of
        Inl e \<Rightarrow> (Inl e, db)
      | Inr _ \<Rightarrow> query db (\<lambda>t.
          case join_children (\<lambda>_ d. d_parent d = i64_of_u64 parent_ino \<and> d_name d = name) t of
            [] \<Rightarrow> Inl (from_sql_error QueryReturnedNoRows)
          | (_, d, row) # _ \<Rightarrow> sql_result (inode_from_row (d_child d) row)))"

text \<open>\<^verbatim>\<open>collect::<Result<Vec<_>, _>>()\<close>: the values, or the first error.\<close>

fun collect_results :: "('e + 'a) list \<Rightarrow> 'e + 'a list" where
  "collect_results [] = Inr []"
| "collect_results (Inl e # rs) = Inl e"
| "collect_results (Inr a # rs) = (case collect_results rs of Inl e \<Rightarrow> Inl e | Inr as \<Rightarrow> Inr (a # as))"

definition dir_entry_from_row :: "i64 \<times> dirent_row \<times> inode_row \<Rightarrow> SqlError + DirEntry" where
  "dir_entry_from_row = (\<lambda>(_, d, row).
     case kind_from_i64 (r_kind row) of
       Inl _ \<Rightarrow> Inl (FromSqlConversionFailure 2)
     | Inr kind \<Rightarrow> Inr \<lparr>de_name = d_name d, de_ino = u64_of_i64 (d_child d), de_kind = kind\<rparr>)"

definition list_dir :: "Db \<Rightarrow> u64 \<Rightarrow> (DbError + DirEntry list) \<times> Db" where
  "list_dir db ino = and_then (inode_kind_of db ino) (\<lambda>kind db.
     if kind \<noteq> Directory then (Inl NotDirectory, db)
     else query db (\<lambda>t.
       let rows = sort_key (\<lambda>(_, d, _). d_name d)
             (join_children (\<lambda>_ d. d_parent d = i64_of_u64 ino) t)
       in sql_result (collect_results (map dir_entry_from_row rows))))"

text \<open>The loop of \<open>read_dir_after\<close> over the rows; \<open>emit\<close> is the caller's closure with its captured
  state \<open>'s\<close>, and stops the loop by returning true.\<close>

fun emit_rows :: "('s \<Rightarrow> i64 \<Rightarrow> bytes \<Rightarrow> u64 \<Rightarrow> FileKind \<Rightarrow> bool \<times> 's) \<Rightarrow>
    (i64 \<times> dirent_row \<times> inode_row) list \<Rightarrow> 's \<Rightarrow> DbError option \<times> 's" where
  "emit_rows emit [] s = (None, s)"
| "emit_rows emit ((rid, d, row) # rows) s =
     (case kind_from_i64 (r_kind row) of
        Inl e \<Rightarrow> (Some e, s)
      | Inr kind \<Rightarrow>
          (case emit s rid (d_name d) (u64_of_i64 (d_child d)) kind of
             (True, s) \<Rightarrow> (None, s)
           | (False, s) \<Rightarrow> emit_rows emit rows s))"

definition read_dir_after :: "Db \<Rightarrow> u64 \<Rightarrow> i64 \<Rightarrow>
    ('s \<Rightarrow> i64 \<Rightarrow> bytes \<Rightarrow> u64 \<Rightarrow> FileKind \<Rightarrow> bool \<times> 's) \<Rightarrow> 's \<Rightarrow> ((DbError + unit) \<times> 's) \<times> Db" where
  "read_dir_after db ino after_id emit s =
     (case inode_kind_of db ino of
        (Inl e, db) \<Rightarrow> ((Inl e, s), db)
      | (Inr kind, db) \<Rightarrow>
          if kind \<noteq> Directory then ((Inl NotDirectory, s), db)
          else
            (case query db (\<lambda>t. Inr (join_children (\<lambda>rid d. d_parent d = i64_of_u64 ino \<and> after_id < rid) t)) of
               (Inl e, db) \<Rightarrow> ((Inl e, s), db)
             | (Inr rows, db) \<Rightarrow>
                 (case emit_rows emit rows s of
                    (Some e, s) \<Rightarrow> ((Inl e, s), db)
                  | (None, s) \<Rightarrow> ((Inr (), s), db))))"

definition parent_row :: "tables \<Rightarrow> u64 \<Rightarrow> i64 option" where
  "parent_row t ino = map_option (\<lambda>(_, d). d_parent d)
     (find (\<lambda>(_, d). d_child d = i64_of_u64 ino) (t_dirents t))"

definition parent_of_dir :: "Db \<Rightarrow> u64 \<Rightarrow> (DbError + u64) \<times> Db" where
  "parent_of_dir db ino =
     (if ino = 1 then (Inr 1, db)
      else query db (\<lambda>t.
        case parent_row t ino of
          None \<Rightarrow> Inl (from_sql_error QueryReturnedNoRows)
        | Some parent \<Rightarrow> Inr (u64_of_i64 parent)))"

section \<open>Creating nodes\<close>

datatype NewNode = NewDirectory u32 | NewFile u32 | NewSymlink bytes

definition create_node :: "Db \<Rightarrow> u64 \<Rightarrow> bytes \<Rightarrow> NewNode \<Rightarrow> u32 \<Rightarrow> u32 \<Rightarrow> Timestamp \<Rightarrow> (DbError + Inode) \<times> Db" where
  "create_node db parent_ino name node uid gid now =
     (case check_name name of
        Inl e \<Rightarrow> (Inl e, db)
      | Inr _ \<Rightarrow> and_then (inode_kind_of db parent_ino) (\<lambda>pkind db.
          if pkind \<noteq> Directory then (Inl NotDirectory, db)
          else
            let (kind, mode, sz) =
                  (case node of
                     NewDirectory mode \<Rightarrow> (Directory, mode, 0)
                   | NewFile mode \<Rightarrow> (RegularFile, mode, 0)
                   | NewSymlink target \<Rightarrow> (Symlink, 511, of_nat (length target)));
                nlink = (if kind = Directory then 2 else 1 :: i64);
                parent_delta = (if kind = Directory then 1 else 0 :: i64)
            in transaction db (\<lambda>t.
              case new_rowid db (map fst (t_inodes t)) of
                None \<Rightarrow> Inl (from_sql_error full_error)
              | Some rowid \<Rightarrow>
                  let t = t\<lparr>t_inodes := tbl_put rowid
                        \<lparr>r_kind = kind_as_i64 kind, r_mode = i64_of_u32 mode, r_uid = i64_of_u32 uid,
                         r_gid = i64_of_u32 gid, r_size = i64_of_u64 sz, r_atime_ns = to_ns now,
                         r_mtime_ns = to_ns now, r_ctime_ns = to_ns now, r_nlink = nlink\<rparr> (t_inodes t)\<rparr>;
                      ino = u64_of_i64 rowid
                  in if MAX_INO < ino then Inl NoSpace
                     else
                       (case insert_dirent (new_rowid db) t parent_ino name ino of
                          Inl e \<Rightarrow> Inl e
                        | Inr t \<Rightarrow>
                            (case (case node of
                                     NewSymlink target \<Rightarrow> insert_symlink t ino target
                                   | _ \<Rightarrow> Inr t) of
                               Inl e \<Rightarrow> Inl e
                             | Inr t \<Rightarrow>
                                 let t = touch_dir t parent_ino now;
                                     t = (if parent_delta \<noteq> 0
                                          then add_directory_nlink t parent_ino parent_delta else t)
                                 in Inr (\<lparr>i_ino = ino, i_kind = kind, i_mode = mode, i_uid = uid, i_gid = gid,
                                          i_size = sz, i_atime = now, i_mtime = now, i_ctime = now,
                                          i_nlink = u32_of_i64 nlink\<rparr>, t))))))"

definition create_dir :: "Db \<Rightarrow> u64 \<Rightarrow> bytes \<Rightarrow> u32 \<Rightarrow> u32 \<Rightarrow> u32 \<Rightarrow> Timestamp \<Rightarrow> (DbError + Inode) \<times> Db" where
  "create_dir db parent_ino name mode uid gid now =
     create_node db parent_ino name (NewDirectory mode) uid gid now"

definition create_file :: "Db \<Rightarrow> u64 \<Rightarrow> bytes \<Rightarrow> u32 \<Rightarrow> u32 \<Rightarrow> u32 \<Rightarrow> Timestamp \<Rightarrow> (DbError + Inode) \<times> Db" where
  "create_file db parent_ino name mode uid gid now =
     create_node db parent_ino name (NewFile mode) uid gid now"

definition create_symlink :: "Db \<Rightarrow> u64 \<Rightarrow> bytes \<Rightarrow> bytes \<Rightarrow> u32 \<Rightarrow> u32 \<Rightarrow> Timestamp \<Rightarrow> (DbError + Inode) \<times> Db" where
  "create_symlink db parent_ino name target uid gid now =
     create_node db parent_ino name (NewSymlink target) uid gid now"

definition read_symlink :: "Db \<Rightarrow> u64 \<Rightarrow> (DbError + bytes) \<times> Db" where
  "read_symlink db ino = and_then (inode_kind_of db ino) (\<lambda>kind db.
     if kind \<noteq> Symlink then (Inl InvalidInput, db)
     else query db (\<lambda>t.
       case map_of (t_symlinks t) (i64_of_u64 ino) of
         None \<Rightarrow> Inl (from_sql_error QueryReturnedNoRows)
       | Some target \<Rightarrow> Inr target))"

definition delete_inode :: "Db \<Rightarrow> u64 \<Rightarrow> (DbError + unit) \<times> Db" where
  "delete_inode db ino = transaction db (\<lambda>t. Inr ((), delete_inode_rows t ino))"

definition link :: "Db \<Rightarrow> u64 \<Rightarrow> u64 \<Rightarrow> bytes \<Rightarrow> Timestamp \<Rightarrow> (DbError + Inode) \<times> Db" where
  "link db ino new_parent_ino new_name now =
     (case check_name new_name of
        Inl e \<Rightarrow> (Inl e, db)
      | Inr _ \<Rightarrow> and_then (get_inode db ino) (\<lambda>inode db.
          if i_kind inode = Directory then (Inl IsDirectory, db)
          else and_then (inode_kind_of db new_parent_ino) (\<lambda>kind db.
            if kind \<noteq> Directory then (Inl NotDirectory, db)
            else transaction db (\<lambda>t.
              case insert_dirent (new_rowid db) t new_parent_ino new_name ino of
                Inl e \<Rightarrow> Inl e
              | Inr t \<Rightarrow>
                  let new_nlink = i_nlink inode + 1;
                      t = touch_dir (set_nlink t ino new_nlink now) new_parent_ino now
                  in Inr (inode\<lparr>i_nlink := new_nlink, i_ctime := now\<rparr>, t)))))"

section \<open>File data\<close>

text \<open>The row loop of \<open>read_into\<close>.\<close>

fun copy_rows :: "ChunkSpan \<Rightarrow> (i64 \<times> bytes) list \<Rightarrow> bytes \<Rightarrow> bytes option" where
  "copy_rows span [] out = Some out"
| "copy_rows span ((key, data) # rows) out = do {
     out \<leftarrow> copy_out span (chunk_index_of key) data out;
     copy_rows span rows out
   }"

definition read_into :: "Db \<Rightarrow> u64 \<Rightarrow> u64 \<Rightarrow> bytes \<Rightarrow> ((DbError + bytes) \<times> Db) option" where
  "read_into db ino offset out =
     (case span_new offset (length out) of
        None \<Rightarrow> Some (Inr out, db)
      | Some span \<Rightarrow>
          if MAX_CHUNKS \<le> sp_first span then Some (Inr out, db)
          else
            let last = min (sp_last span) (MAX_CHUNKS - 1);
                lo = chunk_key ino (sp_first span);
                hi = chunk_key ino last
            in try_then (Some (query db (\<lambda>t. Inr (filter (\<lambda>(key, _). lo \<le> key \<and> key \<le> hi) (t_chunks t)))))
                 (\<lambda>rows db. do {
                    out \<leftarrow> copy_rows span rows out;
                    Some (Inr out, db)
                  }))"

definition read_file :: "Db \<Rightarrow> u64 \<Rightarrow> u64 \<Rightarrow> u32 \<Rightarrow> ((DbError + bytes) \<times> Db) option" where
  "read_file db ino offset sz =
     try_then (Some (inode_head db ino)) (\<lambda>(kind, file_size) db.
       case regular_file_error kind of
         Some error \<Rightarrow> Some (Inl error, db)
       | None \<Rightarrow>
           if file_size \<le> offset \<or> sz = 0 then Some (Inr [], db)
           else read_into db ino offset
                  (replicate (unat (min (ucast sz) (file_size - offset) :: u64)) 0))"

definition saturating_add :: "u64 \<Rightarrow> u64 \<Rightarrow> u64" where
  "saturating_add a b = (if unat a + unat b < 2 ^ 64 then a + b else - 1)"

text \<open>The two loops of \<open>write_file_batch_at\<close>: over the chunks of one write, and over the writes.
  \<^verbatim>\<open>scratch.resize\<close> pads a short stored chunk with zeros.\<close>

fun write_pieces :: "u64 \<Rightarrow> ChunkSpan \<Rightarrow> bytes \<Rightarrow> u64 list \<Rightarrow> tables \<Rightarrow> tables option" where
  "write_pieces ino span data [] t = Some t"
| "write_pieces ino span data (index # ks) t = do {
     let piece = piece span index;
     input \<leftarrow> subslice data (buf_start piece) (buf_end piece);
     let key = chunk_key ino index;
     t \<leftarrow> (if is_full_chunk piece then Some (upsert_chunk t key input)
          else do {
            let scratch = (case map_of (t_chunks t) key of None \<Rightarrow> [] | Some blob \<Rightarrow> blob);
            let required_len = chunk_end piece;
            let scratch = (if length scratch < required_len
                           then scratch @ replicate (required_len - length scratch) 0 else scratch);
            scratch \<leftarrow> copy_from_slice scratch (chunk_start piece) (chunk_end piece) input;
            Some (upsert_chunk t key scratch)
          });
     write_pieces ino span data ks t
   }"

fun write_all :: "u64 \<Rightarrow> (u64 \<times> bytes) list \<Rightarrow> u64 \<Rightarrow> usize \<Rightarrow> tables \<Rightarrow> (u64 \<times> usize \<times> tables) option" where
  "write_all ino [] new_size written t = Some (new_size, written, t)"
| "write_all ino ((offset, data) # writes) new_size written t =
     (case span_new offset (length data) of
        None \<Rightarrow> write_all ino writes new_size written t
      | Some span \<Rightarrow> do {
          t \<leftarrow> write_pieces ino span data (span_chunks span) t;
          write_all ino writes (max new_size (offset + of_nat (length data))) (written + length data) t
        })"

definition write_file_batch_at :: "Db \<Rightarrow> u64 \<Rightarrow> (u64 \<times> bytes) list \<Rightarrow> Timestamp \<Rightarrow>
    ((DbError + u32) \<times> Db) option" where
  "write_file_batch_at db ino writes modified =
     try_then (Some (inode_head db ino)) (\<lambda>(kind, new_size) db.
       case regular_file_error kind of
         Some error \<Rightarrow> Some (Inl error, db)
       | None \<Rightarrow>
           if list_all (\<lambda>(_, data). data = []) writes then Some (Inr 0, db)
           else if list_ex (\<lambda>(offset, data). MAX_FILE_SIZE < saturating_add offset (of_nat (length data))) writes
           then Some (Inl FileTooLarge, db)
           else try_transaction db (\<lambda>t. do {
             (new_size, written, t) \<leftarrow> write_all ino writes new_size 0 t;
             Some (Inr (of_nat written, set_size t ino new_size modified))
           }))"

definition write_file_batch :: "Db \<Rightarrow> u64 \<Rightarrow> (u64 \<times> bytes) list \<Rightarrow> Timestamp \<Rightarrow> ((DbError + u32) \<times> Db) option" where
  "write_file_batch db ino writes now = write_file_batch_at db ino writes now"

definition write_file :: "Db \<Rightarrow> u64 \<Rightarrow> u64 \<Rightarrow> bytes \<Rightarrow> Timestamp \<Rightarrow> ((DbError + u32) \<times> Db) option" where
  "write_file db ino offset data now = write_file_batch db ino [(offset, data)] now"

definition read_chunk_into :: "Db \<Rightarrow> u64 \<Rightarrow> u64 \<Rightarrow> bytes \<Rightarrow> ((DbError + usize \<times> bytes) \<times> Db) option" where
  "read_chunk_into db ino index dst =
     try_then (Some (query db (\<lambda>t. Inr (map_of (t_chunks t) (chunk_key ino index))))) (\<lambda>row db.
       case row of
         None \<Rightarrow> Some (Inr (0, dst), db)
       | Some data \<Rightarrow> do {
           let len = min (length data) (length dst);
           src \<leftarrow> subslice data 0 len;
           dst \<leftarrow> copy_from_slice dst 0 len src;
           Some (Inr (len, dst), db)
         })"

definition replace_chunks :: "Db \<Rightarrow> u64 \<Rightarrow> u64 \<Rightarrow> (u64 \<times> bytes) list \<Rightarrow> Timestamp \<Rightarrow> (DbError + unit) \<times> Db" where
  "replace_chunks db ino sz chunks now = transaction db (\<lambda>t.
     let t = fold (\<lambda>(index, data) t. upsert_chunk t (chunk_key ino index) data) chunks t
     in Inr ((), set_size t ino sz now))"

text \<open>\<^verbatim>\<open>DELETE \<dots> WHERE id > ?1 AND id <= ?2\<close> and the \<^verbatim>\<open>substr\<close> update of \<open>truncate_file\<close>.\<close>

definition cut_chunks :: "tables \<Rightarrow> i64 \<Rightarrow> i64 \<Rightarrow> nat \<Rightarrow> tables" where
  "cut_chunks t final_key last_key final_chunk_len =
     t\<lparr>t_chunks := tbl_update final_key
         (\<lambda>data. if final_chunk_len < length data then take final_chunk_len data else data)
         (tbl_delete (\<lambda>key _. final_key < key \<and> key \<le> last_key) (t_chunks t))\<rparr>"

definition truncate_file :: "Db \<Rightarrow> u64 \<Rightarrow> u64 \<Rightarrow> Timestamp \<Rightarrow> (DbError + unit) \<times> Db" where
  "truncate_file db ino sz now = and_then (inode_kind_of db ino) (\<lambda>kind db.
     case regular_file_error kind of
       Some error \<Rightarrow> (Inl error, db)
     | None \<Rightarrow>
         if MAX_FILE_SIZE < sz then (Inl FileTooLarge, db)
         else transaction db (\<lambda>t.
           let (first_key, last_key) = chunk_keys ino;
               t = (if sz = 0 then delete_chunk_range t ino
                    else
                      let final_chunk_index = (sz - 1) div of_nat CHUNK_SIZE;
                          final_chunk_len = unat (sz - 1) mod CHUNK_SIZE + 1
                      in cut_chunks t (chunk_key ino final_chunk_index) last_key final_chunk_len)
           in Inr ((), set_size t ino sz now)))"

section \<open>Removing and renaming entries\<close>

definition unlink_entry :: "Db \<Rightarrow> u64 \<Rightarrow> bytes \<Rightarrow> Inode \<Rightarrow> bool \<Rightarrow> Timestamp \<Rightarrow> (DbError + unit) \<times> Db" where
  "unlink_entry db parent_ino name target is_open now =
     (if i_kind target = Directory then (Inl IsDirectory, db)
      else transaction db (\<lambda>t. Inr ((),
        touch_dir (drop_unlinked_inode (delete_dirent t parent_ino name) target now is_open) parent_ino now)))"

definition unlink_file :: "Db \<Rightarrow> u64 \<Rightarrow> bytes \<Rightarrow> Timestamp \<Rightarrow> (DbError + unit) \<times> Db" where
  "unlink_file db parent_ino name now = and_then (lookup db parent_ino name) (\<lambda>target db.
     unlink_entry db parent_ino name target False now)"

definition remove_dir :: "Db \<Rightarrow> u64 \<Rightarrow> bytes \<Rightarrow> Timestamp \<Rightarrow> (DbError + unit) \<times> Db" where
  "remove_dir db parent_ino name now = and_then (lookup db parent_ino name) (\<lambda>target db.
     if i_kind target \<noteq> Directory then (Inl NotDirectory, db)
     else transaction db (\<lambda>t.
       let child_count = length (filter (\<lambda>(_, d). d_parent d = i64_of_u64 (i_ino target)) (t_dirents t))
       in if child_count \<noteq> 0 then Inl DirectoryNotEmpty
          else
            let t = delete_dirent t parent_ino name;
                t = delete_inode_rows t (i_ino target);
                t = touch_dir t parent_ino now
            in Inr ((), add_directory_nlink t parent_ino (-1))))"

text \<open>The loop of \<open>is_descendant\<close>; \<open>None\<close> when it never ends.\<close>

partial_function (option) climb :: "Db \<Rightarrow> u64 \<Rightarrow> u64 \<Rightarrow> ((DbError + bool) \<times> Db) option" where
  "climb db current possible_ancestor =
     (if current = 1 then Some (Inr False, db)
      else
        (case query db (\<lambda>t. Inr (parent_row t current)) of
           (Inl e, db) \<Rightarrow> Some (Inl e, db)
         | (Inr None, db) \<Rightarrow> Some (Inr False, db)
         | (Inr (Some p), db) \<Rightarrow>
             let parent = u64_of_i64 p in
             if parent = possible_ancestor then Some (Inr True, db)
             else climb db parent possible_ancestor))"

definition is_descendant :: "Db \<Rightarrow> u64 \<Rightarrow> u64 \<Rightarrow> ((DbError + bool) \<times> Db) option" where
  "is_descendant db ino possible_ancestor =
     (if ino = possible_ancestor then Some (Inr True, db) else climb db ino possible_ancestor)"

text \<open>The kind check of \<open>rename_entry\<close> on the entry it would replace.\<close>

definition replaceable :: "Db \<Rightarrow> Inode \<Rightarrow> Inode option \<Rightarrow> (DbError + unit) \<times> Db" where
  "replaceable db source existing_target =
     (case existing_target of
        None \<Rightarrow> (Inr (), db)
      | Some target \<Rightarrow>
          (case (i_kind source, i_kind target) of
             (RegularFile, Directory) \<Rightarrow> (Inl IsDirectory, db)
           | (Symlink, Directory) \<Rightarrow> (Inl IsDirectory, db)
           | (Directory, RegularFile) \<Rightarrow> (Inl NotDirectory, db)
           | (Directory, Symlink) \<Rightarrow> (Inl NotDirectory, db)
           | (Directory, Directory) \<Rightarrow> and_then (list_dir db (i_ino target)) (\<lambda>entries db.
               if entries \<noteq> [] then (Inl DirectoryNotEmpty, db) else (Inr (), db))
           | _ \<Rightarrow> (Inr (), db)))"

definition lookup_opt :: "Db \<Rightarrow> u64 \<Rightarrow> bytes \<Rightarrow> (DbError + Inode option) \<times> Db" where
  "lookup_opt db parent_ino name =
     (case lookup db parent_ino name of
        (Inr target, db) \<Rightarrow> (Inr (Some target), db)
      | (Inl NotFound, db) \<Rightarrow> (Inr None, db)
      | (Inl error, db) \<Rightarrow> (Inl error, db))"

text \<open>The transaction of \<open>rename_entry\<close>.\<close>

definition rename_rows :: "tables \<Rightarrow> u64 \<Rightarrow> bytes \<Rightarrow> u64 \<Rightarrow> bytes \<Rightarrow> Inode \<Rightarrow> Inode option \<Rightarrow>
    (u64 \<Rightarrow> bool) \<Rightarrow> Timestamp \<Rightarrow> DbError + tables" where
  "rename_rows t parent_ino name new_parent_ino new_name source existing_target is_open now =
     (let source_is_dir = (i_kind source = Directory);
          target_is_dir = (case existing_target of None \<Rightarrow> False | Some target \<Rightarrow> i_kind target = Directory);
          t = (case existing_target of
                 None \<Rightarrow> t
               | Some target \<Rightarrow>
                   drop_unlinked_inode (delete_dirent t new_parent_ino new_name) target now (is_open (i_ino target)))
      in case move_dirent t parent_ino name new_parent_ino new_name of
           Inl e \<Rightarrow> Inl e
         | Inr t \<Rightarrow>
             let t = touch_dir t parent_ino now;
                 t = (if new_parent_ino \<noteq> parent_ino then touch_dir t new_parent_ino now else t);
                 t = (if source_is_dir \<and> parent_ino \<noteq> new_parent_ino
                      then add_directory_nlink (add_directory_nlink t parent_ino (-1)) new_parent_ino 1 else t);
                 t = (if target_is_dir then add_directory_nlink t new_parent_ino (-1) else t)
             in Inr t)"

definition rename_entry :: "Db \<Rightarrow> u64 \<Rightarrow> bytes \<Rightarrow> u64 \<Rightarrow> bytes \<Rightarrow> bool \<Rightarrow> (u64 \<Rightarrow> bool) \<Rightarrow> Timestamp \<Rightarrow>
    ((DbError + Inode option) \<times> Db) option" where
  "rename_entry db parent_ino name new_parent_ino new_name noreplace is_open now =
     (case check_name new_name of
        Inl e \<Rightarrow> Some (Inl e, db)
      | Inr _ \<Rightarrow>
      try_then (Some (lookup db parent_ino name)) (\<lambda>source db.
      try_then (Some (inode_kind_of db new_parent_ino)) (\<lambda>kind db.
      if kind \<noteq> Directory then Some (Inl NotDirectory, db)
      else
      try_then (if i_kind source = Directory then is_descendant db new_parent_ino (i_ino source)
                else Some (Inr False, db)) (\<lambda>below db.
      if below then Some (Inl InvalidInput, db)
      else if parent_ino = new_parent_ino \<and> name = new_name then Some (Inr None, db)
      else
      try_then (Some (lookup_opt db new_parent_ino new_name)) (\<lambda>existing_target db.
      if noreplace \<and> existing_target \<noteq> None then Some (Inl AlreadyExists, db)
      else
      try_then (Some (replaceable db source existing_target)) (\<lambda>_ db.
      Some (transaction db (\<lambda>t.
        case rename_rows t parent_ino name new_parent_ino new_name source existing_target is_open now of
          Inl e \<Rightarrow> Inl e
        | Inr t \<Rightarrow> Inr (existing_target, t)))))))))"

definition rename :: "Db \<Rightarrow> u64 \<Rightarrow> bytes \<Rightarrow> u64 \<Rightarrow> bytes \<Rightarrow> Timestamp \<Rightarrow> ((DbError + unit) \<times> Db) option" where
  "rename db parent_ino name new_parent_ino new_name now =
     try_then (rename_entry db parent_ino name new_parent_ino new_name False (\<lambda>_. False) now)
       (\<lambda>_ db. Some (Inr (), db))"

section \<open>Metadata and start-up\<close>

definition update_metadata :: "Db \<Rightarrow> u64 \<Rightarrow> MetadataUpdate \<Rightarrow> Timestamp \<Rightarrow> (DbError + Inode) \<times> Db" where
  "update_metadata db ino update now = and_then (get_inode db ino) (\<lambda>inode db.
     let mode = case_option (i_mode inode) id (mu_mode update);
         uid = case_option (i_uid inode) id (mu_uid update);
         gid = case_option (i_gid inode) id (mu_gid update);
         atime = case_option (i_atime inode) id (mu_atime update);
         mtime = case_option (i_mtime inode) id (mu_mtime update)
     in and_then (execute db (\<lambda>t. t\<lparr>t_inodes := tbl_update (i64_of_u64 ino)
            (\<lambda>r. r\<lparr>r_mode := i64_of_u32 mode, r_uid := i64_of_u32 uid, r_gid := i64_of_u32 gid,
                  r_atime_ns := to_ns atime, r_mtime_ns := to_ns mtime, r_ctime_ns := to_ns now\<rparr>)
            (t_inodes t)\<rparr>))
          (\<lambda>_ db. get_inode db ino))"

definition recompute_directory_nlink :: "tables \<Rightarrow> tables" where
  "recompute_directory_nlink t =
     (let directory = kind_as_i64 Directory;
          children = (\<lambda>ino. length (filter (\<lambda>(_, _, child). r_kind child = directory)
                       (join_children (\<lambda>_ d. d_parent d = ino) t)))
      in t\<lparr>t_inodes := map (\<lambda>(ino, r).
             (ino, if r_kind r = directory then r\<lparr>r_nlink := 2 + int (children ino)\<rparr> else r)) (t_inodes t)\<rparr>)"

fun delete_orphans :: "i64 list \<Rightarrow> Db \<Rightarrow> (DbError + unit) \<times> Db" where
  "delete_orphans [] db = (Inr (), db)"
| "delete_orphans (ino # inos) db =
     and_then (execute db (\<lambda>t. delete_chunk_range t (u64_of_i64 ino))) (\<lambda>_ db.
     and_then (execute db (\<lambda>t. delete_inode_row t (u64_of_i64 ino))) (\<lambda>_ db.
     delete_orphans inos db))"

text \<open>\<open>initialize\<close> from the point where the tables exist at the current schema version.\<close>

definition initialize :: "Db \<Rightarrow> i64 \<Rightarrow> i64 \<Rightarrow> Timestamp \<Rightarrow> (DbError + unit) \<times> Db" where
  "initialize db mount_uid mount_gid now =
     and_then (execute db (\<lambda>t. if map_of (t_inodes t) 1 \<noteq> None then t else t\<lparr>t_inodes := tbl_put 1
         \<lparr>r_kind = kind_as_i64 Directory, r_mode = 493, r_uid = mount_uid, r_gid = mount_gid, r_size = 0,
          r_atime_ns = to_ns now, r_mtime_ns = to_ns now, r_ctime_ns = to_ns now, r_nlink = 2\<rparr> (t_inodes t)\<rparr>))
       (\<lambda>_ db.
     and_then (execute db (\<lambda>t. t\<lparr>t_inodes := tbl_update 1
         (\<lambda>r. if r_uid r = 0 \<and> r_gid r = 0
              then r\<lparr>r_uid := mount_uid, r_gid := mount_gid, r_ctime_ns := to_ns now\<rparr> else r) (t_inodes t)\<rparr>))
       (\<lambda>_ db.
     and_then (execute db recompute_directory_nlink) (\<lambda>_ db.
     and_then (query db (\<lambda>t. Inr (map fst (filter (\<lambda>(ino, r). r_nlink r = 0 \<and> ino \<noteq> 1) (t_inodes t)))))
       (\<lambda>orphans db. delete_orphans orphans db))))"

end
