(* ===== verification/File_Store.thy ===== *)
theory File_Store
  imports Prelude
begin

text \<open>
  The contract of a file store: what reading, writing and truncating promise of the contents of
  a file, with no mention of chunks, caches or rows. The locale states it once; the storage layer
  and the buffering filesystem layer are its two instances.
\<close>

section \<open>Operations on byte strings\<close>

text \<open>Truncation: cut, or extend with zeros.\<close>

definition resize :: "nat \<Rightarrow> bytes \<Rightarrow> bytes" where
  "resize n c = take n c @ replicate (n - length c) 0"

text \<open>A write of the batch: an empty one is skipped, so it never extends the file.\<close>

definition pwrite :: "u64 \<times> bytes \<Rightarrow> bytes \<Rightarrow> bytes" where
  "pwrite w c = (if snd w = [] then c else write_at c (unat (fst w)) (snd w))"

definition pread :: "u64 \<Rightarrow> u32 \<Rightarrow> bytes \<Rightarrow> bytes" where
  "pread offset n c = take (unat n) (drop (unat offset) c)"

lemma length_resize [simp]: "length (resize n c) = n"
  by (auto simp: resize_def)

lemma byte_at_resize: "byte_at (resize n c) i = (if i < n then byte_at c i else 0)"
  by (auto simp: resize_def byte_at_def nth_append min_def)

lemma length_pread: "length (pread offset n c) = min (unat n) (length c - unat offset)"
  by (simp add: pread_def)

lemma pread_byte: "j < length (pread offset n c) \<Longrightarrow> pread offset n c ! j = byte_at c (unat offset + j)"
  by (auto simp: pread_def byte_at_def)

lemma byte_at_pwrite:
  "byte_at (pwrite (offset, data) c) i =
    (if unat offset \<le> i \<and> i < unat offset + length data then data ! (i - unat offset) else byte_at c i)"
  by (auto simp: pwrite_def byte_at_write_at)

lemma length_pwrite:
  "length (pwrite (offset, data) c) = (if data = [] then length c else max (length c) (unat offset + length data))"
  by (simp add: pwrite_def)

lemma pread_pwrite_same:
  assumes "data \<noteq> []" and "unat n = length data"
  shows "pread offset n (pwrite (offset, data) c) = data"
proof (rule nth_equalityI)
  show l: "length (pread offset n (pwrite (offset, data) c)) = length data"
    using assms by (simp add: length_pread length_pwrite)
  show "pread offset n (pwrite (offset, data) c) ! j = data ! j"
    if "j < length (pread offset n (pwrite (offset, data) c))" for j
    using pread_byte[OF that] that l by (simp add: byte_at_pwrite)
qed

lemma pread_pwrite_apart:
  assumes "unat offset + unat n \<le> unat offset' \<or> unat offset' + length data \<le> unat offset"
    and "unat offset + unat n \<le> length c"
  shows "pread offset n (pwrite (offset', data) c) = pread offset n c"
proof (rule nth_equalityI)
  show l: "length (pread offset n (pwrite (offset', data) c)) = length (pread offset n c)"
    using assms(2) by (auto simp: length_pread length_pwrite)
  show "pread offset n (pwrite (offset', data) c) ! j = pread offset n c ! j"
    if "j < length (pread offset n (pwrite (offset', data) c))" for j
    using pread_byte[OF that] pread_byte[of j offset n c] that l assms
    by (auto simp: byte_at_pwrite length_pread)
qed

lemma pread_resize_twice:
  assumes "a \<le> unat offset"
  shows "pread offset n (resize b (resize a c)) = replicate (length (pread offset n (resize b (resize a c)))) 0"
proof (rule nth_equalityI)
  show "pread offset n (resize b (resize a c)) ! j = replicate (length (pread offset n (resize b (resize a c)))) 0 ! j"
    if "j < length (pread offset n (resize b (resize a c)))" for j
    using pread_byte[OF that] assms that by (auto simp: byte_at_resize)
qed simp

section \<open>The contract\<close>

locale file_store =
  fixes ok :: "'s \<Rightarrow> bool"
    and content :: "'s \<Rightarrow> u64 \<Rightarrow> bytes option"
    and read_op :: "'s \<Rightarrow> u64 \<Rightarrow> u64 \<Rightarrow> u32 \<Rightarrow> (('e + bytes) \<times> 's) option"
    and write_op :: "'s \<Rightarrow> u64 \<Rightarrow> u64 \<Rightarrow> bytes \<Rightarrow> (('e + u32) \<times> 's) option"
    and truncate_op :: "'s \<Rightarrow> u64 \<Rightarrow> u64 \<Rightarrow> (('e + unit) \<times> 's) option"
  assumes read_law: "\<lbrakk>ok s; content s ino = Some c; read_op s ino offset n = Some (Inr out, s')\<rbrakk> \<Longrightarrow>
      ok s' \<and> out = pread offset n c \<and> content s' = content s"
    and write_law: "\<lbrakk>ok s; content s ino = Some c; length data < 2 ^ 32; write_op s ino offset data = Some (Inr m, s')\<rbrakk> \<Longrightarrow>
      ok s' \<and> unat m = length data \<and> content s' = (content s)(ino \<mapsto> pwrite (offset, data) c)"
    and truncate_law: "\<lbrakk>ok s; content s ino = Some c; truncate_op s ino n' = Some (Inr (), s')\<rbrakk> \<Longrightarrow>
      ok s' \<and> content s' = (content s)(ino \<mapsto> resize (unat n') c)"
begin

text \<open>What a reader sees after a write: the data at its place, the old bytes elsewhere, and
  nothing new in any other file.\<close>

lemma read_your_write:
  assumes "ok s" "content s ino = Some c" "data \<noteq> []" "length data < 2 ^ 32"
    and w: "write_op s ino offset data = Some (Inr m, s1)"
    and r: "read_op s1 ino offset m = Some (Inr out, s2)"
  shows "out = data"
proof -
  note wl = write_law[OF assms(1,2,4) w]
  then have "out = pread offset m (pwrite (offset, data) c)" using read_law[OF _ _ r] by simp
  then show ?thesis using pread_pwrite_same[OF assms(3)] wl by simp
qed

lemma read_apart_from_write:
  assumes "ok s" "content s ino = Some c" "length data < 2 ^ 32"
    and w: "write_op s ino offset data = Some (Inr m, s1)"
    and r0: "read_op s ino offset' n = Some (Inr before, s')"
    and r1: "read_op s1 ino offset' n = Some (Inr after, s2)"
    and "unat offset' + unat n \<le> unat offset \<or> unat offset + length data \<le> unat offset'"
    and "unat offset' + unat n \<le> length c"
  shows "after = before"
  using write_law[OF assms(1,2,3) w] read_law[OF assms(1,2) r0] read_law[OF _ _ r1]
    pread_pwrite_apart[OF assms(7,8)] by simp

lemma read_other_file:
  assumes "ok s" "content s ino = Some c" "length data < 2 ^ 32"
    and w: "write_op s ino offset data = Some (Inr m, s1)" and "ino' \<noteq> ino" "content s ino' = Some c'"
    and r0: "read_op s ino' offset' n = Some (Inr before, s')"
    and r1: "read_op s1 ino' offset' n = Some (Inr after, s2)"
  shows "after = before"
  using write_law[OF assms(1,2,3) w] read_law[OF assms(1,6) r0] read_law[OF _ _ r1] assms(5,6) by simp

text \<open>Bytes cut off by a truncation do not come back when the file grows again.\<close>

lemma truncated_bytes_gone:
  assumes "ok s" "content s ino = Some c"
    and "truncate_op s ino a = Some (Inr (), s1)" and "truncate_op s1 ino b = Some (Inr (), s2)"
    and "read_op s2 ino offset n = Some (Inr out, s3)" and "a \<le> offset"
  shows "out = replicate (length out) 0"
proof -
  have s1: "ok s1" "content s1 ino = Some (resize (unat a) c)" using truncate_law[OF assms(1-3)] by auto
  have s2: "ok s2" "content s2 ino = Some (resize (unat b) (resize (unat a) c))"
    using truncate_law[OF s1 assms(4)] by auto
  have "unat a \<le> unat offset" using assms(6) by (simp add: word_le_nat_alt)
  from pread_resize_twice[OF this] read_law[OF s2 assms(5)] show ?thesis by simp
qed

end

end
