(* ===== verification/File_Data.thy ===== *)
theory File_Data
  imports Storage File_Store
begin

text \<open>
  What the chunk rows mean: the contents of a file as one byte string, the invariant that ties
  chunk rows to their inode, and the proof that reading, writing and truncating through chunks is
  reading, writing and truncating that byte string. The operations of \<open>Storage\<close> are compared
  with \<open>write_at\<close>, \<open>resize\<close> and list slices, which know nothing of chunks.
\<close>

section \<open>The bytes of a file\<close>

definition chunk_row :: "tables \<Rightarrow> u64 \<Rightarrow> nat \<Rightarrow> bytes" where
  "chunk_row t ino k = (case map_of (t_chunks t) (chunk_key ino (of_nat k)) of None \<Rightarrow> [] | Some d \<Rightarrow> d)"

definition stored_byte :: "tables \<Rightarrow> u64 \<Rightarrow> nat \<Rightarrow> u8" where
  "stored_byte t ino p = byte_at (chunk_row t ino (p div CHUNK_SIZE)) (p mod CHUNK_SIZE)"

definition inode_row_of :: "tables \<Rightarrow> u64 \<Rightarrow> inode_row option" where
  "inode_row_of t ino = map_of (t_inodes t) (i64_of_u64 ino)"

definition row_size :: "inode_row \<Rightarrow> nat" where
  "row_size r = unat (u64_of_i64 (r_size r))"

definition is_file :: "tables \<Rightarrow> u64 \<Rightarrow> bool" where
  "is_file t ino \<longleftrightarrow> (\<exists>r. inode_row_of t ino = Some r \<and> r_kind r = kind_as_i64 RegularFile)"

text \<open>The contents of a regular file.\<close>

definition file_bytes :: "tables \<Rightarrow> u64 \<Rightarrow> bytes option" where
  "file_bytes t ino =
     (case inode_row_of t ino of
        None \<Rightarrow> None
      | Some r \<Rightarrow> if r_kind r = kind_as_i64 RegularFile
                  then Some (map (stored_byte t ino) [0 ..< row_size r]) else None)"

section \<open>Invariant\<close>

definition max_size :: nat where "max_size = 2 ^ 24 * CHUNK_SIZE"

text \<open>Every chunk row belongs to a regular file, holds at most one chunk, and ends within the
  size of the file, so that bytes past the end never reappear.\<close>

definition chunk_owned :: "tables \<Rightarrow> i64 \<Rightarrow> bytes \<Rightarrow> bool" where
  "chunk_owned t key d \<longleftrightarrow>
     (\<exists>ino k r. valid_ino ino \<and> k < 2 ^ 24 \<and> key = chunk_key ino (of_nat k) \<and>
        inode_row_of t ino = Some r \<and> r_kind r = kind_as_i64 RegularFile \<and>
        length d \<le> CHUNK_SIZE \<and> k * CHUNK_SIZE + length d \<le> row_size r)"

definition inode_row_ok :: "i64 \<Rightarrow> inode_row \<Rightarrow> bool" where
  "inode_row_ok i r \<longleftrightarrow> 0 < i \<and> i < 2 ^ 39 \<and> (r_kind r = kind_as_i64 RegularFile \<longrightarrow> row_size r \<le> max_size)"

definition data_ok :: "tables \<Rightarrow> bool" where
  "data_ok t \<longleftrightarrow> tbl_ok (t_inodes t) \<and> tbl_ok (t_chunks t) \<and>
     (\<forall>i r. map_of (t_inodes t) i = Some r \<longrightarrow> inode_row_ok i r) \<and>
     (\<forall>key d. map_of (t_chunks t) key = Some d \<longrightarrow> chunk_owned t key d)"

lemma max_size_unat: "unat MAX_FILE_SIZE = max_size"
  by (simp add: unat_MAX_FILE_SIZE max_size_def)

lemma max_size_lt: "max_size < 2 ^ 63"
  by (simp add: max_size_def CHUNK_SIZE_def)

lemma unat_index: "k < 2 ^ 24 \<Longrightarrow> unat (of_nat k :: u64) = k"
  by (simp add: unat_of_nat)

lemma div_lt_chunks: "p < max_size \<Longrightarrow> p div CHUNK_SIZE < 2 ^ 24"
  unfolding max_size_def by (simp add: less_mult_imp_div_less)

lemma chunk_key_nat:
  assumes "valid_ino ino" and "k < 2 ^ 24"
  shows "chunk_key ino (of_nat k) = int (unat ino * 2 ^ 24 + k)"
  using chunk_key_eq[of ino "of_nat k"] assms by (simp only: valid_ino_unat unat_index)

lemma chunk_key_inject:
  assumes "valid_ino ino" "valid_ino ino'" "k < 2 ^ 24" "k' < 2 ^ 24"
  shows "chunk_key ino (of_nat k) = chunk_key ino' (of_nat k') \<longleftrightarrow> ino = ino' \<and> k = k'"
proof -
  have "chunk_key ino (of_nat k) = chunk_key ino' (of_nat k') \<longleftrightarrow>
      unat ino * 2 ^ 24 + k = unat ino' * 2 ^ 24 + k'"
    unfolding chunk_key_nat[OF assms(1,3)] chunk_key_nat[OF assms(2,4)] of_nat_eq_iff ..
  also have "\<dots> \<longleftrightarrow> ino = ino' \<and> k = k'"
    using assms(3,4) unfolding word_unat_eq_iff by (rule digits_inject)
  finally show ?thesis .
qed

lemma chunk_key_le:
  assumes "valid_ino ino" "a < 2 ^ 24" "b < 2 ^ 24"
  shows "chunk_key ino (of_nat a) \<le> chunk_key ino (of_nat b) \<longleftrightarrow> a \<le> b"
  unfolding chunk_key_nat[OF assms(1,2)] chunk_key_nat[OF assms(1,3)] by linarith

lemma chunk_index_of_key:
  assumes "valid_ino ino" "k < 2 ^ 24"
  shows "chunk_index_of (chunk_key ino (of_nat k)) = of_nat k"
proof -
  have "unat ino < 2 ^ 39" "unat (of_nat k :: u64) < 2 ^ 24"
    using assms by (simp_all only: valid_ino_unat unat_index)
  then have "take_bit 24 (push_bit 24 ino OR of_nat k :: u64) = of_nat k"
    using take_bit_small[of "of_nat k" 24] by (simp add: take_bit_push_bit)
  moreover have "MAX_CHUNKS - 1 = (mask 24 :: u64)"
    by (simp add: MAX_CHUNKS_def CHUNK_BITS_def mask_eq_exp_minus_1 push_bit_eq_mult)
  ultimately show ?thesis
    by (simp add: chunk_index_of_def chunk_key_def CHUNK_BITS_def take_bit_eq_mask)
qed

text \<open>Every row id between two chunk keys of an inode is a chunk key of that inode.\<close>

lemma key_between:
  assumes "valid_ino ino" "a < 2 ^ 24" "b < 2 ^ 24"
    and "chunk_key ino (of_nat a) \<le> key" "key \<le> chunk_key ino (of_nat b)"
  obtains k where "a \<le> k" "k \<le> b" "key = chunk_key ino (of_nat k)"
proof
  let ?k = "nat key - unat ino * 2 ^ 24"
  have "int (unat ino * 2 ^ 24 + a) \<le> key" "key \<le> int (unat ino * 2 ^ 24 + b)"
    using assms(4,5) unfolding chunk_key_nat[OF assms(1,2)] chunk_key_nat[OF assms(1,3)] .
  then show k: "a \<le> ?k" "?k \<le> b" by linarith+
  have "?k < 2 ^ 24" using k assms(3) by linarith
  then show "key = chunk_key ino (of_nat ?k)"
    using \<open>int (unat ino * 2 ^ 24 + a) \<le> key\<close> unfolding chunk_key_nat[OF assms(1) \<open>?k < 2 ^ 24\<close>]
    by linarith
qed

lemma valid_ino_of_row:
  assumes "data_ok t" "inode_row_of t ino = Some r"
  shows "valid_ino ino"
proof -
  have "0 < i64_of_u64 ino" "i64_of_u64 ino < 2 ^ 39"
    using assms by (auto simp: data_ok_def inode_row_of_def inode_row_ok_def)
  then have "uint (u64_of_i64 (i64_of_u64 ino)) = i64_of_u64 ino"
    by (simp add: u64_of_i64_def unsigned_of_int take_bit_int_eq_self del: u64_i64_u64)
  then have "unat ino < 2 ^ 39"
    using \<open>i64_of_u64 ino < 2 ^ 39\<close> by (simp add: unat_eq_nat_uint)
  then show ?thesis by (simp add: valid_ino_unat)
qed

lemma i64_of_valid_ino: "valid_ino ino \<Longrightarrow> i64_of_u64 ino = int (unat ino)"
  by (rule i64_of_u64_small) (simp add: valid_ino_unat)

lemma row_size_le: "data_ok t \<Longrightarrow> inode_row_of t ino = Some r \<Longrightarrow> r_kind r = kind_as_i64 RegularFile \<Longrightarrow> row_size r \<le> max_size"
  by (auto simp: data_ok_def inode_row_of_def inode_row_ok_def)

lemma data_ok_chunk:
  assumes "data_ok t" "map_of (t_chunks t) (chunk_key ino (of_nat k)) = Some d" "valid_ino ino" "k < 2 ^ 24"
  obtains r where "inode_row_of t ino = Some r" "r_kind r = kind_as_i64 RegularFile" "length d \<le> CHUNK_SIZE"
    "k * CHUNK_SIZE + length d \<le> row_size r"
  using assms chunk_key_inject[OF assms(3) _ assms(4)]
  unfolding data_ok_def chunk_owned_def by metis

lemma chunk_row_len:
  assumes "data_ok t" "valid_ino ino" "k < 2 ^ 24"
  shows "length (chunk_row t ino k) \<le> CHUNK_SIZE"
  using data_ok_chunk[OF assms(1) _ assms(2,3)]
  by (auto simp: chunk_row_def split: option.splits)

section \<open>Reading\<close>

text \<open>The row loop copies every row to its place and leaves holes untouched.\<close>

lemma copy_rows_spec:
  assumes sp: "is_span off len sp" and ino: "valid_ino ino"
    and keys: "\<forall>key \<in> fst ` set rows. \<exists>k < 2 ^ 24. key = chunk_key ino (of_nat k) \<and>
      unat (sp_first sp) \<le> k \<and> k \<le> unat (sp_last sp)"
    and "distinct (map fst rows)" and "length out = len"
  shows "\<exists>out'. copy_rows sp rows out = Some out' \<and> length out' = len \<and>
    (\<forall>j<len. (off + j) div CHUNK_SIZE < 2 ^ 24 \<longrightarrow> out' ! j =
      (case map_of rows (chunk_key ino (of_nat ((off + j) div CHUNK_SIZE))) of
         None \<Rightarrow> out ! j
       | Some d \<Rightarrow> if (off + j) mod CHUNK_SIZE < length d then d ! ((off + j) mod CHUNK_SIZE) else out ! j)) \<and>
    (\<forall>j<len. 2 ^ 24 \<le> (off + j) div CHUNK_SIZE \<longrightarrow> out' ! j = out ! j)"
  using keys assms(4,5)
proof (induction rows arbitrary: out)
  case (Cons row rows)
  obtain key d where row: "row = (key, d)" by fastforce
  obtain k where k: "k < 2 ^ 24" "key = chunk_key ino (of_nat k)" "unat (sp_first sp) \<le> k" "k \<le> unat (sp_last sp)"
    using Cons.prems(1) row by auto
  have u: "unat (of_nat k :: u64) = k" using k(1) by (rule unat_index)
  obtain out1 where o1: "copy_out sp (of_nat k) d out = Some out1" "length out1 = len"
    "\<And>j. j < len \<Longrightarrow> out1 ! j = (if (off + j) div CHUNK_SIZE = k \<and> (off + j) mod CHUNK_SIZE < length d
       then d ! ((off + j) mod CHUNK_SIZE) else out ! j)"
    using copy_out_spec[OF sp, of "of_nat k" out d] k(3,4) Cons.prems(3) unfolding u by blast
  have keys': "\<forall>key \<in> fst ` set rows. \<exists>k < 2 ^ 24. key = chunk_key ino (of_nat k) \<and>
      unat (sp_first sp) \<le> k \<and> k \<le> unat (sp_last sp)"
    using Cons.prems(1) by simp
  have "distinct (map fst rows)" and fresh: "map_of rows key = None"
    using Cons.prems(2) row by (auto simp: map_of_eq_None_iff image_iff)
  then obtain out2 where o2: "copy_rows sp rows out1 = Some out2" "length out2 = len"
    "\<And>j. j < len \<Longrightarrow> (off + j) div CHUNK_SIZE < 2 ^ 24 \<Longrightarrow> out2 ! j =
      (case map_of rows (chunk_key ino (of_nat ((off + j) div CHUNK_SIZE))) of
         None \<Rightarrow> out1 ! j
       | Some d \<Rightarrow> if (off + j) mod CHUNK_SIZE < length d then d ! ((off + j) mod CHUNK_SIZE) else out1 ! j)"
    "\<And>j. j < len \<Longrightarrow> 2 ^ 24 \<le> (off + j) div CHUNK_SIZE \<Longrightarrow> out2 ! j = out1 ! j"
    using Cons.IH[OF keys' _ o1(2)] by blast
  have "copy_rows sp (row # rows) out = Some out2"
    using o1(1) o2(1) row k chunk_index_of_key[OF ino k(1)] by simp
  moreover have "out2 ! j = (case map_of (row # rows) (chunk_key ino (of_nat ((off + j) div CHUNK_SIZE))) of
         None \<Rightarrow> out ! j
       | Some d \<Rightarrow> if (off + j) mod CHUNK_SIZE < length d then d ! ((off + j) mod CHUNK_SIZE) else out ! j)"
    if j: "j < len" "(off + j) div CHUNK_SIZE < 2 ^ 24" for j
    using o2(3)[OF j] o1(3)[OF j(1)] fresh row k(2) chunk_key_inject[OF ino ino j(2) k(1)]
    by (cases "(off + j) div CHUNK_SIZE = k") (auto split: option.splits)
  moreover have "out2 ! j = out ! j" if j: "j < len" "2 ^ 24 \<le> (off + j) div CHUNK_SIZE" for j
    using o2(4)[OF j] o1(3)[OF j(1)] j(2) k(1) by auto
  ultimately show ?case using o2(2) by blast
qed simp

lemma map_of_filter_key:
  "map_of (filter (\<lambda>(key, _). P key) xs) k = (if P k then map_of xs k else None)"
  by (induction xs) auto

lemma distinct_filter_keys: "distinct (map fst xs) \<Longrightarrow> distinct (map fst (filter P xs))"
  by (induction xs) (auto simp: image_iff)

text \<open>\<open>read_into\<close> over a zeroed buffer yields the stored bytes.\<close>

lemma read_into_spec:
  assumes ok: "tbl_ok (t_chunks (tabs db))" and ino: "valid_ino ino" and fit: "unat offset + n \<le> max_size"
  shows "\<exists>r db'. read_into db ino offset (replicate n 0) = Some (r, db') \<and> tabs db' = tabs db \<and> new_rowid db' = new_rowid db \<and>
    (faults db = [] \<longrightarrow> faults db' = []) \<and>
    (case r of Inl e \<Rightarrow> faults db \<noteq> []
     | Inr out \<Rightarrow> out = map (stored_byte (tabs db) ino) [unat offset ..< unat offset + n])"
proof (cases "span_new offset (length (replicate n (0 :: u8)))")
  case None
  then have "n = 0" using span_new_Some[of n offset] by (cases n) auto
  then show ?thesis by (simp add: read_into_def)
next
  case (Some sp)
  have lt: "unat offset + n \<le> 2 ^ 63" using fit max_size_lt by linarith
  have sp: "is_span (unat offset) n sp" using span_new_is_span[OF Some] lt by simp
  have n: "0 < n" using sp by (simp add: is_span_def)
  let ?off = "unat offset"
  have "?off + n - 1 < max_size" using fit n by linarith
  then have l: "unat (sp_last sp) < 2 ^ 24" and f: "unat (sp_first sp) \<le> unat (sp_last sp)"
    using sp div_lt_chunks[of "?off + n - 1"] n by (auto simp: is_span_def intro: div_le_mono)
  have first: "sp_first sp < MAX_CHUNKS" using l f by (simp add: word_less_nat_alt unat_MAX_CHUNKS)
  have last: "min (sp_last sp) (MAX_CHUNKS - 1) = sp_last sp"
    using l by (simp add: min_def word_le_nat_alt unat_MAX_CHUNKS_pred)
  define lo where "lo = chunk_key ino (sp_first sp)"
  define hi where "hi = chunk_key ino (sp_last sp)"
  define rows where "rows = filter (\<lambda>(key, _). lo \<le> key \<and> key \<le> hi) (t_chunks (tabs db))"
  have keys: "\<forall>key \<in> fst ` set rows. \<exists>k < 2 ^ 24. key = chunk_key ino (of_nat k) \<and> unat (sp_first sp) \<le> k \<and> k \<le> unat (sp_last sp)"
  proof
    fix key
    assume that: "key \<in> fst ` set rows"
    have "chunk_key ino (of_nat (unat (sp_first sp))) \<le> key" "key \<le> chunk_key ino (of_nat (unat (sp_last sp)))"
      using that by (auto simp: rows_def lo_def hi_def)
    then obtain k where "unat (sp_first sp) \<le> k" "k \<le> unat (sp_last sp)" "key = chunk_key ino (of_nat k)"
      using key_between[OF ino le_less_trans[OF f l] l] by blast
    with l show "\<exists>k < 2 ^ 24. key = chunk_key ino (of_nat k) \<and> unat (sp_first sp) \<le> k \<and> k \<le> unat (sp_last sp)"
      by (intro exI[of _ k]) simp
  qed
  have dist: "distinct (map fst rows)"
    unfolding rows_def using tbl_ok_distinct[OF ok] by (rule distinct_filter_keys)
  obtain out' where o: "copy_rows sp rows (replicate n 0) = Some out'" "length out' = n"
    "\<And>j. j < n \<Longrightarrow> (?off + j) div CHUNK_SIZE < 2 ^ 24 \<Longrightarrow> out' ! j =
      (case map_of rows (chunk_key ino (of_nat ((?off + j) div CHUNK_SIZE))) of
         None \<Rightarrow> replicate n 0 ! j
       | Some d \<Rightarrow> if (?off + j) mod CHUNK_SIZE < length d then d ! ((?off + j) mod CHUNK_SIZE) else replicate n 0 ! j)"
    using copy_rows_spec[OF sp ino keys dist length_replicate] by blast
  have "out' ! j = stored_byte (tabs db) ino (?off + j)" if j: "j < n" for j
  proof -
    let ?k = "(?off + j) div CHUNK_SIZE"
    note b = span_chunk_of[OF sp j]
    have k: "?k < 2 ^ 24" using b l by linarith
    have "lo \<le> chunk_key ino (of_nat ?k) \<and> chunk_key ino (of_nat ?k) \<le> hi"
      using b chunk_key_le[OF ino k l] chunk_key_le[OF ino le_less_trans[OF f l] k]
      by (simp add: lo_def hi_def)
    then have "map_of rows (chunk_key ino (of_nat ?k)) = map_of (t_chunks (tabs db)) (chunk_key ino (of_nat ?k))"
      by (simp add: rows_def map_of_filter_key)
    then show ?thesis using o(3)[OF j k] j
      by (auto simp: stored_byte_def chunk_row_def byte_at_def split: option.splits)
  qed
  then have out: "out' = map (stored_byte (tabs db) ino) [?off ..< ?off + n]"
    using o(2) by (intro nth_equalityI) auto
  show ?thesis
    using o(1) out first last Some
    by (auto simp: read_into_def Let_def query_def rows_def lo_def hi_def not_le pop_fault_def
        split: prod.splits option.splits list.splits)
qed

section \<open>Contents and chunk rows\<close>

text \<open>The size of a file may still be a local variable of the running operation, so the facts
  are stated for tables whose inode rows carry it.\<close>

lemma stored_byte_past_end:
  assumes ok: "data_ok t" and r: "inode_row_of t ino = Some r" and p: "row_size r \<le> p" "p < max_size"
  shows "stored_byte t ino p = 0"
proof -
  note ino = valid_ino_of_row[OF ok r] and k = div_lt_chunks[OF p(2)]
  have "length (chunk_row t ino (p div CHUNK_SIZE)) \<le> p mod CHUNK_SIZE"
  proof (cases "map_of (t_chunks t) (chunk_key ino (of_nat (p div CHUNK_SIZE)))")
    case (Some d)
    then obtain r' where "inode_row_of t ino = Some r'" "p div CHUNK_SIZE * CHUNK_SIZE + length d \<le> row_size r'"
      using data_ok_chunk[OF ok Some ino k] by blast
    then have "p div CHUNK_SIZE * CHUNK_SIZE + length d \<le> p" using r p by simp
    then have "length d \<le> p mod CHUNK_SIZE" using div_mult_mod_eq[of p CHUNK_SIZE] by linarith
    with Some show ?thesis by (simp add: chunk_row_def)
  qed (simp add: chunk_row_def)
  then show ?thesis by (simp add: stored_byte_def)
qed

lemma file_bytes_iff:
  assumes ok: "data_ok t"
  shows "file_bytes t ino = Some c \<longleftrightarrow>
    (\<exists>r. inode_row_of t ino = Some r \<and> r_kind r = kind_as_i64 RegularFile \<and> length c = row_size r \<and>
      (\<forall>p < max_size. stored_byte t ino p = byte_at c p))" (is "?L \<longleftrightarrow> ?R")
proof
  assume ?L
  then obtain r where r: "inode_row_of t ino = Some r" "r_kind r = kind_as_i64 RegularFile"
    and c: "c = map (stored_byte t ino) [0 ..< row_size r]"
    by (auto simp: file_bytes_def split: option.splits if_splits)
  have "stored_byte t ino p = byte_at c p" if "p < max_size" for p
    using stored_byte_past_end[OF ok r(1) _ that] c by (cases "p < row_size r") simp_all
  then show ?R using r c by auto
next
  assume ?R
  then obtain r where r: "inode_row_of t ino = Some r" "r_kind r = kind_as_i64 RegularFile" "length c = row_size r"
    and b: "\<And>p. p < max_size \<Longrightarrow> stored_byte t ino p = byte_at c p" by blast
  have "c = map (stored_byte t ino) [0 ..< row_size r]"
    using r b row_size_le[OF ok r(1,2)] by (intro nth_equalityI) auto
  then show ?L using r by (simp add: file_bytes_def)
qed

lemma file_bytes_row:
  "file_bytes t ino = Some c \<Longrightarrow>
    \<exists>r. inode_row_of t ino = Some r \<and> r_kind r = kind_as_i64 RegularFile \<and> length c = row_size r"
  by (auto simp: file_bytes_def split: option.splits if_splits)

text \<open>Contents depend only on the inode's kind and size and on its chunk rows.\<close>

abbreviation head :: "tables \<Rightarrow> u64 \<Rightarrow> (i64 \<times> i64) option" where
  "head t ino \<equiv> map_option (\<lambda>r. (r_kind r, r_size r)) (inode_row_of t ino)"

lemma head_row: "head t' ino = head t ino \<Longrightarrow> inode_row_of t ino = Some r \<Longrightarrow>
    \<exists>r'. inode_row_of t' ino = Some r' \<and> r_kind r' = r_kind r \<and> row_size r' = row_size r"
  by (cases "inode_row_of t' ino") (auto simp: row_size_def)

lemma file_bytes_cong:
  assumes ok: "data_ok t"
    and row: "head t' ino = head t ino"
    and rows: "\<And>k. valid_ino ino \<Longrightarrow> k < 2 ^ 24 \<Longrightarrow> chunk_row t' ino k = chunk_row t ino k"
  shows "file_bytes t' ino = file_bytes t ino"
proof (cases "inode_row_of t ino")
  case (Some r)
  then obtain r' where r': "inode_row_of t' ino = Some r'" "r_kind r' = r_kind r" "r_size r' = r_size r"
    using row by auto
  have "stored_byte t' ino p = stored_byte t ino p" if "r_kind r = kind_as_i64 RegularFile" "p < row_size r" for p
  proof -
    have "p < max_size" using row_size_le[OF ok Some that(1)] that(2) by linarith
    then show ?thesis using rows[OF valid_ino_of_row[OF ok Some] div_lt_chunks] by (simp add: stored_byte_def)
  qed
  then show ?thesis using Some r' by (auto simp: file_bytes_def row_size_def)
qed (use row in \<open>simp add: file_bytes_def\<close>)

section \<open>The read theorem\<close>

lemma inode_head_file:
  assumes "file_bytes (tabs db) ino = Some c"
  shows "\<exists>r db'. inode_head db ino = (r, db') \<and> tabs db' = tabs db \<and> new_rowid db' = new_rowid db \<and>
    (faults db = [] \<longrightarrow> faults db' = []) \<and>
    (case r of Inl e \<Rightarrow> faults db \<noteq> [] | Inr (kind, sz) \<Rightarrow> kind = RegularFile \<and> unat sz = length c)"
  using file_bytes_row[OF assms]
  by (auto simp: inode_head_def query_def pop_fault_def inode_row_of_def row_size_def kind_from_i64_def
      split: list.splits option.splits)


lemma read_file_slice:
  assumes ok: "data_ok (tabs db)" and c: "file_bytes (tabs db) ino = Some c"
  shows "\<exists>r db'. read_file db ino offset sz = Some (r, db') \<and> tabs db' = tabs db \<and> (faults db = [] \<longrightarrow> faults db' = []) \<and>
    (case r of Inl e \<Rightarrow> faults db \<noteq> [] | Inr out \<Rightarrow> out = pread offset sz c)"
proof -
  obtain h db1 where h: "inode_head db ino = (h, db1)" "tabs db1 = tabs db" "faults db = [] \<longrightarrow> faults db1 = []"
    "case h of Inl e \<Rightarrow> faults db \<noteq> [] | Inr (kind, n) \<Rightarrow> kind = RegularFile \<and> unat n = length c"
    using inode_head_file[OF c] by blast
  obtain r where r: "inode_row_of (tabs db) ino = Some r" "r_kind r = kind_as_i64 RegularFile" "length c = row_size r"
    using file_bytes_row[OF c] by blast
  show ?thesis
  proof (cases h)
    case (Inl e)
    then show ?thesis using h by (auto simp: read_file_def)
  next
    case (Inr kn)
    then obtain n where n: "h = Inr (RegularFile, n)" "unat n = length c" using h(4) by (cases kn) auto
    show ?thesis
    proof (cases "n \<le> offset \<or> sz = 0")
      case True
      then show ?thesis using h n by (auto simp: read_file_def word_le_nat_alt pread_def)
    next
      case False
      define m where "m = unat (min (ucast sz) (n - offset) :: u64)"
      have m: "m = min (unat sz) (length c - unat offset)" "unat offset < length c"
        using False n by (simp_all add: m_def unat_min unat_sub word_le_nat_alt word_less_nat_alt not_le unat_ucast_u32)
      then have fit: "unat offset + m \<le> length c" by linarith
      then have "unat offset + m \<le> max_size" using row_size_le[OF ok r(1,2)] r(3) by linarith
      then obtain x db2 where x: "read_into db1 ino offset (replicate m 0) = Some (x, db2)" "tabs db2 = tabs db" "faults db1 = [] \<longrightarrow> faults db2 = []"
        "case x of Inl e \<Rightarrow> faults db1 \<noteq> []
         | Inr out \<Rightarrow> out = map (stored_byte (tabs db) ino) [unat offset ..< unat offset + m]"
        using read_into_spec[of db1 ino offset m] ok valid_ino_of_row[OF ok r(1)]
        unfolding h(2) data_ok_def by blast
      have "map (stored_byte (tabs db) ino) [unat offset ..< unat offset + m] = pread offset sz c"
        unfolding pread_def
        using c m fit r row_size_le[OF ok r(1,2)] file_bytes_iff[OF ok, of ino c]
        by (intro nth_equalityI) auto
      then show ?thesis
        using h n x False by (auto simp: read_file_def m_def split: sum.splits)
    qed
  qed
qed

section \<open>Writing the chunks of one write\<close>

definition subrange :: "nat \<Rightarrow> nat \<Rightarrow> 'a list \<Rightarrow> 'a list" where
  "subrange a b xs = take (b - a) (drop a xs)"

lemma write_at_full:
  assumes "length old \<le> length new"
  shows "write_at old 0 new = new"
  using assms by (simp add: write_at_def)

text \<open>Both branches of the loop body store the old chunk with the piece written into it.\<close>

lemma write_pieces_step:
  assumes sp: "is_span off (length data) sp" and k: "unat (sp_first sp) \<le> k" "k \<le> unat (sp_last sp)" "k < 2 ^ 24"
    and len: "length (chunk_row t ino k) \<le> CHUNK_SIZE"
  defines "p \<equiv> piece sp (of_nat k)"
  shows "write_pieces ino sp data (of_nat k # ks) t =
    write_pieces ino sp data ks (upsert_chunk t (chunk_key ino (of_nat k))
      (write_at (chunk_row t ino k) (chunk_start p) (subrange (buf_start p) (buf_end p) data)))"
proof -
  have u: "unat (of_nat k :: u64) = k" using k(3) by (rule unat_index)
  note pf = piece_fields[OF sp, of "of_nat k", unfolded u, OF k(1,2), folded p_def]
  define cs ce bs be where "cs = chunk_start p" "ce = chunk_end p" "bs = buf_start p" "be = buf_end p"
  note d = cs_ce_bs_be_def
  have b: "cs < ce" "be - bs = ce - cs" "bs < be" "be \<le> length data" "ce \<le> CHUNK_SIZE"
    using pf by (auto simp: d)
  define input where "input = subrange bs be data"
  have li: "length input = ce - cs" using b by (auto simp: input_def subrange_def)
  have sub: "subslice data bs be = Some input" using b by (simp add: subslice_def input_def subrange_def)
  define old where "old = chunk_row t ino k"
  have old: "(case map_of (t_chunks t) (chunk_key ino (of_nat k)) of None \<Rightarrow> [] | Some blob \<Rightarrow> blob) = old"
    by (simp add: old_def chunk_row_def)
  define scratch where "scratch = (if length old < ce then old @ replicate (ce - length old) 0 else old)"
  have ls: "ce \<le> length scratch" "length scratch = max (length old) ce" by (auto simp: scratch_def)
  have c: "copy_from_slice scratch cs ce input = Some (blit scratch cs input)"
    using ls b li by (simp add: copy_from_slice_def)
  have "blit scratch cs input = write_at old cs input"
  proof (rule bytes_eqI)
    show "length (blit scratch cs input) = length (write_at old cs input)"
      using ls b li by simp
    have "scratch ! i = byte_at old i" if "i < length scratch" for i
      using that by (auto simp: scratch_def byte_at_def nth_append split: if_splits)
    then show "byte_at (blit scratch cs input) i = byte_at (write_at old cs input) i"
      if "i < length (blit scratch cs input)" for i
      using that ls b li by (simp add: byte_at_write_at nth_blit)
  qed
  moreover have "input = write_at old cs input" if "is_full_chunk p"
  proof -
    have "cs = 0" "ce = CHUNK_SIZE" using that by (simp_all add: is_full_chunk_def d)
    then show ?thesis using write_at_full[of old input] li len by (simp add: old_def)
  qed
  ultimately show ?thesis
    using sub c old unfolding scratch_def input_def
    by (simp add: Let_def p_def[symmetric] d[symmetric] input_def[symmetric] old_def[symmetric])
qed

lemma chunk_row_upsert:
  assumes "valid_ino ino" "valid_ino ino'" "k < 2 ^ 24" "k' < 2 ^ 24"
  shows "chunk_row (upsert_chunk t (chunk_key ino (of_nat k)) d) ino' k' =
    (if ino' = ino \<and> k' = k then d else chunk_row t ino' k')"
  using chunk_key_inject[OF assms(2,1,4,3)] by (simp add: chunk_row_def upsert_chunk_def tbl_simps)

lemma upsert_chunk_frame [simp]:
  "t_inodes (upsert_chunk t key d) = t_inodes t" "t_dirents (upsert_chunk t key d) = t_dirents t"
  "t_symlinks (upsert_chunk t key d) = t_symlinks t"
  by (simp_all add: upsert_chunk_def)

text \<open>Tables that differ in their chunk rows only.\<close>

definition same_but_chunks :: "tables \<Rightarrow> tables \<Rightarrow> bool" where
  "same_but_chunks t t' \<longleftrightarrow> t_inodes t' = t_inodes t \<and> t_dirents t' = t_dirents t \<and> t_symlinks t' = t_symlinks t"

lemma same_but_chunks_refl [simp]: "same_but_chunks t t"
  by (simp add: same_but_chunks_def)

lemma same_but_chunks_trans: "same_but_chunks t u \<Longrightarrow> same_but_chunks u v \<Longrightarrow> same_but_chunks t v"
  by (simp add: same_but_chunks_def)

text \<open>Some chunks of one inode replaced, the other rows as before.\<close>

definition chunks_replaced :: "tables \<Rightarrow> u64 \<Rightarrow> nat set \<Rightarrow> (nat \<Rightarrow> bytes) \<Rightarrow> tables \<Rightarrow> bool" where
  "chunks_replaced t ino K f t' \<longleftrightarrow> same_but_chunks t t' \<and> (tbl_ok (t_chunks t) \<longrightarrow> tbl_ok (t_chunks t')) \<and>
     (\<forall>k \<in> K. map_of (t_chunks t') (chunk_key ino (of_nat k)) = Some (f k)) \<and>
     (\<forall>key. key \<notin> (\<lambda>k. chunk_key ino (of_nat k)) ` K \<longrightarrow> map_of (t_chunks t') key = map_of (t_chunks t) key)"

lemma chunks_replaced_row:
  assumes "chunks_replaced t ino K f t'" "valid_ino ino" "valid_ino ino'" "k < 2 ^ 24" "\<forall>k \<in> K. k < 2 ^ 24"
  shows "chunk_row t' ino' k = (if ino' = ino \<and> k \<in> K then f k else chunk_row t ino' k)"
proof (cases "ino' = ino \<and> k \<in> K")
  case False
  then have "chunk_key ino' (of_nat k) \<notin> (\<lambda>k. chunk_key ino (of_nat k)) ` K"
    using chunk_key_inject[OF assms(3,2,4)] assms(5) by auto
  with False assms(1) show ?thesis by (auto simp: chunks_replaced_def chunk_row_def)
qed (use assms(1) in \<open>simp add: chunks_replaced_def chunk_row_def\<close>)

lemma chunks_replaced_Nil: "chunks_replaced t ino {} f t"
  by (simp add: chunks_replaced_def)

lemma chunks_replaced_step:
  assumes "chunks_replaced (upsert_chunk t (chunk_key ino (of_nat k)) d) ino K f t'"
    and "k \<notin> K" "valid_ino ino" "k < 2 ^ 24" "\<forall>k \<in> K. k < 2 ^ 24" "f k = d"
  shows "chunks_replaced t ino (insert k K) f t'"
proof -
  have "chunk_key ino (of_nat k) \<notin> (\<lambda>k. chunk_key ino (of_nat k)) ` K"
    using chunk_key_inject[OF assms(3,3,4)] assms(2,5) by auto
  then show ?thesis
    using assms(1,6)
    by (auto simp: chunks_replaced_def same_but_chunks_def upsert_chunk_def tbl_simps tbl_ok_put)
qed

lemma write_pieces_spec:
  assumes sp: "is_span off (length data) sp" and ino: "valid_ino ino"
    and ks: "distinct ks" "set ks \<subseteq> {unat (sp_first sp) .. unat (sp_last sp)}" and last: "unat (sp_last sp) < 2 ^ 24"
    and len: "\<And>k. k < 2 ^ 24 \<Longrightarrow> length (chunk_row t ino k) \<le> CHUNK_SIZE"
  shows "\<exists>t'. write_pieces ino sp data (map of_nat ks) t = Some t' \<and>
    chunks_replaced t ino (set ks) (\<lambda>k. let p = piece sp (of_nat k) in
      write_at (chunk_row t ino k) (chunk_start p) (subrange (buf_start p) (buf_end p) data)) t'"
  using ks len
proof (induction ks arbitrary: t)
  case (Cons k ks)
  have k: "unat (sp_first sp) \<le> k" "k \<le> unat (sp_last sp)" "k < 2 ^ 24" using Cons.prems(2) last by auto
  have sub: "\<forall>k \<in> set ks. k < 2 ^ 24" using Cons.prems(2) last by auto
  let ?p = "piece sp (of_nat k)"
  define d where "d = write_at (chunk_row t ino k) (chunk_start ?p) (subrange (buf_start ?p) (buf_end ?p) data)"
  define u where "u = upsert_chunk t (chunk_key ino (of_nat k)) d"
  have row: "chunk_row u ino j = (if j = k then d else chunk_row t ino j)" if "j < 2 ^ 24" for j
    unfolding u_def using chunk_row_upsert[OF ino ino k(3) that] by simp
  have u: "unat (of_nat k :: u64) = k" using k(3) by (rule unat_index)
  note pf = piece_fields[OF sp, of "of_nat k", unfolded u, OF k(1,2)]
  have "chunk_end ?p \<le> CHUNK_SIZE" using pf(2) by simp
  then have "length d \<le> CHUNK_SIZE"
    using Cons.prems(3)[OF k(3)] pf(5-8) by (auto simp: d_def subrange_def)
  then have "length (chunk_row u ino j) \<le> CHUNK_SIZE" if "j < 2 ^ 24" for j
    using row[OF that] Cons.prems(3)[OF that] by simp
  then obtain t' where t': "write_pieces ino sp data (map of_nat ks) u = Some t'"
    and rep: "chunks_replaced u ino (set ks) (\<lambda>k. let p = piece sp (of_nat k) in
      write_at (chunk_row u ino k) (chunk_start p) (subrange (buf_start p) (buf_end p) data)) t'"
    using Cons.IH[of u] Cons.prems(1,2) by auto
  have "chunks_replaced u ino (set ks) (\<lambda>k. let p = piece sp (of_nat k) in
      write_at (chunk_row t ino k) (chunk_start p) (subrange (buf_start p) (buf_end p) data)) t'"
    using rep row sub Cons.prems(1) unfolding chunks_replaced_def Let_def by (auto simp: subset_iff)
  then have "chunks_replaced t ino (set (k # ks)) (\<lambda>k. let p = piece sp (of_nat k) in
      write_at (chunk_row t ino k) (chunk_start p) (subrange (buf_start p) (buf_end p) data)) t'"
    unfolding list.set u_def using Cons.prems(1) sub k
    by (intro chunks_replaced_step[OF _ _ ino]) (auto simp: d_def Let_def)
  moreover have "write_pieces ino sp data (map of_nat (k # ks)) t = Some t'"
    using write_pieces_step[OF sp k Cons.prems(3)[OF k(3)], of "map of_nat ks"] t' by (simp add: u_def d_def)
  ultimately show ?case by blast
qed (auto intro: chunks_replaced_Nil)

text \<open>Byte by byte: the span holds the new data, every other byte is as before.\<close>

lemma piece_byte:
  assumes sp: "is_span off (length data) sp" and k: "unat (sp_first sp) \<le> k" "k \<le> unat (sp_last sp)" "k < 2 ^ 24"
    and pos: "p div CHUNK_SIZE = k"
  defines "pc \<equiv> piece sp (of_nat k)"
  shows "byte_at (write_at old (chunk_start pc) (subrange (buf_start pc) (buf_end pc) data)) (p mod CHUNK_SIZE) =
    (if off \<le> p \<and> p < off + length data then data ! (p - off) else byte_at old (p mod CHUNK_SIZE))"
proof -
  have u: "unat (of_nat k :: u64) = k" using k(3) by (rule unat_index)
  note pf = piece_fields[OF sp, of "of_nat k", unfolded u, OF k(1,2), folded pc_def]
  have l: "length (subrange (buf_start pc) (buf_end pc) data) = chunk_end pc - chunk_start pc"
    using pf(5-8) by (auto simp: subrange_def)
  define c where "c = k * CHUNK_SIZE"
  define i where "i = p mod CHUNK_SIZE"
  have i: "p = c + i" "i < CHUNK_SIZE" using pos by (auto simp: c_def i_def)
  have f: "chunk_start pc = off - c" "chunk_end pc = min (off + length data - c) CHUNK_SIZE"
    "buf_start pc = c - off"
    using pf(1-3) by (simp_all add: c_def)
  have hit: "chunk_start pc \<le> i \<and> i < chunk_start pc + (chunk_end pc - chunk_start pc) \<longleftrightarrow> off \<le> p \<and> p < off + length data"
    using i f pf(5) by auto
  show ?thesis
  proof (cases "off \<le> p \<and> p < off + length data")
    case True
    have "buf_start pc + (i - chunk_start pc) = p - off" using True i f by linarith
    moreover have "i - chunk_start pc < buf_end pc - buf_start pc" using True hit pf(5,6) by linarith
    ultimately have "subrange (buf_start pc) (buf_end pc) data ! (i - chunk_start pc) = data ! (p - off)"
      using pf(7,8) by (simp add: subrange_def)
    with True hit l show ?thesis by (simp add: byte_at_write_at i_def[symmetric])
  next
    case False
    with hit l show ?thesis by (auto simp: byte_at_write_at i_def[symmetric])
  qed
qed

lemma write_pieces_bytes:
  assumes sp: "is_span off (length data) sp" and ino: "valid_ino ino" and fit: "off + length data \<le> max_size"
    and len: "\<And>k. k < 2 ^ 24 \<Longrightarrow> length (chunk_row t ino k) \<le> CHUNK_SIZE"
  obtains t' where "write_pieces ino sp data (span_chunks sp) t = Some t'"
    "chunks_replaced t ino {off div CHUNK_SIZE .. (off + length data - 1) div CHUNK_SIZE} (chunk_row t' ino) t'"
    "\<And>p. p < max_size \<Longrightarrow> stored_byte t' ino p =
      (if off \<le> p \<and> p < off + length data then data ! (p - off) else stored_byte t ino p)"
    "\<And>k. k \<in> {off div CHUNK_SIZE .. (off + length data - 1) div CHUNK_SIZE} \<Longrightarrow>
      length (chunk_row t' ino k) \<le> CHUNK_SIZE \<and>
      k * CHUNK_SIZE + length (chunk_row t' ino k) \<le> max (k * CHUNK_SIZE + length (chunk_row t ino k)) (off + length data)"
proof -
  let ?K = "{off div CHUNK_SIZE .. (off + length data - 1) div CHUNK_SIZE}"
  have pos: "0 < length data" using sp by (simp add: is_span_def)
  have fl: "unat (sp_first sp) = off div CHUNK_SIZE" "unat (sp_last sp) = (off + length data - 1) div CHUNK_SIZE"
    using sp by (simp_all add: is_span_def)
  have "off + length data - 1 < max_size" using fit pos by linarith
  then have last: "unat (sp_last sp) < 2 ^ 24" unfolding fl by (rule div_lt_chunks)
  define ks where "ks = [unat (sp_first sp) ..< Suc (unat (sp_last sp))]"
  have ks: "distinct ks" "set ks = ?K" "set ks \<subseteq> {unat (sp_first sp) .. unat (sp_last sp)}"
    using fl by (auto simp: ks_def)
  define f where "f = (\<lambda>k. let p = piece sp (of_nat k) in
      write_at (chunk_row t ino k) (chunk_start p) (subrange (buf_start p) (buf_end p) data))"
  have "\<exists>t'. write_pieces ino sp data (map of_nat ks) t = Some t' \<and> chunks_replaced t ino (set ks) f t'"
    unfolding f_def by (rule write_pieces_spec[OF sp ino ks(1,3) last len])
  moreover have "map of_nat ks = span_chunks sp" by (simp only: ks_def span_chunks_def)
  ultimately obtain t' where t': "write_pieces ino sp data (span_chunks sp) t = Some t'"
    and rep: "chunks_replaced t ino ?K f t'"
    unfolding ks(2) by auto
  have K: "\<forall>k \<in> ?K. k < 2 ^ 24" using last fl by auto
  have row: "chunk_row t' ino k = (if k \<in> ?K then f k else chunk_row t ino k)" if "k < 2 ^ 24" for k
    using chunks_replaced_row[OF rep ino ino that K] by simp
  have "chunks_replaced t ino ?K (chunk_row t' ino) t'"
    using rep row K by (auto simp: chunks_replaced_def subset_iff)
  moreover have "stored_byte t' ino p = (if off \<le> p \<and> p < off + length data then data ! (p - off) else stored_byte t ino p)"
    if p: "p < max_size" for p
  proof (cases "p div CHUNK_SIZE \<in> ?K")
    case True
    then show ?thesis
      using piece_byte[OF sp _ _ div_lt_chunks[OF p] refl] fl row[OF div_lt_chunks[OF p]]
      by (simp add: stored_byte_def f_def Let_def)
  next
    case False
    then have "\<not> (off \<le> p \<and> p < off + length data)" by (auto intro: div_le_mono)
    with False row[OF div_lt_chunks[OF p]] show ?thesis by (auto simp: stored_byte_def)
  qed
  moreover have "length (chunk_row t' ino k) \<le> CHUNK_SIZE \<and>
      k * CHUNK_SIZE + length (chunk_row t' ino k) \<le> max (k * CHUNK_SIZE + length (chunk_row t ino k)) (off + length data)"
    if k: "k \<in> ?K" for k
  proof -
    have k24: "k < 2 ^ 24" using K k by auto
    have u: "unat (of_nat k :: u64) = k" using k24 by (rule unat_index)
    have kb: "unat (sp_first sp) \<le> k" "k \<le> unat (sp_last sp)" using k fl by auto
    define pc where "pc = piece sp (of_nat k)"
    note pf = piece_fields[OF sp, of "of_nat k", unfolded u, OF kb, folded pc_def]
    have "length (chunk_row t' ino k) = max (length (chunk_row t ino k)) (chunk_end pc)"
      using row[OF k24] k pf(5-8) by (auto simp: f_def Let_def pc_def[symmetric] subrange_def)
    moreover have "k * CHUNK_SIZE + chunk_end pc \<le> off + length data" "chunk_end pc \<le> CHUNK_SIZE"
      using pf(2) span_chunk_bounds[OF sp kb] by linarith+
    ultimately show ?thesis using len[OF k24] by auto
  qed
  ultimately show thesis using that t' by blast
qed

section \<open>Setting the size\<close>

lemma set_size_frame [simp]:
  "t_chunks (set_size t ino n m) = t_chunks t" "t_dirents (set_size t ino n m) = t_dirents t"
  "t_symlinks (set_size t ino n m) = t_symlinks t"
  by (simp_all add: set_size_def)

lemma chunk_row_set_size [simp]: "chunk_row (set_size t ino n m) = chunk_row t"
  by (simp add: chunk_row_def fun_eq_iff)

lemma stored_byte_set_size [simp]: "stored_byte (set_size t ino n m) = stored_byte t"
  by (simp add: stored_byte_def fun_eq_iff)

lemma set_size_row:
  "inode_row_of (set_size t ino n m) ino' =
    (if ino' = ino then map_option (\<lambda>r. r\<lparr>r_size := i64_of_u64 n, r_mtime_ns := to_ns m, r_ctime_ns := to_ns m\<rparr>)
       (inode_row_of t ino) else inode_row_of t ino')"
  by (simp add: set_size_def inode_row_of_def tbl_simps)

lemma set_size_map_of:
  "map_of (t_inodes (set_size t ino n m)) i =
    (if i = i64_of_u64 ino then map_option (\<lambda>r. r\<lparr>r_size := i64_of_u64 n, r_mtime_ns := to_ns m, r_ctime_ns := to_ns m\<rparr>)
       (map_of (t_inodes t) i) else map_of (t_inodes t) i)"
  by (simp add: set_size_def tbl_simps)

lemma tbl_ok_set_size [simp]: "tbl_ok (t_inodes (set_size t ino n m)) = tbl_ok (t_inodes t)"
  by (simp add: set_size_def)

lemma row_size_set [simp]: "row_size (r\<lparr>r_size := i64_of_u64 n, r_mtime_ns := a, r_ctime_ns := b\<rparr>) = unat n"
  by (simp add: row_size_def)

lemma set_size_twice [simp]: "set_size (set_size t ino n m) ino n' m' = set_size t ino n' m'"
  by (simp add: set_size_def tbl_update_def comp_def case_prod_beta cong: map_cong)

text \<open>Changing rows of one file, within its new size, keeps the invariant.\<close>

lemma data_ok_sized:
  assumes ok: "data_ok t" and same: "same_but_chunks t t'" and tbl: "tbl_ok (t_chunks t')"
    and reg: "is_file t ino" and fit: "unat n' \<le> max_size"
    and new: "\<And>key d. map_of (t_chunks t') key = Some d \<Longrightarrow>
      (\<exists>k < 2 ^ 24. key = chunk_key ino (of_nat k) \<and> length d \<le> CHUNK_SIZE \<and> k * CHUNK_SIZE + length d \<le> unat n') \<or>
      map_of (t_chunks t) key = Some d \<and> (\<forall>k < 2 ^ 24. key \<noteq> chunk_key ino (of_nat k))"
  shows "data_ok (set_size t' ino n' m')"
proof -
  obtain r where r: "inode_row_of t ino = Some r" "r_kind r = kind_as_i64 RegularFile"
    using reg by (auto simp: is_file_def)
  have ino: "valid_ino ino" using valid_ino_of_row[OF ok] r by simp
  have t': "t_inodes t' = t_inodes t" "inode_row_of t' = inode_row_of t"
    using same by (auto simp: same_but_chunks_def inode_row_of_def fun_eq_iff)
  have "inode_row_ok i q" if q: "map_of (t_inodes (set_size t' ino n' m')) i = Some q" for i q
    using q ok r fit by (auto simp: data_ok_def set_size_map_of t' inode_row_of_def inode_row_ok_def split: if_splits)
  moreover have "chunk_owned (set_size t' ino n' m') key d" if d: "map_of (t_chunks t') key = Some d" for key d
    using new[OF d]
  proof (elim disjE exE conjE)
    fix k
    assume "k < 2 ^ 24" "key = chunk_key ino (of_nat k)" "length d \<le> CHUNK_SIZE" "k * CHUNK_SIZE + length d \<le> unat n'"
    then show ?thesis
      unfolding chunk_owned_def using r ino
      by (intro exI[of _ ino] exI[of _ k]) (auto simp: set_size_row t')
  next
    assume "map_of (t_chunks t) key = Some d" and other: "\<forall>k < 2 ^ 24. key \<noteq> chunk_key ino (of_nat k)"
    then have "chunk_owned t key d" using ok by (auto simp: data_ok_def)
    then obtain j k q where "valid_ino j" "k < 2 ^ 24" "key = chunk_key j (of_nat k)"
      "inode_row_of t j = Some q" "r_kind q = kind_as_i64 RegularFile" "length d \<le> CHUNK_SIZE"
      "k * CHUNK_SIZE + length d \<le> row_size q"
      unfolding chunk_owned_def by blast
    then show ?thesis
      unfolding chunk_owned_def using other
      by (intro exI[of _ j] exI[of _ k]) (auto simp: set_size_row t' split: if_splits)
  qed
  ultimately show ?thesis using ok tbl t' by (auto simp: data_ok_def)
qed

text \<open>A chunk row belongs to one inode.\<close>

lemma chunk_row_cases:
  assumes "data_ok t" "map_of (t_chunks t) key = Some d" "valid_ino ino"
  obtains k r where "k < 2 ^ 24" "key = chunk_key ino (of_nat k)" "inode_row_of t ino = Some r" "length d \<le> CHUNK_SIZE"
      "k * CHUNK_SIZE + length d \<le> row_size r"
  | "\<forall>k < 2 ^ 24. key \<noteq> chunk_key ino (of_nat k)"
  using assms chunk_key_inject unfolding data_ok_def chunk_owned_def by metis

lemma data_ok_grow:
  assumes ok: "data_ok (set_size t ino n m)" and same: "same_but_chunks t t'" and tbl: "tbl_ok (t_chunks t')"
    and reg: "is_file t ino" and grow: "unat n \<le> unat n'" "unat n' \<le> max_size"
    and new: "\<And>key d. map_of (t_chunks t') key = Some d \<Longrightarrow> map_of (t_chunks t) key = Some d \<or>
      (\<exists>k < 2 ^ 24. key = chunk_key ino (of_nat k) \<and> length d \<le> CHUNK_SIZE \<and> k * CHUNK_SIZE + length d \<le> unat n')"
  shows "data_ok (set_size t' ino n' m')"
proof -
  obtain r where r: "inode_row_of t ino = Some r" "r_kind r = kind_as_i64 RegularFile"
    using reg by (auto simp: is_file_def)
  have ino: "valid_ino ino" using valid_ino_of_row[OF ok] r by (simp add: set_size_row)
  have "data_ok (set_size (set_size t' ino n m) ino n' m')"
  proof (rule data_ok_sized[OF ok])
    show "same_but_chunks (set_size t ino n m) (set_size t' ino n m)" "tbl_ok (t_chunks (set_size t' ino n m))"
      "is_file (set_size t ino n m) ino"
      using same tbl r by (simp_all add: same_but_chunks_def set_size_def is_file_def inode_row_of_def tbl_simps)
    fix key d
    assume d: "map_of (t_chunks (set_size t' ino n m)) key = Some d"
    show "(\<exists>k < 2 ^ 24. key = chunk_key ino (of_nat k) \<and> length d \<le> CHUNK_SIZE \<and> k * CHUNK_SIZE + length d \<le> unat n') \<or>
      map_of (t_chunks (set_size t ino n m)) key = Some d \<and> (\<forall>k < 2 ^ 24. key \<noteq> chunk_key ino (of_nat k))"
    proof (cases "map_of (t_chunks t) key = Some d")
      case True
      then have "map_of (t_chunks (set_size t ino n m)) key = Some d" by simp
      from ok this ino show ?thesis
      proof (cases rule: chunk_row_cases)
        case (1 k q)
        then have "k * CHUNK_SIZE + length d \<le> unat n'" using r grow by (auto simp: set_size_row)
        with 1 show ?thesis by blast
      qed (use True in simp)
    next
      case False
      then show ?thesis using new[of key d] d by auto
    qed
  qed (rule grow(2))
  then show ?thesis by simp
qed

text \<open>The contents and the frame that every data operation on one inode promises.\<close>

definition others_same :: "tables \<Rightarrow> u64 \<Rightarrow> tables \<Rightarrow> bool" where
  "others_same t ino t' \<longleftrightarrow> t_dirents t' = t_dirents t \<and> t_symlinks t' = t_symlinks t \<and>
     (\<forall>ino'. ino' \<noteq> ino \<longrightarrow> inode_row_of t' ino' = inode_row_of t ino' \<and> file_bytes t' ino' = file_bytes t ino' \<and>
        (\<forall>k < 2 ^ 24. valid_ino ino' \<longrightarrow> chunk_row t' ino' k = chunk_row t ino' k))"

lemma others_same_refl [simp]: "others_same t ino t"
  by (simp add: others_same_def)

lemma others_same_trans: "others_same t ino u \<Longrightarrow> others_same u ino v \<Longrightarrow> others_same t ino v"
  by (simp add: others_same_def)

section \<open>The write theorem\<close>

lemma saturating_add_fits:
  assumes "\<not> MAX_FILE_SIZE < saturating_add offset (of_nat n)" and "n < 2 ^ 63"
  shows "unat offset + n \<le> max_size"
proof -
  have n: "unat (of_nat n :: u64) = n" using assms(2) by (simp add: unat_of_nat)
  have m: "max_size < 2 ^ 64 - 1" using max_size_lt by simp
  show ?thesis
  proof (cases "unat offset + n < 2 ^ 64")
    case True
    then have "unat (offset + of_nat n) = unat offset + n" using n by (simp add: unat_word_ariths)
    with True assms(1) n show ?thesis
      by (simp add: saturating_add_def word_less_nat_alt max_size_unat not_less)
  next
    case False
    then have "saturating_add offset (of_nat n) = - 1" using n by (simp add: saturating_add_def)
    then have "unat (- 1 :: u64) \<le> max_size" using assms(1) by (simp add: word_less_nat_alt max_size_unat not_less)
    with m show ?thesis by (simp add: unsigned_minus_1_eq_mask mask_eq_exp_minus_1)
  qed
qed

lemma saturating_add_large:
  assumes "MAX_FILE_SIZE < saturating_add offset (of_nat n)" and "n < 2 ^ 63"
  shows "max_size < unat offset + n"
proof (cases "unat offset + n < 2 ^ 64")
  case True
  have n: "unat (of_nat n :: u64) = n" using assms(2) by (simp add: unat_of_nat)
  then have "unat (offset + of_nat n) = unat offset + n" using True by (simp add: unat_word_ariths)
  with assms(1) n True show ?thesis by (simp add: saturating_add_def word_less_nat_alt max_size_unat)
next
  case False
  with max_size_lt show ?thesis by simp
qed

lemma write_one:
  assumes ok: "data_ok (set_size t ino n m)" and c: "file_bytes (set_size t ino n m) ino = Some c"
    and sp: "span_new offset (length data) = Some sp" and fit: "unat offset + length data \<le> max_size"
  defines "n' \<equiv> max n (offset + of_nat (length data))"
  obtains t' where "write_pieces ino sp data (span_chunks sp) t = Some t'"
    "data_ok (set_size t' ino n' m)"
    "file_bytes (set_size t' ino n' m) ino = Some (write_at c (unat offset) data)"
    "others_same (set_size t ino n m) ino (set_size t' ino n' m)" "same_but_chunks t t'"
proof -
  let ?T = "set_size t ino n m"
  obtain r where r: "inode_row_of t ino = Some r" "r_kind r = kind_as_i64 RegularFile" and cl: "length c = unat n"
    using file_bytes_row[OF c] by (auto simp: set_size_row)
  have ino: "valid_ino ino" using valid_ino_of_row[OF ok] r by (simp add: set_size_row)
  have nfit: "unat n \<le> max_size" using row_size_le[OF ok, of ino] r by (simp add: set_size_row)
  have span: "is_span (unat offset) (length data) sp"
    using span_new_is_span[OF sp] fit max_size_lt by linarith
  have add: "unat (offset + of_nat (length data)) = unat offset + length data"
    using fit max_size_lt by (simp add: unat_word_ariths unat_of_nat)
  then have n': "unat n' = max (unat n) (unat offset + length data)" by (simp add: n'_def unat_max)
  let ?K = "{unat offset div CHUNK_SIZE .. (unat offset + length data - 1) div CHUNK_SIZE}"
  have len: "length (chunk_row t ino k) \<le> CHUNK_SIZE" if "k < 2 ^ 24" for k
    using chunk_row_len[OF ok ino that] by simp
  obtain t' where t': "write_pieces ino sp data (span_chunks sp) t = Some t'"
    and rep: "chunks_replaced t ino ?K (chunk_row t' ino) t'"
    and bytes: "\<And>p. p < max_size \<Longrightarrow> stored_byte t' ino p =
      (if unat offset \<le> p \<and> p < unat offset + length data then data ! (p - unat offset) else stored_byte t ino p)"
    and lens: "\<And>k. k \<in> ?K \<Longrightarrow> length (chunk_row t' ino k) \<le> CHUNK_SIZE \<and>
      k * CHUNK_SIZE + length (chunk_row t' ino k) \<le> max (k * CHUNK_SIZE + length (chunk_row t ino k)) (unat offset + length data)"
    using write_pieces_bytes[OF span ino fit len] by blast
  have same: "same_but_chunks t t'" using rep by (simp add: chunks_replaced_def)
  have K: "\<forall>k \<in> ?K. k < 2 ^ 24"
  proof -
    have "0 < length data" using span by (simp add: is_span_def)
    then have "unat offset + length data - 1 < max_size" using fit by linarith
    from div_lt_chunks[OF this] show ?thesis by auto
  qed
  have old: "k * CHUNK_SIZE + length (chunk_row t ino k) \<le> unat n'" if "k \<in> ?K" for k
  proof (cases "map_of (t_chunks t) (chunk_key ino (of_nat k))")
    case None
    have "k * CHUNK_SIZE \<le> (unat offset + length data - 1) div CHUNK_SIZE * CHUNK_SIZE"
      using that by (auto intro: mult_le_mono1)
    also have "\<dots> \<le> unat offset + length data - 1" by (rule div_times_less_eq_dividend)
    finally show ?thesis using None n' by (simp add: chunk_row_def)
  next
    case (Some d)
    then have "map_of (t_chunks ?T) (chunk_key ino (of_nat k)) = Some d" by simp
    from data_ok_chunk[OF ok this ino] K that
    have "k * CHUNK_SIZE + length d \<le> unat n" using r by (auto simp: set_size_row)
    with Some n' show ?thesis by (simp add: chunk_row_def)
  qed
  have ok': "data_ok (set_size t' ino n' m)"
  proof (rule data_ok_grow[OF ok same])
    show "tbl_ok (t_chunks t')" using rep ok by (simp add: chunks_replaced_def data_ok_def)
    show "is_file t ino" using r by (simp add: is_file_def)
    show "unat n \<le> unat n'" "unat n' \<le> max_size" using n' fit nfit by auto
    fix key d
    assume d: "map_of (t_chunks t') key = Some d"
    show "map_of (t_chunks t) key = Some d \<or>
      (\<exists>k < 2 ^ 24. key = chunk_key ino (of_nat k) \<and> length d \<le> CHUNK_SIZE \<and> k * CHUNK_SIZE + length d \<le> unat n')"
    proof (cases "key \<in> (\<lambda>k. chunk_key ino (of_nat k)) ` ?K")
      case True
      then obtain k where k: "k \<in> ?K" "key = chunk_key ino (of_nat k)" by blast
      then have "d = chunk_row t' ino k" using d by (simp add: chunk_row_def)
      then show ?thesis using lens[OF k(1)] old[OF k(1)] k K n' by (intro disjI2 exI[of _ k]) auto
    next
      case False
      then show ?thesis using rep d by (simp add: chunks_replaced_def)
    qed
  qed
  have t'r: "inode_row_of t' = inode_row_of t" using same by (auto simp: same_but_chunks_def inode_row_of_def fun_eq_iff)
  have "file_bytes (set_size t' ino n' m) ino = Some (write_at c (unat offset) data)"
    unfolding file_bytes_iff[OF ok']
    using r cl n' bytes c[unfolded file_bytes_iff[OF ok]] by (auto simp: set_size_row t'r byte_at_write_at)
  moreover have "file_bytes (set_size t' ino n' m) i = file_bytes ?T i" if "i \<noteq> ino" for i
  proof (rule file_bytes_cong[OF ok])
    show "chunk_row (set_size t' ino n' m) i k = chunk_row ?T i k" if "valid_ino i" "k < 2 ^ 24" for k
      using chunks_replaced_row[OF rep ino that K] \<open>i \<noteq> ino\<close> by simp
  qed (use that t'r in \<open>simp add: set_size_row\<close>)
  moreover have "chunk_row t' i k = chunk_row t i k" if "i \<noteq> ino" "valid_ino i" "k < 2 ^ 24" for i k
    using chunks_replaced_row[OF rep ino that(2,3) K] that(1) by simp
  ultimately show thesis
    using that t' ok' same t'r by (auto simp: others_same_def same_but_chunks_def set_size_row)
qed

lemma write_all_spec:
  assumes "data_ok (set_size t ino n m)" and "file_bytes (set_size t ino n m) ino = Some c"
    and "\<And>offset data. (offset, data) \<in> set writes \<Longrightarrow> unat offset + length data \<le> max_size"
  shows "\<exists>n' t'. write_all ino writes n w t = Some (n', w + sum_list (map (length \<circ> snd) writes), t') \<and>
    data_ok (set_size t' ino n' m) \<and> file_bytes (set_size t' ino n' m) ino = Some (fold pwrite writes c) \<and>
    others_same (set_size t ino n m) ino (set_size t' ino n' m) \<and> same_but_chunks t t'"
  using assms
proof (induction writes arbitrary: t n c w)
  case (Cons wr writes)
  obtain offset data where wr: "wr = (offset, data)" by fastforce
  show ?case
  proof (cases "data = []")
    case True
    then show ?thesis using Cons.IH[OF Cons.prems(1,2)] Cons.prems(3) wr by (auto simp: pwrite_def)
  next
    case False
    then obtain sp where sp: "span_new offset (length data) = Some sp" using span_new_Some[of "length data" offset] by auto
    have fit: "unat offset + length data \<le> max_size" using Cons.prems(3) wr by auto
    define n1 where "n1 = max n (offset + of_nat (length data))"
    obtain t1 where t1: "write_pieces ino sp data (span_chunks sp) t = Some t1"
      "data_ok (set_size t1 ino n1 m)" "file_bytes (set_size t1 ino n1 m) ino = Some (write_at c (unat offset) data)"
      "others_same (set_size t ino n m) ino (set_size t1 ino n1 m)" "same_but_chunks t t1"
      using write_one[OF Cons.prems(1,2) sp fit] unfolding n1_def by blast
    have "\<And>offset data. (offset, data) \<in> set writes \<Longrightarrow> unat offset + length data \<le> max_size"
      using Cons.prems(3) by auto
    from Cons.IH[OF t1(2,3) this, of "w + length data"] t1 sp wr False show ?thesis
      by (auto simp: pwrite_def add.assoc n1_def[symmetric]
          intro: others_same_trans same_but_chunks_trans)
  qed
qed simp

text \<open>A size written back unchanged.\<close>

lemma set_size_same:
  assumes "data_ok t" and "file_bytes t ino = Some c" and "unat n = length c"
  shows "data_ok (set_size t ino n m)" and "file_bytes (set_size t ino n m) ino = Some c"
    and "others_same t ino (set_size t ino n m)"
proof -
  obtain r where r: "inode_row_of t ino = Some r" "r_kind r = kind_as_i64 RegularFile" "length c = row_size r"
    using file_bytes_row[OF assms(2)] by blast
  have le: "row_size r \<le> max_size" using row_size_le[OF assms(1) r(1,2)] .
  have "inode_row_ok i q" if "map_of (t_inodes (set_size t ino n m)) i = Some q" for i q
    using that assms(1,3) r le by (auto simp: data_ok_def set_size_map_of inode_row_of_def inode_row_ok_def split: if_splits)
  moreover have "chunk_owned (set_size t ino n m) key d" if d: "map_of (t_chunks t) key = Some d" for key d
  proof -
    have "chunk_owned t key d" using d assms(1) by (simp add: data_ok_def)
    then obtain j k q where "valid_ino j" "k < 2 ^ 24" "key = chunk_key j (of_nat k)"
      "inode_row_of t j = Some q" "r_kind q = kind_as_i64 RegularFile" "length d \<le> CHUNK_SIZE"
      "k * CHUNK_SIZE + length d \<le> row_size q"
      unfolding chunk_owned_def by blast
    then show ?thesis
      unfolding chunk_owned_def using r assms(3)
      by (intro exI[of _ j] exI[of _ k]) (auto simp: set_size_row)
  qed
  ultimately show ok: "data_ok (set_size t ino n m)" using assms(1) by (simp add: data_ok_def)
  show "file_bytes (set_size t ino n m) ino = Some c"
    unfolding file_bytes_iff[OF ok] using assms r by (auto simp: set_size_row file_bytes_iff)
  have "file_bytes (set_size t ino n m) i = file_bytes t i" if "i \<noteq> ino" for i
    using that by (intro file_bytes_cong[OF assms(1)]) (simp_all add: set_size_row)
  then show "others_same t ino (set_size t ino n m)" by (simp add: others_same_def set_size_row)
qed

definition slices_ok :: "(u64 \<times> bytes) list \<Rightarrow> bool" where
  "slices_ok writes \<longleftrightarrow> (\<forall>(offset, data) \<in> set writes. length data < 2 ^ 63)"

text \<open>What a successful batch leaves behind.\<close>

definition batch_written :: "tables \<Rightarrow> u64 \<Rightarrow> (u64 \<times> bytes) list \<Rightarrow> bytes \<Rightarrow> tables \<Rightarrow> bool" where
  "batch_written t ino writes c t' \<longleftrightarrow>
     data_ok t' \<and> file_bytes t' ino = Some (fold pwrite writes c) \<and> others_same t ino t'"

lemma fold_pwrite_empty: "list_all (\<lambda>(_, data). data = []) writes \<Longrightarrow> fold pwrite writes c = c"
  by (induction writes arbitrary: c) (auto simp: pwrite_def)

lemma write_batch_spec:
  assumes ok: "data_ok (tabs db)" and c: "file_bytes (tabs db) ino = Some c" and sl: "slices_ok writes"
  shows "\<exists>r db'. write_file_batch_at db ino writes m = Some (r, db') \<and> (faults db = [] \<longrightarrow> faults db' = []) \<and>
    (case r of
       Inl e \<Rightarrow> tabs db' = tabs db \<and> (faults db \<noteq> [] \<or> e = FileTooLarge \<and>
                 (\<exists>(offset, data) \<in> set writes. max_size < unat offset + length data))
     | Inr n \<Rightarrow> n = of_nat (sum_list (map (length \<circ> snd) writes)) \<and> batch_written (tabs db) ino writes c (tabs db'))"
proof -
  obtain h db1 where h: "inode_head db ino = (h, db1)" "tabs db1 = tabs db" "faults db = [] \<longrightarrow> faults db1 = []"
    "case h of Inl e \<Rightarrow> faults db \<noteq> [] | Inr (kind, n) \<Rightarrow> kind = RegularFile \<and> unat n = length c"
    using inode_head_file[OF c] by blast
  show ?thesis
  proof (cases h)
    case (Inl e)
    then show ?thesis using h by (auto simp: write_file_batch_at_def)
  next
    case (Inr kn)
    then obtain n where n: "h = Inr (RegularFile, n)" "unat n = length c" using h(4) by (cases kn) auto
    let ?empty = "list_all (\<lambda>(_, data). data = []) writes"
    let ?large = "list_ex (\<lambda>(offset, data). MAX_FILE_SIZE < saturating_add offset (of_nat (length data))) writes"
    consider (empty) ?empty | (large) "\<not> ?empty" ?large | (go) "\<not> ?empty" "\<not> ?large" by blast
    then show ?thesis
    proof cases
      case empty
      then have z: "sum_list (map (length \<circ> snd) writes) = 0" by (induction writes) auto
      with empty fold_pwrite_empty[OF empty, of c] show ?thesis
        using h n ok c by (auto simp: write_file_batch_at_def batch_written_def z simp del: sum_list_eq_0_iff)
    next
      case large
      then obtain offset data where "(offset, data) \<in> set writes" "MAX_FILE_SIZE < saturating_add offset (of_nat (length data))"
        by (auto simp: list_ex_iff)
      moreover from this have "max_size < unat offset + length data"
        using sl by (intro saturating_add_large) (auto simp: slices_ok_def)
      ultimately have "\<exists>(offset, data) \<in> set writes. max_size < unat offset + length data" by blast
      with large show ?thesis using h n by (auto simp: write_file_batch_at_def)
    next
      case go
      have fit: "unat offset + length data \<le> max_size" if "(offset, data) \<in> set writes" for offset data
        using go(2) that sl by (intro saturating_add_fits) (auto simp: list_ex_iff slices_ok_def)
      note z = set_size_same[OF ok c n(2), of m]
      obtain n' t' where w: "write_all ino writes n 0 (tabs db) = Some (n', sum_list (map (length \<circ> snd) writes), t')"
        "data_ok (set_size t' ino n' m)" "file_bytes (set_size t' ino n' m) ino = Some (fold pwrite writes c)"
        "others_same (set_size (tabs db) ino n m) ino (set_size t' ino n' m)"
        using write_all_spec[OF z(1,2) fit, of writes 0] by auto
      have "others_same (tabs db) ino (set_size t' ino n' m)" using others_same_trans[OF z(3) w(4)] .
      then have good: "batch_written (tabs db) ino writes c (set_size t' ino n' m)"
        using w by (simp add: batch_written_def)
      define body where "body = (\<lambda>t. do {
             (new_size, written, t) \<leftarrow> write_all ino writes n 0 t;
             Some (Inr (of_nat written, set_size t ino new_size m)) :: (DbError + u32 \<times> tables) option})"
      have b: "body (tabs db1) = Some (Inr (of_nat (sum_list (map (length \<circ> snd) writes)), set_size t' ino n' m))"
        by (simp add: body_def w(1) h(2))
      obtain r db2 where r: "try_transaction db1 body = Some (r, db2)" "faults db1 = [] \<longrightarrow> faults db2 = []"
        "case r of Inl e \<Rightarrow> tabs db2 = tabs db \<and> faults db1 \<noteq> []
         | Inr x \<Rightarrow> x = of_nat (sum_list (map (length \<circ> snd) writes)) \<and> tabs db2 = set_size t' ino n' m"
        using try_transaction_commits[of body db1, OF b] unfolding h(2) by blast
      then show ?thesis
        using h n go r good by (auto simp: write_file_batch_at_def body_def[symmetric] split: sum.splits)
    qed
  qed
qed

section \<open>Truncation and deletion\<close>

lemma in_chunk_range:
  assumes "valid_ino ino"
  shows "chunk_key ino 0 \<le> key \<and> key \<le> chunk_key ino (MAX_CHUNKS - 1) \<longleftrightarrow>
    (\<exists>k < 2 ^ 24. key = chunk_key ino (of_nat k))"
proof -
  have m: "MAX_CHUNKS - 1 = of_nat (2 ^ 24 - 1)"
    by (simp add: MAX_CHUNKS_def CHUNK_BITS_def push_bit_eq_mult)
  show ?thesis
  proof
    assume "chunk_key ino 0 \<le> key \<and> key \<le> chunk_key ino (MAX_CHUNKS - 1)"
    then obtain k where "k \<le> 2 ^ 24 - 1" "key = chunk_key ino (of_nat k)"
      using key_between[OF assms, of 0 "2 ^ 24 - 1" key] unfolding m by auto
    then show "\<exists>k < 2 ^ 24. key = chunk_key ino (of_nat k)" by (intro exI[of _ k]) simp
  next
    assume "\<exists>k < 2 ^ 24. key = chunk_key ino (of_nat k)"
    then obtain k where "k < 2 ^ 24" "key = chunk_key ino (of_nat k)" by blast
    then show "chunk_key ino 0 \<le> key \<and> key \<le> chunk_key ino (MAX_CHUNKS - 1)"
      using chunk_key_le[OF assms, of 0 k] chunk_key_le[OF assms, of k "2 ^ 24 - 1"] unfolding m by simp
  qed
qed

lemma delete_chunk_range_map:
  assumes "valid_ino ino" "tbl_ok (t_chunks t)"
  shows "map_of (t_chunks (delete_chunk_range t ino)) key =
    (if \<exists>k < 2 ^ 24. key = chunk_key ino (of_nat k) then None else map_of (t_chunks t) key)"
  using in_chunk_range[OF assms(1), of key]
  by (auto simp: delete_chunk_range_def chunk_keys_def map_of_tbl_delete[OF assms(2)] split: option.splits)

lemma delete_chunk_range_frame [simp]:
  "t_inodes (delete_chunk_range t ino) = t_inodes t" "t_dirents (delete_chunk_range t ino) = t_dirents t"
  "t_symlinks (delete_chunk_range t ino) = t_symlinks t"
  by (simp_all add: delete_chunk_range_def split: prod.split)

text \<open>The row changes of \<open>truncate_file\<close>, and their effect on each chunk.\<close>

definition truncate_rows :: "tables \<Rightarrow> u64 \<Rightarrow> u64 \<Rightarrow> tables" where
  "truncate_rows t ino sz =
     (if sz = 0 then delete_chunk_range t ino
      else cut_chunks t (chunk_key ino ((sz - 1) div of_nat CHUNK_SIZE)) (chunk_key ino (MAX_CHUNKS - 1))
             (unat (sz - 1) mod CHUNK_SIZE + 1))"

lemma final_chunk:
  fixes n k :: nat
  assumes "0 < n"
  defines "f \<equiv> (n - 1) div CHUNK_SIZE"
  shows "f < k \<longleftrightarrow> n \<le> k * CHUNK_SIZE" and "n - f * CHUNK_SIZE = (n - 1) mod CHUNK_SIZE + 1"
    and "k < f \<Longrightarrow> CHUNK_SIZE \<le> n - k * CHUNK_SIZE"
proof -
  define i where "i = (n - 1) mod CHUNK_SIZE"
  have n: "n = f * CHUNK_SIZE + i + 1" "i < CHUNK_SIZE"
    using assms(1) by (simp_all add: f_def i_def)
  show "f < k \<longleftrightarrow> n \<le> k * CHUNK_SIZE"
  proof
    assume "f < k"
    then have "Suc f * CHUNK_SIZE \<le> k * CHUNK_SIZE" by (intro mult_le_mono1) simp
    with n show "n \<le> k * CHUNK_SIZE" by simp
  next
    assume "n \<le> k * CHUNK_SIZE"
    then have "f * CHUNK_SIZE < k * CHUNK_SIZE" using n by linarith
    then show "f < k" by simp
  qed
  show "n - f * CHUNK_SIZE = (n - 1) mod CHUNK_SIZE + 1" using n by (simp add: i_def)
  assume "k < f"
  then have "Suc k * CHUNK_SIZE \<le> f * CHUNK_SIZE" by (intro mult_le_mono1) simp
  with n show "CHUNK_SIZE \<le> n - k * CHUNK_SIZE" by simp
qed

lemma final_index:
  assumes "sz \<noteq> 0"
  shows "(sz - 1 :: u64) div of_nat CHUNK_SIZE = of_nat ((unat sz - 1) div CHUNK_SIZE)"
proof -
  have "(unat sz - 1) div CHUNK_SIZE \<le> unat sz" by (rule order_trans[OF div_le_dividend diff_le_self])
  then have "unat (of_nat ((unat sz - 1) div CHUNK_SIZE) :: u64) = (unat sz - 1) div CHUNK_SIZE"
    using unat_u64_bound[of sz] by (intro unat_of_nat_u64) simp
  moreover have "unat (of_nat CHUNK_SIZE :: u64) = CHUNK_SIZE" by (simp add: CHUNK_SIZE_def)
  ultimately show ?thesis
    using assms by (simp add: word_unat_eq_iff unat_div unat_minus_one)
qed

lemma truncate_rows_frame [simp]: "same_but_chunks t (truncate_rows t ino sz)"
  by (simp add: truncate_rows_def same_but_chunks_def cut_chunks_def)

lemma truncate_rows_ok: "tbl_ok (t_chunks t) \<Longrightarrow> tbl_ok (t_chunks (truncate_rows t ino sz))"
  by (simp add: truncate_rows_def cut_chunks_def delete_chunk_range_def tbl_ok_delete split: prod.split)

lemma truncate_rows_other:
  assumes ino: "valid_ino ino" and tbl: "tbl_ok (t_chunks t)" and sz: "unat sz \<le> max_size"
    and key: "\<forall>k < 2 ^ 24. key \<noteq> chunk_key ino (of_nat k)"
  shows "map_of (t_chunks (truncate_rows t ino sz)) key = map_of (t_chunks t) key"
proof (cases "sz = 0")
  case True
  then show ?thesis using delete_chunk_range_map[OF ino tbl] key by (auto simp: truncate_rows_def)
next
  case False
  define f where "f = (unat sz - 1) div CHUNK_SIZE"
  have "0 < unat sz" using False by (simp add: unat_gt_0)
  then have f: "f < 2 ^ 24" unfolding f_def by (intro div_lt_chunks) (use sz in linarith)
  note w = final_index[OF False, folded f_def]
  have ne: "key \<noteq> chunk_key ino (of_nat f)" using key f by blast
  have "\<not> (chunk_key ino (of_nat f) < key \<and> key \<le> chunk_key ino (MAX_CHUNKS - 1))"
  proof
    assume b: "chunk_key ino (of_nat f) < key \<and> key \<le> chunk_key ino (MAX_CHUNKS - 1)"
    then have "chunk_key ino 0 \<le> key" using chunk_key_le[OF ino _ f, of 0] by simp
    with b in_chunk_range[OF ino] key show False by blast
  qed
  with ne show ?thesis
    using False by (auto simp: truncate_rows_def w cut_chunks_def map_of_tbl_delete[OF tbl] tbl_simps split: option.splits)
qed

lemma truncate_rows_own:
  assumes ino: "valid_ino ino" and tbl: "tbl_ok (t_chunks t)" and sz: "unat sz \<le> max_size" and k: "k < 2 ^ 24"
    and len: "length (chunk_row t ino k) \<le> CHUNK_SIZE"
  shows "map_of (t_chunks (truncate_rows t ino sz)) (chunk_key ino (of_nat k)) =
    (if unat sz \<le> k * CHUNK_SIZE then None
     else map_option (take (unat sz - k * CHUNK_SIZE)) (map_of (t_chunks t) (chunk_key ino (of_nat k))))"
proof (cases "sz = 0")
  case True
  then show ?thesis using delete_chunk_range_map[OF ino tbl] k by (auto simp: truncate_rows_def)
next
  case False
  define f where "f = (unat sz - 1) div CHUNK_SIZE"
  have pos: "0 < unat sz" using False by (simp add: unat_gt_0)
  then have f: "f < 2 ^ 24" unfolding f_def by (intro div_lt_chunks) (use sz in linarith)
  note w = final_index[OF False, folded f_def]
  have m: "MAX_CHUNKS - 1 = of_nat (2 ^ 24 - 1)"
    by (simp add: MAX_CHUNKS_def CHUNK_BITS_def push_bit_eq_mult)
  note fc = final_chunk[OF pos, folded f_def]
  have "chunk_key ino (of_nat k) \<le> chunk_key ino (MAX_CHUNKS - 1)"
    using chunk_key_le[OF ino k, of "2 ^ 24 - 1"] k unfolding m by simp
  then have gone: "chunk_key ino (of_nat f) < chunk_key ino (of_nat k) \<and> chunk_key ino (of_nat k) \<le> chunk_key ino (MAX_CHUNKS - 1)
      \<longleftrightarrow> f < k"
    using chunk_key_le[OF ino k f] by (auto simp: not_le[symmetric])
  have eq: "chunk_key ino (of_nat k) = chunk_key ino (of_nat f) \<longleftrightarrow> k = f" using chunk_key_inject[OF ino ino k f] by simp
  have whole: "take (unat sz - k * CHUNK_SIZE) d = d" if "k < f" "map_of (t_chunks t) (chunk_key ino (of_nat k)) = Some d" for d
    using fc(3)[OF that(1)] len that(2) by (simp add: chunk_row_def)
  have l: "Suc (unat (sz - 1) mod CHUNK_SIZE) = unat sz - f * CHUNK_SIZE"
    using fc(2) False by (simp add: unat_minus_one)
  show ?thesis
    using fc(1)[of k] gone eq whole False
    by (auto simp: truncate_rows_def w l cut_chunks_def map_of_tbl_delete[OF tbl] tbl_simps not_less
        map_option_case split: option.splits)
qed

lemma truncate_rows_byte:
  assumes ok: "data_ok t" and ino: "valid_ino ino" and sz: "unat sz \<le> max_size" and p: "p < max_size"
  shows "stored_byte (truncate_rows t ino sz) ino p = (if p < unat sz then stored_byte t ino p else 0)"
proof -
  have tbl: "tbl_ok (t_chunks t)" using ok by (simp add: data_ok_def)
  note k = div_lt_chunks[OF p]
  note own = truncate_rows_own[OF ino tbl sz k chunk_row_len[OF ok ino k]]
  have pe: "p = p div CHUNK_SIZE * CHUNK_SIZE + p mod CHUNK_SIZE" by simp
  have "p mod CHUNK_SIZE < unat sz - p div CHUNK_SIZE * CHUNK_SIZE \<longleftrightarrow> p < unat sz" using pe by linarith
  moreover have "unat sz \<le> p div CHUNK_SIZE * CHUNK_SIZE \<Longrightarrow> \<not> p < unat sz" using pe by linarith
  ultimately show ?thesis
    by (auto simp: stored_byte_def chunk_row_def own byte_at_def split: option.splits)
qed

lemma truncate_rows_data:
  fixes m :: Timestamp
  assumes ok: "data_ok t" and c: "file_bytes t ino = Some c" and sz: "unat sz \<le> max_size"
  defines "t' \<equiv> set_size (truncate_rows t ino sz) ino sz m"
  shows "data_ok t' \<and> file_bytes t' ino = Some (resize (unat sz) c) \<and> others_same t ino t'"
proof -
  obtain r where r: "inode_row_of t ino = Some r" "r_kind r = kind_as_i64 RegularFile" using file_bytes_row[OF c] by blast
  have ino: "valid_ino ino" using valid_ino_of_row[OF ok r(1)] .
  have tbl: "tbl_ok (t_chunks t)" using ok by (simp add: data_ok_def)
  have same: "inode_row_of (truncate_rows t ino sz) = inode_row_of t"
    using truncate_rows_frame[of t ino sz] by (auto simp: same_but_chunks_def inode_row_of_def fun_eq_iff)
  have ok': "data_ok t'"
    unfolding t'_def
  proof (rule data_ok_sized[OF ok truncate_rows_frame truncate_rows_ok[OF tbl] _ sz])
    show "is_file t ino" using r by (simp add: is_file_def)
    fix key d
    assume d: "map_of (t_chunks (truncate_rows t ino sz)) key = Some d"
    show "(\<exists>k < 2 ^ 24. key = chunk_key ino (of_nat k) \<and> length d \<le> CHUNK_SIZE \<and> k * CHUNK_SIZE + length d \<le> unat sz) \<or>
      map_of (t_chunks t) key = Some d \<and> (\<forall>k < 2 ^ 24. key \<noteq> chunk_key ino (of_nat k))"
    proof (cases "\<exists>k < 2 ^ 24. key = chunk_key ino (of_nat k)")
      case True
      then obtain k where k: "k < 2 ^ 24" "key = chunk_key ino (of_nat k)" by blast
      note len = chunk_row_len[OF ok ino k(1)]
      from d obtain e where "map_of (t_chunks t) key = Some e" "d = take (unat sz - k * CHUNK_SIZE) e"
        "k * CHUNK_SIZE < unat sz"
        using truncate_rows_own[OF ino tbl sz k(1) len] k(2) by (auto split: if_splits)
      with k len show ?thesis by (intro disjI1 exI[of _ k]) (auto simp: chunk_row_def)
    next
      case False
      then show ?thesis using truncate_rows_other[OF ino tbl sz] d by simp
    qed
  qed
  have "file_bytes t' ino = Some (resize (unat sz) c)"
    unfolding file_bytes_iff[OF ok']
    using r c[unfolded file_bytes_iff[OF ok]] truncate_rows_byte[OF ok ino sz]
    by (auto simp: t'_def set_size_row same byte_at_resize)
  moreover have rows: "chunk_row t' i k = chunk_row t i k" if "i \<noteq> ino" "valid_ino i" "k < 2 ^ 24" for i k
  proof -
    have "\<forall>k' < 2 ^ 24. chunk_key i (of_nat k) \<noteq> chunk_key ino (of_nat k')"
      using chunk_key_inject[OF that(2) ino that(3)] that(1) by blast
    from truncate_rows_other[OF ino tbl sz this] show ?thesis by (simp add: t'_def chunk_row_def)
  qed
  moreover have "file_bytes t' i = file_bytes t i" if "i \<noteq> ino" for i
    using that rows by (intro file_bytes_cong[OF ok]) (simp_all add: t'_def set_size_row same)
  ultimately show ?thesis
    using ok' truncate_rows_frame[of t ino sz] same by (auto simp: others_same_def t'_def set_size_row same_but_chunks_def)
qed

lemma inode_kind_of_file:
  assumes "file_bytes (tabs db) ino = Some c"
  shows "\<exists>r db'. inode_kind_of db ino = (r, db') \<and> tabs db' = tabs db \<and> (faults db = [] \<longrightarrow> faults db' = []) \<and>
    (case r of Inl e \<Rightarrow> faults db \<noteq> [] | Inr kind \<Rightarrow> kind = RegularFile)"
  using file_bytes_row[OF assms]
  by (auto simp: inode_kind_of_def query_def pop_fault_def inode_row_of_def kind_from_i64_def
      split: list.splits option.splits)

lemma truncate_file_spec:
  assumes ok: "data_ok (tabs db)" and c: "file_bytes (tabs db) ino = Some c"
  shows "(faults db = [] \<longrightarrow> faults (snd (truncate_file db ino sz now)) = []) \<and> (case truncate_file db ino sz now of
    (Inl e, db') \<Rightarrow> tabs db' = tabs db \<and> (faults db \<noteq> [] \<or> e = FileTooLarge \<and> max_size < unat sz)
  | (Inr _, db') \<Rightarrow> unat sz \<le> max_size \<and> data_ok (tabs db') \<and>
      file_bytes (tabs db') ino = Some (resize (unat sz) c) \<and> others_same (tabs db) ino (tabs db'))"
proof -
  obtain h db1 where h: "inode_kind_of db ino = (h, db1)" "tabs db1 = tabs db" "faults db = [] \<longrightarrow> faults db1 = []"
    "case h of Inl e \<Rightarrow> faults db \<noteq> [] | Inr kind \<Rightarrow> kind = RegularFile"
    using inode_kind_of_file[OF c] by blast
  show ?thesis
  proof (cases "h = Inr RegularFile \<and> unat sz \<le> max_size")
    case True
    define body where "body = (\<lambda>t. Inr ((), set_size (truncate_rows t ino sz) ino sz now) :: DbError + unit \<times> tables)"
    have e: "truncate_file db ino sz now = transaction db1 body"
      using True h(1)
      by (simp add: truncate_file_def body_def truncate_rows_def chunk_keys_def Let_def word_less_nat_alt max_size_unat not_less
          cong: if_cong)
    have "body (tabs db1) = Inr ((), set_size (truncate_rows (tabs db) ino sz) ino sz now)" by (simp add: body_def h(2))
    then obtain r db2 where r: "transaction db1 body = (r, db2)" "faults db1 = [] \<longrightarrow> faults db2 = []" "case r of Inl e \<Rightarrow> tabs db2 = tabs db \<and> faults db1 \<noteq> []
        | Inr x \<Rightarrow> tabs db2 = set_size (truncate_rows (tabs db) ino sz) ino sz now"
      using transaction_commits[of body db1] unfolding h(2) by (metis (no_types, lifting) old.sum.case_cong_weak sum.case_eq_if)
    with truncate_rows_data[OF ok c, of sz now] True h(3) show ?thesis
      unfolding e by (cases r) auto
  next
    case False
    then show ?thesis using h
      by (cases h) (auto simp: truncate_file_def word_less_nat_alt max_size_unat not_less)
  qed
qed

text \<open>Deleting an inode deletes its row and all of its chunks, and nothing of any other inode.\<close>

lemma delete_inode_row_of:
  assumes "tbl_ok (t_inodes t)"
  shows "inode_row_of (delete_inode_row t ino) i = (if i = ino then None else inode_row_of t i)"
  by (auto simp: delete_inode_row_def Let_def inode_row_of_def map_of_tbl_delete[OF assms] split: option.splits)

lemma delete_inode_row_chunks [simp]: "t_chunks (delete_inode_row t ino) = t_chunks t"
  by (simp add: delete_inode_row_def Let_def)

lemma delete_inode_rows_data:
  assumes ok: "data_ok t" and ino: "valid_ino ino"
  defines "t' \<equiv> delete_inode_rows t ino"
  shows "data_ok t'" and "inode_row_of t' i = (if i = ino then None else inode_row_of t i)"
    and "\<And>k. k < 2 ^ 24 \<Longrightarrow> map_of (t_chunks t') (chunk_key ino (of_nat k)) = None"
    and "i \<noteq> ino \<Longrightarrow> file_bytes t' i = file_bytes t i"
proof -
  have tbl: "tbl_ok (t_inodes t)" "tbl_ok (t_chunks t)" using ok by (simp_all add: data_ok_def)
  note ch = delete_chunk_range_map[OF ino tbl(2)]
  show row: "inode_row_of t' i = (if i = ino then None else inode_row_of t i)" for i
    using delete_inode_row_of[of "delete_chunk_range t ino"] tbl
    by (simp add: t'_def delete_inode_rows_def) (simp add: inode_row_of_def)
  show gone: "map_of (t_chunks t') (chunk_key ino (of_nat k)) = None" if "k < 2 ^ 24" for k
    using ch that by (auto simp: t'_def delete_inode_rows_def)
  have "chunk_owned t' key d" if d: "map_of (t_chunks t') key = Some d" for key d
  proof -
    have "map_of (t_chunks t) key = Some d" using d ch by (auto simp: t'_def delete_inode_rows_def split: if_splits)
    then have "chunk_owned t key d" using ok by (auto simp: data_ok_def)
    then obtain j k q where jk: "valid_ino j" "k < 2 ^ 24" "key = chunk_key j (of_nat k)"
      "inode_row_of t j = Some q" "r_kind q = kind_as_i64 RegularFile" "length d \<le> CHUNK_SIZE"
      "k * CHUNK_SIZE + length d \<le> row_size q"
      unfolding chunk_owned_def by blast
    moreover have "j \<noteq> ino" using gone[OF jk(2)] d jk(3) by auto
    ultimately show ?thesis unfolding chunk_owned_def using row[of j] by auto
  qed
  moreover have "tbl_ok (t_inodes t')" "tbl_ok (t_chunks t')"
    using tbl by (auto simp: t'_def delete_inode_rows_def delete_inode_row_def delete_chunk_range_def Let_def
        intro: tbl_ok_delete split: prod.splits)
  moreover have "inode_row_ok i r" if "map_of (t_inodes t') i = Some r" for i r
    using that ok by (auto simp: t'_def delete_inode_rows_def delete_inode_row_def Let_def data_ok_def
        map_of_tbl_delete[OF tbl(1)] split: option.splits if_splits)
  ultimately show "data_ok t'" by (simp add: data_ok_def)
  show "file_bytes t' i = file_bytes t i" if "i \<noteq> ino"
  proof (rule file_bytes_cong[OF ok])
    fix k assume "valid_ino i" and k: "k < (2 :: nat) ^ 24"
    then have "\<not> (\<exists>k' < 2 ^ 24. chunk_key i (of_nat k) = chunk_key ino (of_nat k'))"
      using chunk_key_inject[OF \<open>valid_ino i\<close> ino k] that by blast
    then show "chunk_row t' i k = chunk_row t i k"
      using ch by (auto simp: chunk_row_def t'_def delete_inode_rows_def)
  qed (use row that in simp)
qed

text \<open>When SQLite reports nothing, the operations succeed.\<close>

lemma write_file_succeeds:
  assumes "data_ok (tabs db)" "file_bytes (tabs db) ino = Some c" "faults db = []"
    and "length data < 2 ^ 32" "unat offset + length data \<le> max_size"
  obtains db' where "write_file db ino offset data now = Some (Inr (of_nat (length data)), db')" "faults db' = []"
    "data_ok (tabs db')" "file_bytes (tabs db') ino = Some (pwrite (offset, data) c)"
proof -
  have "slices_ok [(offset, data)]" using assms(4) by (simp add: slices_ok_def)
  from write_batch_spec[OF assms(1,2) this, of now] assms(3)
  obtain r db' where w: "write_file db ino offset data now = Some (r, db')" "faults db' = []" and
    r: "case r of Inl e \<Rightarrow> \<exists>(offset, data) \<in> set [(offset, data)]. max_size < unat offset + length data
      | Inr n \<Rightarrow> n = of_nat (length data) \<and> batch_written (tabs db) ino [(offset, data)] c (tabs db')"
    unfolding write_file_def write_file_batch_def by (fastforce simp: case_sum_if split: sum.splits)
  show thesis
    using r w that assms(5) by (cases r) (auto simp: batch_written_def)
qed

lemma read_file_succeeds:
  assumes "data_ok (tabs db)" "file_bytes (tabs db) ino = Some c" "faults db = []"
  obtains db' where "read_file db ino offset n = Some (Inr (pread offset n c), db')" "faults db' = []"
proof -
  obtain r db' where r: "read_file db ino offset n = Some (r, db')" "faults db' = []"
    "case r of Inl e \<Rightarrow> faults db \<noteq> [] | Inr out \<Rightarrow> out = pread offset n c"
    using read_file_slice[OF assms(1,2), of offset n] assms(3) by blast
  show thesis using r that assms(3) by (cases r) auto
qed

lemma truncate_file_succeeds:
  assumes "data_ok (tabs db)" "file_bytes (tabs db) ino = Some c" "faults db = []" "unat sz \<le> max_size"
  obtains db' where "truncate_file db ino sz now = (Inr (), db')" "faults db' = []"
    "data_ok (tabs db')" "file_bytes (tabs db') ino = Some (resize (unat sz) c)"
proof (cases "truncate_file db ino sz now")
  case (Pair r db')
  then show thesis using truncate_file_spec[OF assms(1,2), of sz now] assms(3,4) that by (cases r) auto
qed

section \<open>The storage layer as a file store\<close>

lemma others_same_content:
  "others_same t ino t' \<Longrightarrow> file_bytes t' ino = Some c \<Longrightarrow> file_bytes t' = (file_bytes t)(ino \<mapsto> c)"
  by (auto simp: others_same_def fun_eq_iff)

lemma write_file_law:
  assumes "data_ok (tabs db)" "file_bytes (tabs db) ino = Some c" "length data < 2 ^ 32"
    and "write_file db ino offset data now = Some (Inr m, db')"
  shows "data_ok (tabs db') \<and> unat m = length data \<and>
    file_bytes (tabs db') = (file_bytes (tabs db))(ino \<mapsto> pwrite (offset, data) c)"
proof -
  have "slices_ok [(offset, data)]" using assms(3) by (simp add: slices_ok_def)
  from write_batch_spec[OF assms(1,2) this, of now] assms(4)
  have "m = of_nat (length data)" and w: "batch_written (tabs db) ino [(offset, data)] c (tabs db')"
    by (auto simp: write_file_def write_file_batch_def)
  moreover have "unat (of_nat (length data) :: u32) = length data" using assms(3) by (simp add: unat_of_nat)
  ultimately show ?thesis using others_same_content[of "tabs db" ino "tabs db'"] by (auto simp: batch_written_def)
qed

lemma truncate_file_law:
  assumes "data_ok (tabs db)" "file_bytes (tabs db) ino = Some c" "truncate_file db ino sz now = (Inr (), db')"
  shows "data_ok (tabs db') \<and> file_bytes (tabs db') = (file_bytes (tabs db))(ino \<mapsto> resize (unat sz) c)"
  using truncate_file_spec[OF assms(1,2), of sz now] assms(3) others_same_content[of "tabs db" ino "tabs db'"]
  by auto

lemma read_file_law:
  assumes "data_ok (tabs db)" "file_bytes (tabs db) ino = Some c" "read_file db ino offset n = Some (Inr out, db')"
  shows "data_ok (tabs db') \<and> out = pread offset n c \<and> file_bytes (tabs db') = file_bytes (tabs db)"
  using read_file_slice[OF assms(1,2), of offset n] assms(1,3) by auto

interpretation store: file_store "\<lambda>db. data_ok (tabs db)" "\<lambda>db. file_bytes (tabs db)" read_file
    "\<lambda>db ino offset data. write_file db ino offset data now" "\<lambda>db ino sz. Some (truncate_file db ino sz now)"
  for now :: Timestamp
  by unfold_locales (auto dest: read_file_law write_file_law truncate_file_law)

text \<open>C28. Reading a regular file returns exactly the requested slice of its contents, cut at the
  end of the file, whatever the chunk layout; it never panics, never changes the database, and
  fails only when SQLite does.\<close>

theorem read_file_returns_slice:
  assumes ok: "data_ok (tabs db)" and c: "file_bytes (tabs db) ino = Some c"
  shows "\<exists>r db'. read_file db ino offset sz = Some (r, db') \<and> tabs db' = tabs db \<and> (faults db = [] \<longrightarrow> faults db' = []) \<and>
    (case r of Inl e \<Rightarrow> faults db \<noteq> [] | Inr out \<Rightarrow> out = pread offset sz c)"
  using assms by (rule read_file_slice)

text \<open>C26. A batch of writes to a regular file either changes nothing or leaves exactly the
  contents that the byte-string writes give, in order, whatever the chunk layout; no other file
  is touched and the chunk invariant is kept. It never panics, reports the number of bytes
  written, and fails only when SQLite does or when some write ends past the largest file size.\<close>

theorem write_batch_is_pwrite:
  assumes ok: "data_ok (tabs db)" and c: "file_bytes (tabs db) ino = Some c" and sl: "slices_ok writes"
  shows "\<exists>r db'. write_file_batch_at db ino writes m = Some (r, db') \<and> (faults db = [] \<longrightarrow> faults db' = []) \<and>
    (case r of
       Inl e \<Rightarrow> tabs db' = tabs db \<and> (faults db \<noteq> [] \<or> e = FileTooLarge \<and>
                 (\<exists>(offset, data) \<in> set writes. max_size < unat offset + length data))
     | Inr n \<Rightarrow> n = of_nat (sum_list (map (length \<circ> snd) writes)) \<and> batch_written (tabs db) ino writes c (tabs db'))"
  using assms by (rule write_batch_spec)

text \<open>C27. Truncating a regular file cuts its contents at the new size or extends them with
  zeros: bytes that an earlier, longer version of the file held never come back. Other files are
  untouched and a failure changes nothing.\<close>

theorem truncate_is_resize:
  assumes ok: "data_ok (tabs db)" and c: "file_bytes (tabs db) ino = Some c"
  shows "(faults db = [] \<longrightarrow> faults (snd (truncate_file db ino sz now)) = []) \<and> (case truncate_file db ino sz now of
    (Inl e, db') \<Rightarrow> tabs db' = tabs db \<and> (faults db \<noteq> [] \<or> e = FileTooLarge \<and> max_size < unat sz)
  | (Inr _, db') \<Rightarrow> unat sz \<le> max_size \<and> data_ok (tabs db') \<and>
      file_bytes (tabs db') ino = Some (resize (unat sz) c) \<and> others_same (tabs db) ino (tabs db'))"
  using assms by (rule truncate_file_spec)

text \<open>C29. Data written to a file and not overwritten since is what the next read of those bytes
  returns, whatever its offset, its alignment to chunks and the file's earlier contents.\<close>

theorem stored_read_your_write:
  assumes "data_ok (tabs db)" "file_bytes (tabs db) ino = Some c" "data \<noteq> []" "length data < 2 ^ 32"
    and "write_file db ino offset data now = Some (Inr m, db1)"
    and "read_file db1 ino offset m = Some (Inr out, db2)"
  shows "out = data"
  using assms by (rule store.read_your_write)

text \<open>C30. Bytes cut off by a truncation read as zeros when the file has grown again: a short
  final chunk, or a chunk left behind, would bring them back.\<close>

theorem stored_truncated_bytes_gone:
  assumes "data_ok (tabs db)" "file_bytes (tabs db) ino = Some c"
    and "truncate_file db ino a now = (Inr (), db1)" and "truncate_file db1 ino b now = (Inr (), db2)"
    and "read_file db2 ino offset n = Some (Inr out, db3)" and "a \<le> offset"
  shows "out = replicate (length out) 0"
  by (rule store.truncated_bytes_gone[OF assms(1,2) arg_cong[OF assms(3), of Some] arg_cong[OF assms(4), of Some] assms(5,6)])

end
