(* ===== verification/Fuse.thy ===== *)
theory Fuse
  imports File_Data
begin

text \<open>
  The filesystem layer (\<^verbatim>\<open>src/src/fuse.rs\<close>): the state shared by the FUSE session and the shutdown
  path, and one definition per method of \<^verbatim>\<open>Shared\<close>, \<^verbatim>\<open>ShutdownHandle\<close> and \<^verbatim>\<open>Dbfs\<close>. Every method
  runs under the lock of the open table, so each definition is one atomic step on the state.
  \<open>now\<close> arguments are the clock readings a method makes. A result \<open>None\<close> is a panic, or a loop
  that does not end.
\<close>

section \<open>State and errors\<close>

type_synonym errno = int

definition ENOENT :: errno where "ENOENT = 2"
definition EIO :: errno where "EIO = 5"
definition EBADF :: errno where "EBADF = 9"
definition EEXIST :: errno where "EEXIST = 17"
definition ENODEV :: errno where "ENODEV = 19"
definition ENOTDIR :: errno where "ENOTDIR = 20"
definition EISDIR :: errno where "EISDIR = 21"
definition EINVAL :: errno where "EINVAL = 22"
definition EFBIG :: errno where "EFBIG = 27"
definition ENOSPC :: errno where "ENOSPC = 28"
definition ERANGE :: errno where "ERANGE = 34"
definition ENAMETOOLONG :: errno where "ENAMETOOLONG = 36"
definition ENOTEMPTY :: errno where "ENOTEMPTY = 39"
definition ENODATA :: errno where "ENODATA = 61"
definition EOPNOTSUPP :: errno where "EOPNOTSUPP = 95"

fun errno_from_db_error :: "DbError \<Rightarrow> errno" where
  "errno_from_db_error NotFound = ENOENT"
| "errno_from_db_error AlreadyExists = EEXIST"
| "errno_from_db_error DirectoryNotEmpty = ENOTEMPTY"
| "errno_from_db_error InvalidInput = EINVAL"
| "errno_from_db_error IsDirectory = EISDIR"
| "errno_from_db_error NameTooLong = ENAMETOOLONG"
| "errno_from_db_error NoSpace = ENOSPC"
| "errno_from_db_error NotDirectory = ENOTDIR"
| "errno_from_db_error FileTooLarge = EFBIG"
| "errno_from_db_error Corrupt = EIO"
| "errno_from_db_error (UnsupportedSchema _) = EIO"
| "errno_from_db_error (Sqlite _) = EIO"

record Shared =
  db :: Db
  table :: OpenTable
  last_flush :: "errno + unit"
  kernel_cache :: bool

type_synonym 'a outcome = "((errno + 'a) \<times> Shared) option"

datatype Unlinked = Skip | Persist

text \<open>Running a method of \<^verbatim>\<open>Db\<close> inside the filesystem: \<^verbatim>\<open>.map_err(errno_from_db_error)\<close>.\<close>

definition on_db :: "Shared \<Rightarrow> (Db \<Rightarrow> (DbError + 'a) \<times> Db) \<Rightarrow> (errno + 'a) \<times> Shared" where
  "on_db s f = (case f (db s) of
     (Inl e, d) \<Rightarrow> (Inl (errno_from_db_error e), s\<lparr>db := d\<rparr>)
   | (Inr a, d) \<Rightarrow> (Inr a, s\<lparr>db := d\<rparr>))"

text \<open>\<^verbatim>\<open>sync_durable\<close>: opening and syncing the database file either works or reports an error, which
  is the next entry of the fault script.\<close>

definition sync_durable :: "Db \<Rightarrow> (DbError + unit) \<times> Db" where
  "sync_durable d = (case pop_fault d of
     (Some e, d) \<Rightarrow> (Inl (Sqlite (Display e)), d)
   | (None, d) \<Rightarrow> (Inr (), d))"

section \<open>Flushing\<close>

definition flush_slot :: "Shared \<Rightarrow> Slot \<Rightarrow> Unlinked \<Rightarrow> unit outcome" where
  "flush_slot s slot unlinked = do {
     let i = unat slot;
     let t = table s;
     dirty \<leftarrow> idx (oi_dirty (inodes t)) i;
     gone \<leftarrow> idx (oi_unlinked (inodes t)) i;
     if dirty_is_empty dirty \<or> (gone \<and> unlinked = Skip) then Some (Inr (), s)
     else do {
       chunks \<leftarrow> those (map (\<lambda>(index, a). map_option (Pair index) (chunk (arena t) a)) (entries dirty));
       ino \<leftarrow> idx (oi_ino (inodes t)) i;
       sz \<leftarrow> idx (oi_size (inodes t)) i;
       mtime \<leftarrow> idx (oi_mtime (inodes t)) i;
       case on_db s (\<lambda>d. replace_chunks d ino sz chunks mtime) of
         (Inl errno, s) \<Rightarrow> Some (Inl errno, s)
       | (Inr _, s) \<Rightarrow> do {
           let (dirty, ar) = release_into dirty (arena t);
           dirties \<leftarrow> set_idx (oi_dirty (inodes t)) i dirty;
           Some (Inr (), s\<lparr>table := t\<lparr>inodes := (inodes t)\<lparr>oi_dirty := dirties\<rparr>, arena := ar\<rparr>\<rparr>)
         }
     }
   }"

definition free_if_idle :: "OpenTable \<Rightarrow> Slot \<Rightarrow> OpenTable option" where
  "free_if_idle t slot = do {
     let i = unat slot;
     refs \<leftarrow> idx (oi_refs (inodes t)) i;
     dirty \<leftarrow> idx (oi_dirty (inodes t)) i;
     if refs = 0 \<and> dirty_is_empty dirty then do {
       ins \<leftarrow> inodes_remove (inodes t) slot;
       Some (t\<lparr>inodes := ins\<rparr>)
     } else Some t
   }"

definition discard_slot :: "OpenTable \<Rightarrow> Slot \<Rightarrow> OpenTable option" where
  "discard_slot t slot = do {
     dirty \<leftarrow> idx (oi_dirty (inodes t)) (unat slot);
     let (dirty, ar) = release_into dirty (arena t);
     dirties \<leftarrow> set_idx (oi_dirty (inodes t)) (unat slot) dirty;
     ins \<leftarrow> inodes_remove ((inodes t)\<lparr>oi_dirty := dirties\<rparr>) slot;
     Some (t\<lparr>inodes := ins, arena := ar\<rparr>)
   }"

text \<open>The loop of \<open>flush_all\<close>.\<close>

fun flush_slots :: "Slot list \<Rightarrow> errno option \<Rightarrow> Shared \<Rightarrow> (errno option \<times> Shared) option" where
  "flush_slots [] first_error s = Some (first_error, s)"
| "flush_slots (slot # slots) first_error s =
     (case flush_slot s slot Skip of
        None \<Rightarrow> None
      | Some (Inr _, s) \<Rightarrow> do {
          t \<leftarrow> free_if_idle (table s) slot;
          flush_slots slots first_error (s\<lparr>table := t\<rparr>)
        }
      | Some (Inl errno, s) \<Rightarrow>
          flush_slots slots (case first_error of None \<Rightarrow> Some errno | Some e \<Rightarrow> Some e) s)"

definition flush_all :: "Shared \<Rightarrow> unit outcome" where
  "flush_all s = do {
     (first_error, s) \<leftarrow> flush_slots (live_slots (inodes (table s))) None s;
     let (synced, s) = on_db s sync_durable;
     Some (case first_error of Some errno \<Rightarrow> Inl errno | None \<Rightarrow> synced, s)
   }"

definition refuse_writes :: "Shared \<Rightarrow> Shared" where
  "refuse_writes s = s\<lparr>table := (table s)\<lparr>closing := True\<rparr>\<rparr>"

definition record_flush :: "Shared \<Rightarrow> errno + unit \<Rightarrow> Shared" where
  "record_flush s result = s\<lparr>last_flush := result\<rparr>"

section \<open>Slots and buffered data\<close>

definition slot_for :: "Shared \<Rightarrow> u64 \<Rightarrow> Slot outcome" where
  "slot_for s ino =
     (case inodes_find (inodes (table s)) ino of
        Some slot \<Rightarrow> Some (Inr slot, s)
      | None \<Rightarrow> try_then (Some (on_db s (\<lambda>d. inode_head d ino))) (\<lambda>(kind, sz) s. do {
          (slot, ins) \<leftarrow> inodes_insert (inodes (table s)) ino kind sz;
          Some (Inr slot, s\<lparr>table := (table s)\<lparr>inodes := ins\<rparr>\<rparr>)
        }))"

definition open_slot :: "OpenTable \<Rightarrow> Slot \<Rightarrow> (u64 \<times> OpenTable) option" where
  "open_slot t slot = do {
     refs \<leftarrow> idx (oi_refs (inodes t)) (unat slot);
     refss \<leftarrow> set_idx (oi_refs (inodes t)) (unat slot) (refs + 1);
     (fh, hs) \<leftarrow> handles_alloc (handles t) slot;
     Some (fh, t\<lparr>inodes := (inodes t)\<lparr>oi_refs := refss\<rparr>, handles := hs\<rparr>)
   }"

text \<open>The overlay loop of \<open>read_slot\<close>.\<close>

fun copy_dirty :: "ChunkArena \<Rightarrow> ChunkSpan \<Rightarrow> DirtyIdx \<Rightarrow> bytes \<Rightarrow> bytes option" where
  "copy_dirty ar span [] output = Some output"
| "copy_dirty ar span ((index, a) # dirty) output = do {
     data \<leftarrow> chunk ar a;
     output \<leftarrow> copy_out span index data output;
     copy_dirty ar span dirty output
   }"

definition read_slot :: "Shared \<Rightarrow> Slot \<Rightarrow> u64 \<Rightarrow> u32 \<Rightarrow> bytes outcome" where
  "read_slot s slot offset sz = do {
     let i = unat slot;
     let ins = inodes (table s);
     kind \<leftarrow> idx (oi_kind ins) i;
     case regular_file_error kind of
       Some error \<Rightarrow> Some (Inl (errno_from_db_error error), s)
     | None \<Rightarrow> do {
         file_size \<leftarrow> idx (oi_size ins) i;
         if file_size \<le> offset \<or> sz = 0 then Some (Inr [], s)
         else do {
           let output = replicate (unat (min (ucast sz) (file_size - offset) :: u64)) 0;
           ino \<leftarrow> idx (oi_ino ins) i;
           (r, d) \<leftarrow> read_into (db s) ino offset output;
           case r of
             Inl e \<Rightarrow> Some (Inl (errno_from_db_error e), s\<lparr>db := d\<rparr>)
           | Inr output \<Rightarrow> do {
               span \<leftarrow> span_new offset (length output);
               dirty \<leftarrow> idx (oi_dirty ins) i;
               overlay \<leftarrow> dirty_range dirty (sp_first span) (sp_last span);
               output \<leftarrow> copy_dirty (arena (table s)) span overlay output;
               Some (Inr output, s\<lparr>db := d\<rparr>)
             }
         }
       }
   }"

partial_function (option) alloc_chunk :: "Shared \<Rightarrow> Slot \<Rightarrow> ArenaSlot outcome" where
  "alloc_chunk s writing = do {
     (claimed, ar) \<leftarrow> alloc (arena (table s));
     case claimed of
       Some a \<Rightarrow> Some (Inr a, s\<lparr>table := (table s)\<lparr>arena := ar\<rparr>\<rparr>)
     | None \<Rightarrow> do {
         largest \<leftarrow> largest_dirty (inodes (table s));
         case largest of
           None \<Rightarrow> Some (Inl EIO, s)
         | Some victim \<Rightarrow> do {
             (r, s) \<leftarrow> flush_slot s victim Persist;
             case r of
               Inl errno \<Rightarrow> Some (Inl errno, s)
             | Inr _ \<Rightarrow>
                 if victim \<noteq> writing then do {
                   t \<leftarrow> free_if_idle (table s) victim;
                   alloc_chunk (s\<lparr>table := t\<rparr>) writing
                 } else alloc_chunk s writing
           }
       }
   }"

text \<open>The buffer of chunk \<open>index\<close> of the inode in \<open>slot\<close>: the dirty one, or a new one, loaded from the
  database unless the write covers the whole chunk.\<close>

definition chunk_buffer :: "Shared \<Rightarrow> Slot \<Rightarrow> u64 \<Rightarrow> u64 \<Rightarrow> ChunkPiece \<Rightarrow> ArenaSlot outcome" where
  "chunk_buffer s slot ino index p = do {
     let i = unat slot;
     dirty \<leftarrow> idx (oi_dirty (inodes (table s))) i;
     case dirty_find dirty index of
       Inr position \<Rightarrow> do { a \<leftarrow> slot_at dirty position; Some (Inr a, s) }
     | Inl _ \<Rightarrow> try_then (alloc_chunk s slot) (\<lambda>a s.
         try_then
           (if is_full_chunk p then Some (Inr (), s)
            else do {
              buffer \<leftarrow> buffer_mut (arena (table s)) a;
              (r, d) \<leftarrow> read_chunk_into (db s) ino index buffer;
              let s = s\<lparr>db := d\<rparr>;
              case r of
                Inr (len, buffer) \<Rightarrow> do {
                  ar \<leftarrow> buffer_put (arena (table s)) a buffer;
                  ar \<leftarrow> set_len ar a len;
                  Some (Inr (), s\<lparr>table := (table s)\<lparr>arena := ar\<rparr>\<rparr>)
                }
              | Inl e \<Rightarrow> Some (Inl (errno_from_db_error e),
                  s\<lparr>table := (table s)\<lparr>arena := release (arena (table s)) a\<rparr>\<rparr>)
            })
           (\<lambda>_ s. do {
              dirty \<leftarrow> idx (oi_dirty (inodes (table s))) i;
              case dirty_find dirty index of
                Inr _ \<Rightarrow> None
              | Inl position \<Rightarrow> do {
                  dirty \<leftarrow> dirty_insert dirty position index a;
                  dirties \<leftarrow> set_idx (oi_dirty (inodes (table s))) i dirty;
                  Some (Inr a, s\<lparr>table := (table s)\<lparr>inodes := (inodes (table s))\<lparr>oi_dirty := dirties\<rparr>\<rparr>\<rparr>)
                }
            }))
   }"

text \<open>The chunk loop of \<open>write_slot\<close>.\<close>

fun write_chunks :: "Slot \<Rightarrow> u64 \<Rightarrow> ChunkSpan \<Rightarrow> bytes \<Rightarrow> u64 list \<Rightarrow> Shared \<Rightarrow> unit outcome" where
  "write_chunks slot ino span data [] s = Some (Inr (), s)"
| "write_chunks slot ino span data (index # ks) s =
     try_then (chunk_buffer s slot ino index (piece span index)) (\<lambda>a s. do {
       let p = piece span index;
       input \<leftarrow> subslice data (buf_start p) (buf_end p);
       ar \<leftarrow> arena_write (arena (table s)) a (chunk_start p) (chunk_end p) input;
       let chunk_end_off = index * of_nat CHUNK_SIZE + of_nat (chunk_end p);
       sz \<leftarrow> idx (oi_size (inodes (table s))) (unat slot);
       sizes \<leftarrow> set_idx (oi_size (inodes (table s))) (unat slot) (max sz chunk_end_off);
       write_chunks slot ino span data ks
         (s\<lparr>table := (table s)\<lparr>arena := ar, inodes := (inodes (table s))\<lparr>oi_size := sizes\<rparr>\<rparr>\<rparr>)
     })"

definition write_slot :: "Shared \<Rightarrow> Slot \<Rightarrow> u64 \<Rightarrow> bytes \<Rightarrow> SystemTime \<Rightarrow> u32 outcome" where
  "write_slot s slot offset data now = do {
     let i = unat slot;
     kind \<leftarrow> idx (oi_kind (inodes (table s))) i;
     case regular_file_error kind of
       Some error \<Rightarrow> Some (Inl (errno_from_db_error error), s)
     | None \<Rightarrow>
         if closing (table s) then Some (Inl EIO, s)
         else (case span_new offset (length data) of
           None \<Rightarrow> Some (Inr 0, s)
         | Some span \<Rightarrow>
             if MAX_FILE_SIZE < sp_end span then Some (Inl EFBIG, s)
             else do {
               mtimes \<leftarrow> set_idx (oi_mtime (inodes (table s))) i (from_system_time now);
               ino \<leftarrow> idx (oi_ino (inodes (table s))) i;
               try_then (write_chunks slot ino span data (span_chunks span)
                   (s\<lparr>table := (table s)\<lparr>inodes := (inodes (table s))\<lparr>oi_mtime := mtimes\<rparr>\<rparr>\<rparr>))
                 (\<lambda>_ s. Some (Inr (of_nat (length data)), s))
             })
   }"

end
