(* ===== verification/Write_Back.thy ===== *)
theory Write_Back
  imports Fuse
begin

text \<open>
  The buffering of \<open>Fuse\<close> seen from a reader: the contents of a file are its stored chunks
  overlaid with the dirty chunks of its slot. The lemmas state the invariant that connects the
  open-inode table, the arena and the database, and show that flushing and eviction never change
  the contents, that reading returns a slice of them, and that writing is a positional write.
\<close>

section \<open>Columns of the open-inode table\<close>

abbreviation ino_of :: "OpenInodes \<Rightarrow> Slot \<Rightarrow> u64" where "ino_of ins s \<equiv> oi_ino ins ! unat s"
abbreviation kind_of :: "OpenInodes \<Rightarrow> Slot \<Rightarrow> FileKind" where "kind_of ins s \<equiv> oi_kind ins ! unat s"
abbreviation size_of :: "OpenInodes \<Rightarrow> Slot \<Rightarrow> u64" where "size_of ins s \<equiv> oi_size ins ! unat s"
abbreviation mtime_of :: "OpenInodes \<Rightarrow> Slot \<Rightarrow> Timestamp" where "mtime_of ins s \<equiv> oi_mtime ins ! unat s"
abbreviation refs_of :: "OpenInodes \<Rightarrow> Slot \<Rightarrow> u32" where "refs_of ins s \<equiv> oi_refs ins ! unat s"
abbreviation gone_of :: "OpenInodes \<Rightarrow> Slot \<Rightarrow> bool" where "gone_of ins s \<equiv> oi_unlinked ins ! unat s"
abbreviation dirty_of :: "OpenInodes \<Rightarrow> Slot \<Rightarrow> DirtyIdx" where "dirty_of ins s \<equiv> oi_dirty ins ! unat s"

lemma live_columns:
  assumes "inodes_ok ins" "s \<in> live ins"
  shows "unat s < length (oi_ino ins)" "unat s < length (oi_kind ins)" "unat s < length (oi_size ins)"
    "unat s < length (oi_mtime ins)" "unat s < length (oi_refs ins)" "unat s < length (oi_unlinked ins)"
    "unat s < length (oi_dirty ins)"
  using live_bound[OF assms] columns_okD[OF inodes_ok_columns[OF assms(1)]] by simp_all

lemma live_frame [simp]:
  "live (ins\<lparr>oi_dirty := d\<rparr>) = live ins" "live (ins\<lparr>oi_size := z\<rparr>) = live ins"
  "live (ins\<lparr>oi_mtime := m\<rparr>) = live ins" "live (ins\<lparr>oi_refs := r\<rparr>) = live ins"
  "live (ins\<lparr>oi_unlinked := u\<rparr>) = live ins"
  by (simp_all add: live_def)

lemma find_frame [simp]:
  "inodes_find (ins\<lparr>oi_dirty := d\<rparr>) = inodes_find ins" "inodes_find (ins\<lparr>oi_size := z\<rparr>) = inodes_find ins"
  "inodes_find (ins\<lparr>oi_mtime := m\<rparr>) = inodes_find ins" "inodes_find (ins\<lparr>oi_refs := r\<rparr>) = inodes_find ins"
  "inodes_find (ins\<lparr>oi_unlinked := u\<rparr>) = inodes_find ins"
  by (simp_all add: inodes_find_def fun_eq_iff)

lemma inodes_ok_update:
  assumes "inodes_ok ins"
  shows "length z = length (oi_size ins) \<Longrightarrow> inodes_ok (ins\<lparr>oi_size := z\<rparr>)"
    and "length m = length (oi_mtime ins) \<Longrightarrow> inodes_ok (ins\<lparr>oi_mtime := m\<rparr>)"
    and "length r = length (oi_refs ins) \<Longrightarrow> inodes_ok (ins\<lparr>oi_refs := r\<rparr>)"
    and "length u = length (oi_unlinked ins) \<Longrightarrow> inodes_ok (ins\<lparr>oi_unlinked := u\<rparr>)"
  using assms by (simp_all add: inodes_ok_def columns_ok_def)

lemma inodes_ok_dirty:
  assumes "inodes_ok ins" "s \<in> live ins"
  shows "inodes_ok (ins\<lparr>oi_dirty := (oi_dirty ins)[unat s := d]\<rparr>)"
proof -
  have "unat s \<noteq> unat f" if "f \<in> set (oi_free ins)" for f
    using that assms by (auto simp: inodes_ok_def word_unat_eq_iff[symmetric])
  then show ?thesis using assms by (auto simp: inodes_ok_def columns_ok_def)
qed

lemma column_update:
  assumes "unat s < length xs"
  shows "xs[unat s := x] ! unat u = (if u = s then x else xs ! unat (u :: u32))"
  using assms by (auto simp: nth_list_update word_unat_eq_iff)

section \<open>The contents of an open file\<close>

definition view_byte :: "tables \<Rightarrow> ChunkArena \<Rightarrow> u64 \<Rightarrow> DirtyIdx \<Rightarrow> nat \<Rightarrow> u8" where
  "view_byte T ar ino dirty p =
     (case map_of dirty (of_nat (p div CHUNK_SIZE)) of
        Some a \<Rightarrow> byte_at (slot_bytes ar a) (p mod CHUNK_SIZE)
      | None \<Rightarrow> stored_byte T ino p)"

definition slot_content :: "tables \<Rightarrow> ChunkArena \<Rightarrow> u64 \<Rightarrow> u64 \<Rightarrow> DirtyIdx \<Rightarrow> bytes" where
  "slot_content T ar ino sz dirty = map (view_byte T ar ino dirty) [0 ..< unat sz]"

definition content_in :: "tables \<Rightarrow> OpenInodes \<Rightarrow> ChunkArena \<Rightarrow> u64 \<Rightarrow> bytes option" where
  "content_in T ins ar ino =
     (case inodes_find ins ino of
        None \<Rightarrow> file_bytes T ino
      | Some s \<Rightarrow> if kind_of ins s = RegularFile
                  then Some (slot_content T ar ino (size_of ins s) (dirty_of ins s)) else None)"

definition content :: "Shared \<Rightarrow> u64 \<Rightarrow> bytes option" where
  "content s = content_in (tabs (db s)) (inodes (table s)) (arena (table s))"

section \<open>Invariant\<close>

text \<open>A dirty chunk holds at least what is stored of it and ends within the size of the file; the
  size in the table is at least the stored one, and equal to it when nothing is dirty.\<close>

definition chunk_ok :: "tables \<Rightarrow> ChunkArena \<Rightarrow> u64 \<Rightarrow> u64 \<Rightarrow> u64 \<Rightarrow> ArenaSlot \<Rightarrow> bool" where
  "chunk_ok T ar ino sz k a \<longleftrightarrow> unat k < 2 ^ 24 \<and>
     unat k * CHUNK_SIZE + length (slot_bytes ar a) \<le> unat sz \<and>
     length (chunk_row T ino (unat k)) \<le> length (slot_bytes ar a)"

definition slot_ok :: "tables \<Rightarrow> ChunkArena \<Rightarrow> u64 \<Rightarrow> FileKind \<Rightarrow> u64 \<Rightarrow> DirtyIdx \<Rightarrow> bool" where
  "slot_ok T ar ino kind sz dirty \<longleftrightarrow> dirty_ok dirty \<and>
     (if kind = RegularFile then
        (\<exists>r. inode_row_of T ino = Some r \<and> r_kind r = kind_as_i64 RegularFile \<and> row_size r \<le> unat sz \<and>
           (dirty = [] \<longrightarrow> row_size r = unat sz)) \<and>
        unat sz \<le> max_size \<and> (\<forall>(k, a) \<in> set dirty. chunk_ok T ar ino sz k a)
      else dirty = [] \<and> \<not> is_file T ino \<and> valid_ino ino)"

text \<open>Every arena slot in use belongs to one chunk of one live inode, except the slots \<open>X\<close> that a
  running operation holds.\<close>

definition owners :: "OpenInodes \<Rightarrow> ChunkArena \<Rightarrow> ArenaSlot set \<Rightarrow> bool" where
  "owners ins ar X \<longleftrightarrow>
     in_use ar = X \<union> (\<Union>s \<in> live ins. snd ` set (dirty_of ins s)) \<and>
     (\<forall>s \<in> live ins. distinct (map snd (dirty_of ins s)) \<and> snd ` set (dirty_of ins s) \<inter> X = {}) \<and>
     (\<forall>s \<in> live ins. \<forall>u \<in> live ins. s \<noteq> u \<longrightarrow> snd ` set (dirty_of ins s) \<inter> snd ` set (dirty_of ins u) = {})"

definition buffers_ok :: "ArenaSlot set \<Rightarrow> tables \<Rightarrow> OpenInodes \<Rightarrow> ChunkArena \<Rightarrow> bool" where
  "buffers_ok X T ins ar \<longleftrightarrow> inodes_ok ins \<and> arena_ok ar \<and> owners ins ar X \<and>
     (\<forall>s \<in> live ins. slot_ok T ar (ino_of ins s) (kind_of ins s) (size_of ins s) (dirty_of ins s))"

text \<open>Handles: every handle names a live slot, and a slot counts its handles.\<close>

definition handles_match :: "OpenInodes \<Rightarrow> Handles \<Rightarrow> bool" where
  "handles_match ins hs \<longleftrightarrow> handles_ok hs \<and>
     (\<forall>fh s. handles_get hs fh = Some s \<longrightarrow> s \<in> live ins) \<and>
     (\<forall>s \<in> live ins. unat (refs_of ins s) = count_list (h_slot hs) s)"

definition running :: "ArenaSlot set \<Rightarrow> Shared \<Rightarrow> bool" where
  "running X s \<longleftrightarrow> data_ok (tabs (db s)) \<and> buffers_ok X (tabs (db s)) (inodes (table s)) (arena (table s)) \<and>
     handles_match (inodes (table s)) (handles (table s))"

abbreviation shared_ok :: "Shared \<Rightarrow> bool" where "shared_ok \<equiv> running {}"

lemma buffers_live:
  assumes "buffers_ok X T ins ar" "s \<in> live ins"
  shows "slot_ok T ar (ino_of ins s) (kind_of ins s) (size_of ins s) (dirty_of ins s)"
    and "snd ` set (dirty_of ins s) \<subseteq> in_use ar" and "distinct (map snd (dirty_of ins s))"
  using assms by (auto simp: buffers_ok_def owners_def)

lemma in_use_chunk:
  assumes "arena_ok ar" "a \<in> in_use ar"
  shows "chunk ar a = Some (slot_bytes ar a)" "length (slot_bytes ar a) \<le> CHUNK_SIZE"
  using chunk_eq[OF assms(1) in_use_bound[OF assms(2)]] slot_bytes_bound[OF assms(1) in_use_bound[OF assms(2)]]
  by simp_all

section \<open>Storing dirty chunks\<close>

lemma chunks_replaced_cong:
  "chunks_replaced t ino K f t' \<Longrightarrow> (\<And>k. k \<in> K \<Longrightarrow> f k = g k) \<Longrightarrow> chunks_replaced t ino K g t'"
  by (simp add: chunks_replaced_def)

lemma fold_upsert:
  assumes "valid_ino ino" "distinct (map fst cs)" "\<forall>k \<in> fst ` set cs. unat k < 2 ^ 24"
  shows "chunks_replaced t ino (unat ` fst ` set cs) (\<lambda>k. the (map_of cs (of_nat k)))
    (fold (\<lambda>(index, data) t. upsert_chunk t (chunk_key ino index) data) cs t)"
  using assms(2,3)
proof (induction cs arbitrary: t)
  case (Cons c cs)
  obtain k d where c: "c = (k, d)" by fastforce
  have k: "unat k < 2 ^ 24" and rest: "\<forall>j \<in> unat ` fst ` set cs. j < 2 ^ 24" using Cons.prems c by auto
  have fresh: "unat k \<notin> unat ` fst ` set cs" using Cons.prems(1) c by (force simp: word_unat_eq_iff[symmetric])
  let ?t = "upsert_chunk t (chunk_key ino (of_nat (unat k))) d"
  have "chunks_replaced ?t ino (unat ` fst ` set cs) (\<lambda>j. the (map_of (c # cs) (of_nat j)))
      (fold (\<lambda>(index, data) t. upsert_chunk t (chunk_key ino index) data) cs ?t)"
    using fresh by (intro chunks_replaced_cong[OF Cons.IH]) (use Cons.prems c in \<open>simp_all, force\<close>)
  then have "chunks_replaced t ino (insert (unat k) (unat ` fst ` set cs)) (\<lambda>j. the (map_of (c # cs) (of_nat j)))
      (fold (\<lambda>(index, data) t. upsert_chunk t (chunk_key ino index) data) cs ?t)"
    using assms(1) fresh k rest c by (intro chunks_replaced_step) auto
  then show ?case using c by simp
qed (simp add: chunks_replaced_Nil)

lemma map_of_map_snd: "map_of (map (\<lambda>(k, a). (k, f a)) xs) k = map_option f (map_of xs k)"
  by (induction xs) auto

text \<open>The database after the dirty chunks of a slot were stored with its size: the file holds the
  contents the reader saw, and the chunk rows of other inodes are as before.\<close>

lemma store_dirty:
  fixes m :: Timestamp
  assumes ok: "data_ok T" and arena: "arena_ok ar" and use: "snd ` set dirty \<subseteq> in_use ar"
    and slot: "slot_ok T ar ino RegularFile sz dirty"
  defines "cs \<equiv> map (\<lambda>(k, a). (k, slot_bytes ar a)) dirty"
  defines "T' \<equiv> set_size (fold (\<lambda>(index, data) t. upsert_chunk t (chunk_key ino index) data) cs T) ino sz m"
  shows "data_ok T' \<and> file_bytes T' ino = Some (slot_content T ar ino sz dirty) \<and> others_same T ino T'"
proof -
  let ?U = "fold (\<lambda>(index, data) t. upsert_chunk t (chunk_key ino index) data) cs T"
  let ?K = "unat ` fst ` set cs"
  obtain r where r: "inode_row_of T ino = Some r" "r_kind r = kind_as_i64 RegularFile" "row_size r \<le> unat sz"
    using slot by (auto simp: slot_ok_def)
  have sz: "unat sz \<le> max_size" and ch: "\<And>k a. (k, a) \<in> set dirty \<Longrightarrow> chunk_ok T ar ino sz k a"
    using slot by (auto simp: slot_ok_def)
  have ino: "valid_ino ino" using valid_ino_of_row[OF ok r(1)] .
  have fsts: "map fst cs = map fst dirty" by (simp add: cs_def comp_def case_prod_beta)
  have dist: "distinct (map fst dirty)" using slot dirty_ok_distinct by (auto simp: slot_ok_def)
  have K: "?K = unat ` fst ` set dirty" using arg_cong[OF fsts, of set] by simp
  have small: "\<forall>k \<in> ?K. k < 2 ^ 24" unfolding K using ch by (auto simp: chunk_ok_def)
  have get: "map_of cs = (\<lambda>k. map_option (slot_bytes ar) (map_of dirty k))"
    by (rule ext) (simp add: cs_def map_of_map_snd)
  have rep: "chunks_replaced T ino ?K (\<lambda>k. the (map_of cs (of_nat k))) ?U"
    using small by (intro fold_upsert[OF ino]) (auto simp: fsts dist)
  have hit: "map_of dirty (of_nat k) \<noteq> None \<longleftrightarrow> k \<in> ?K" if "k < 2 ^ 24" for k
  proof -
    have "map_of dirty (of_nat k) \<noteq> None \<longleftrightarrow> of_nat k \<in> fst ` set dirty" by (simp add: map_of_eq_None_iff)
    also have "\<dots> \<longleftrightarrow> k \<in> ?K" unfolding K
    proof
      assume "of_nat k \<in> fst ` set dirty"
      then have "unat (of_nat k :: u64) \<in> unat ` fst ` set dirty" by (rule imageI)
      then show "k \<in> unat ` fst ` set dirty" by (simp only: unat_index[OF that])
    qed force
    finally show ?thesis .
  qed
  have rows: "chunk_row ?U ino k = (case map_of dirty (of_nat k) of Some a \<Rightarrow> slot_bytes ar a | None \<Rightarrow> chunk_row T ino k)"
    if "k < 2 ^ 24" for k
    using chunks_replaced_row[OF rep ino ino that small] hit[OF that] by (auto simp: get split: option.splits)
  have same: "same_but_chunks T ?U" and tbl: "tbl_ok (t_chunks ?U)"
    using rep ok by (auto simp: chunks_replaced_def data_ok_def)
  have ok': "data_ok T'"
    unfolding T'_def
  proof (rule data_ok_sized[OF ok same tbl _ sz])
    show "is_file T ino" using r by (auto simp: is_file_def)
    fix key d
    assume d: "map_of (t_chunks ?U) key = Some d"
    show "(\<exists>k < 2 ^ 24. key = chunk_key ino (of_nat k) \<and> length d \<le> CHUNK_SIZE \<and> k * CHUNK_SIZE + length d \<le> unat sz) \<or>
      map_of (t_chunks T) key = Some d \<and> (\<forall>k < 2 ^ 24. key \<noteq> chunk_key ino (of_nat k))"
    proof (cases "key \<in> (\<lambda>k. chunk_key ino (of_nat k)) ` ?K")
      case True
      then obtain k where k: "k \<in> ?K" "key = chunk_key ino (of_nat k)" by blast
      have k24: "k < 2 ^ 24" using small k(1) by blast
      then obtain a where a: "map_of dirty (of_nat k) = Some a" using hit k(1) by blast
      then have "chunk_ok T ar ino sz (of_nat k) a" "a \<in> in_use ar" using ch use by (auto dest!: map_of_SomeD)
      moreover have "d = slot_bytes ar a" using rows[OF k24] a d k(2) by (simp add: chunk_row_def)
      ultimately show ?thesis
        using in_use_chunk[OF arena] k(2) k24 unat_index[OF k24] by (intro disjI1 exI[of _ k]) (simp add: chunk_ok_def)
    next
      case False
      then have "map_of (t_chunks T) key = Some d" using rep d by (simp add: chunks_replaced_def)
      from ok this ino show ?thesis
      proof (cases rule: chunk_row_cases)
        case (1 k q)
        then have "k * CHUNK_SIZE + length d \<le> unat sz" using r by auto
        with 1 show ?thesis by blast
      qed (use \<open>map_of (t_chunks T) key = Some d\<close> in simp)
    qed
  qed
  have Ur: "inode_row_of ?U = inode_row_of T" using same by (auto simp: same_but_chunks_def inode_row_of_def fun_eq_iff)
  have view: "stored_byte T' ino p = view_byte T ar ino dirty p" if "p < max_size" for p
    using rows[OF div_lt_chunks[OF that]] by (simp add: T'_def stored_byte_def view_byte_def split: option.splits)
  have row': "inode_row_of T' ino = Some (r\<lparr>r_size := i64_of_u64 sz, r_mtime_ns := to_ns m, r_ctime_ns := to_ns m\<rparr>)"
    using r by (simp add: T'_def set_size_row Ur)
  have "file_bytes T' ino = Some (map (stored_byte T' ino) [0 ..< unat sz])"
    using row' r by (simp add: file_bytes_def)
  also have "map (stored_byte T' ino) [0 ..< unat sz] = slot_content T ar ino sz dirty"
    unfolding slot_content_def using view sz by (intro map_cong) auto
  finally have bytes: "file_bytes T' ino = Some (slot_content T ar ino sz dirty)" .
  have others: "chunk_row T' i k = chunk_row T i k" if "i \<noteq> ino" "valid_ino i" "k < 2 ^ 24" for i k
    using chunks_replaced_row[OF rep ino that(2,3) small] that(1) by (simp add: T'_def)
  have "file_bytes T' i = file_bytes T i" if "i \<noteq> ino" for i
    using that others by (intro file_bytes_cong[OF ok]) (simp_all add: T'_def set_size_row Ur)
  with ok' bytes others same show ?thesis
    by (auto simp: others_same_def T'_def set_size_row Ur same_but_chunks_def)
qed

section \<open>Frames\<close>

text \<open>A slot's invariant and contents depend on its inode row, the chunk rows of its inode and the
  arena slots it owns.\<close>

lemma slot_cong:
  assumes ok: "data_ok T" and slot: "slot_ok T ar ino kind sz dirty"
    and row: "head T' ino = head T ino"
    and rows: "\<And>k. valid_ino ino \<Longrightarrow> k < 2 ^ 24 \<Longrightarrow> chunk_row T' ino k = chunk_row T ino k"
    and mem: "\<And>a. a \<in> snd ` set dirty \<Longrightarrow> slot_bytes ar' a = slot_bytes ar a"
  shows "slot_ok T' ar' ino kind sz dirty"
    and "kind = RegularFile \<Longrightarrow> slot_content T' ar' ino sz dirty = slot_content T ar ino sz dirty"
proof -
  have v: "valid_ino ino" if "kind = RegularFile"
    using slot that valid_ino_of_row[OF ok] by (auto simp: slot_ok_def)
  have c: "chunk_ok T' ar' ino sz k a" if "kind = RegularFile" "(k, a) \<in> set dirty" for k a
  proof -
    have "chunk_ok T ar ino sz k a" using slot that by (auto simp: slot_ok_def)
    moreover have "slot_bytes ar' a = slot_bytes ar a" using that(2) by (intro mem) force
    ultimately show ?thesis using rows[OF v[OF that(1)], of "unat k"] by (simp add: chunk_ok_def)
  qed
  moreover have "is_file T' ino = is_file T ino"
    using head_row[OF row] head_row[OF row[symmetric]] unfolding is_file_def by metis
  ultimately show "slot_ok T' ar' ino kind sz dirty"
    using slot head_row[OF row] unfolding slot_ok_def by (fastforce split: if_splits)
  assume k: "kind = RegularFile"
  have "view_byte T' ar' ino dirty p = view_byte T ar ino dirty p" if "p < unat sz" for p
  proof -
    have "p < max_size" using that slot k by (auto simp: slot_ok_def)
    note pk = div_lt_chunks[OF this]
    show ?thesis
    proof (cases "map_of dirty (of_nat (p div CHUNK_SIZE))")
      case None
      then show ?thesis using rows[OF v[OF k] pk] by (simp add: view_byte_def stored_byte_def)
    next
      case (Some a)
      then have "slot_bytes ar' a = slot_bytes ar a" by (intro mem) (force dest: map_of_SomeD)
      with Some show ?thesis by (simp add: view_byte_def)
    qed
  qed
  then show "slot_content T' ar' ino sz dirty = slot_content T ar ino sz dirty"
    by (simp add: slot_content_def)
qed

lemma slot_other:
  assumes "data_ok T" "slot_ok T ar i kind sz dirty" "others_same T ino T'" "i \<noteq> ino"
    and "\<And>a. a \<in> snd ` set dirty \<Longrightarrow> slot_bytes ar' a = slot_bytes ar a"
  shows "slot_ok T' ar' i kind sz dirty"
    and "kind = RegularFile \<Longrightarrow> slot_content T' ar' i sz dirty = slot_content T ar i sz dirty"
  using slot_cong[OF assms(1,2), of T' ar'] assms(3-5) by (auto simp: others_same_def)

text \<open>Contents with nothing dirty are the stored ones.\<close>

lemma slot_content_clean:
  assumes "file_bytes T ino = Some c" "unat sz = length c"
  shows "slot_content T ar ino sz [] = c"
proof -
  obtain r where "inode_row_of T ino = Some r" "r_kind r = kind_as_i64 RegularFile" "length c = row_size r"
    using file_bytes_row[OF assms(1)] by blast
  then have "c = map (stored_byte T ino) [0 ..< unat sz]" using assms by (simp add: file_bytes_def)
  then show ?thesis by (simp add: slot_content_def view_byte_def[abs_def])
qed

lemma length_slot_content [simp]: "length (slot_content T ar ino sz dirty) = unat sz"
  by (simp add: slot_content_def)

lemma slot_ok_clean:
  assumes "slot_ok T ar ino kind sz dirty" "dirty = []" "kind = RegularFile"
  shows "\<exists>r. inode_row_of T ino = Some r \<and> r_kind r = kind_as_i64 RegularFile \<and> row_size r = unat sz"
  using assms by (auto simp: slot_ok_def)

lemma find_ino: "inodes_ok ins \<Longrightarrow> inodes_find ins i = Some u \<Longrightarrow> ino_of ins u = i"
  by (rule find_live(2))

lemma live_inos_differ:
  assumes "inodes_ok ins" "s \<in> live ins" "u \<in> live ins" "s \<noteq> u"
  shows "ino_of ins s \<noteq> ino_of ins u"
  using live_find[OF assms(1,2)] live_find[OF assms(1,3)] assms(4) by (metis option.inject)

text \<open>What a step that stores and empties dirty chunks leaves as it is.\<close>

definition flushed :: "Shared \<Rightarrow> Shared \<Rightarrow> bool" where
  "flushed s s' \<longleftrightarrow> content s' = content s \<and>
     inodes (table s') = (inodes (table s))\<lparr>oi_dirty := oi_dirty (inodes (table s'))\<rparr> \<and>
     handles (table s') = handles (table s) \<and> closing (table s') = closing (table s) \<and>
     max_slots (arena (table s')) = max_slots (arena (table s)) \<and> new_rowid (db s') = new_rowid (db s) \<and>
     (faults (db s) = [] \<longrightarrow> faults (db s') = [])"

lemma flushed_refl [simp]: "flushed s s"
  by (simp add: flushed_def)

section \<open>Flushing a slot\<close>

lemma those_chunks:
  assumes "arena_ok ar" "snd ` set dirty \<subseteq> in_use ar"
  shows "those (map (\<lambda>(index, a). map_option (Pair index) (chunk ar a)) dirty) =
    Some (map (\<lambda>(k, a). (k, slot_bytes ar a)) dirty)"
  using assms(2) by (induction dirty) (auto simp: in_use_chunk[OF assms(1)])

definition emptied :: "OpenInodes \<Rightarrow> Slot \<Rightarrow> OpenInodes" where
  "emptied ins s = ins\<lparr>oi_dirty := (oi_dirty ins)[unat s := []]\<rparr>"

lemma emptied_simps [simp]:
  "live (emptied ins s) = live ins" "inodes_find (emptied ins s) = inodes_find ins"
  "oi_ino (emptied ins s) = oi_ino ins" "oi_kind (emptied ins s) = oi_kind ins"
  "oi_size (emptied ins s) = oi_size ins" "oi_mtime (emptied ins s) = oi_mtime ins"
  "oi_refs (emptied ins s) = oi_refs ins" "oi_unlinked (emptied ins s) = oi_unlinked ins"
  by (simp_all add: emptied_def)

lemma emptied_dirty:
  assumes "inodes_ok ins" "s \<in> live ins"
  shows "dirty_of (emptied ins s) u = (if u = s then [] else dirty_of ins u)"
  using column_update[OF live_columns(7)[OF assms]] by (simp add: emptied_def)

lemma owners_emptied:
  assumes ins: "inodes_ok ins" "s \<in> live ins" and own: "owners ins ar X"
    and use: "in_use ar' = in_use ar - snd ` set (dirty_of ins s)"
  shows "owners (emptied ins s) ar' X"
proof -
  note d = emptied_dirty[OF ins]
  define D where "D = (\<lambda>u. snd ` set (dirty_of ins u))"
  have D': "snd ` set (dirty_of (emptied ins s) u) = (if u = s then {} else D u)" for u
    by (simp add: d D_def)
  have o: "in_use ar = X \<union> (\<Union>u \<in> live ins. D u)" "\<And>u. u \<in> live ins \<Longrightarrow> distinct (map snd (dirty_of ins u)) \<and> D u \<inter> X = {}"
    "\<And>u v. u \<in> live ins \<Longrightarrow> v \<in> live ins \<Longrightarrow> u \<noteq> v \<Longrightarrow> D u \<inter> D v = {}"
    using own unfolding owners_def D_def by blast+
  have use': "in_use ar' = in_use ar - D s" using use by (simp add: D_def)
  have u1: "(\<Union>u \<in> live ins. D u) = D s \<union> (\<Union>u \<in> live ins - {s}. D u)" using ins(2) by auto
  have u2: "(\<Union>u \<in> live ins. if u = s then {} else D u) = (\<Union>u \<in> live ins - {s}. D u)" by auto
  have u3: "D s \<inter> (\<Union>u \<in> live ins - {s}. D u) = {}" using o(3)[OF ins(2)] by auto
  have u4: "D s \<inter> X = {}" using o(2)[OF ins(2)] by simp
  have "in_use ar' = X \<union> (\<Union>u \<in> live ins. if u = s then {} else D u)"
    using use' o(1) u3 u4 unfolding u1 u2 by auto
  then show ?thesis using o(2,3) d unfolding owners_def D' by auto
qed

lemma buffers_emptied:
  assumes b: "buffers_ok X T ins ar" and ok: "data_ok T" and s: "s \<in> live ins"
    and T': "data_ok T'" "others_same T (ino_of ins s) T'"
      "kind_of ins s = RegularFile \<Longrightarrow> \<exists>r. inode_row_of T' (ino_of ins s) = Some r \<and>
         r_kind r = kind_as_i64 RegularFile \<and> row_size r = unat (size_of ins s)"
      "kind_of ins s \<noteq> RegularFile \<Longrightarrow> \<not> is_file T' (ino_of ins s)"
    and ar': "arena_ok ar'" "in_use ar' = in_use ar - snd ` set (dirty_of ins s)"
      "\<And>a. slot_bytes ar' a = slot_bytes ar a"
  shows "buffers_ok X T' (emptied ins s) ar'"
proof -
  have ins: "inodes_ok ins" and own: "owners ins ar X" using b by (auto simp: buffers_ok_def)
  have "slot_ok T' ar' (ino_of ins u) (kind_of ins u) (size_of ins u) (dirty_of (emptied ins s) u)"
    if u: "u \<in> live ins" for u
  proof (cases "u = s")
    case True
    then show ?thesis using T'(3,4) buffers_live(1)[OF b s] emptied_dirty[OF ins s]
      by (auto simp: slot_ok_def)
  next
    case False
    then show ?thesis
      using slot_other(1)[OF ok buffers_live(1)[OF b u] T'(2) live_inos_differ[OF ins u s] ar'(3)]
      by (simp add: emptied_dirty[OF ins s])
  qed
  then show ?thesis
    using ins own ar' owners_emptied[OF ins s own ar'(2)] inodes_ok_dirty[OF ins s, of "[]"]
    by (simp add: buffers_ok_def emptied_def[symmetric])
qed

lemma content_emptied:
  assumes b: "buffers_ok X T ins ar" and ok: "data_ok T" and s: "s \<in> live ins"
    and T': "others_same T (ino_of ins s) T'"
      "kind_of ins s = RegularFile \<Longrightarrow> file_bytes T' (ino_of ins s) =
         Some (slot_content T ar (ino_of ins s) (size_of ins s) (dirty_of ins s))"
    and mem: "\<And>a. slot_bytes ar' a = slot_bytes ar a"
  shows "content_in T' (emptied ins s) ar' = content_in T ins ar"
proof
  fix i
  have ins: "inodes_ok ins" using b by (simp add: buffers_ok_def)
  show "content_in T' (emptied ins s) ar' i = content_in T ins ar i"
  proof (cases "inodes_find ins i")
    case None
    then have "i \<noteq> ino_of ins s" using live_find[OF ins s] by auto
    with None T'(1) show ?thesis by (simp add: content_in_def others_same_def)
  next
    case (Some u)
    note u = find_live[OF ins Some]
    show ?thesis
    proof (cases "u = s")
      case True
      then show ?thesis using Some T'(2) u slot_content_clean[of T' i _ "size_of ins s" ar']
        by (simp add: content_in_def emptied_dirty[OF ins s])
    next
      case False
      then show ?thesis
        using Some u slot_other(2)[OF ok buffers_live(1)[OF b u(1)] T'(1) live_inos_differ[OF ins u(1) s] mem]
        by (simp add: content_in_def emptied_dirty[OF ins s])
    qed
  qed
qed

lemma replace_chunks_run:
  "\<exists>r d'. replace_chunks d ino sz cs m = (r, d') \<and> new_rowid d' = new_rowid d \<and> (faults d = [] \<longrightarrow> faults d' = []) \<and>
    (case r of Inl e \<Rightarrow> tabs d' = tabs d \<and> faults d \<noteq> []
     | Inr _ \<Rightarrow> tabs d' = set_size (fold (\<lambda>(index, data) t. upsert_chunk t (chunk_key ino index) data) cs (tabs d)) ino sz m)"
  unfolding replace_chunks_def Let_def
  by (auto simp: transaction_def pop_fault_def split: list.splits option.splits)

lemma store_dirty_row:
  assumes "slot_ok T ar ino RegularFile sz dirty"
  shows "\<exists>r. inode_row_of (set_size (fold (\<lambda>(index, data) t. upsert_chunk t (chunk_key ino index) data) cs T) ino sz m) ino = Some r \<and>
    r_kind r = kind_as_i64 RegularFile \<and> row_size r = unat sz"
proof -
  have "t_inodes (fold (\<lambda>(index, data) t. upsert_chunk t (chunk_key ino index) data) cs T) = t_inodes T"
    by (induction cs arbitrary: T) auto
  with assms show ?thesis by (auto simp: slot_ok_def set_size_map_of inode_row_of_def)
qed

lemma flush_slot_spec:
  assumes run: "running X s" and live: "sl \<in> live (inodes (table s))"
  defines "ins \<equiv> inodes (table s)"
  shows "\<exists>r s'. flush_slot s sl unl = Some (r, s') \<and> running X s' \<and> flushed s s' \<and>
    (\<forall>u. u \<noteq> sl \<longrightarrow> dirty_of (inodes (table s')) u = dirty_of ins u) \<and>
    (case r of
       Inl e \<Rightarrow> table s' = table s \<and> tabs (db s') = tabs (db s) \<and> faults (db s) \<noteq> []
     | Inr _ \<Rightarrow> if dirty_of ins sl = [] \<or> gone_of ins sl \<and> unl = Skip then s' = s
         else dirty_of (inodes (table s')) sl = [] \<and>
           in_use (arena (table s')) = in_use (arena (table s)) - snd ` set (dirty_of ins sl) \<and>
           others_same (tabs (db s)) (ino_of ins sl) (tabs (db s')) \<and>
           file_bytes (tabs (db s')) (ino_of ins sl) = content s (ino_of ins sl))"
proof -
  define ar where "ar = arena (table s)"
  define d where "d = db s"
  define dirty where "dirty = dirty_of ins sl"
  have b: "buffers_ok X (tabs d) ins ar" and ok: "data_ok (tabs d)" and hm: "handles_match ins (handles (table s))"
    using run by (auto simp: running_def ins_def ar_def d_def)
  have ins: "inodes_ok ins" and aok: "arena_ok ar" using b by (auto simp: buffers_ok_def)
  have live: "sl \<in> live ins" using live by (simp add: ins_def)
  note cols = live_columns[OF ins live]
  note bl = buffers_live[OF b live, folded dirty_def]
  show ?thesis
  proof (cases "dirty = [] \<or> gone_of ins sl \<and> unl = Skip")
    case True
    then have "flush_slot s sl unl = Some (Inr (), s)"
      using cols by (auto simp: flush_slot_def ins_def[symmetric] dirty_def dirty_is_empty_def)
    then show ?thesis using True run by (auto simp: ins_def dirty_def)
  next
    case False
    then have reg: "kind_of ins sl = RegularFile" using bl(1) by (auto simp: slot_ok_def split: if_splits)
    let ?cs = "map (\<lambda>(k, a). (k, slot_bytes ar a)) dirty"
    let ?i = "ino_of ins sl" and ?z = "size_of ins sl" and ?m = "mtime_of ins sl"
    obtain r d' where rep: "replace_chunks d ?i ?z ?cs ?m = (r, d')" "new_rowid d' = new_rowid d" "faults d = [] \<longrightarrow> faults d' = []"
      "case r of Inl e \<Rightarrow> tabs d' = tabs d \<and> faults d \<noteq> []
       | Inr _ \<Rightarrow> tabs d' = set_size (fold (\<lambda>(index, data) t. upsert_chunk t (chunk_key ?i index) data) ?cs (tabs d)) ?i ?z ?m"
      using replace_chunks_run[of d ?i ?z ?cs ?m] by blast
    obtain ar' where rel: "release_into dirty ar = ([], ar')" "arena_ok ar'" "in_use ar' = in_use ar - snd ` set dirty"
      "\<forall>t. slot_bytes ar' t = slot_bytes ar t" "max_slots ar' = max_slots ar"
      using release_into_spec[OF aok bl(3,2)] by blast
    have nonempty: "\<not> dirty_is_empty dirty" using False by (simp add: dirty_is_empty_def)
    show ?thesis
    proof (cases r)
      case (Inl e)
      have "flush_slot s sl unl = Some (Inl (errno_from_db_error e), s\<lparr>db := d'\<rparr>)"
        using cols False nonempty rep(1) Inl those_chunks[OF aok bl(2)]
        by (auto simp: flush_slot_def ins_def[symmetric] dirty_def[symmetric] ar_def[symmetric] d_def[symmetric]
            entries_def on_db_def)
      moreover have "tabs d' = tabs d" "faults d \<noteq> []" using rep(4) Inl by auto
      ultimately show ?thesis using run rep(2,3) by (auto simp: running_def flushed_def content_def d_def ins_def)
    next
      case (Inr u)
      define s' where "s' = s\<lparr>db := d', table := (table s)\<lparr>inodes := emptied ins sl, arena := ar'\<rparr>\<rparr>"
      have run': "flush_slot s sl unl = Some (Inr (), s')"
        using cols False nonempty rep(1) Inr those_chunks[OF aok bl(2)] rel(1)
        by (auto simp: flush_slot_def ins_def[symmetric] dirty_def[symmetric] ar_def[symmetric] d_def[symmetric]
            entries_def on_db_def s'_def emptied_def)
      have t': "tabs d' = set_size (fold (\<lambda>(index, data) t. upsert_chunk t (chunk_key ?i index) data) ?cs (tabs d)) ?i ?z ?m"
        using rep(4) Inr by simp
      have sd: "data_ok (tabs d')" "file_bytes (tabs d') ?i = Some (slot_content (tabs d) ar ?i ?z dirty)"
        "others_same (tabs d) ?i (tabs d')"
        using store_dirty[OF ok aok bl(2), of ?i ?z ?m] bl(1) reg unfolding t' by auto
      have row: "\<exists>r. inode_row_of (tabs d') ?i = Some r \<and> r_kind r = kind_as_i64 RegularFile \<and> row_size r = unat ?z"
        using store_dirty_row[of "tabs d" ar ?i ?z dirty ?cs ?m] bl(1) reg unfolding t' by simp
      have b': "buffers_ok X (tabs d') (emptied ins sl) ar'"
        using buffers_emptied[OF b ok live sd(1,3)] row rel reg by (simp add: dirty_def)
      have c': "content_in (tabs d') (emptied ins sl) ar' = content_in (tabs d) ins ar"
        using content_emptied[OF b ok live sd(3)] sd(2) rel(4) by (simp add: dirty_def)
      have "running X s'"
        using sd(1) b' hm by (simp add: running_def s'_def handles_match_def)
      moreover have "flushed s s'"
        using c' rel(5) rep(2,3) unfolding flushed_def content_def s'_def d_def ins_def ar_def
        by (simp add: emptied_def)
      moreover have "file_bytes (tabs d') ?i = content s ?i"
        using sd(2) live_find[OF ins live] reg unfolding content_def content_in_def
        by (simp add: ins_def d_def ar_def dirty_def)
      ultimately show ?thesis
        using run' False rel(3) sd(3) emptied_dirty[OF ins live] by (auto simp: s'_def dirty_def ar_def d_def)
    qed
  qed
qed

section \<open>Reading through a slot\<close>

text \<open>The overlay loop is the row loop of the storage layer over the dirty chunks.\<close>

lemma copy_dirty_eq:
  assumes "arena_ok ar" "valid_ino ino"
    and "\<forall>(k, a) \<in> set ov. unat k < 2 ^ 24 \<and> a \<in> in_use ar"
  shows "copy_dirty ar span ov out = copy_rows span (map (\<lambda>(k, a). (chunk_key ino k, slot_bytes ar a)) ov) out"
  using assms(3)
proof (induction ov arbitrary: out)
  case (Cons x ov)
  obtain k a where x: "x = (k, a)" by fastforce
  then have "chunk_index_of (chunk_key ino k) = k" "a \<in> in_use ar"
    using Cons.prems chunk_index_of_key[OF assms(2), of "unat k"] by auto
  with Cons x show ?case by (auto simp: in_use_chunk(1)[OF assms(1)] split: Option.bind_splits)
qed simp

lemma map_of_chunk_keys:
  assumes "valid_ino ino" "\<forall>k \<in> fst ` set ov. unat k < 2 ^ 24" "p < 2 ^ 24"
  shows "map_of (map (\<lambda>(k, a). (chunk_key ino k, f a)) ov) (chunk_key ino (of_nat p)) = map_option f (map_of ov (of_nat p))"
  using assms(2)
proof (induction ov)
  case (Cons x ov)
  obtain k a where x: "x = (k, a)" by fastforce
  have "chunk_key ino (of_nat (unat k)) = chunk_key ino (of_nat p) \<longleftrightarrow> unat k = p"
    using chunk_key_inject[OF assms(1,1) _ assms(3), of "unat k"] Cons.prems x by simp
  moreover have "unat k = p \<longleftrightarrow> k = of_nat p" using unat_index[OF assms(3)] by auto
  ultimately show ?case using Cons x by auto
qed simp

lemma overlay_spec:
  assumes aok: "arena_ok ar" and ino: "valid_ino ino" and sp: "is_span off len sp" and last: "unat (sp_last sp) < 2 ^ 24"
    and slot: "slot_ok T ar ino RegularFile sz dirty" and use: "snd ` set dirty \<subseteq> in_use ar"
  shows "\<exists>ov. dirty_range dirty (sp_first sp) (sp_last sp) = Some ov \<and>
    copy_dirty ar sp ov (map (stored_byte T ino) [off ..< off + len]) = Some (map (view_byte T ar ino dirty) [off ..< off + len])"
proof -
  let ?out = "map (stored_byte T ino) [off ..< off + len]"
  have dok: "dirty_ok dirty" and ch: "\<And>k a. (k, a) \<in> set dirty \<Longrightarrow> chunk_ok T ar ino sz k a"
    using slot by (auto simp: slot_ok_def)
  have fl: "sp_first sp \<le> sp_last sp"
    using sp by (auto simp: is_span_def word_le_nat_alt intro: div_le_mono)
  define ov where "ov = filter (\<lambda>(i, _). sp_first sp \<le> i \<and> i \<le> sp_last sp) dirty"
  have range: "dirty_range dirty (sp_first sp) (sp_last sp) = Some ov"
    using dirty_range_eq[OF dok fl] by (simp add: ov_def)
  have ovs: "\<forall>(k, a) \<in> set ov. unat k < 2 ^ 24 \<and> a \<in> in_use ar"
    using ch use by (force simp: ov_def chunk_ok_def)
  define rows where "rows = map (\<lambda>(k, a). (chunk_key ino k, slot_bytes ar a)) ov"
  have "\<exists>k < 2 ^ 24. chunk_key ino i = chunk_key ino (of_nat k) \<and> unat (sp_first sp) \<le> k \<and> k \<le> unat (sp_last sp)"
    if "(i, a) \<in> set ov" for i a
    using that ovs by (intro exI[of _ "unat i"]) (auto simp: ov_def word_le_nat_alt)
  then have keys: "\<forall>key \<in> fst ` set rows. \<exists>k < 2 ^ 24. key = chunk_key ino (of_nat k) \<and> unat (sp_first sp) \<le> k \<and> k \<le> unat (sp_last sp)"
    unfolding rows_def by fastforce
  have "distinct (map fst ov)" using dirty_ok_distinct[OF dok] unfolding ov_def by (rule distinct_filter_keys)
  moreover have "inj_on (chunk_key ino) (fst ` set ov)"
  proof (rule inj_onI)
    fix i j assume ij: "i \<in> fst ` set ov" "j \<in> fst ` set ov" "chunk_key ino i = chunk_key ino j"
    then have "unat i < 2 ^ 24" "unat j < 2 ^ 24" using ovs by auto
    with ij(3) have "unat i = unat j" using chunk_key_inject[OF ino ino, of "unat i" "unat j"] by simp
    then show "i = j" by (simp only: word_unat_eq_iff)
  qed
  ultimately have dist: "distinct (map fst rows)"
    by (simp add: rows_def comp_def case_prod_beta distinct_map inj_on_def image_iff)
  have "length ?out = len" by simp
  from copy_rows_spec[OF sp ino keys dist this]
  obtain out' where o: "copy_rows sp rows ?out = Some out'" "length out' = len"
    "\<And>j. j < len \<Longrightarrow> (off + j) div CHUNK_SIZE < 2 ^ 24 \<Longrightarrow> out' ! j =
      (case map_of rows (chunk_key ino (of_nat ((off + j) div CHUNK_SIZE))) of
         None \<Rightarrow> ?out ! j
       | Some d \<Rightarrow> if (off + j) mod CHUNK_SIZE < length d then d ! ((off + j) mod CHUNK_SIZE) else ?out ! j)"
    by blast
  have "out' ! j = view_byte T ar ino dirty (off + j)" if j: "j < len" for j
  proof -
    let ?k = "(off + j) div CHUNK_SIZE"
    note bk = span_chunk_of[OF sp j]
    have k: "?k < 2 ^ 24" using bk last by linarith
    have "map_of ov (of_nat ?k) = map_of dirty (of_nat ?k)"
      using bk unat_index[OF k] by (simp add: ov_def map_of_filter_key word_le_nat_alt)
    then have "map_of rows (chunk_key ino (of_nat ?k)) = map_option (slot_bytes ar) (map_of dirty (of_nat ?k))"
      using map_of_chunk_keys[OF ino _ k, of ov "slot_bytes ar"] ovs by (force simp: rows_def)
    moreover have "length (chunk_row T ino ?k) \<le> length (slot_bytes ar a)" if "map_of dirty (of_nat ?k) = Some a" for a
      using ch[OF map_of_SomeD[OF that]] unat_index[OF k] by (simp add: chunk_ok_def)
    ultimately show ?thesis using o(3)[OF j k] j
      by (auto simp: view_byte_def stored_byte_def byte_at_def split: option.splits)
  qed
  then have "out' = map (view_byte T ar ino dirty) [off ..< off + len]" using o(2) by (intro nth_equalityI) auto
  moreover have "copy_dirty ar sp ov ?out = copy_rows sp rows ?out"
    unfolding rows_def by (rule copy_dirty_eq[OF aok ino ovs])
  ultimately show ?thesis using range o(1) by simp
qed

text \<open>A read through a slot returns the slice of the contents, and changes nothing but the fault
  script.\<close>

lemma read_slot_spec:
  assumes run: "running X s" and live: "sl \<in> live (inodes (table s))"
    and c: "content s (ino_of (inodes (table s)) sl) = Some c"
  shows "\<exists>r d'. read_slot s sl offset n = Some (r, s\<lparr>db := d'\<rparr>) \<and> tabs d' = tabs (db s) \<and> new_rowid d' = new_rowid (db s) \<and>
    (faults (db s) = [] \<longrightarrow> faults d' = []) \<and>
    (case r of Inl e \<Rightarrow> faults (db s) \<noteq> [] | Inr out \<Rightarrow> out = pread offset n c)"
proof -
  define ins where "ins = inodes (table s)"
  define ar where "ar = arena (table s)"
  define T where "T = tabs (db s)"
  define dirty where "dirty = dirty_of ins sl"
  define ino where "ino = ino_of ins sl"
  define sz where "sz = size_of ins sl"
  have b: "buffers_ok X T ins ar" and ok: "data_ok T"
    using run by (auto simp: running_def ins_def ar_def T_def)
  have live: "sl \<in> live ins" using live by (simp add: ins_def)
  have iok: "inodes_ok ins" and aok: "arena_ok ar" using b by (auto simp: buffers_ok_def)
  note cols = live_columns[OF iok live]
  have reg: "kind_of ins sl = RegularFile" and c: "c = slot_content T ar ino sz dirty"
    using c live_find[OF iok live]
    by (auto simp: content_def content_in_def ins_def[symmetric] ar_def[symmetric] T_def[symmetric] ino_def sz_def dirty_def split: if_splits)
  have slot: "slot_ok T ar ino RegularFile sz dirty" and use: "snd ` set dirty \<subseteq> in_use ar"
    using buffers_live[OF b live] reg by (simp_all add: ino_def sz_def dirty_def)
  then have ino: "valid_ino ino" and zmax: "unat sz \<le> max_size" using valid_ino_of_row[OF ok] by (auto simp: slot_ok_def)
  show ?thesis
  proof (cases "sz \<le> offset \<or> n = 0")
    case True
    then have "read_slot s sl offset n = Some (Inr [], s)"
      using cols reg by (auto simp: read_slot_def ins_def[symmetric] sz_def)
    moreover have "pread offset n c = []" using True c by (auto simp: pread_def word_le_nat_alt)
    ultimately show ?thesis by (intro exI[of _ "Inr []"] exI[of _ "db s"]) simp
  next
    case False
    define m where "m = unat (min (ucast n) (sz - offset) :: u64)"
    have m: "m = min (unat n) (unat sz - unat offset)" "unat offset < unat sz" "0 < unat n"
      using False by (simp_all add: m_def unat_min unat_sub word_le_nat_alt word_less_nat_alt not_le unat_ucast_u32 unat_gt_0)
    then have fit: "unat offset + m \<le> max_size" and pos: "0 < m" using zmax by linarith+
    obtain r d' where r: "read_into (db s) ino offset (replicate m 0) = Some (r, d')" "tabs d' = T" "new_rowid d' = new_rowid (db s)"
      "faults (db s) = [] \<longrightarrow> faults d' = []"
      "case r of Inl e \<Rightarrow> faults (db s) \<noteq> [] | Inr out \<Rightarrow> out = map (stored_byte T ino) [unat offset ..< unat offset + m]"
      using read_into_spec[of "db s" ino offset m] ok ino fit unfolding T_def data_ok_def by blast
    show ?thesis
    proof (cases r)
      case (Inl e)
      then show ?thesis using cols reg False r
        by (auto simp: read_slot_def ins_def[symmetric] sz_def[symmetric] ino_def[symmetric] m_def[symmetric] T_def Let_def
            intro!: exI[of _ "Inl (errno_from_db_error e)"] exI[of _ d'])
    next
      case (Inr out)
      then have out: "out = map (stored_byte T ino) [unat offset ..< unat offset + m]" using r(5) by simp
      obtain sp where sp: "span_new offset m = Some sp" using span_new_Some[OF pos] by blast
      have span: "is_span (unat offset) m sp" using span_new_is_span[OF sp] fit max_size_lt by linarith
      have "unat offset + m - 1 < max_size" using fit pos by linarith
      then have last: "unat (sp_last sp) < 2 ^ 24" using span div_lt_chunks by (simp add: is_span_def)
      obtain ov where ov: "dirty_range dirty (sp_first sp) (sp_last sp) = Some ov"
        "copy_dirty ar sp ov out = Some (map (view_byte T ar ino dirty) [unat offset ..< unat offset + m])"
        using overlay_spec[OF aok ino span last slot use] unfolding out by blast
      have "map (view_byte T ar ino dirty) [unat offset ..< unat offset + m] = pread offset n c"
        unfolding c pread_def slot_content_def using m by (intro nth_equalityI) auto
      then have "read_slot s sl offset n = Some (Inr (pread offset n c), s\<lparr>db := d'\<rparr>)"
        using cols reg False r(1) Inr ov sp
        by (auto simp: read_slot_def ins_def[symmetric] sz_def[symmetric] ino_def[symmetric] m_def[symmetric] Let_def
            dirty_def ar_def out)
      then show ?thesis using r by (auto simp: T_def)
    qed
  qed
qed

end
