(* ===== verification/Write_Path.thy ===== *)
theory Write_Path
  imports Write_Back
begin

text \<open>
  The write path of \<open>Fuse\<close>: freeing idle slots, eviction when the write budget is used up, and the
  chunk loop of a write. Eviction always makes room, so a write terminates; a completed write is a
  positional write of the contents, and a failed one has written a prefix of its data.
\<close>

section \<open>Freeing an idle slot\<close>

lemma file_bytes_None: "\<not> is_file T ino \<Longrightarrow> file_bytes T ino = None"
  by (auto simp: file_bytes_def is_file_def split: option.splits)

text \<open>The contents of a clean slot are the stored ones, so forgetting the slot keeps them.\<close>

lemma content_clean:
  assumes "slot_ok T ar ino kind sz []"
  shows "(if kind = RegularFile then Some (slot_content T ar ino sz []) else None) = file_bytes T ino"
proof (cases "kind = RegularFile")
  case True
  then obtain r where "inode_row_of T ino = Some r" "r_kind r = kind_as_i64 RegularFile" "row_size r = unat sz"
    using slot_ok_clean[OF assms] by auto
  then have "file_bytes T ino = Some (map (stored_byte T ino) [0 ..< unat sz])" by (simp add: file_bytes_def)
  with True show ?thesis by (simp add: slot_content_def view_byte_def[abs_def])
next
  case False
  with assms show ?thesis by (simp add: slot_ok_def file_bytes_None)
qed

lemma entry_columns:
  "entry t' u = entry t u \<longleftrightarrow> ino_of t' u = ino_of t u \<and> kind_of t' u = kind_of t u \<and> size_of t' u = size_of t u \<and>
     mtime_of t' u = mtime_of t u \<and> refs_of t' u = refs_of t u \<and> gone_of t' u = gone_of t u \<and> dirty_of t' u = dirty_of t u"
  by (simp add: entry_def)

lemma handles_no_refs:
  assumes "handles_match ins hs" "s \<in> live ins" "refs_of ins s = 0"
  shows "handles_get hs fh \<noteq> Some s"
proof
  assume g: "handles_get hs fh = Some s"
  then have "s \<in> set (h_slot hs)" by (auto simp: handles_get_def idx_def split: if_splits)
  then have "0 < count_list (h_slot hs) s" by (metis count_list_0_iff neq0_conv)
  with assms show False by (auto simp: handles_match_def)
qed

lemma free_if_idle_spec:
  assumes run: "running X s" and live: "sl \<in> live (inodes (table s))"
  shows "\<exists>t'. free_if_idle (table s) sl = Some t' \<and> running X (s\<lparr>table := t'\<rparr>) \<and> content (s\<lparr>table := t'\<rparr>) = content s \<and>
    handles t' = handles (table s) \<and> arena t' = arena (table s) \<and> closing t' = closing (table s) \<and>
    (if refs_of (inodes (table s)) sl = 0 \<and> dirty_of (inodes (table s)) sl = []
     then live (inodes t') = live (inodes (table s)) - {sl} \<and>
       inodes_find (inodes t') = (inodes_find (inodes (table s)))(ino_of (inodes (table s)) sl := None) \<and>
       (\<forall>u \<in> live (inodes t'). entry (inodes t') u = entry (inodes (table s)) u)
     else t' = table s)"
proof -
  define ins ar T where "ins = inodes (table s)" "ar = arena (table s)" "T = tabs (db s)"
  note d = ins_ar_T_def
  have b: "buffers_ok X T ins ar" and ok: "data_ok T" and hm: "handles_match ins (handles (table s))"
    using run by (auto simp: running_def d)
  have iok: "inodes_ok ins" and own: "owners ins ar X" and aok: "arena_ok ar" using b by (auto simp: buffers_ok_def)
  have live: "sl \<in> live ins" using live by (simp add: d)
  note cols = live_columns[OF iok live]
  show ?thesis
  proof (cases "refs_of ins sl = 0 \<and> dirty_of ins sl = []")
    case False
    then have "free_if_idle (table s) sl = Some (table s)"
      using cols by (auto simp: free_if_idle_def d dirty_is_empty_def)
    with False run show ?thesis by (auto simp: d)
  next
    case True
    obtain ins' where r: "inodes_remove ins sl = Some ins'" "inodes_ok ins'" "live ins' = live ins - {sl}"
      "inodes_find ins' = (inodes_find ins)(ino_of ins sl := None)" "\<forall>u \<in> live ins'. entry ins' u = entry ins u"
      using inodes_remove_spec[OF iok live] True by blast
    have col: "ino_of ins' u = ino_of ins u \<and> kind_of ins' u = kind_of ins u \<and> size_of ins' u = size_of ins u \<and>
        refs_of ins' u = refs_of ins u \<and> dirty_of ins' u = dirty_of ins u" if "u \<in> live ins'" for u
      using r(5) that by (auto simp: entry_columns)
    have "(\<Union>u \<in> live ins'. snd ` set (dirty_of ins' u)) = (\<Union>u \<in> live ins'. snd ` set (dirty_of ins u))"
      using col by simp
    also have "\<dots> = (\<Union>u \<in> live ins. snd ` set (dirty_of ins u))"
      using True r(3) live by (intro equalityI UN_least) auto
    finally have un: "(\<Union>u \<in> live ins'. snd ` set (dirty_of ins' u)) = (\<Union>u \<in> live ins. snd ` set (dirty_of ins u))" .
    have own': "owners ins' ar X"
      using own r(3) col unfolding owners_def un by (simp add: col)
    have "buffers_ok X T ins' ar"
      using b r(2,3) own' col by (auto simp: buffers_ok_def)
    moreover have "handles_match ins' (handles (table s))"
      using hm r(3) col handles_no_refs[OF hm live] True by (auto simp: handles_match_def)
    moreover have "content_in T ins' ar = content_in T ins ar"
    proof
      fix i
      show "content_in T ins' ar i = content_in T ins ar i"
      proof (cases "i = ino_of ins sl")
        case i: True
        then show ?thesis
          using r(4) live_find[OF iok live] content_clean[of T ar i "kind_of ins sl" "size_of ins sl"]
            buffers_live(1)[OF b live] True
          by (simp add: content_in_def split: if_splits)
      next
        case False
        then have f: "inodes_find ins' i = inodes_find ins i" using r(4) by simp
        show ?thesis
        proof (cases "inodes_find ins i")
          case (Some u)
          then have "u \<in> live ins'" using f find_live(1)[OF r(2), of i u] by simp
          with Some f show ?thesis using col by (simp add: content_in_def)
        qed (use f in \<open>simp add: content_in_def\<close>)
      qed
    qed
    moreover have "free_if_idle (table s) sl = Some ((table s)\<lparr>inodes := ins'\<rparr>)"
      using cols True r(1) by (auto simp: free_if_idle_def d dirty_is_empty_def)
    ultimately show ?thesis using ok True r by (auto simp: running_def content_def d)
  qed
qed

section \<open>Eviction\<close>

text \<open>What a write and its evictions leave as it is for the slot being written: it stays live, with
  its identity and handles; its size follows its contents, and its time is that of the write.\<close>

text \<open>Slots with handles stay, with their inode, their handles and their removal mark.\<close>

definition keeps :: "Shared \<Rightarrow> Shared \<Rightarrow> bool" where
  "keeps s s' \<longleftrightarrow> (\<forall>u \<in> live (inodes (table s)). refs_of (inodes (table s)) u \<noteq> 0 \<longrightarrow>
     u \<in> live (inodes (table s')) \<and> ino_of (inodes (table s')) u = ino_of (inodes (table s)) u \<and>
     refs_of (inodes (table s')) u = refs_of (inodes (table s)) u \<and> gone_of (inodes (table s')) u = gone_of (inodes (table s)) u)"

lemma keeps_refl [simp]: "keeps s s"
  by (simp add: keeps_def)

lemma keeps_trans: "keeps s t \<Longrightarrow> keeps t u \<Longrightarrow> keeps s u"
  unfolding keeps_def by simp

lemma keeps_db [simp]: "keeps s (s'\<lparr>db := d\<rparr>) = keeps s s'"
  by (simp add: keeps_def)

lemma keeps_columns:
  assumes "live (inodes (table s')) = live (inodes (table s))" "oi_ino (inodes (table s')) = oi_ino (inodes (table s))"
    "oi_refs (inodes (table s')) = oi_refs (inodes (table s))" "oi_unlinked (inodes (table s')) = oi_unlinked (inodes (table s))"
  shows "keeps s s'"
  using assms by (simp add: keeps_def)

lemma keeps_freed:
  assumes "live (inodes (table s')) = live (inodes (table s)) - {v} \<and>
      (\<forall>u \<in> live (inodes (table s')). entry (inodes (table s')) u = entry (inodes (table s)) u) \<and> refs_of (inodes (table s)) v = 0 \<or>
    inodes (table s') = inodes (table s)"
  shows "keeps s s'"
  using assms by (auto simp: keeps_def entry_columns)

definition steady :: "Slot \<Rightarrow> Shared \<Rightarrow> Shared \<Rightarrow> bool" where
  "steady w s s' \<longleftrightarrow>
     (let ins = inodes (table s); ins' = inodes (table s') in
      w \<in> live ins' \<and> ino_of ins' w = ino_of ins w \<and> kind_of ins' w = kind_of ins w \<and>
      refs_of ins' w = refs_of ins w \<and>
      gone_of ins' w = gone_of ins w) \<and>
     keeps s s' \<and> handles (table s') = handles (table s) \<and> closing (table s') = closing (table s) \<and>
     max_slots (arena (table s')) = max_slots (arena (table s)) \<and> new_rowid (db s') = new_rowid (db s) \<and>
     (faults (db s) = [] \<longrightarrow> faults (db s') = [])"

lemma steady_refl: "w \<in> live (inodes (table s)) \<Longrightarrow> steady w s s"
  by (simp add: steady_def Let_def)

lemma steady_trans: "steady w s t \<Longrightarrow> steady w t u \<Longrightarrow> steady w s u"
  using keeps_trans[of s t u] by (simp add: steady_def Let_def)

lemma steady_live: "steady w s s' \<Longrightarrow> w \<in> live (inodes (table s'))"
  by (simp add: steady_def Let_def)

text \<open>Eviction only takes dirty chunks away.\<close>

abbreviation shrinks :: "Slot \<Rightarrow> Shared \<Rightarrow> Shared \<Rightarrow> bool" where
  "shrinks w s s' \<equiv> set (dirty_of (inodes (table s')) w) \<subseteq> set (dirty_of (inodes (table s)) w)"

lemma flushed_frame:
  assumes "flushed s s'"
  shows "live (inodes (table s')) = live (inodes (table s))"
    and "inodes_find (inodes (table s')) = inodes_find (inodes (table s))"
    and "w \<in> live (inodes (table s)) \<Longrightarrow> steady w s s'"
proof -
  obtain dd where ins: "inodes (table s') = (inodes (table s))\<lparr>oi_dirty := dd\<rparr>"
    using assms by (auto simp: flushed_def)
  show "live (inodes (table s')) = live (inodes (table s))"
    "inodes_find (inodes (table s')) = inodes_find (inodes (table s))" unfolding ins by simp_all
  show "steady w s s'" if "w \<in> live (inodes (table s))"
    using assms that keeps_columns[of s' s] unfolding steady_def Let_def flushed_def ins by simp
qed

text \<open>One turn of the eviction loop: the arena is full, so some inode has dirty chunks; its flush
  either fails or leaves a free slot.\<close>

lemma card_Diff_less: "finite A \<Longrightarrow> D \<subseteq> A \<Longrightarrow> D \<noteq> {} \<Longrightarrow> card (A - D) < card A"
  by (intro psubset_card_mono) auto

lemma evict_once:
  assumes run: "running {} s" and w: "w \<in> live (inodes (table s))" and full: "alloc (arena (table s)) = Some (None, ar)"
  shows "\<exists>victim r s1. largest_dirty (inodes (table s)) = Some (Some victim) \<and>
    flush_slot s victim Persist = Some (r, s1) \<and> victim \<in> live (inodes (table s)) \<and> running {} s1 \<and> flushed s s1 \<and> shrinks w s s1 \<and>
    (case r of Inl e \<Rightarrow> faults (db s) \<noteq> []
     | Inr _ \<Rightarrow> card (in_use (arena (table s1))) < max_slots (arena (table s1)))"
proof -
  let ?ins = "inodes (table s)" and ?ar = "arena (table s)"
  have b: "buffers_ok {} (tabs (db s)) ?ins ?ar" using run by (simp add: running_def)
  have iok: "inodes_ok ?ins" and aok: "arena_ok ?ar" and own: "owners ?ins ?ar {}"
    using b by (auto simp: buffers_ok_def)
  have card: "card (in_use ?ar) = max_slots ?ar"
    using arena.claim_full[OF aok full] by simp
  then have "in_use ?ar \<noteq> {}" using aok by (auto simp: arena_ok_def)
  then obtain u where "u \<in> live ?ins" "dirty_of ?ins u \<noteq> []" using own by (auto simp: owners_def)
  then obtain victim where v: "largest_dirty ?ins = Some (Some victim)" "victim \<in> live ?ins" "dirty_of ?ins victim \<noteq> []"
    using largest_dirty_spec[OF iok] by (auto split: option.splits)
  note cut = buffers_live(2)[OF b v(2)]
  from flush_slot_spec[OF run v(2), of Persist] obtain r s1 where f:
    "flush_slot s victim Persist = Some (r, s1)" "running {} s1" "flushed s s1"
    "case r of Inl e \<Rightarrow> faults (db s) \<noteq> []
     | Inr _ \<Rightarrow> in_use (arena (table s1)) = in_use ?ar - snd ` set (dirty_of ?ins victim)"
    "\<forall>u. u \<noteq> victim \<longrightarrow> dirty_of (inodes (table s1)) u = dirty_of ?ins u"
    "case r of Inl e \<Rightarrow> table s1 = table s | Inr _ \<Rightarrow> dirty_of (inodes (table s1)) victim = []"
    by (elim exE conjE) (rule that, assumption+, use v(3) in \<open>simp split: sum.splits\<close>, assumption, use v(3) in \<open>simp split: sum.splits\<close>)
  have "shrinks w s s1"
    using f(5,6) by (cases "w = victim"; cases r) auto
  have "card (in_use (arena (table s1))) < max_slots (arena (table s1))" if "r = Inr x" for x
  proof -
    have "snd ` set (dirty_of ?ins victim) \<noteq> {}" using v(3) by simp
    from card_Diff_less[OF finite_in_use cut this] have "card (in_use (arena (table s1))) < card (in_use ?ar)"
      using f(4) that by simp
    then show ?thesis using card f(3) by (simp add: flushed_def)
  qed
  with f(1-4) v \<open>shrinks w s s1\<close> show ?thesis by (intro exI[of _ victim] exI[of _ r] exI[of _ s1]) (cases r; simp)
qed

lemma content_alloc:
  assumes b: "buffers_ok X T ins ar" and ok: "data_ok T" and mem: "\<forall>t \<in> in_use ar. slot_bytes ar' t = slot_bytes ar t"
  shows "content_in T ins ar' = content_in T ins ar"
    and "s \<in> live ins \<Longrightarrow> slot_ok T ar' (ino_of ins s) (kind_of ins s) (size_of ins s) (dirty_of ins s)"
proof -
  have iok: "inodes_ok ins" using b by (simp add: buffers_ok_def)
  show "slot_ok T ar' (ino_of ins s) (kind_of ins s) (size_of ins s) (dirty_of ins s)" if "s \<in> live ins" for s
    by (rule slot_cong(1)[OF ok buffers_live(1)[OF b that] refl refl]) (use mem buffers_live(2)[OF b that] in blast)
  show "content_in T ins ar' = content_in T ins ar"
  proof
    fix i
    show "content_in T ins ar' i = content_in T ins ar i"
    proof (cases "inodes_find ins i")
      case (Some u)
      note u = find_live[OF iok Some]
      show ?thesis
        using Some slot_cong(2)[OF ok buffers_live(1)[OF b u(1)], of T ar'] buffers_live(2)[OF b u(1)] mem u(2)
        by (auto simp: content_in_def)
    qed (simp add: content_in_def)
  qed
qed

text \<open>Allocation when a slot is free.\<close>

lemma alloc_free:
  assumes run: "running {} s" and w: "w \<in> live (inodes (table s))" and al: "alloc (arena (table s)) = Some (Some a, ar')"
  defines "s' \<equiv> s\<lparr>table := (table s)\<lparr>arena := ar'\<rparr>\<rparr>"
  shows "alloc_chunk s w = Some (Inr a, s')" and "running {a} s'" and "content s' = content s" and "steady w s s'"
    and "slot_bytes ar' a = []" and "inodes (table s') = inodes (table s)"
proof -
  have b: "buffers_ok {} (tabs (db s)) (inodes (table s)) (arena (table s))" and ok: "data_ok (tabs (db s))"
    using run by (auto simp: running_def)
  have aok: "arena_ok (arena (table s))" and own: "owners (inodes (table s)) (arena (table s)) {}"
    using b by (auto simp: buffers_ok_def)
  note c = arena.claim_slot[OF aok al]
  show "alloc_chunk s w = Some (Inr a, s')" by (subst alloc_chunk.simps) (simp add: al s'_def)
  let ?D = "\<Union>u \<in> live (inodes (table s)). snd ` set (dirty_of (inodes (table s)) u)"
  have "in_use (arena (table s)) = ?D" using own by (simp add: owners_def)
  then have "in_use ar' = {a} \<union> ?D" "\<forall>u \<in> live (inodes (table s)). a \<notin> snd ` set (dirty_of (inodes (table s)) u)"
    using c by blast+
  then have own': "owners (inodes (table s)) ar' {a}" using own by (simp add: owners_def)
  have mem: "\<forall>t \<in> in_use (arena (table s)). slot_bytes ar' t = slot_bytes (arena (table s)) t" using c by blast
  have "buffers_ok {a} (tabs (db s)) (inodes (table s)) ar'"
    using b own' c content_alloc(2)[OF b ok mem] by (simp add: buffers_ok_def)
  then show "running {a} s'" using run by (simp add: running_def s'_def)
  show "content s' = content s" using content_alloc(1)[OF b ok mem] by (simp add: content_def s'_def)
  show "steady w s s'" using w c keeps_columns[of s' s] by (simp add: steady_def s'_def)
  show "slot_bytes ar' a = []" using c by simp
  show "inodes (table s') = inodes (table s)" by (simp add: s'_def)
qed

text \<open>The loop ends: it returns a slot, or the error of the flush that failed.\<close>

lemma alloc_chunk_spec:
  assumes run: "running {} s" and w: "w \<in> live (inodes (table s))"
  shows "\<exists>r s'. alloc_chunk s w = Some (r, s') \<and> content s' = content s \<and> steady w s s' \<and> shrinks w s s' \<and>
    (case r of Inl e \<Rightarrow> running {} s' \<and> faults (db s) \<noteq> []
     | Inr a \<Rightarrow> running {a} s' \<and> slot_bytes (arena (table s')) a = [])"
proof -
  have aok: "arena_ok (arena (table s))" using run by (simp add: running_def buffers_ok_def)
  obtain x ar where al: "alloc (arena (table s)) = Some (x, ar)" using arena.claim_total[OF aok] by blast
  show ?thesis
  proof (cases x)
    case (Some a)
    then show ?thesis using alloc_free[OF run w, of a ar] al by auto
  next
    case None
    obtain victim r s1 where v: "largest_dirty (inodes (table s)) = Some (Some victim)"
      "flush_slot s victim Persist = Some (r, s1)" "victim \<in> live (inodes (table s))" "running {} s1" "flushed s s1"
      "shrinks w s s1" "case r of Inl e \<Rightarrow> faults (db s) \<noteq> []
       | Inr _ \<Rightarrow> card (in_use (arena (table s1))) < max_slots (arena (table s1))"
      using evict_once[OF run w al[unfolded None]] by blast
    note fr = flushed_frame[OF v(5)]
    have st1: "steady w s s1" and c1: "content s1 = content s" using fr(3)[OF w] v(5) by (auto simp: flushed_def)
    show ?thesis
    proof (cases r)
      case (Inl e)
      then have "alloc_chunk s w = Some (Inl e, s1)" by (subst alloc_chunk.simps) (simp add: al None v)
      then show ?thesis using v(4,6,7) Inl st1 c1 by simp
    next
      case (Inr u)
      have live1: "victim \<in> live (inodes (table s1))" using v(3) fr(1) by simp
      obtain t2 where t2: "(if victim \<noteq> w then free_if_idle (table s1) victim else Some (table s1)) = Some t2"
        "running {} (s1\<lparr>table := t2\<rparr>)" "content (s1\<lparr>table := t2\<rparr>) = content s1" "steady w s1 (s1\<lparr>table := t2\<rparr>)"
        "arena t2 = arena (table s1)" "dirty_of (inodes t2) w = dirty_of (inodes (table s1)) w"
      proof (cases "victim = w")
        case True
        then show thesis using that[of "table s1"] v(4) steady_refl[OF steady_live[OF st1]] by simp
      next
        case False
        obtain t2 where t2: "free_if_idle (table s1) victim = Some t2" "running {} (s1\<lparr>table := t2\<rparr>)"
          "content (s1\<lparr>table := t2\<rparr>) = content s1" "handles t2 = handles (table s1)" "arena t2 = arena (table s1)"
          "closing t2 = closing (table s1)"
          "live (inodes t2) = live (inodes (table s1)) - {victim} \<and> (\<forall>u \<in> live (inodes t2). entry (inodes t2) u = entry (inodes (table s1)) u) \<and>
             refs_of (inodes (table s1)) victim = 0 \<or> t2 = table s1"
          using free_if_idle_spec[OF v(4) live1] by (auto split: if_splits)
        then have "steady w s1 (s1\<lparr>table := t2\<rparr>)" "dirty_of (inodes t2) w = dirty_of (inodes (table s1)) w"
          using False steady_live[OF st1] keeps_freed[of "s1\<lparr>table := t2\<rparr>" s1 victim] by (auto simp: steady_def entry_columns)
        with t2 False show thesis using that by auto
      qed
      define s2 where "s2 = s1\<lparr>table := t2\<rparr>"
      have unfold: "alloc_chunk s w = alloc_chunk s2 w"
        using t2(1) by (subst alloc_chunk.simps) (auto simp: al None v(1,2) Inr s2_def split: if_splits)
      have "arena_ok (arena (table s2))" using t2(2) by (simp add: s2_def running_def buffers_ok_def)
      moreover have "card (in_use (arena (table s2))) < max_slots (arena (table s2))"
        using v(7) Inr t2(5) by (simp add: s2_def)
      ultimately obtain a ar2 where al2: "alloc (arena (table s2)) = Some (Some a, ar2)"
        using arena.claim_succeeds by blast
      have run2: "running {} s2" "content s2 = content s" "steady w s s2" "shrinks w s s2"
        using t2(2-4,6) v(6) c1 steady_trans[OF st1] by (simp_all add: s2_def)
      from alloc_free[OF run2(1) steady_live[OF run2(3)] al2] show ?thesis
        using run2 unfold steady_trans[OF run2(3)] by (auto simp: s2_def)
    qed
  qed
qed

text \<open>C10. The eviction loop of a write ends: whatever is buffered, it returns, with an empty arena
  slot unless a flush failed. What any reader sees of any file is the same before and after, so
  evicting is invisible.\<close>

theorem eviction_makes_room:
  assumes "shared_ok s" and "w \<in> live (inodes (table s))"
  shows "\<exists>r s'. alloc_chunk s w = Some (r, s') \<and> content s' = content s \<and>
    (case r of Inl e \<Rightarrow> faults (db s) \<noteq> [] \<and> shared_ok s'
     | Inr a \<Rightarrow> a \<in> in_use (arena (table s')) \<and> chunk (arena (table s')) a = Some [])"
proof -
  obtain r s' where r: "alloc_chunk s w = Some (r, s')" "content s' = content s"
    "case r of Inl e \<Rightarrow> shared_ok s' \<and> faults (db s) \<noteq> []
     | Inr a \<Rightarrow> running {a} s' \<and> slot_bytes (arena (table s')) a = []" using alloc_chunk_spec[OF assms] by blast
  have "a \<in> in_use (arena (table s')) \<and> chunk (arena (table s')) a = Some []" if "r = Inr a" for a
  proof -
    have h: "running {a} s'" "slot_bytes (arena (table s')) a = []" using r(3) that by simp_all
    then have "a \<in> in_use (arena (table s'))" "arena_ok (arena (table s'))"
      by (auto simp: running_def buffers_ok_def owners_def)
    with in_use_chunk(1)[of "arena (table s')" a] h(2) show ?thesis by simp
  qed
  with r show ?thesis by (cases r) auto
qed

end
