(* ===== verification/Write_Loop.thy ===== *)
theory Write_Loop
  imports Write_Path
begin

text \<open>
  The chunk loop of a write: placing one piece in its dirty chunk, the loop over the chunks of a
  span, and the operations that use it. A write that completes is a positional write of the
  contents; one that fails has written a prefix of its data.
\<close>

section \<open>Placing one piece\<close>

lemma slot_chunk:
  "slot_ok T ar ino RegularFile sz dirty \<Longrightarrow> map_of dirty k = Some a \<Longrightarrow> chunk_ok T ar ino sz k a"
  using map_of_SomeD[of dirty k a] unfolding slot_ok_def by auto

definition with_chunk :: "OpenInodes \<Rightarrow> Slot \<Rightarrow> DirtyIdx \<Rightarrow> u64 \<Rightarrow> OpenInodes" where
  "with_chunk ins s dirty z = ins\<lparr>oi_dirty := (oi_dirty ins)[unat s := dirty], oi_size := (oi_size ins)[unat s := z]\<rparr>"

lemma with_chunk_simps [simp]:
  "live (with_chunk ins s d z) = live ins" "inodes_find (with_chunk ins s d z) = inodes_find ins"
  "oi_ino (with_chunk ins s d z) = oi_ino ins" "oi_kind (with_chunk ins s d z) = oi_kind ins"
  "oi_mtime (with_chunk ins s d z) = oi_mtime ins" "oi_refs (with_chunk ins s d z) = oi_refs ins"
  "oi_unlinked (with_chunk ins s d z) = oi_unlinked ins"
  by (simp_all add: with_chunk_def live_def inodes_find_def fun_eq_iff)

lemma with_chunk_columns:
  assumes "inodes_ok ins" "s \<in> live ins"
  shows "dirty_of (with_chunk ins s d z) u = (if u = s then d else dirty_of ins u)"
    and "size_of (with_chunk ins s d z) u = (if u = s then z else size_of ins u)"
  using column_update[OF live_columns(7)[OF assms]] column_update[OF live_columns(3)[OF assms]]
  by (simp_all add: with_chunk_def)

lemma with_chunk_ok:
  assumes "inodes_ok ins" "s \<in> live ins"
  shows "inodes_ok (with_chunk ins s d z)"
proof -
  have "inodes_ok ((ins\<lparr>oi_dirty := (oi_dirty ins)[unat s := d]\<rparr>)\<lparr>oi_size := (oi_size ins)[unat s := z]\<rparr>)"
    by (rule inodes_ok_update(1)[OF inodes_ok_dirty[OF assms]]) simp
  then show ?thesis by (simp add: with_chunk_def)
qed

lemma owners_put:
  assumes ins: "inodes_ok ins" "s \<in> live ins" and own: "owners ins ar X" and use: "in_use ar' = in_use ar"
    and d: "set d = insert (k, a) (set (dirty_of ins s))" "distinct (map snd d)"
    and X: "X = {} \<and> a \<in> snd ` set (dirty_of ins s) \<or> X = {a}"
  shows "owners (with_chunk ins s d z) ar' {}"
proof -
  define D where "D = (\<lambda>u. snd ` set (dirty_of ins u))"
  have D': "snd ` set (dirty_of (with_chunk ins s d z) u) = (if u = s then insert a (D s) else D u)" for u
    by (simp add: with_chunk_columns(1)[OF ins] d D_def)
  have o: "in_use ar = X \<union> (\<Union>u \<in> live ins. D u)"
    "\<And>u. u \<in> live ins \<Longrightarrow> distinct (map snd (dirty_of ins u))" "\<And>u. u \<in> live ins \<Longrightarrow> D u \<inter> X = {}"
    "\<And>u v. u \<in> live ins \<Longrightarrow> v \<in> live ins \<Longrightarrow> u \<noteq> v \<Longrightarrow> D u \<inter> D v = {}"
    using own unfolding owners_def D_def by blast+
  have X': "X = {} \<and> a \<in> D s \<or> X = {a}" using X by (simp add: D_def)
  have un: "(\<Union>u \<in> live ins. if u = s then insert a (D s) else D u) = insert a (\<Union>u \<in> live ins. D u)"
    using ins(2) by (auto split: if_splits)
  have apart: "a \<notin> D u" if "u \<in> live ins" "u \<noteq> s" for u
    using X' o(3)[OF that(1)] o(4)[OF ins(2) that(1)] that(2) by auto
  have "in_use ar' = (\<Union>u \<in> live ins. if u = s then insert a (D s) else D u)"
    unfolding un using use o(1) X' ins(2) by auto
  moreover have "distinct (map snd (dirty_of (with_chunk ins s d z) u))" if "u \<in> live ins" for u
    using o(2)[OF that] d(2) by (simp add: with_chunk_columns(1)[OF ins])
  moreover have "(if u = s then insert a (D s) else D u) \<inter> (if v = s then insert a (D s) else D v) = {}"
    if "u \<in> live ins" "v \<in> live ins" "u \<noteq> v" for u v
    using o(4)[OF that] apart that by (auto split: if_splits)
  ultimately show ?thesis unfolding owners_def D' by simp
qed

text \<open>Past the end of the file a reader sees zeros, so a write there leaves a hole of zeros.\<close>

lemma view_past_end:
  assumes ok: "data_ok T" and slot: "slot_ok T ar ino RegularFile sz dirty" and p: "unat sz \<le> p" "p < max_size"
  shows "view_byte T ar ino dirty p = 0"
proof (cases "map_of dirty (of_nat (p div CHUNK_SIZE))")
  case None
  obtain r where "inode_row_of T ino = Some r" "row_size r \<le> unat sz" using slot by (auto simp: slot_ok_def)
  then have "stored_byte T ino p = 0" using p by (intro stored_byte_past_end[OF ok]) auto
  with None show ?thesis by (simp add: view_byte_def)
next
  case (Some a)
  note slot_chunk[OF slot Some]
  then have "p div CHUNK_SIZE * CHUNK_SIZE + length (slot_bytes ar a) \<le> p"
    using unat_index[OF div_lt_chunks[OF p(2)]] p(1) by (simp add: chunk_ok_def)
  then have "\<not> p mod CHUNK_SIZE < length (slot_bytes ar a)" using div_mult_mod_eq[of p CHUNK_SIZE] by linarith
  then show ?thesis unfolding view_byte_def Some option.case byte_at_def by (rule if_not_P)
qed

text \<open>The bytes of chunk \<open>k\<close> as a reader sees them.\<close>

definition chunk_view :: "tables \<Rightarrow> ChunkArena \<Rightarrow> u64 \<Rightarrow> DirtyIdx \<Rightarrow> u64 \<Rightarrow> bytes" where
  "chunk_view T ar ino dirty k = (case map_of dirty k of Some a \<Rightarrow> slot_bytes ar a | None \<Rightarrow> chunk_row T ino (unat k))"

lemma chunk_view_bounds:
  assumes ok: "data_ok T" and slot: "slot_ok T ar ino RegularFile sz dirty" and k: "unat k < 2 ^ 24"
    and ne: "chunk_view T ar ino dirty k \<noteq> []"
  shows "unat k * CHUNK_SIZE + length (chunk_view T ar ino dirty k) \<le> unat sz"
proof (cases "map_of dirty k")
  case None
  obtain r where r: "inode_row_of T ino = Some r" "row_size r \<le> unat sz" using slot by (auto simp: slot_ok_def)
  have cv: "chunk_view T ar ino dirty k = chunk_row T ino (unat k)" by (simp add: chunk_view_def None)
  with ne obtain d where d: "map_of (t_chunks T) (chunk_key ino (of_nat (unat k))) = Some d"
    unfolding chunk_row_def by (cases "map_of (t_chunks T) (chunk_key ino (of_nat (unat k)))") simp_all
  obtain r' where "inode_row_of T ino = Some r'" "unat k * CHUNK_SIZE + length d \<le> row_size r'"
    using data_ok_chunk[OF ok d valid_ino_of_row[OF ok r(1)] k] by blast
  moreover have "chunk_row T ino (unat k) = d" unfolding chunk_row_def d by simp
  ultimately show ?thesis using r cv by simp
next
  case (Some a)
  with slot_chunk[OF slot Some] show ?thesis by (simp add: chunk_view_def chunk_ok_def)
qed

lemma view_byte_chunk:
  assumes "p div CHUNK_SIZE = unat k"
  shows "view_byte T ar ino dirty p = byte_at (chunk_view T ar ino dirty k) (p mod CHUNK_SIZE)"
proof -
  have "(of_nat (p div CHUNK_SIZE) :: u64) = k" by (simp add: assms)
  then show ?thesis unfolding view_byte_def chunk_view_def stored_byte_def by (simp add: assms split: option.splits)
qed

text \<open>\<open>placed\<close>: the dirty index and the arena after a piece \<open>p\<close> was written at position \<open>cs\<close> of
  chunk \<open>k\<close>, held by the arena slot \<open>a\<close>.\<close>

definition placed :: "tables \<Rightarrow> OpenInodes \<Rightarrow> ChunkArena \<Rightarrow> Slot \<Rightarrow> u64 \<Rightarrow> ArenaSlot \<Rightarrow> nat \<Rightarrow> bytes \<Rightarrow> DirtyIdx \<Rightarrow> ChunkArena \<Rightarrow> bool" where
  "placed T ins ar s k a cs p d ar' \<longleftrightarrow>
     dirty_ok d \<and> map_of d = (map_of (dirty_of ins s))(k \<mapsto> a) \<and> set d = insert (k, a) (set (dirty_of ins s)) \<and>
     distinct (map snd d) \<and> arena_ok ar' \<and> in_use ar' = in_use ar \<and>
     slot_bytes ar' a = write_at (chunk_view T ar (ino_of ins s) (dirty_of ins s) k) cs p \<and>
     (\<forall>t \<in> in_use ar. t \<noteq> a \<longrightarrow> slot_bytes ar' t = slot_bytes ar t)"

lemma placed_slot:
  assumes pl: "placed T ins ar s k a cs p d ar'" and ok: "data_ok T"
    and slot: "slot_ok T ar (ino_of ins s) RegularFile (size_of ins s) (dirty_of ins s)" and use: "snd ` set d \<subseteq> in_use ar"
    and k: "unat k < 2 ^ 24" and p: "p \<noteq> []" "cs + length p \<le> CHUNK_SIZE"
    and z: "unat z = max (unat (size_of ins s)) (unat k * CHUNK_SIZE + (cs + length p))"
  shows "slot_ok T ar' (ino_of ins s) RegularFile z d"
proof -
  let ?i = "ino_of ins s" and ?z = "size_of ins s" and ?d = "dirty_of ins s"
  have d: "dirty_ok d" "set d = insert (k, a) (set ?d)" "distinct (map snd d)"
    "slot_bytes ar' a = write_at (chunk_view T ar ?i ?d k) cs p"
    "\<And>t. t \<in> in_use ar \<Longrightarrow> t \<noteq> a \<Longrightarrow> slot_bytes ar' t = slot_bytes ar t"
    using pl by (auto simp: placed_def)
  obtain r where r: "inode_row_of T ?i = Some r" "r_kind r = kind_as_i64 RegularFile" "row_size r \<le> unat ?z"
    using slot by (auto simp: slot_ok_def)
  have old: "chunk_ok T ar ?i ?z k' a'" if "(k', a') \<in> set ?d" for k' a'
    using slot that by (auto simp: slot_ok_def)
  have zm: "unat ?z \<le> max_size" using slot by (simp add: slot_ok_def)
  have top: "unat k * CHUNK_SIZE + (cs + length p) \<le> max_size"
  proof -
    have "(unat k + 1) * CHUNK_SIZE \<le> 2 ^ 24 * CHUNK_SIZE" using k by (intro mult_le_mono1) simp
    then have "unat k * CHUNK_SIZE + CHUNK_SIZE \<le> max_size" unfolding max_size_def by (simp only: add_mult_distrib mult_1)
    with p(2) show ?thesis by linarith
  qed
  have mine: "chunk_ok T ar' ?i z k a"
  proof -
    let ?v = "chunk_view T ar ?i ?d k"
    have "unat k * CHUNK_SIZE + length ?v \<le> unat z \<or> ?v = []"
      using chunk_view_bounds[OF ok slot k] z by (cases "?v = []") auto
    moreover have "length (chunk_row T ?i (unat k)) \<le> length ?v"
    proof (cases "map_of ?d k")
      case (Some a')
      from slot_chunk[OF slot Some] Some show ?thesis by (simp add: chunk_view_def chunk_ok_def)
    qed (simp add: chunk_view_def)
    ultimately show ?thesis using k z d(4) by (auto simp: chunk_ok_def max_def)
  qed
  have "chunk_ok T ar' ?i z k' a'" if m: "(k', a') \<in> set d" for k' a'
  proof (cases "(k', a') = (k, a)")
    case False
    have "inj_on snd (set d)" using d(3) by (simp add: distinct_map)
    from inj_onD[OF this, of "(k', a')" "(k, a)"] have "a' \<noteq> a" using False m d(2) by auto
    moreover have "a' \<in> in_use ar" using use m by force
    ultimately have "slot_bytes ar' a' = slot_bytes ar a'" by (intro d(5))
    moreover have "(k', a') \<in> set ?d" using m False d(2) by auto
    ultimately show ?thesis using old[of k' a'] z by (auto simp: chunk_ok_def)
  qed (use mine in simp)
  moreover have "d \<noteq> []" using d(2) by auto
  ultimately show ?thesis using d(1) r zm top z by (auto simp: slot_ok_def)
qed

lemma placed_content:
  assumes pl: "placed T ins ar s k a cs p d ar'" and ok: "data_ok T"
    and slot: "slot_ok T ar (ino_of ins s) RegularFile (size_of ins s) (dirty_of ins s)" and use: "snd ` set d \<subseteq> in_use ar"
    and k: "unat k < 2 ^ 24" and p: "p \<noteq> []" "cs + length p \<le> CHUNK_SIZE"
    and z: "unat z = max (unat (size_of ins s)) (unat k * CHUNK_SIZE + (cs + length p))"
  shows "slot_content T ar' (ino_of ins s) z d =
    write_at (slot_content T ar (ino_of ins s) (size_of ins s) (dirty_of ins s)) (unat k * CHUNK_SIZE + cs) p"
proof (rule nth_equalityI)
  let ?i = "ino_of ins s" and ?z = "size_of ins s" and ?d = "dirty_of ins s"
  let ?c = "slot_content T ar ?i ?z ?d" and ?q = "unat k * CHUNK_SIZE + cs"
  have d: "map_of d = (map_of ?d)(k \<mapsto> a)" "set d = insert (k, a) (set ?d)" "distinct (map snd d)"
    "slot_bytes ar' a = write_at (chunk_view T ar ?i ?d k) cs p"
    "\<And>t. t \<in> in_use ar \<Longrightarrow> t \<noteq> a \<Longrightarrow> slot_bytes ar' t = slot_bytes ar t"
    using pl by (auto simp: placed_def)
  show len: "length (slot_content T ar' ?i z d) = length (write_at ?c ?q p)" using z by (simp add: add.assoc)
  fix j assume "j < length (slot_content T ar' ?i z d)"
  then have j: "j < unat z" by simp
  have "slot_ok T ar' ?i RegularFile z d" by (rule placed_slot[OF assms])
  then have jm: "j < max_size" using j by (simp add: slot_ok_def)
  have c: "byte_at ?c j = view_byte T ar ?i ?d j"
    using view_past_end[OF ok slot _ jm] by (simp add: byte_at_def slot_content_def)
  have "view_byte T ar' ?i d j = byte_at (write_at ?c ?q p) j"
  proof (cases "j div CHUNK_SIZE = unat k")
    case True
    have "map_of d k = Some a" using d(1) by simp
    then have cv: "chunk_view T ar' ?i d k = write_at (chunk_view T ar ?i ?d k) cs p" using d(4) by (simp add: chunk_view_def)
    have jj: "j = unat k * CHUNK_SIZE + j mod CHUNK_SIZE" using div_mult_mod_eq[of j CHUNK_SIZE] True by simp
    have e: "cs \<le> j mod CHUNK_SIZE \<and> j mod CHUNK_SIZE < cs + length p \<longleftrightarrow> ?q \<le> j \<and> j < ?q + length p"
      "j mod CHUNK_SIZE - cs = j - ?q" using jj by linarith+
    show ?thesis unfolding view_byte_chunk[OF True] cv byte_at_write_at c e ..
  next
    case False
    have out: "\<not> (?q \<le> j \<and> j < ?q + length p)"
    proof
      assume "?q \<le> j \<and> j < ?q + length p"
      then have "unat k * CHUNK_SIZE \<le> j" "j < unat k * CHUNK_SIZE + CHUNK_SIZE" using p(2) by linarith+
      then have "j div CHUNK_SIZE = unat k" by (intro div_nat_eqI) (simp_all add: mult.commute)
      with False show False ..
    qed
    have ne: "of_nat (j div CHUNK_SIZE) \<noteq> k" using False unat_index[OF div_lt_chunks[OF jm]] by auto
    then have m: "map_of d (of_nat (j div CHUNK_SIZE)) = map_of ?d (of_nat (j div CHUNK_SIZE))" using d(1) by simp
    have "slot_bytes ar' b = slot_bytes ar b" if b: "map_of ?d (of_nat (j div CHUNK_SIZE)) = Some b" for b
    proof (rule d(5))
      have m1: "(of_nat (j div CHUNK_SIZE), b) \<in> set d" using map_of_SomeD[OF b] d(2) by simp
      then show "b \<in> in_use ar" using use by force
      have "inj_on snd (set d)" using d(3) by (simp add: distinct_map)
      from inj_onD[OF this, of "(of_nat (j div CHUNK_SIZE), b)" "(k, a)"] show "b \<noteq> a" using ne m1 d(2) by auto
    qed
    then have "view_byte T ar' ?i d j = view_byte T ar ?i ?d j" unfolding view_byte_def m by (simp split: option.split)
    then show ?thesis unfolding byte_at_write_at c if_not_P[OF out] .
  qed
  moreover have "j < length (write_at ?c ?q p)" using j len by simp
  ultimately show "slot_content T ar' ?i z d ! j = write_at ?c ?q p ! j" using j by (simp add: slot_content_def)
qed

text \<open>The state after a piece was placed keeps the invariant, and the contents are the positional
  write of the piece.\<close>

lemma put_chunk:
  assumes b: "buffers_ok X T ins ar" and ok: "data_ok T" and live: "s \<in> live ins" and reg: "kind_of ins s = RegularFile"
    and pl: "placed T ins ar s k a cs p d ar'"
    and X: "X = {} \<and> a \<in> snd ` set (dirty_of ins s) \<or> X = {a}"
    and k: "unat k < 2 ^ 24" and p: "p \<noteq> []" "cs + length p \<le> CHUNK_SIZE"
    and z: "unat z = max (unat (size_of ins s)) (unat k * CHUNK_SIZE + (cs + length p))"
    and c: "content_in T ins ar (ino_of ins s) = Some c"
  shows "buffers_ok {} T (with_chunk ins s d z) ar'"
    and "content_in T (with_chunk ins s d z) ar' =
      (content_in T ins ar)(ino_of ins s \<mapsto> write_at c (unat k * CHUNK_SIZE + cs) p)"
proof -
  let ?ins = "with_chunk ins s d z"
  have iok: "inodes_ok ins" and own: "owners ins ar X" using b by (auto simp: buffers_ok_def)
  note cols = with_chunk_columns[OF iok live]
  have slot: "slot_ok T ar (ino_of ins s) RegularFile (size_of ins s) (dirty_of ins s)"
    using buffers_live(1)[OF b live] reg by simp
  have d: "set d = insert (k, a) (set (dirty_of ins s))" "distinct (map snd d)" "in_use ar' = in_use ar" "arena_ok ar'"
    using pl by (auto simp: placed_def)
  have "X \<subseteq> in_use ar" using own by (auto simp: owners_def)
  then have a: "a \<in> in_use ar" using X buffers_live(2)[OF b live] by auto
  have use: "snd ` set d \<subseteq> in_use ar" using d(1) a buffers_live(2)[OF b live] by auto
  have own': "owners ?ins ar' {}" by (rule owners_put[OF iok live own d(3,1,2) X])
  have same: "slot_bytes ar' t = slot_bytes ar t" if "u \<in> live ins" "u \<noteq> s" "t \<in> snd ` set (dirty_of ins u)" for u t
  proof -
    have "snd ` set (dirty_of ?ins s) \<inter> snd ` set (dirty_of ?ins u) = {}"
      using own' that(1,2) live unfolding owners_def by simp
    then have "t \<notin> snd ` set d" using that(2,3) by (auto simp: cols)
    then have "t \<noteq> a" using d(1) by auto
    moreover have "t \<in> in_use ar" using buffers_live(2)[OF b that(1)] that(3) by blast
    ultimately show ?thesis using pl by (simp add: placed_def)
  qed
  have mine: "slot_ok T ar' (ino_of ins s) RegularFile z d" by (rule placed_slot[OF pl ok slot use k p z])
  have other: "slot_ok T ar' (ino_of ins u) (kind_of ins u) (size_of ins u) (dirty_of ins u)"
    "kind_of ins u = RegularFile \<Longrightarrow> slot_content T ar' (ino_of ins u) (size_of ins u) (dirty_of ins u) =
       slot_content T ar (ino_of ins u) (size_of ins u) (dirty_of ins u)" if u: "u \<in> live ins" "u \<noteq> s" for u
    by (rule slot_cong[OF ok buffers_live(1)[OF b u(1)] refl refl same[OF u]]; assumption)+
  have "slot_ok T ar' (ino_of ?ins u) (kind_of ?ins u) (size_of ?ins u) (dirty_of ?ins u)" if "u \<in> live ins" for u
    using mine other(1)[OF that] reg by (simp add: cols)
  then show "buffers_ok {} T ?ins ar'"
    using own' d(4) with_chunk_ok[OF iok live] by (simp add: buffers_ok_def)
  show "content_in T ?ins ar' = (content_in T ins ar)(ino_of ins s \<mapsto> write_at c (unat k * CHUNK_SIZE + cs) p)"
  proof
    fix i
    show "content_in T ?ins ar' i = ((content_in T ins ar)(ino_of ins s \<mapsto> write_at c (unat k * CHUNK_SIZE + cs) p)) i"
    proof (cases "inodes_find ins i")
      case None
      then have "i \<noteq> ino_of ins s" using live_find[OF iok live] by auto
      with None show ?thesis by (simp add: content_in_def)
    next
      case (Some u)
      note u = find_live[OF iok Some]
      show ?thesis
      proof (cases "u = s")
        case True
        then have "c = slot_content T ar (ino_of ins s) (size_of ins s) (dirty_of ins s)"
          using c Some u(2) reg by (simp add: content_in_def)
        with True Some u(2) reg placed_content[OF pl ok slot use k p z] show ?thesis by (simp add: content_in_def cols)
      next
        case False
        then have "i \<noteq> ino_of ins s" using live_inos_differ[OF iok u(1) live] u(2) by simp
        with False Some u other(2)[OF u(1) False] show ?thesis by (simp add: content_in_def cols)
      qed
    qed
  qed
qed

end
