(* ===== verification/Write_Step.thy ===== *)
theory Write_Step
  imports Write_Loop
begin

text \<open>
  One turn of the chunk loop, and the loop: which buffer a chunk gets, with its stored bytes loaded
  unless the write covers it, and the positional write the completed loop amounts to.
\<close>

section \<open>The buffer of a chunk\<close>

lemma load_chunk:
  assumes aok: "arena_ok ar" and a: "a \<in> in_use ar" and ok: "data_ok (tabs d)" and ino: "valid_ino ino" and k: "unat k < 2 ^ 24"
  shows "\<exists>buf r d'. buffer_mut ar a = Some buf \<and> read_chunk_into d ino k buf = Some (r, d') \<and> tabs d' = tabs d \<and>
    new_rowid d' = new_rowid d \<and> (faults d = [] \<longrightarrow> faults d' = []) \<and>
    (case r of Inl e \<Rightarrow> faults d \<noteq> []
     | Inr (len, buf') \<Rightarrow> \<exists>ar1 ar2. buffer_put ar a buf' = Some ar1 \<and> set_len ar1 a len = Some ar2 \<and> arena_ok ar2 \<and>
         in_use ar2 = in_use ar \<and> slot_bytes ar2 a = chunk_row (tabs d) ino (unat k) \<and>
         (\<forall>t \<in> in_use ar. t \<noteq> a \<longrightarrow> slot_bytes ar2 t = slot_bytes ar t) \<and> max_slots ar2 = max_slots ar)"
proof -
  let ?row = "chunk_row (tabs d) ino (unat k)"
  have len: "length ?row \<le> CHUNK_SIZE" by (rule chunk_row_len[OF ok ino k])
  obtain buf ar1 ar2 where l: "buffer_mut ar a = Some buf" "length buf = CHUNK_SIZE"
    "buffer_put ar a (blit buf 0 ?row) = Some ar1" "set_len ar1 a (length ?row) = Some ar2" "arena_ok ar2"
    "in_use ar2 = in_use ar" "slot_bytes ar2 a = ?row" "max_slots ar2 = max_slots ar"
    "\<forall>t. t \<noteq> a \<longrightarrow> unat t < length (ar_len ar) \<longrightarrow> slot_bytes ar2 t = slot_bytes ar t"
    using arena_load_spec[OF aok in_use_bound[OF a] len] by blast
  have mem: "\<forall>t \<in> in_use ar. t \<noteq> a \<longrightarrow> slot_bytes ar2 t = slot_bytes ar t" using l(9) in_use_bound by blast
  obtain f d1 where f: "pop_fault d = (f, d1)" "tabs d1 = tabs d" "new_rowid d1 = new_rowid d"
    "faults d = [] \<longrightarrow> faults d1 = []" "f \<noteq> None \<longrightarrow> faults d \<noteq> []"
    by (cases "faults d") (auto simp: pop_fault_def split: option.splits)
  show ?thesis
  proof (cases f)
    case (Some e)
    then have "read_chunk_into d ino k buf = Some (Inl (from_sql_error e), d1)"
      by (simp add: read_chunk_into_def query_def f)
    with l(1) f Some show ?thesis by (intro exI[of _ buf] exI[of _ "Inl (from_sql_error e)"] exI[of _ d1]) simp
  next
    case None
    have "read_chunk_into d ino k buf = Some (Inr (length ?row, blit buf 0 ?row), d1)"
      using len l(2) by (auto simp: read_chunk_into_def query_def f None chunk_row_def vec_simps split: option.splits)
    with l f mem show ?thesis
      by (intro exI[of _ buf] exI[of _ "Inr (length ?row, blit buf 0 ?row)"] exI[of _ d1]) simp
  qed
qed

text \<open>Changing only the bytes of a held slot, or giving it back, changes no contents.\<close>

lemma held_frame:
  assumes b: "buffers_ok {a} T ins ar" and ok: "data_ok T" and mem: "\<forall>t \<in> in_use ar. t \<noteq> a \<longrightarrow> slot_bytes ar' t = slot_bytes ar t"
  shows "content_in T ins ar' = content_in T ins ar"
    and "s \<in> live ins \<Longrightarrow> slot_ok T ar' (ino_of ins s) (kind_of ins s) (size_of ins s) (dirty_of ins s)"
proof -
  have iok: "inodes_ok ins" and own: "owners ins ar {a}" using b by (auto simp: buffers_ok_def)
  have same: "slot_bytes ar' t = slot_bytes ar t" if "u \<in> live ins" "t \<in> snd ` set (dirty_of ins u)" for u t
  proof -
    have "snd ` set (dirty_of ins u) \<inter> {a} = {}" using own that(1) unfolding owners_def by blast
    then have "t \<noteq> a" using that(2) by auto
    moreover have "t \<in> in_use ar" using buffers_live(2)[OF b that(1)] that(2) by blast
    ultimately show ?thesis using mem by blast
  qed
  show "slot_ok T ar' (ino_of ins s) (kind_of ins s) (size_of ins s) (dirty_of ins s)" if "s \<in> live ins" for s
    by (rule slot_cong(1)[OF ok buffers_live(1)[OF b that] refl refl same[OF that]])
  show "content_in T ins ar' = content_in T ins ar"
  proof
    fix i
    show "content_in T ins ar' i = content_in T ins ar i"
    proof (cases "inodes_find ins i")
      case (Some u)
      note u = find_live[OF iok Some]
      have "slot_content T ar' i (size_of ins u) (dirty_of ins u) = slot_content T ar i (size_of ins u) (dirty_of ins u)"
        if "kind_of ins u = RegularFile"
        using slot_cong(2)[OF ok buffers_live(1)[OF b u(1)] refl refl same[OF u(1)] that] u(2) by simp
      with Some show ?thesis by (simp add: content_in_def)
    qed (simp add: content_in_def)
  qed
qed

lemma release_held:
  assumes b: "buffers_ok {a} T ins ar" and ok: "data_ok T"
  shows "buffers_ok {} T ins (release ar a)" and "content_in T ins (release ar a) = content_in T ins ar"
    and "max_slots (release ar a) = max_slots ar"
proof -
  have aok: "arena_ok ar" and own: "owners ins ar {a}" using b by (auto simp: buffers_ok_def)
  have a: "a \<in> in_use ar" using own by (auto simp: owners_def)
  note g = arena.give_ok[OF aok a]
  have same: "\<forall>t \<in> in_use ar. t \<noteq> a \<longrightarrow> slot_bytes (release ar a) t = slot_bytes ar t" using g by simp
  have un: "a \<notin> (\<Union>u \<in> live ins. snd ` set (dirty_of ins u))" "in_use ar = {a} \<union> (\<Union>u \<in> live ins. snd ` set (dirty_of ins u))"
    using own unfolding owners_def by blast+
  have "in_use (release ar a) = in_use ar - {a}" using g by simp
  then have "in_use (release ar a) = (\<Union>u \<in> live ins. snd ` set (dirty_of ins u))" using un by blast
  then have "owners ins (release ar a) {}" using own by (simp add: owners_def)
  then show "buffers_ok {} T ins (release ar a)" using b g held_frame(2)[OF b ok same] by (simp add: buffers_ok_def)
  show "content_in T ins (release ar a) = content_in T ins ar" by (rule held_frame(1)[OF b ok same])
  show "max_slots (release ar a) = max_slots ar" using g by simp
qed

text \<open>\<open>ready\<close>: chunk \<open>k\<close> has the buffer \<open>a\<close>, and a write of the bytes \<open>cs ..< ce\<close> into it leaves what the
  write of the chunk's contents would.\<close>

definition ready :: "Shared \<Rightarrow> ArenaSlot set \<Rightarrow> Slot \<Rightarrow> u64 \<Rightarrow> ArenaSlot \<Rightarrow> nat \<Rightarrow> nat \<Rightarrow> DirtyIdx \<Rightarrow> Shared \<Rightarrow> bool" where
  "ready s X w k a cs ce d s' \<longleftrightarrow>
     (let ins = inodes (table s); ar = arena (table s); ar' = arena (table s') in
      running X s \<and> (X = {} \<and> a \<in> snd ` set (dirty_of ins w) \<or> X = {a}) \<and>
      inodes (table s') = ins\<lparr>oi_dirty := (oi_dirty ins)[unat w := d]\<rparr> \<and>
      handles (table s') = handles (table s) \<and> closing (table s') = closing (table s) \<and>
      tabs (db s') = tabs (db s) \<and> new_rowid (db s') = new_rowid (db s) \<and> (faults (db s) = [] \<longrightarrow> faults (db s') = []) \<and>
      dirty_ok d \<and> map_of d = (map_of (dirty_of ins w))(k \<mapsto> a) \<and> set d = insert (k, a) (set (dirty_of ins w)) \<and>
      distinct (map snd d) \<and> arena_ok ar' \<and> in_use ar' = in_use ar \<and> max_slots ar' = max_slots ar \<and>
      (\<forall>t \<in> in_use ar. t \<noteq> a \<longrightarrow> slot_bytes ar' t = slot_bytes ar t) \<and>
      (\<forall>p. length p = ce - cs \<longrightarrow>
         write_at (slot_bytes ar' a) cs p = write_at (chunk_view (tabs (db s)) ar (ino_of ins w) (dirty_of ins w) k) cs p))"

lemma ready_hit:
  assumes run: "running {} s" and w: "w \<in> live (inodes (table s))" and hit: "map_of (dirty_of (inodes (table s)) w) k = Some a"
  shows "ready s {} w k a cs ce (dirty_of (inodes (table s)) w) s"
proof -
  have b: "buffers_ok {} (tabs (db s)) (inodes (table s)) (arena (table s))" using run by (simp add: running_def)
  then have iok: "inodes_ok (inodes (table s))" and aok: "arena_ok (arena (table s))" by (simp_all add: buffers_ok_def)
  have m: "(k, a) \<in> set (dirty_of (inodes (table s)) w)" using hit by (rule map_of_SomeD)
  have "dirty_ok (dirty_of (inodes (table s)) w)" using buffers_live(1)[OF b w] by (simp add: slot_ok_def)
  then show ?thesis
    using run m aok buffers_live(3)[OF b w] hit
    by (auto simp: ready_def Let_def chunk_view_def fun_upd_idem insert_absorb image_iff intro: bexI[of _ "(k, a)"])
qed

lemma ready_miss:
  assumes run: "running {a} s" and w: "w \<in> live (inodes (table s))" and miss: "map_of (dirty_of (inodes (table s)) w) k = None"
    and d: "dirty_ok d" "map_of d = (map_of (dirty_of (inodes (table s)) w))(k \<mapsto> a)"
      "set d = insert (k, a) (set (dirty_of (inodes (table s)) w))"
    and db: "tabs db' = tabs (db s)" "new_rowid db' = new_rowid (db s)" "faults (db s) = [] \<longrightarrow> faults db' = []"
    and ar: "arena_ok ar" "in_use ar = in_use (arena (table s))" "max_slots ar = max_slots (arena (table s))"
      "\<forall>t \<in> in_use (arena (table s)). t \<noteq> a \<longrightarrow> slot_bytes ar t = slot_bytes (arena (table s)) t"
      "\<forall>p. length p = ce - cs \<longrightarrow> write_at (slot_bytes ar a) cs p =
         write_at (chunk_row (tabs (db s)) (ino_of (inodes (table s)) w) (unat k)) cs p"
  shows "ready s {a} w k a cs ce d (s\<lparr>db := db', table := (table s)\<lparr>inodes := (inodes (table s))\<lparr>oi_dirty :=
    (oi_dirty (inodes (table s)))[unat w := d]\<rparr>, arena := ar\<rparr>\<rparr>)"
proof -
  have b: "buffers_ok {a} (tabs (db s)) (inodes (table s)) (arena (table s))" using run by (simp add: running_def)
  have "snd ` set (dirty_of (inodes (table s)) w) \<inter> {a} = {}" using b w unfolding buffers_ok_def owners_def by blast
  then have fresh: "a \<notin> snd ` set (dirty_of (inodes (table s)) w)" by auto
  have "inj_on snd (set (dirty_of (inodes (table s)) w))" using buffers_live(3)[OF b w] by (simp add: distinct_map)
  then have "inj_on snd (set d)" using fresh unfolding d(3) by (auto simp: inj_on_insert)
  moreover have "distinct d" using dirty_ok_distinct[OF d(1)] by (simp add: distinct_map)
  ultimately have "distinct (map snd d)" by (simp add: distinct_map)
  then show ?thesis using run d db ar miss by (simp add: ready_def Let_def chunk_view_def)
qed

lemma running_cong:
  assumes "running X s" "tabs (db s') = tabs (db s)" "table s' = table s"
  shows "running X s'" and "content s' = content s"
  using assms by (simp_all add: running_def content_def)

lemma chunk_buffer_spec:
  assumes run: "running {} s" and w: "w \<in> live (inodes (table s))" and reg: "kind_of (inodes (table s)) w = RegularFile"
    and k: "unat k < 2 ^ 24" and pc: "chunk_start pc < chunk_end pc" "chunk_end pc \<le> CHUNK_SIZE"
  shows "\<exists>r s1. chunk_buffer s w (ino_of (inodes (table s)) w) k pc = Some (r, s1) \<and>
    (case r of
       Inl e \<Rightarrow> faults (db s) \<noteq> [] \<and> running {} s1 \<and> content s1 = content s \<and> steady w s s1
     | Inr a \<Rightarrow> \<exists>s0 X d. content s0 = content s \<and> steady w s s0 \<and> ready s0 X w k a (chunk_start pc) (chunk_end pc) d s1)"
proof -
  let ?i = "ino_of (inodes (table s)) w"
  have b: "buffers_ok {} (tabs (db s)) (inodes (table s)) (arena (table s))" using run by (simp add: running_def)
  then have iok: "inodes_ok (inodes (table s))" by (simp add: buffers_ok_def)
  have dok: "dirty_ok (dirty_of (inodes (table s)) w)" using buffers_live(1)[OF b w] by (simp add: slot_ok_def)
  note col = live_columns(7)[OF iok w]
  show ?thesis
  proof (cases "dirty_find (dirty_of (inodes (table s)) w) k")
    case (Inr pos)
    obtain a where a: "slot_at (dirty_of (inodes (table s)) w) pos = Some a" "map_of (dirty_of (inodes (table s)) w) k = Some a"
      using dirty_find_Ok[OF dok Inr] by blast
    have "chunk_buffer s w ?i k pc = Some (Inr a, s)" using col Inr a(1) by (simp add: chunk_buffer_def)
    with ready_hit[OF run w a(2)] steady_refl[OF w] show ?thesis by fastforce
  next
    case (Inl pos0)
    obtain r s0 where al: "alloc_chunk s w = Some (r, s0)" "content s0 = content s" "steady w s s0" "shrinks w s s0"
      "case r of Inl e \<Rightarrow> running {} s0 \<and> faults (db s) \<noteq> [] | Inr a \<Rightarrow> running {a} s0 \<and> slot_bytes (arena (table s0)) a = []"
      using alloc_chunk_spec[OF run w] by blast
    show ?thesis
    proof (cases r)
      case (Inl e)
      then have "chunk_buffer s w ?i k pc = Some (Inl e, s0)"
        using col \<open>dirty_find _ k = Inl pos0\<close> al(1) by (simp add: chunk_buffer_def)
      with al Inl show ?thesis by simp
    next
      case (Inr a)
      define ins ar T where "ins = inodes (table s0)" "ar = arena (table s0)" "T = tabs (db s0)"
      note defs = ins_ar_T_def
      have run0: "running {a} s0" and empty: "slot_bytes ar a = []" using al(5) Inr by (auto simp: defs)
      have w0: "w \<in> live ins" and same: "ino_of ins w = ?i" "kind_of ins w = RegularFile"
        using al(3) reg by (simp_all add: steady_def Let_def defs)
      have b0: "buffers_ok {a} T ins ar" and ok0: "data_ok T" using run0 by (simp_all add: running_def defs)
      have iok0: "inodes_ok ins" and aok0: "arena_ok ar" and own0: "owners ins ar {a}" using b0 by (simp_all add: buffers_ok_def)
      have a: "a \<in> in_use ar" using own0 by (auto simp: owners_def)
      have dok0: "dirty_ok (dirty_of ins w)" using buffers_live(1)[OF b0 w0] by (simp add: slot_ok_def)
      note col0 = live_columns(7)[OF iok0 w0]
      have ino: "valid_ino ?i"
        using buffers_live(1)[OF b0 w0] same valid_ino_of_row[OF ok0] by (auto simp: slot_ok_def)
      have none: "map_of (dirty_of (inodes (table s)) w) k = None" by (rule dirty_find_Err(1)[OF dok Inl])
      have miss: "map_of (dirty_of ins w) k = None"
        using none al(4) by (auto simp: map_of_eq_None_iff defs)
      obtain pos where pos: "dirty_find (dirty_of ins w) k = Inl pos"
        using dirty_find_Ok[OF dok0] miss by (cases "dirty_find (dirty_of ins w) k") fastforce+
      obtain d where d: "dirty_insert (dirty_of ins w) pos k a = Some d" "dirty_ok d" "map_of d = (map_of (dirty_of ins w))(k \<mapsto> a)"
        "set d = insert (k, a) (set (dirty_of ins w))"
        using dirty_find_Err(2)[OF dok0 pos] by blast
      define done_with where "done_with db' ar' = s0\<lparr>db := db', table := (table s0)\<lparr>inodes := ins\<lparr>oi_dirty :=
        (oi_dirty ins)[unat w := d]\<rparr>, arena := ar'\<rparr>\<rparr>" for db' ar'
      show ?thesis
      proof (cases "is_full_chunk pc")
        case True
        then have "chunk_buffer s w ?i k pc = Some (Inr a, done_with (db s0) ar)"
          using col \<open>dirty_find _ k = Inl pos0\<close> al(1) Inr col0 pos d(1)
          by (simp add: chunk_buffer_def done_with_def defs)
        moreover have "ready s0 {a} w k a (chunk_start pc) (chunk_end pc) d (done_with (db s0) ar)"
        proof -
          have "write_at (slot_bytes ar a) 0 p = write_at (chunk_row T ?i (unat k)) 0 p" if "length p = CHUNK_SIZE" for p
            using chunk_row_len[OF ok0 ino k] that empty by (simp add: write_at_def)
          then show ?thesis
            using ready_miss[OF run0 w0[unfolded defs], of k d "db s0" ar "chunk_end pc" "chunk_start pc"] miss d aok0 True same(1)
            by (simp add: done_with_def defs is_full_chunk_def)
        qed
        ultimately show ?thesis using al(2,3) by auto
      next
        case False
        obtain buf lr db' where l: "buffer_mut ar a = Some buf" "read_chunk_into (db s0) ?i k buf = Some (lr, db')" "tabs db' = T"
          "new_rowid db' = new_rowid (db s0)" "faults (db s0) = [] \<longrightarrow> faults db' = []"
          "case lr of Inl e \<Rightarrow> faults (db s0) \<noteq> []
           | Inr (len, buf') \<Rightarrow> \<exists>ar1 ar2. buffer_put ar a buf' = Some ar1 \<and> set_len ar1 a len = Some ar2 \<and> arena_ok ar2 \<and>
               in_use ar2 = in_use ar \<and> slot_bytes ar2 a = chunk_row T ?i (unat k) \<and>
               (\<forall>t \<in> in_use ar. t \<noteq> a \<longrightarrow> slot_bytes ar2 t = slot_bytes ar t) \<and> max_slots ar2 = max_slots ar"
          using load_chunk[OF aok0 a ok0[unfolded defs] ino k] unfolding defs by blast
        show ?thesis
        proof (cases lr)
          case (Inl e)
          let ?s1 = "s0\<lparr>db := db', table := (table s0)\<lparr>arena := release ar a\<rparr>\<rparr>"
          have "chunk_buffer s w ?i k pc = Some (Inl (errno_from_db_error e), ?s1)"
            using col \<open>dirty_find _ k = Inl pos0\<close> al(1) Inr False l(1,2) Inl by (simp add: chunk_buffer_def defs)
          moreover have "running {} ?s1" "content ?s1 = content s0"
            using run0 release_held[OF b0 ok0] l(3) by (simp_all add: running_def content_def defs)
          moreover have "steady w s ?s1"
            using al(3) l(4,5) release_held(3)[OF b0 ok0] keeps_trans[OF _ keeps_columns[of ?s1 s0], of s]
            by (simp add: steady_def Let_def defs)
          moreover have "faults (db s) \<noteq> []" using l(6) Inl al(3) by (auto simp: steady_def Let_def)
          ultimately show ?thesis using al(2) by simp
        next
          case (Inr lb)
          obtain len buf' where lb: "lr = Inr (len, buf')" using Inr by (cases lb) auto
          then obtain ar1 ar2 where ar: "buffer_put ar a buf' = Some ar1" "set_len ar1 a len = Some ar2" "arena_ok ar2"
            "in_use ar2 = in_use ar" "slot_bytes ar2 a = chunk_row T ?i (unat k)"
            "\<forall>t \<in> in_use ar. t \<noteq> a \<longrightarrow> slot_bytes ar2 t = slot_bytes ar t" "max_slots ar2 = max_slots ar"
            using l(6) by auto
          have "chunk_buffer s w ?i k pc = Some (Inr a, done_with db' ar2)"
            using col \<open>dirty_find _ k = Inl pos0\<close> al(1) \<open>r = Inr a\<close> False l(1,2) lb ar(1,2) col0 pos d(1)
            by (simp add: chunk_buffer_def done_with_def defs)
          moreover have "ready s0 {a} w k a (chunk_start pc) (chunk_end pc) d (done_with db' ar2)"
            using ready_miss[OF run0 w0[unfolded defs], of k d db' ar2 "chunk_end pc" "chunk_start pc"] miss d l(3-5) ar same(1)
            by (simp add: done_with_def defs)
          ultimately show ?thesis using al(2,3) by auto
        qed
      qed
    qed
  qed
qed

section \<open>The loop\<close>

text \<open>One turn: either the error of a failed statement with the contents untouched, or the piece
  written and the loop at the next chunk.\<close>

lemma write_turn:
  assumes run: "running {} s" and w: "w \<in> live (inodes (table s))" and c: "content s (ino_of (inodes (table s)) w) = Some c"
    and sp: "is_span off (length data) sp" and k: "unat (sp_first sp) \<le> unat k" "unat k \<le> unat (sp_last sp)" "unat k < 2 ^ 24"
  defines "ino \<equiv> ino_of (inodes (table s)) w" and "pc \<equiv> piece sp k"
  shows "(\<exists>e s'. write_chunks w ino sp data (k # ks) s = Some (Inl e, s') \<and> faults (db s) \<noteq> [] \<and>
      running {} s' \<and> content s' = content s \<and> steady w s s') \<or>
    (\<exists>s'. write_chunks w ino sp data (k # ks) s = write_chunks w ino sp data ks s' \<and> running {} s' \<and> steady w s s' \<and>
      content s' = (content s)(ino \<mapsto> write_at c (off + buf_start pc) (take (buf_end pc - buf_start pc) (drop (buf_start pc) data))))"
proof -
  have b: "buffers_ok {} (tabs (db s)) (inodes (table s)) (arena (table s))" using run by (simp add: running_def)
  then have iok: "inodes_ok (inodes (table s))" by (simp add: buffers_ok_def)
  have reg: "kind_of (inodes (table s)) w = RegularFile"
    using c live_find[OF iok w] by (simp add: content_def content_in_def split: if_splits)
  note pf = piece_fields[OF sp k(1,2), folded pc_def]
  have pc: "chunk_start pc < chunk_end pc" "chunk_end pc \<le> CHUNK_SIZE" using pf(2,5) by simp_all
  obtain r s1 where r: "chunk_buffer s w ino k pc = Some (r, s1)"
    "case r of
       Inl e \<Rightarrow> faults (db s) \<noteq> [] \<and> running {} s1 \<and> content s1 = content s \<and> steady w s s1
     | Inr a \<Rightarrow> \<exists>s0 X d. content s0 = content s \<and> steady w s s0 \<and> ready s0 X w k a (chunk_start pc) (chunk_end pc) d s1"
    using chunk_buffer_spec[OF run w reg k(3) pc] unfolding ino_def by blast
  show ?thesis
  proof (cases r)
    case (Inl e)
    then have "write_chunks w ino sp data (k # ks) s = Some (Inl e, s1)" using r(1) by (simp add: pc_def)
    with r(2) Inl show ?thesis by simp
  next
    case (Inr a)
    then obtain s0 X d where s0: "content s0 = content s" "steady w s s0" and
      rd: "ready s0 X w k a (chunk_start pc) (chunk_end pc) d s1" using r(2) by auto
    define ins T where "ins = inodes (table s0)" "T = tabs (db s0)"
    note defs = ins_T_def
    have run0: "running X s0" and X: "X = {} \<and> a \<in> snd ` set (dirty_of ins w) \<or> X = {a}"
      and s1: "inodes (table s1) = ins\<lparr>oi_dirty := (oi_dirty ins)[unat w := d]\<rparr>" "handles (table s1) = handles (table s0)"
        "closing (table s1) = closing (table s0)" "tabs (db s1) = T" "new_rowid (db s1) = new_rowid (db s0)"
        "faults (db s0) = [] \<longrightarrow> faults (db s1) = []"
      and d: "dirty_ok d" "map_of d = (map_of (dirty_of ins w))(k \<mapsto> a)" "set d = insert (k, a) (set (dirty_of ins w))" "distinct (map snd d)"
      and ar1: "arena_ok (arena (table s1))" "in_use (arena (table s1)) = in_use (arena (table s0))"
        "max_slots (arena (table s1)) = max_slots (arena (table s0))"
        "\<forall>t \<in> in_use (arena (table s0)). t \<noteq> a \<longrightarrow> slot_bytes (arena (table s1)) t = slot_bytes (arena (table s0)) t"
        "\<forall>p. length p = chunk_end pc - chunk_start pc \<longrightarrow> write_at (slot_bytes (arena (table s1)) a) (chunk_start pc) p =
           write_at (chunk_view T (arena (table s0)) (ino_of ins w) (dirty_of ins w) k) (chunk_start pc) p"
      using rd by (simp_all add: ready_def Let_def defs)
    have w0: "w \<in> live ins" and same: "ino_of ins w = ino" "kind_of ins w = RegularFile"
      using s0(2) reg by (simp_all add: steady_def Let_def defs ino_def)
    have b0: "buffers_ok X T ins (arena (table s0))" and ok0: "data_ok T" and hm0: "handles_match ins (handles (table s0))"
      using run0 by (simp_all add: running_def defs)
    have iok0: "inodes_ok ins" and own0: "owners ins (arena (table s0)) X" using b0 by (simp_all add: buffers_ok_def)
    have "X \<subseteq> in_use (arena (table s0))" using own0 by (auto simp: owners_def)
    then have a: "a \<in> in_use (arena (table s1))" using X buffers_live(2)[OF b0 w0] ar1(2) by auto
    note cols = live_columns[OF iok0 w0]
    define p where "p = take (buf_end pc - buf_start pc) (drop (buf_start pc) data)"
    have plen: "length p = chunk_end pc - chunk_start pc" using pf(6,8) by (simp add: p_def)
    have sub: "subslice data (buf_start pc) (buf_end pc) = Some p" using pf(7,8) by (simp add: subslice_in p_def)
    obtain ar' where ar': "arena_write (arena (table s1)) a (chunk_start pc) (chunk_end pc) p = Some ar'" "arena_ok ar'"
      "in_use ar' = in_use (arena (table s1))" "max_slots ar' = max_slots (arena (table s1))"
      "slot_bytes ar' a = write_at (slot_bytes (arena (table s1)) a) (chunk_start pc) p"
      "\<forall>t \<in> in_use (arena (table s1)). t \<noteq> a \<longrightarrow> slot_bytes ar' t = slot_bytes (arena (table s1)) t"
      using arena.put_ok[OF ar1(1) a less_imp_le[OF pc(1)] pc(2) plen] by blast
    have pl: "placed T ins (arena (table s0)) w k a (chunk_start pc) p d ar'"
      using d ar1 ar' plen by (simp add: placed_def)
    define z where "z = max (size_of ins w) (k * of_nat CHUNK_SIZE + of_nat (chunk_end pc))"
    have "unat k * CHUNK_SIZE + chunk_end pc < 2 ^ 63"
    proof -
      have "(unat k + 1) * CHUNK_SIZE \<le> 2 ^ 24 * CHUNK_SIZE" using k(3) by (intro mult_le_mono1) simp
      then have "unat k * CHUNK_SIZE + CHUNK_SIZE \<le> max_size" unfolding max_size_def by (simp only: add_mult_distrib mult_1)
      with pc(2) max_size_lt show ?thesis by linarith
    qed
    moreover have "k * of_nat CHUNK_SIZE + of_nat (chunk_end pc) = (of_nat (unat k * CHUNK_SIZE + chunk_end pc) :: u64)" by simp
    ultimately have "unat (k * of_nat CHUNK_SIZE + of_nat (chunk_end pc) :: u64) = unat k * CHUNK_SIZE + chunk_end pc"
      by (simp only: unat_of_nat) simp
    then have z: "unat z = max (unat (size_of ins w)) (unat k * CHUNK_SIZE + (chunk_start pc + length p))"
      using plen pc(1) by (simp add: z_def unat_max)
    have pos: "unat k * CHUNK_SIZE + chunk_start pc = off + buf_start pc" using pf(1,3) by linarith
    have c0: "content_in T ins (arena (table s0)) (ino_of ins w) = Some c"
      using c s0(1) same(1) by (simp add: content_def defs ino_def)
    have pne: "p \<noteq> []" "chunk_start pc + length p \<le> CHUNK_SIZE" using plen pc by auto
    note put = put_chunk[OF b0 ok0 w0 same(2) pl X k(3) pne z c0]
    define s' where "s' = s1\<lparr>table := (table s1)\<lparr>arena := ar', inodes := with_chunk ins w d z\<rparr>\<rparr>"
    have "write_chunks w ino sp data (k # ks) s = write_chunks w ino sp data ks s'"
      using r(1) Inr sub ar'(1) cols s1(1) by (simp add: pc_def[symmetric] s'_def with_chunk_def z_def)
    moreover have "running {} s'"
      using put(1) ok0 hm0 s1 by (simp add: running_def s'_def handles_match_def)
    moreover have "steady w s s'"
      using s0(2) s1 ar1(3) ar'(4) w0 keeps_trans[OF _ keeps_columns[of s' s0], of s]
      by (simp add: steady_def Let_def s'_def defs)
    moreover have "content s' = (content s)(ino \<mapsto> write_at c (off + buf_start pc) p)"
      using put(2) s0(1) same(1) pos s1(4) by (simp add: content_def s'_def defs)
    ultimately show ?thesis unfolding p_def by blast
  qed
qed

text \<open>Consecutive pieces compose to one write.\<close>

lemma pwrite_append:
  assumes "n < m" "m \<le> length data"
  shows "write_at (pwrite (offset, take n data) c) (unat offset + n) (take (m - n) (drop n data)) = pwrite (offset, take m data) c"
proof (rule nth_equalityI)
  let ?l = "write_at (pwrite (offset, take n data) c) (unat offset + n) (take (m - n) (drop n data))"
  have ne: "take m data \<noteq> []" using assms by auto
  show len: "length ?l = length (pwrite (offset, take m data) c)"
    using assms ne by (auto simp: length_pwrite)
  fix i assume i: "i < length ?l"
  have "byte_at ?l i = byte_at (pwrite (offset, take m data) c) i"
    using assms by (auto simp: byte_at_write_at byte_at_pwrite)
  with i len show "?l ! i = pwrite (offset, take m data) c ! i" by (simp add: byte_at_def)
qed

lemma write_loop:
  assumes sp: "is_span (unat offset) (length data) sp" and last: "unat (sp_last sp) < 2 ^ 24"
    and ks: "map unat ks = [j ..< Suc (unat (sp_last sp))]" and j: "unat (sp_first sp) \<le> j" "j \<le> Suc (unat (sp_last sp))"
    and run: "running {} s" and w: "w \<in> live (inodes (table s))" and ino: "ino_of (inodes (table s)) w = ino"
    and c: "content s ino = Some (pwrite (offset, take (min (length data) (j * CHUNK_SIZE - unat offset)) data) c0)"
  shows "\<exists>r s'. write_chunks w ino sp data ks s = Some (r, s') \<and> running {} s' \<and> steady w s s' \<and>
    (case r of
       Inl e \<Rightarrow> faults (db s) \<noteq> [] \<and> (\<exists>n < length data. content s' = (content s)(ino \<mapsto> pwrite (offset, take n data) c0))
     | Inr _ \<Rightarrow> content s' = (content s)(ino \<mapsto> pwrite (offset, data) c0))"
  using ks j run w ino c
proof (induction ks arbitrary: j s)
  case Nil
  then have "j = Suc (unat (sp_last sp))" by (simp split: if_splits)
  have "unat offset + length data - 1 < (unat offset + length data - 1) div CHUNK_SIZE * CHUNK_SIZE + CHUNK_SIZE"
    using div_mult_mod_eq[of "unat offset + length data - 1" CHUNK_SIZE] mod_less_divisor[of CHUNK_SIZE "unat offset + length data - 1"]
    unfolding CHUNK_SIZE_def by linarith
  then have "length data \<le> j * CHUNK_SIZE - unat offset"
    using sp \<open>j = _\<close> by (auto simp: is_span_def)
  with Nil show ?case by (auto simp: fun_upd_idem steady_refl)
next
  case (Cons k ks)
  let ?n = "j * CHUNK_SIZE - unat offset"
  have kj: "unat k = j" "map unat ks = [Suc j ..< Suc (unat (sp_last sp))]" "j \<le> unat (sp_last sp)"
    using Cons.prems(1) upt_eq_Cons_conv[of j "Suc (unat (sp_last sp))" "unat k" "map unat ks"] by (auto simp del: upt_Suc)
  have k: "unat (sp_first sp) \<le> unat k" "unat k \<le> unat (sp_last sp)" "unat k < 2 ^ 24" using kj Cons.prems(2) last by auto
  note pf = piece_fields[OF sp k(1,2), unfolded kj(1)]
  have bs: "buf_start (piece sp k) = ?n" "?n < length data"
    using pf(3,7,8) by simp_all
  have be: "buf_end (piece sp k) = min (length data) (Suc j * CHUNK_SIZE - unat offset)" using pf(4) by (simp add: add.commute)
  have c: "content s (ino_of (inodes (table s)) w) = Some (pwrite (offset, take ?n data) c0)"
    using Cons.prems(6,7) bs(2) by simp
  from write_turn[OF Cons.prems(4,5) c sp k, unfolded Cons.prems(6), of ks]
  show ?case
  proof (elim disjE exE conjE)
    fix e s' assume t: "write_chunks w ino sp data (k # ks) s = Some (Inl e, s')" "faults (db s) \<noteq> []" "running {} s'"
      "content s' = content s" "steady w s s'"
    have "content s' = (content s)(ino \<mapsto> pwrite (offset, take ?n data) c0)"
      using t(4) c Cons.prems(6) by (simp add: fun_upd_idem)
    with t bs(2) show ?case by (intro exI[of _ "Inl e"] exI[of _ s']) auto
  next
    fix s' assume t: "write_chunks w ino sp data (k # ks) s = write_chunks w ino sp data ks s'" "running {} s'" "steady w s s'"
      "content s' = (content s)(ino \<mapsto> write_at (pwrite (offset, take ?n data) c0) (unat offset + buf_start (piece sp k))
         (take (buf_end (piece sp k) - buf_start (piece sp k)) (drop (buf_start (piece sp k)) data)))"
    let ?m = "buf_end (piece sp k)"
    have "?n < ?m" "?m \<le> length data" using pf(7,8) bs(1) by simp_all
    from pwrite_append[OF this] have c': "content s' = (content s)(ino \<mapsto> pwrite (offset, take ?m data) c0)"
      using t(4) bs(1) by simp
    have w': "w \<in> live (inodes (table s'))" "ino_of (inodes (table s')) w = ino"
      using t(3) Cons.prems(6) by (simp_all add: steady_def Let_def)
    obtain r s2 where r: "write_chunks w ino sp data ks s' = Some (r, s2)" "running {} s2" "steady w s' s2"
      "case r of
         Inl e \<Rightarrow> faults (db s') \<noteq> [] \<and> (\<exists>n < length data. content s2 = (content s')(ino \<mapsto> pwrite (offset, take n data) c0))
       | Inr _ \<Rightarrow> content s2 = (content s')(ino \<mapsto> pwrite (offset, data) c0)"
      using Cons.IH[OF kj(2) _ _ t(2) w'] Cons.prems(2) kj(3) c' be by auto
    have "faults (db s') \<noteq> [] \<longrightarrow> faults (db s) \<noteq> []" using t(3) by (auto simp: steady_def Let_def)
    with r t(1) c' steady_trans[OF t(3) r(3)] show ?case by (cases r) auto
  qed
qed

end
