(* ===== verification/Filesystem.thy ===== *)
theory Filesystem
  imports Fuse
begin

text \<open>
  The operations of \<^verbatim>\<open>Dbfs\<close> (\<^verbatim>\<open>src/src/fuse.rs\<close>) on top of the buffering of \<open>Fuse\<close>: attributes,
  directories, opening, reading, writing, truncating, unlinking and renaming, shutdown, and the
  FUSE requests that the kernel sends with the replies they get. Operations whose Rust name is
  already a definition of the storage layer carry the prefix \<open>fs_\<close>.
\<close>

section \<open>Handles, removal and shutdown\<close>

definition release_fh :: "Shared \<Rightarrow> u64 \<Rightarrow> unit outcome" where
  "release_fh s fh =
     (case handles_release (handles (table s)) fh of
        (None, _) \<Rightarrow> Some (Inl EBADF, s)
      | (Some slot, hs) \<Rightarrow> do {
          let i = unat slot;
          let t = (table s)\<lparr>handles := hs\<rparr>;
          refs \<leftarrow> idx (oi_refs (inodes t)) i;
          refss \<leftarrow> set_idx (oi_refs (inodes t)) i (refs - 1);
          let t = t\<lparr>inodes := (inodes t)\<lparr>oi_refs := refss\<rparr>\<rparr>;
          gone \<leftarrow> idx (oi_unlinked (inodes t)) i;
          if refs - 1 = 0 \<and> gone then do {
            ino \<leftarrow> idx (oi_ino (inodes t)) i;
            t \<leftarrow> discard_slot t slot;
            Some (on_db (s\<lparr>table := t\<rparr>) (\<lambda>d. delete_inode d ino))
          } else
            try_then (flush_slot (s\<lparr>table := t\<rparr>) slot Skip) (\<lambda>_ s. do {
              t \<leftarrow> free_if_idle (table s) slot;
              Some (Inr (), s\<lparr>table := t\<rparr>)
            })
        })"

definition entry_removed :: "OpenTable \<Rightarrow> Inode \<Rightarrow> OpenTable option" where
  "entry_removed t target =
     (if i_kind target = Directory \<or> 1 < i_nlink target then Some t
      else case inodes_find (inodes t) (i_ino target) of
        None \<Rightarrow> Some t
      | Some slot \<Rightarrow> do {
          opened \<leftarrow> inodes_is_open (inodes t) slot;
          if opened then do {
            flags \<leftarrow> set_idx (oi_unlinked (inodes t)) (unat slot) True;
            Some (t\<lparr>inodes := (inodes t)\<lparr>oi_unlinked := flags\<rparr>\<rparr>)
          } else discard_slot t slot
        })"

definition fs_is_open :: "OpenTable \<Rightarrow> u64 \<Rightarrow> bool option" where
  "fs_is_open t ino =
     (case inodes_find (inodes t) ino of
        None \<Rightarrow> Some False
      | Some slot \<Rightarrow> inodes_is_open (inodes t) slot)"

definition flush_for_shutdown :: "Shared \<Rightarrow> unit outcome" where
  "flush_for_shutdown s = do {
     (result, s) \<leftarrow> flush_all (refuse_writes s);
     Some (result, record_flush s result)
   }"

definition flush_failure :: "Shared \<Rightarrow> errno option" where
  "flush_failure s = (case last_flush s of Inl errno \<Rightarrow> Some errno | Inr _ \<Rightarrow> None)"

definition destroy :: "Shared \<Rightarrow> Shared option" where
  "destroy s = do {
     (result, s) \<leftarrow> flush_all s;
     Some (record_flush s result)
   }"

definition DEFAULT_WRITE_BUFFER :: usize where
  "DEFAULT_WRITE_BUFFER = 64 * 1024 * 1024"

definition with_write_buffer :: "((u64 \<times> Slot) list \<Rightarrow> (u64 \<times> Slot) list) \<Rightarrow> Db \<Rightarrow> usize \<Rightarrow> Shared" where
  "with_write_buffer order d write_buffer =
     \<lparr>db = d, table = table_new order write_buffer, last_flush = Inr (), kernel_cache = False\<rparr>"

definition dbfs_new :: "((u64 \<times> Slot) list \<Rightarrow> (u64 \<times> Slot) list) \<Rightarrow> Db \<Rightarrow> Shared" where
  "dbfs_new order d = with_write_buffer order d DEFAULT_WRITE_BUFFER"

definition with_kernel_cache :: "Shared \<Rightarrow> bool \<Rightarrow> Shared" where
  "with_kernel_cache s enabled = s\<lparr>kernel_cache := enabled\<rparr>"

text \<open>Time to live of cached attributes, in seconds, and the flags of an open reply.\<close>

definition ttl :: "Shared \<Rightarrow> nat" where
  "ttl s = (if kernel_cache s then 86400 else 1)"

definition FOPEN_KEEP_CACHE :: u32 where "FOPEN_KEEP_CACHE = 2"

definition open_flags :: "Shared \<Rightarrow> u32" where
  "open_flags s = (if kernel_cache s then FOPEN_KEEP_CACHE else 0)"

section \<open>Attributes\<close>

datatype FileType = FT_RegularFile | FT_Directory | FT_Symlink

fun file_type :: "FileKind \<Rightarrow> FileType" where
  "file_type RegularFile = FT_RegularFile"
| "file_type Directory = FT_Directory"
| "file_type Symlink = FT_Symlink"

record FileAttr =
  at_ino :: u64
  at_size :: u64
  at_blocks :: u64
  at_atime :: SystemTime
  at_mtime :: SystemTime
  at_ctime :: SystemTime
  at_crtime :: SystemTime
  at_kind :: FileType
  at_perm :: "16 word"
  at_nlink :: u32
  at_uid :: u32
  at_gid :: u32
  at_rdev :: u32
  at_blksize :: u32
  at_flags :: u32

definition div_ceil :: "u64 \<Rightarrow> u64 \<Rightarrow> u64" where
  "div_ceil a b = (if a mod b = 0 then a div b else a div b + 1)"

definition file_attr_from_inode :: "Inode \<Rightarrow> FileAttr" where
  "file_attr_from_inode inode =
     \<lparr>at_ino = i_ino inode, at_size = i_size inode, at_blocks = div_ceil (i_size inode) 512,
      at_atime = to_system_time (i_atime inode), at_mtime = to_system_time (i_mtime inode),
      at_ctime = to_system_time (i_ctime inode), at_crtime = 0, at_kind = file_type (i_kind inode),
      at_perm = ucast (i_mode inode), at_nlink = i_nlink inode, at_uid = i_uid inode,
      at_gid = i_gid inode, at_rdev = 0, at_blksize = 65536, at_flags = 0\<rparr>"

definition overlay_attr :: "OpenTable \<Rightarrow> FileAttr \<Rightarrow> FileAttr option" where
  "overlay_attr t attr =
     (case inodes_find (inodes t) (at_ino attr) of
        None \<Rightarrow> Some attr
      | Some slot \<Rightarrow> do {
          let i = unat slot;
          sz \<leftarrow> idx (oi_size (inodes t)) i;
          let attr = attr\<lparr>at_size := sz, at_blocks := div_ceil sz 512\<rparr>;
          dirty \<leftarrow> idx (oi_dirty (inodes t)) i;
          if \<not> dirty_is_empty dirty then do {
            mtime \<leftarrow> idx (oi_mtime (inodes t)) i;
            let modified = to_system_time mtime;
            Some (attr\<lparr>at_mtime := modified, at_ctime := modified\<rparr>)
          } else Some attr
        })"

text \<open>The volume figures: SQLite's page size, page count and freelist count are parameters.\<close>

record VolumeUsage =
  page_size :: u64
  page_count :: u64
  freelist_count :: u64
  vu_files :: u64

definition volume_usage :: "i64 \<times> i64 \<times> i64 \<Rightarrow> Db \<Rightarrow> (DbError + VolumeUsage) \<times> Db" where
  "volume_usage pragmas d = (case pragmas of (sz, pages, free) \<Rightarrow>
     and_then (query d (\<lambda>_. Inr sz)) (\<lambda>sz d.
     and_then (query d (\<lambda>_. Inr pages)) (\<lambda>pages d.
     and_then (query d (\<lambda>_. Inr free)) (\<lambda>free d.
     and_then (query d (\<lambda>t. Inr (int (length (t_inodes t))))) (\<lambda>files d.
       (Inr \<lparr>page_size = u64_of_i64 sz, page_count = u64_of_i64 pages, freelist_count = u64_of_i64 free,
             vu_files = u64_of_i64 files\<rparr>, d))))))"

record FsStats =
  blocks :: u64
  bfree :: u64
  bavail :: u64
  files :: u64
  ffree :: u64
  bsize :: u32
  namelen :: u32
  frsize :: u32

definition statfs :: "i64 \<times> i64 \<times> i64 \<Rightarrow> Shared \<Rightarrow> FsStats outcome" where
  "statfs pragmas s = try_then (Some (on_db s (volume_usage pragmas))) (\<lambda>usage s.
     let sz = (ucast (page_size usage) :: u32) in
     Some (Inr \<lparr>blocks = page_count usage, bfree = freelist_count usage, bavail = freelist_count usage,
                files = vu_files usage, ffree = 0, bsize = sz, namelen = 255, frsize = sz\<rparr>, s))"

text \<open>The attributes of an inode the storage layer returned, with the overlay of buffered writes.\<close>

definition with_overlay :: "(errno + Inode) \<times> Shared \<Rightarrow> FileAttr outcome" where
  "with_overlay m = try_then (Some m) (\<lambda>inode s. do {
     attr \<leftarrow> overlay_attr (table s) (file_attr_from_inode inode);
     Some (Inr attr, s)
   })"

definition getattr :: "Shared \<Rightarrow> u64 \<Rightarrow> FileAttr outcome" where
  "getattr s ino = with_overlay (on_db s (\<lambda>d. get_inode d ino))"

definition fs_lookup :: "Shared \<Rightarrow> u64 \<Rightarrow> bytes \<Rightarrow> FileAttr outcome" where
  "fs_lookup s parent_ino name = with_overlay (on_db s (\<lambda>d. lookup d parent_ino name))"

section \<open>Directories\<close>

record DbfsDirEntry =
  dd_name :: bytes
  dd_ino :: u64
  dd_kind :: FileType
  dd_offset :: i64

definition wrap_i64 :: "int \<Rightarrow> i64" where
  "wrap_i64 i = i64_of_u64 (u64_of_i64 i)"

definition DOT :: i64 where "DOT = 1"
definition DOTDOT :: i64 where "DOTDOT = 2"

definition emit_children :: "Shared \<Rightarrow> u64 \<Rightarrow> i64 \<Rightarrow> ('s \<Rightarrow> u64 \<Rightarrow> i64 \<Rightarrow> FileType \<Rightarrow> bytes \<Rightarrow> bool \<times> 's) \<Rightarrow> 's \<Rightarrow>
    ((errno + unit) \<times> 's) \<times> Shared" where
  "emit_children s ino offset emit st =
     (case read_dir_after (db s) ino (max (wrap_i64 (offset - DOTDOT)) 0)
             (\<lambda>st rid name child kind. emit st child (wrap_i64 (rid + DOTDOT)) (file_type kind) name) st of
        ((Inl e, st), d) \<Rightarrow> ((Inl (errno_from_db_error e), st), s\<lparr>db := d\<rparr>)
      | ((Inr _, st), d) \<Rightarrow> ((Inr (), st), s\<lparr>db := d\<rparr>))"

text \<open>\<open>emit\<close> is the caller's closure with its captured state.\<close>

definition readdir_stream :: "Shared \<Rightarrow> u64 \<Rightarrow> i64 \<Rightarrow>
    ('s \<Rightarrow> u64 \<Rightarrow> i64 \<Rightarrow> FileType \<Rightarrow> bytes \<Rightarrow> bool \<times> 's) \<Rightarrow> 's \<Rightarrow> ((errno + unit) \<times> 's) \<times> Shared" where
  "readdir_stream s ino offset emit st =
     (case (case parent_of_dir (db s) ino of
              (Inr parent, d) \<Rightarrow> (Inr parent, d)
            | (Inl NotFound, d) \<Rightarrow> (Inr ino, d)
            | (Inl error, d) \<Rightarrow> (Inl error, d)) of
        (Inl error, d) \<Rightarrow> ((Inl (errno_from_db_error error), st), s\<lparr>db := d\<rparr>)
      | (Inr parent, d) \<Rightarrow>
          let s = s\<lparr>db := d\<rparr>;
              (full, st) = (if offset < DOT then emit st ino DOT FT_Directory [46] else (False, st))
          in if full then ((Inr (), st), s)
             else
               let (full, st) = (if offset < DOTDOT then emit st parent DOTDOT FT_Directory [46, 46] else (False, st))
               in if full then ((Inr (), st), s) else emit_children s ino offset emit st)"

definition fs_readdir :: "Shared \<Rightarrow> u64 \<Rightarrow> i64 \<Rightarrow> (errno + DbfsDirEntry list) \<times> Shared" where
  "fs_readdir s ino offset =
     (case readdir_stream s ino offset
             (\<lambda>es ino next_offset kind name.
                (False, es @ [\<lparr>dd_name = name, dd_ino = ino, dd_kind = kind, dd_offset = next_offset\<rparr>])) [] of
        ((Inl e, _), s) \<Rightarrow> (Inl e, s)
      | ((Inr _, es), s) \<Rightarrow> (Inr es, s))"

section \<open>Creating, linking and attributes\<close>

definition to_attr :: "(errno + Inode) \<times> Shared \<Rightarrow> (errno + FileAttr) \<times> Shared" where
  "to_attr m = and_then m (\<lambda>inode s. (Inr (file_attr_from_inode inode), s))"

definition mkdir :: "Shared \<Rightarrow> u64 \<Rightarrow> bytes \<Rightarrow> u32 \<Rightarrow> u32 \<Rightarrow> u32 \<Rightarrow> u32 \<Rightarrow> Timestamp \<Rightarrow> (errno + FileAttr) \<times> Shared" where
  "mkdir s parent_ino name mode umask uid gid now =
     to_attr (on_db s (\<lambda>d. create_dir d parent_ino name (mode AND NOT umask) uid gid now))"

definition create :: "Shared \<Rightarrow> u64 \<Rightarrow> bytes \<Rightarrow> u32 \<Rightarrow> u32 \<Rightarrow> u32 \<Rightarrow> u32 \<Rightarrow> Timestamp \<Rightarrow> (errno + FileAttr) \<times> Shared" where
  "create s parent_ino name mode umask uid gid now =
     to_attr (on_db s (\<lambda>d. create_file d parent_ino name (mode AND NOT umask) uid gid now))"

definition symlink :: "Shared \<Rightarrow> u64 \<Rightarrow> bytes \<Rightarrow> bytes \<Rightarrow> u32 \<Rightarrow> u32 \<Rightarrow> Timestamp \<Rightarrow> (errno + FileAttr) \<times> Shared" where
  "symlink s parent_ino name target uid gid now =
     to_attr (on_db s (\<lambda>d. create_symlink d parent_ino name target uid gid now))"

definition readlink :: "Shared \<Rightarrow> u64 \<Rightarrow> (errno + bytes) \<times> Shared" where
  "readlink s ino = on_db s (\<lambda>d. read_symlink d ino)"

definition fs_link :: "Shared \<Rightarrow> u64 \<Rightarrow> u64 \<Rightarrow> bytes \<Rightarrow> Timestamp \<Rightarrow> (errno + FileAttr) \<times> Shared" where
  "fs_link s ino new_parent_ino new_name now =
     to_attr (on_db s (\<lambda>d. link d ino new_parent_ino new_name now))"

definition truncate_locked :: "Shared \<Rightarrow> u64 \<Rightarrow> u64 \<Rightarrow> Timestamp \<Rightarrow> unit outcome" where
  "truncate_locked s ino sz now =
     (let slot = inodes_find (inodes (table s)) ino in
      try_then (case slot of Some slot \<Rightarrow> flush_slot s slot Persist | None \<Rightarrow> Some (Inr (), s)) (\<lambda>_ s.
      try_then (Some (on_db s (\<lambda>d. truncate_file d ino sz now))) (\<lambda>_ s.
        case slot of
          None \<Rightarrow> Some (Inr (), s)
        | Some slot \<Rightarrow> do {
            sizes \<leftarrow> set_idx (oi_size (inodes (table s))) (unat slot) sz;
            t \<leftarrow> free_if_idle ((table s)\<lparr>inodes := (inodes (table s))\<lparr>oi_size := sizes\<rparr>\<rparr>) slot;
            Some (Inr (), s\<lparr>table := t\<rparr>)
          })))"

definition setattr :: "Shared \<Rightarrow> u64 \<Rightarrow> u32 option \<Rightarrow> u32 option \<Rightarrow> u32 option \<Rightarrow> u64 option \<Rightarrow>
    SystemTime option \<Rightarrow> SystemTime option \<Rightarrow> Timestamp \<Rightarrow> Timestamp \<Rightarrow> FileAttr outcome" where
  "setattr s ino mode uid gid sz atime mtime now1 now2 =
     try_then
       (case inodes_find (inodes (table s)) ino of
          None \<Rightarrow> Some (Inr (), s)
        | Some slot \<Rightarrow> try_then (flush_slot s slot Persist) (\<lambda>_ s. do {
            t \<leftarrow> free_if_idle (table s) slot;
            Some (Inr (), s\<lparr>table := t\<rparr>)
          }))
       (\<lambda>_ s.
     try_then (case sz of Some sz \<Rightarrow> truncate_locked s ino sz now1 | None \<Rightarrow> Some (Inr (), s)) (\<lambda>_ s.
       Some (to_attr (on_db s (\<lambda>d. update_metadata d ino
         \<lparr>mu_mode = mode, mu_uid = uid, mu_gid = gid, mu_atime = map_option from_system_time atime,
          mu_mtime = map_option from_system_time mtime\<rparr> now2)))))"

text \<open>Extended attributes are not stored.\<close>

definition getxattr :: "Shared \<Rightarrow> u64 \<Rightarrow> bytes \<Rightarrow> bytes outcome" where
  "getxattr s ino name = try_then (getattr s ino) (\<lambda>_ s. Some (Inl ENODATA, s))"

definition listxattr :: "Shared \<Rightarrow> u64 \<Rightarrow> bytes outcome" where
  "listxattr s ino = try_then (getattr s ino) (\<lambda>_ s. Some (Inr [], s))"

definition setxattr :: "Shared \<Rightarrow> u64 \<Rightarrow> bytes \<Rightarrow> unit outcome" where
  "setxattr s ino name = try_then (getattr s ino) (\<lambda>_ s. Some (Inl EOPNOTSUPP, s))"

definition removexattr :: "Shared \<Rightarrow> u64 \<Rightarrow> bytes \<Rightarrow> unit outcome" where
  "removexattr s ino name = try_then (getattr s ino) (\<lambda>_ s. Some (Inl ENODATA, s))"

section \<open>Opening, reading and writing\<close>

definition fs_open :: "Shared \<Rightarrow> u64 \<Rightarrow> u64 outcome" where
  "fs_open s ino = try_then (slot_for s ino) (\<lambda>slot s. do {
     (fh, t) \<leftarrow> open_slot (table s) slot;
     Some (Inr fh, s\<lparr>table := t\<rparr>)
   })"

definition fs_read :: "Shared \<Rightarrow> u64 \<Rightarrow> u64 \<Rightarrow> u32 \<Rightarrow> bytes outcome" where
  "fs_read s ino offset sz =
     (case inodes_find (inodes (table s)) ino of
        Some slot \<Rightarrow> read_slot s slot offset sz
      | None \<Rightarrow> do {
          (r, d) \<leftarrow> read_file (db s) ino offset sz;
          Some (map_sum errno_from_db_error id r, s\<lparr>db := d\<rparr>)
        })"

definition read_fh :: "Shared \<Rightarrow> u64 \<Rightarrow> u64 \<Rightarrow> u32 \<Rightarrow> bytes outcome" where
  "read_fh s fh offset sz =
     (case handles_get (handles (table s)) fh of
        None \<Rightarrow> Some (Inl EBADF, s)
      | Some slot \<Rightarrow> read_slot s slot offset sz)"

definition fs_write :: "Shared \<Rightarrow> u64 \<Rightarrow> u64 \<Rightarrow> bytes \<Rightarrow> SystemTime \<Rightarrow> u32 outcome" where
  "fs_write s ino offset data now =
     (if data = [] then Some (Inr 0, s)
      else try_then (slot_for s ino) (\<lambda>slot s. do {
        (result, s) \<leftarrow> write_slot s slot offset data now;
        t \<leftarrow> free_if_idle (table s) slot;
        Some (result, s\<lparr>table := t\<rparr>)
      }))"

definition write_fh :: "Shared \<Rightarrow> u64 \<Rightarrow> u64 \<Rightarrow> bytes \<Rightarrow> SystemTime \<Rightarrow> u32 outcome" where
  "write_fh s fh offset data now =
     (case handles_get (handles (table s)) fh of
        None \<Rightarrow> Some (Inl EBADF, s)
      | Some slot \<Rightarrow> write_slot s slot offset data now)"

definition FALLOC_FL_KEEP_SIZE :: u32 where "FALLOC_FL_KEEP_SIZE = 1"

text \<open>The \<^verbatim>\<open>i32\<close> mode is given by its 32 bits.\<close>

definition fallocate :: "Shared \<Rightarrow> u64 \<Rightarrow> i64 \<Rightarrow> i64 \<Rightarrow> u32 \<Rightarrow> Timestamp \<Rightarrow> unit outcome" where
  "fallocate s ino offset len mode now =
     (if offset < 0 \<or> len \<le> 0 then Some (Inl EINVAL, s)
      else if mode AND NOT FALLOC_FL_KEEP_SIZE \<noteq> 0 then Some (Inl EOPNOTSUPP, s)
      else try_then (Some (on_db s (\<lambda>d. inode_kind_of d ino))) (\<lambda>kind s.
        if kind \<noteq> RegularFile then Some (Inl ENODEV, s)
        else if i64_MAX < offset + len then Some (Inl EFBIG, s)
        else
          let end = u64_of_i64 (offset + len) in
          if MAX_FILE_SIZE < end then Some (Inl EFBIG, s)
          else if mode AND FALLOC_FL_KEEP_SIZE \<noteq> 0 then Some (Inr (), s)
          else try_then
            (case inodes_find (inodes (table s)) ino of
               Some slot \<Rightarrow> do { sz \<leftarrow> idx (oi_size (inodes (table s))) (unat slot); Some (Inr sz, s) }
             | None \<Rightarrow> Some (and_then (on_db s (\<lambda>d. inode_head d ino)) (\<lambda>(_, sz) s. (Inr sz, s))))
            (\<lambda>sz s. if end \<le> sz then Some (Inr (), s) else truncate_locked s ino end now)))"

definition flush_file :: "Shared \<Rightarrow> u64 \<Rightarrow> unit outcome" where
  "flush_file s ino =
     (case inodes_find (inodes (table s)) ino of
        None \<Rightarrow> Some (Inr (), s)
      | Some slot \<Rightarrow> try_then (flush_slot s slot Skip) (\<lambda>_ s. do {
          t \<leftarrow> free_if_idle (table s) slot;
          Some (Inr (), s\<lparr>table := t\<rparr>)
        }))"

definition flush_fh :: "Shared \<Rightarrow> u64 \<Rightarrow> unit outcome" where
  "flush_fh s fh =
     (case handles_get (handles (table s)) fh of
        None \<Rightarrow> Some (Inl EBADF, s)
      | Some slot \<Rightarrow> flush_slot s slot Skip)"

definition sync_fh :: "Shared \<Rightarrow> u64 \<Rightarrow> unit outcome" where
  "sync_fh s fh = try_then (flush_fh s fh) (\<lambda>_ s. Some (on_db s sync_durable))"

definition release_file :: "Shared \<Rightarrow> u64 \<Rightarrow> unit outcome" where
  "release_file s fh = release_fh s fh"

section \<open>Removing and renaming\<close>

definition unlink :: "Shared \<Rightarrow> u64 \<Rightarrow> bytes \<Rightarrow> Timestamp \<Rightarrow> unit outcome" where
  "unlink s parent_ino name now =
     try_then (Some (on_db s (\<lambda>d. lookup d parent_ino name))) (\<lambda>inode s. do {
       is_open \<leftarrow> fs_is_open (table s) (i_ino inode);
       try_then (Some (on_db s (\<lambda>d. unlink_entry d parent_ino name inode is_open now))) (\<lambda>_ s. do {
         t \<leftarrow> entry_removed (table s) inode;
         Some (Inr (), s\<lparr>table := t\<rparr>)
       })
     })"

definition rmdir :: "Shared \<Rightarrow> u64 \<Rightarrow> bytes \<Rightarrow> Timestamp \<Rightarrow> (errno + unit) \<times> Shared" where
  "rmdir s parent_ino name now = on_db s (\<lambda>d. remove_dir d parent_ino name now)"

definition RENAME_NOREPLACE :: u32 where "RENAME_NOREPLACE = 1"

text \<open>The closure given to \<open>rename_entry\<close> reads the open table; a live slot is always in range, so
  its index never panics (\<open>inodes_ok\<close>).\<close>

definition fs_rename :: "Shared \<Rightarrow> u64 \<Rightarrow> bytes \<Rightarrow> u64 \<Rightarrow> bytes \<Rightarrow> u32 \<Rightarrow> Timestamp \<Rightarrow> unit outcome" where
  "fs_rename s parent_ino name new_parent_ino new_name flags now =
     (if flags AND NOT RENAME_NOREPLACE \<noteq> 0 then Some (Inl EINVAL, s)
      else do {
        (r, d) \<leftarrow> rename_entry (db s) parent_ino name new_parent_ino new_name
                   (flags AND RENAME_NOREPLACE \<noteq> 0) (\<lambda>ino. fs_is_open (table s) ino = Some True) now;
        let s = s\<lparr>db := d\<rparr>;
        case r of
          Inl e \<Rightarrow> Some (Inl (errno_from_db_error e), s)
        | Inr None \<Rightarrow> Some (Inr (), s)
        | Inr (Some target) \<Rightarrow> do {
            t \<leftarrow> entry_removed (table s) target;
            Some (Inr (), s\<lparr>table := t\<rparr>)
          }
      })"

definition create_open :: "Shared \<Rightarrow> u64 \<Rightarrow> bytes \<Rightarrow> u32 \<Rightarrow> u32 \<Rightarrow> u32 \<Rightarrow> u32 \<Rightarrow> Timestamp \<Rightarrow> (FileAttr \<times> u64) outcome" where
  "create_open s parent_ino name mode umask uid gid now =
     try_then (Some (create s parent_ino name mode umask uid gid now)) (\<lambda>attr s. do {
       (slot, ins) \<leftarrow> inodes_insert (inodes (table s)) (at_ino attr) RegularFile 0;
       (fh, t) \<leftarrow> open_slot ((table s)\<lparr>inodes := ins\<rparr>) slot;
       Some (Inr (attr, fh), s\<lparr>table := t\<rparr>)
     })"

end
