(* ===== verification/Buffered.thy ===== *)
theory Buffered
  imports Write_Step Filesystem
begin

text \<open>
  The operations of \<^verbatim>\<open>Dbfs\<close> on file contents, against their contract: a write through a slot or an
  inode number is a positional write, a truncation a resize, a read a slice; opening, flushing and
  closing change nothing a reader sees. The buffering layer is then an instance of the file store of
  \<open>File_Store\<close>, as the storage layer is.
\<close>

section \<open>Writing through a slot\<close>

text \<open>The new modification time changes nothing else.\<close>

definition stamped :: "Shared \<Rightarrow> Slot \<Rightarrow> Timestamp \<Rightarrow> Shared" where
  "stamped s w m = s\<lparr>table := (table s)\<lparr>inodes := (inodes (table s))\<lparr>oi_mtime := (oi_mtime (inodes (table s)))[unat w := m]\<rparr>\<rparr>\<rparr>"

lemma stamped_running:
  assumes "running X s"
  shows "running X (stamped s w m)" and "content (stamped s w m) = content s"
    and "w \<in> live (inodes (table s)) \<Longrightarrow> steady w s (stamped s w m)"
  using assms inodes_ok_update(2)[of "inodes (table s)"]
  by (simp_all add: running_def buffers_ok_def owners_def handles_match_def content_def content_in_def[abs_def]
      steady_def Let_def keeps_def stamped_def cong: option.case_cong if_cong)

lemma span_end:
  assumes "span_new offset len = Some sp" "unat offset + len < 2 ^ 64"
  shows "unat (sp_end sp) = unat offset + len"
  using assms by (auto simp: span_new_def Let_def unat_word_ariths unat_of_nat split: if_splits)

text \<open>What a write of \<open>data\<close> to a file with contents \<open>c\<close> may leave: all of it, or, when a statement
  failed, a prefix.\<close>

definition written :: "Shared \<Rightarrow> u64 \<Rightarrow> u64 \<Rightarrow> bytes \<Rightarrow> bytes \<Rightarrow> errno + u32 \<Rightarrow> Shared \<Rightarrow> bool" where
  "written s ino offset data c r s' \<longleftrightarrow> (case r of
     Inr n \<Rightarrow> n = of_nat (length data) \<and> \<not> closing (table s) \<and> unat offset + length data \<le> max (unat offset) max_size \<and>
       content s' = (content s)(ino \<mapsto> pwrite (offset, data) c)
   | Inl e \<Rightarrow>
       e = EIO \<and> closing (table s) \<and> content s' = content s \<or>
       e = EFBIG \<and> max_size < unat offset + length data \<and> content s' = content s \<or>
       faults (db s) \<noteq> [] \<and> (\<exists>n < length data. content s' = (content s)(ino \<mapsto> pwrite (offset, take n data) c)))"

lemma write_slot_spec:
  assumes run: "running {} s" and w: "w \<in> live (inodes (table s))" and ino: "ino_of (inodes (table s)) w = ino"
    and c: "content s ino = Some c" and fit: "unat offset + length data < 2 ^ 64"
  shows "\<exists>r s'. write_slot s w offset data now = Some (r, s') \<and> running {} s' \<and> steady w s s' \<and>
    written s ino offset data c r s'"
proof -
  have b: "buffers_ok {} (tabs (db s)) (inodes (table s)) (arena (table s))" using run by (simp add: running_def)
  then have iok: "inodes_ok (inodes (table s))" by (simp add: buffers_ok_def)
  note cols = live_columns[OF iok w]
  have reg: "kind_of (inodes (table s)) w = RegularFile"
    using c live_find[OF iok w] ino by (simp add: content_def content_in_def split: if_splits)
  have rf: "regular_file_error RegularFile = None" by simp
  show ?thesis
  proof (cases "closing (table s)")
    case True
    then have "write_slot s w offset data now = Some (Inl EIO, s)" using cols reg by (simp add: write_slot_def)
    with True run show ?thesis by (auto simp: written_def steady_refl[OF w])
  next
    case False
    show ?thesis
    proof (cases "span_new offset (length data)")
      case None
      then have e: "data = []" using span_new_Some[of "length data" offset] by auto
      then have "write_slot s w offset data now = Some (Inr 0, s)" using cols reg False by (simp add: write_slot_def)
      with e False run c show ?thesis by (auto simp: written_def steady_refl[OF w] pwrite_def fun_upd_idem)
    next
      case (Some sp)
      have en: "unat (sp_end sp) = unat offset + length data" by (rule span_end[OF Some fit])
      show ?thesis
      proof (cases "MAX_FILE_SIZE < sp_end sp")
        case big: True
        then have "write_slot s w offset data now = Some (Inl EFBIG, s)" using cols reg False Some by (simp add: write_slot_def)
        moreover have "max_size < unat offset + length data" using big en by (simp add: word_less_nat_alt max_size_unat)
        ultimately show ?thesis using run by (auto simp: written_def steady_refl[OF w])
      next
        case small: False
        then have top: "unat offset + length data \<le> max_size" using en by (simp add: word_less_nat_alt max_size_unat)
        then have sp: "is_span (unat offset) (length data) sp" using span_new_is_span[OF Some] max_size_lt by simp
        have "0 < length data" using sp unfolding is_span_def by blast
        with top have "unat offset + length data - 1 < max_size" by linarith
        then have last: "unat (sp_last sp) < 2 ^ 24" using sp div_lt_chunks by (simp add: is_span_def)
        let ?s = "stamped s w (from_system_time now)"
        note st = stamped_running[OF run, of w "from_system_time now"]
        have first: "min (length data) (unat (sp_first sp) * CHUNK_SIZE - unat offset) = 0"
          using sp by (simp add: is_span_def div_times_less_eq_dividend)
        have c0: "content ?s ino = Some (pwrite (offset, take (min (length data) (unat (sp_first sp) * CHUNK_SIZE - unat offset)) data) c)"
          unfolding first using c st(2) by (simp add: pwrite_def)
        have "unat offset div CHUNK_SIZE \<le> (unat offset + length data - 1) div CHUNK_SIZE"
          using \<open>0 < length data\<close> by (intro div_le_mono) linarith
        then have fl: "unat (sp_first sp) \<le> Suc (unat (sp_last sp))" using sp by (simp add: is_span_def)
        have wl: "w \<in> live (inodes (table ?s))" "ino_of (inodes (table ?s)) w = ino" using w ino by (simp_all add: stamped_def)
        obtain r s' where r: "write_chunks w ino sp data (span_chunks sp) ?s = Some (r, s')" "running {} s'" "steady w ?s s'"
          "case r of
             Inl e \<Rightarrow> faults (db ?s) \<noteq> [] \<and> (\<exists>n < length data. content s' = (content ?s)(ino \<mapsto> pwrite (offset, take n data) c))
           | Inr _ \<Rightarrow> content s' = (content ?s)(ino \<mapsto> pwrite (offset, data) c)"
          using write_loop[OF sp last span_chunks_set(2)[OF sp] order_refl fl st(1) wl c0] by blast
        have ws: "write_slot s w offset data now =
            try_then (write_chunks w ino sp data (span_chunks sp) ?s) (\<lambda>_ s. Some (Inr (of_nat (length data)), s))"
          using cols reg False Some small ino by (simp add: write_slot_def stamped_def)
        have db: "faults (db ?s) = faults (db s)" by (simp add: stamped_def)
        note sw = steady_trans[OF st(3)[OF w] r(3)]
        show ?thesis
        proof (cases r)
          case (Inl e)
          with r sw st(2) ws db show ?thesis by (auto simp: written_def)
        next
          case (Inr u)
          with r sw st(2) ws top False show ?thesis by (auto simp: written_def)
        qed
      qed
    qed
  qed
qed

section \<open>Slots by inode number\<close>

text \<open>What an operation on one file leaves as it is.\<close>

definition quiet :: "Shared \<Rightarrow> Shared \<Rightarrow> bool" where
  "quiet s s' \<longleftrightarrow> keeps s s' \<and> handles (table s') = handles (table s) \<and> closing (table s') = closing (table s) \<and>
     max_slots (arena (table s')) = max_slots (arena (table s)) \<and> new_rowid (db s') = new_rowid (db s) \<and>
     (faults (db s) = [] \<longrightarrow> faults (db s') = [])"

lemma quiet_refl [simp]: "quiet s s"
  by (simp add: quiet_def)

lemma quiet_trans: "quiet s t \<Longrightarrow> quiet t u \<Longrightarrow> quiet s u"
  using keeps_trans[of s t u] by (simp add: quiet_def)

lemma steady_quiet: "steady w s s' \<Longrightarrow> quiet s s'"
  by (simp add: steady_def quiet_def Let_def)

lemma flushed_quiet: "flushed s s' \<Longrightarrow> quiet s s'"
  using flushed_frame(3)[of s s'] by (auto simp: flushed_def quiet_def keeps_def steady_def Let_def)

lemma entry_cols:
  "entry ins s = (i, kd, z, m, r, g, d) \<longleftrightarrow> ino_of ins s = i \<and> kind_of ins s = kd \<and> size_of ins s = z \<and>
     mtime_of ins s = m \<and> refs_of ins s = r \<and> gone_of ins s = g \<and> dirty_of ins s = d"
  by (simp add: entry_def)

text \<open>A slot for an inode that has none keeps every content, when it starts with the stored kind and
  size.\<close>

lemma handle_slot_count:
  assumes "handles_match ins hs" "s \<notin> live ins" "s \<noteq> NO_SLOT"
  shows "count_list (h_slot hs) s = 0"
proof (rule ccontr)
  assume "count_list (h_slot hs) s \<noteq> 0"
  then have "s \<in> set (h_slot hs)" by (simp add: count_list_0_iff)
  then obtain i where i: "i < length (h_slot hs)" "h_slot hs ! i = s" by (auto simp: in_set_conv_nth)
  have "i < 2 ^ 32" using i(1) assms(1) by (auto simp: handles_match_def handles_ok_def)
  then have "unat (of_nat i :: u64) = i" by (simp add: unat_of_nat)
  then have "handles_get hs (of_nat i) = Some s" using i assms(3) by (simp add: handles_get_def)
  then show False using assms by (auto simp: handles_match_def)
qed

lemma live_not_NO_SLOT: "inodes_ok ins \<Longrightarrow> s \<in> live ins \<Longrightarrow> s \<noteq> NO_SLOT"
  using live_bound[of ins s] by (auto simp: inodes_ok_def columns_ok_def NO_SLOT_def unsigned_minus_1_eq_mask mask_eq_exp_minus_1)

lemma insert_slot:
  assumes run: "running {} s" and ins: "inserted (inodes (table s)) ino kind sz w t'"
    and slot: "slot_ok (tabs (db s)) (arena (table s)) ino kind sz []"
  shows "running {} (s\<lparr>table := (table s)\<lparr>inodes := t'\<rparr>\<rparr>)" and "content (s\<lparr>table := (table s)\<lparr>inodes := t'\<rparr>\<rparr>) = content s"
    and "w \<in> live t'" and "ino_of t' w = ino" and "kind_of t' w = kind" and "refs_of t' w = 0" and "\<not> gone_of t' w"
    and "dirty_of t' w = []" and "w \<noteq> NO_SLOT"
proof -
  define T ar t where "T = tabs (db s)" "ar = arena (table s)" "t = inodes (table s)"
  note defs = T_ar_t_def
  have b: "buffers_ok {} T t ar" and ok: "data_ok T" and hm: "handles_match t (handles (table s))"
    using run by (simp_all add: running_def defs)
  have iok: "inodes_ok t" and aok: "arena_ok ar" and own: "owners t ar {}" using b by (auto simp: buffers_ok_def)
  have ins: "inserted t ino kind sz w t'" and slot: "slot_ok T ar ino kind sz []" using ins slot by (simp_all add: defs)
  have iok': "inodes_ok t'" and new: "w \<notin> live t" "entry t' w = (ino, kind, sz, epoch, 0, False, [])"
    and old: "\<And>u. u \<in> live t \<Longrightarrow> entry t' u = entry t u"
    using ins by (auto simp: inserted_def)
  note lv = inserted_live[OF ins] and fd = inserted_find[OF ins]
  have ecols: "ino_of t' w = ino" "kind_of t' w = kind" "size_of t' w = sz" "refs_of t' w = 0" "\<not> gone_of t' w" "dirty_of t' w = []"
    using new(2) by (simp_all add: entry_cols)
  have ocols: "ino_of t' u = ino_of t u \<and> kind_of t' u = kind_of t u \<and> size_of t' u = size_of t u \<and> refs_of t' u = refs_of t u \<and>
      dirty_of t' u = dirty_of t u" if "u \<in> live t" for u
    using old[OF that] by (auto simp: entry_columns)
  show w': "w \<in> live t'" "ino_of t' w = ino" "kind_of t' w = kind" "refs_of t' w = 0" "\<not> gone_of t' w" "dirty_of t' w = []"
    using lv ecols by simp_all
  show nos: "w \<noteq> NO_SLOT" by (rule live_not_NO_SLOT[OF iok' w'(1)])
  have "(\<Union>u \<in> live t'. snd ` set (dirty_of t' u)) = (\<Union>u \<in> live t. snd ` set (dirty_of t u))"
    unfolding lv using ocols ecols(6) by simp
  moreover have "snd ` set (dirty_of t' u) \<inter> snd ` set (dirty_of t' v) = {}" if "u \<in> live t'" "v \<in> live t'" "u \<noteq> v" for u v
    using own that ocols ecols(6) unfolding lv owners_def by (cases "u = w"; cases "v = w") simp_all
  ultimately have "owners t' ar {}" using own ocols ecols(6) lv by (simp add: owners_def)
  then have b': "buffers_ok {} T t' ar"
    using b iok' slot lv ecols ocols by (simp add: buffers_ok_def)
  have hm': "handles_match t' (handles (table s))"
    using hm lv ocols ecols(4) handle_slot_count[OF hm new(1) nos] by (auto simp: handles_match_def)
  show "running {} (s\<lparr>table := (table s)\<lparr>inodes := t'\<rparr>\<rparr>)" using b' ok hm' by (simp add: running_def defs)
  have "content_in T t' ar i = content_in T t ar i" for i
  proof (cases "i = ino")
    case True
    have "inodes_find t ino = None"
    proof (rule ccontr)
      assume "inodes_find t ino \<noteq> None"
      then obtain u where u: "inodes_find t ino = Some u" by auto
      then have "u \<in> live t" "inodes_find t' ino = Some u"
        using find_live[OF iok u] live_find[OF iok', of u] lv ocols[of u] by auto
      with fd new(1) show False by simp
    qed
    with True fd content_clean[OF slot] ecols show ?thesis by (simp add: content_in_def split: if_splits)
  next
    case False
    then show ?thesis using fd ocols find_live(1)[OF iok] by (auto simp: content_in_def split: option.split)
  qed
  then show "content (s\<lparr>table := (table s)\<lparr>inodes := t'\<rparr>\<rparr>) = content s" by (simp add: content_def fun_eq_iff defs)
qed

text \<open>\<open>room\<close>: a slot number is left for one more open inode.\<close>

abbreviation room :: "Shared \<Rightarrow> bool" where "room s \<equiv> slot_available (inodes (table s))"

lemma inode_head_run:
  "\<exists>r d'. inode_head d ino = (r, d') \<and> tabs d' = tabs d \<and> new_rowid d' = new_rowid d \<and> (faults d = [] \<longrightarrow> faults d' = []) \<and>
    (file_bytes (tabs d) ino = Some c \<longrightarrow>
      (case r of Inl e \<Rightarrow> faults d \<noteq> [] | Inr (kind, sz) \<Rightarrow> kind = RegularFile \<and> unat sz = length c))"
proof -
  have "\<exists>r d'. inode_head d ino = (r, d') \<and> tabs d' = tabs d \<and> new_rowid d' = new_rowid d \<and> (faults d = [] \<longrightarrow> faults d' = [])"
    by (auto simp: inode_head_def query_def pop_fault_def split: list.splits option.splits)
  then obtain r d' where r: "inode_head d ino = (r, d')" "tabs d' = tabs d" "new_rowid d' = new_rowid d" "faults d = [] \<longrightarrow> faults d' = []"
    by blast
  moreover have "case r of Inl e \<Rightarrow> faults d \<noteq> [] | Inr (kind, sz) \<Rightarrow> kind = RegularFile \<and> unat sz = length c"
    if "file_bytes (tabs d) ino = Some c"
    using inode_head_file[OF that] r(1) by auto
  ultimately show ?thesis by blast
qed

lemma clean_slot_ok:
  assumes ok: "data_ok T" and c: "file_bytes T ino = Some c" and sz: "unat sz = length c"
  shows "slot_ok T ar ino RegularFile sz []"
proof -
  obtain r where r: "inode_row_of T ino = Some r" "r_kind r = kind_as_i64 RegularFile" "length c = row_size r"
    using file_bytes_row[OF c] by blast
  with row_size_le[OF ok r(1,2)] sz show ?thesis by (simp add: slot_ok_def)
qed

lemma slot_for_spec:
  assumes run: "running {} s" and room: "room s" and c: "content s ino = Some c"
  shows "\<exists>r s'. slot_for s ino = Some (r, s') \<and> running {} s' \<and> content s' = content s \<and> quiet s s' \<and>
    (case r of Inl e \<Rightarrow> faults (db s) \<noteq> [] | Inr w \<Rightarrow> w \<in> live (inodes (table s')) \<and> ino_of (inodes (table s')) w = ino)"
proof (cases "inodes_find (inodes (table s)) ino")
  case (Some w)
  have iok: "inodes_ok (inodes (table s))" using run by (simp add: running_def buffers_ok_def)
  have "slot_for s ino = Some (Inr w, s)" using Some by (simp add: slot_for_def)
  with find_live[OF iok Some] run show ?thesis by auto
next
  case None
  have ok: "data_ok (tabs (db s))" and iok: "inodes_ok (inodes (table s))" using run by (simp_all add: running_def buffers_ok_def)
  have c: "file_bytes (tabs (db s)) ino = Some c" using c None by (simp add: content_def content_in_def)
  obtain h d' where h: "inode_head (db s) ino = (h, d')" "tabs d' = tabs (db s)" "new_rowid d' = new_rowid (db s)"
    "faults (db s) = [] \<longrightarrow> faults d' = []"
    "case h of Inl e \<Rightarrow> faults (db s) \<noteq> [] | Inr (kind, sz) \<Rightarrow> kind = RegularFile \<and> unat sz = length c"
    using inode_head_run[of "db s" ino c] c by blast
  have s1: "running {} (s\<lparr>db := d'\<rparr>)" "content (s\<lparr>db := d'\<rparr>) = content s"
    using running_cong[OF run, of "s\<lparr>db := d'\<rparr>"] h(2) by simp_all
  show ?thesis
  proof (cases h)
    case (Inl e)
    have "slot_for s ino = Some (Inl (errno_from_db_error e), s\<lparr>db := d'\<rparr>)"
      using None h(1) Inl by (simp add: slot_for_def on_db_def)
    with s1 h Inl show ?thesis by (auto simp: quiet_def)
  next
    case (Inr kz)
    then obtain sz where hz: "h = Inr (RegularFile, sz)" "unat sz = length c" using h(5) by (cases kz) auto
    obtain w t' where ins: "inodes_insert (inodes (table s)) ino RegularFile sz = Some (w, t')"
      "inserted (inodes (table s)) ino RegularFile sz w t'"
      using inodes_insert_spec[OF iok None room] by blast
    let ?s' = "s\<lparr>db := d', table := (table s)\<lparr>inodes := t'\<rparr>\<rparr>"
    have "slot_for s ino = Some (Inr w, ?s')" using None h(1) hz(1) ins(1) by (simp add: slot_for_def on_db_def)
    moreover have sl: "slot_ok (tabs (db (s\<lparr>db := d'\<rparr>))) (arena (table (s\<lparr>db := d'\<rparr>))) ino RegularFile sz []"
      using clean_slot_ok[OF ok c hz(2)] h(2) by simp
    have i: "inserted (inodes (table (s\<lparr>db := d'\<rparr>))) ino RegularFile sz w t'" using ins(2) by simp
    note ii = insert_slot[OF s1(1) i sl]
    moreover have "keeps s ?s'"
      using ins(2) inserted_live[OF ins(2)] by (auto simp: keeps_def inserted_def entry_columns)
    then have "quiet s ?s'" using h by (simp add: quiet_def)
    ultimately show ?thesis using s1(2) by auto
  qed
qed

text \<open>Freeing a slot that nothing needs.\<close>

lemma free_idle:
  assumes run: "running {} s" and w: "w \<in> live (inodes (table s))"
  obtains t' where "free_if_idle (table s) w = Some t'" "running {} (s\<lparr>table := t'\<rparr>)" "content (s\<lparr>table := t'\<rparr>) = content s"
    "quiet s (s\<lparr>table := t'\<rparr>)"
proof -
  from free_if_idle_spec[OF run w] obtain t' where t: "free_if_idle (table s) w = Some t'" "running {} (s\<lparr>table := t'\<rparr>)"
    "content (s\<lparr>table := t'\<rparr>) = content s" "handles t' = handles (table s)" "arena t' = arena (table s)" "closing t' = closing (table s)"
    "live (inodes t') = live (inodes (table s)) - {w} \<and> (\<forall>u \<in> live (inodes t'). entry (inodes t') u = entry (inodes (table s)) u) \<and>
       refs_of (inodes (table s)) w = 0 \<or> t' = table s"
    by (auto split: if_splits)
  then have "keeps s (s\<lparr>table := t'\<rparr>)" by (intro keeps_freed[of _ _ w]) auto
  with t that show thesis by (simp add: quiet_def)
qed

lemma fs_write_spec:
  assumes run: "running {} s" and room: "room s" and c: "content s ino = Some c" and fit: "unat offset + length data < 2 ^ 64"
  shows "\<exists>r s'. fs_write s ino offset data now = Some (r, s') \<and> running {} s' \<and> quiet s s' \<and>
    (if data = [] then r = Inr 0 \<and> s' = s else written s ino offset data c r s')"
proof (cases "data = []")
  case True
  then show ?thesis using run by (simp add: fs_write_def)
next
  case False
  obtain r s1 where s1: "slot_for s ino = Some (r, s1)" "running {} s1" "content s1 = content s" "quiet s s1"
    "case r of Inl e \<Rightarrow> faults (db s) \<noteq> [] | Inr w \<Rightarrow> w \<in> live (inodes (table s1)) \<and> ino_of (inodes (table s1)) w = ino"
    using slot_for_spec[OF run room c] by blast
  show ?thesis
  proof (cases r)
    case (Inl e)
    then have "fs_write s ino offset data now = Some (Inl e, s1)" using s1(1) False by (simp add: fs_write_def)
    moreover have "content s1 = (content s)(ino \<mapsto> pwrite (offset, take 0 data) c)"
      using s1(3) c by (simp add: pwrite_def fun_upd_idem)
    then have "written s ino offset data c (Inl e) s1"
      using s1(5) Inl False unfolding written_def by (simp only: sum.case) blast
    ultimately show ?thesis using s1 False by simp
  next
    case (Inr w)
    then have w: "w \<in> live (inodes (table s1))" "ino_of (inodes (table s1)) w = ino" using s1(5) by simp_all
    have c1: "content s1 ino = Some c" using c s1(3) by simp
    obtain q s2 where q: "write_slot s1 w offset data now = Some (q, s2)" "running {} s2" "steady w s1 s2" "written s1 ino offset data c q s2"
      using write_slot_spec[OF s1(2) w c1 fit] by blast
    obtain t' where t: "free_if_idle (table s2) w = Some t'" "running {} (s2\<lparr>table := t'\<rparr>)" "content (s2\<lparr>table := t'\<rparr>) = content s2"
      "quiet s2 (s2\<lparr>table := t'\<rparr>)" using free_idle[OF q(2) steady_live[OF q(3)]] by blast
    have "fs_write s ino offset data now = Some (q, s2\<lparr>table := t'\<rparr>)"
      using s1(1) Inr False q(1) t(1) by (simp add: fs_write_def)
    moreover have "written s ino offset data c q (s2\<lparr>table := t'\<rparr>)"
      using q(4) s1(3,4) t(3) unfolding written_def quiet_def by (auto split: sum.splits)
    moreover have "quiet s (s2\<lparr>table := t'\<rparr>)"
      using quiet_trans[OF quiet_trans[OF s1(4) steady_quiet[OF q(3)]] t(4)] .
    ultimately show ?thesis using t(2) False by simp
  qed
qed

section \<open>Reading and truncating\<close>

lemma fs_read_spec:
  assumes run: "running {} s" and c: "content s ino = Some c"
  shows "\<exists>r s'. fs_read s ino offset n = Some (r, s') \<and> running {} s' \<and> content s' = content s \<and>
    (case r of Inl e \<Rightarrow> faults (db s) \<noteq> [] | Inr out \<Rightarrow> out = pread offset n c)"
proof (cases "inodes_find (inodes (table s)) ino")
  case (Some w)
  have iok: "inodes_ok (inodes (table s))" using run by (simp add: running_def buffers_ok_def)
  note w = find_live[OF iok Some]
  have c: "content s (ino_of (inodes (table s)) w) = Some c" using c w(2) by simp
  obtain r d' where r: "read_slot s w offset n = Some (r, s\<lparr>db := d'\<rparr>)" "tabs d' = tabs (db s)"
    "case r of Inl e \<Rightarrow> faults (db s) \<noteq> [] | Inr out \<Rightarrow> out = pread offset n c"
    using read_slot_spec[OF run w(1) c] by blast
  then show ?thesis using running_cong[OF run, of "s\<lparr>db := d'\<rparr>"] Some by (auto simp: fs_read_def)
next
  case None
  have ok: "data_ok (tabs (db s))" using run by (simp add: running_def)
  have c: "file_bytes (tabs (db s)) ino = Some c" using c None by (simp add: content_def content_in_def)
  obtain r d' where r: "read_file (db s) ino offset n = Some (r, d')" "tabs d' = tabs (db s)"
    "case r of Inl e \<Rightarrow> faults (db s) \<noteq> [] | Inr out \<Rightarrow> out = pread offset n c"
    using read_file_slice[OF ok c] by blast
  then have "fs_read s ino offset n = Some (map_sum errno_from_db_error id r, s\<lparr>db := d'\<rparr>)"
    using None by (simp add: fs_read_def)
  moreover have "case map_sum errno_from_db_error id r of Inl e \<Rightarrow> faults (db s) \<noteq> [] | Inr out \<Rightarrow> out = pread offset n c"
    using r(3) by (cases r) simp_all
  ultimately show ?thesis using running_cong[OF run, of "s\<lparr>db := d'\<rparr>"] r(2) by auto
qed

text \<open>A change of one file in the database, under a clean slot or no slot.\<close>

lemma resized_slot:
  assumes b: "buffers_ok X T ins ar" and ok: "data_ok T" and w: "w \<in> live ins" and reg: "kind_of ins w = RegularFile"
    and clean: "dirty_of ins w = []" and T': "data_ok T'" "others_same T (ino_of ins w) T'"
    and c: "file_bytes T' (ino_of ins w) = Some c" "unat z = length c"
  defines "ins' \<equiv> ins\<lparr>oi_size := (oi_size ins)[unat w := z]\<rparr>"
  shows "buffers_ok X T' ins' ar" and "content_in T' ins' ar = (content_in T ins ar)(ino_of ins w \<mapsto> c)"
proof -
  have iok: "inodes_ok ins" using b by (simp add: buffers_ok_def)
  note col = column_update[OF live_columns(3)[OF iok w]]
  have new: "slot_ok T' ar (ino_of ins w) RegularFile z []" by (rule clean_slot_ok[OF T'(1) c])
  have other: "slot_ok T' ar (ino_of ins u) (kind_of ins u) (size_of ins u) (dirty_of ins u)"
    "kind_of ins u = RegularFile \<Longrightarrow> slot_content T' ar (ino_of ins u) (size_of ins u) (dirty_of ins u) =
       slot_content T ar (ino_of ins u) (size_of ins u) (dirty_of ins u)" if u: "u \<in> live ins" "u \<noteq> w" for u
    by (rule slot_other[OF ok buffers_live(1)[OF b u(1)] T'(2) live_inos_differ[OF iok u(1) w u(2)] refl]; assumption)+
  have "inodes_ok ins'" unfolding ins'_def by (rule inodes_ok_update(1)[OF iok]) simp
  moreover have "owners ins' ar X" using b by (simp add: buffers_ok_def owners_def ins'_def)
  moreover have "slot_ok T' ar (ino_of ins' u) (kind_of ins' u) (size_of ins' u) (dirty_of ins' u)" if "u \<in> live ins" for u
    using new other(1)[OF that] clean reg by (simp add: ins'_def col)
  ultimately show "buffers_ok X T' ins' ar" using b by (simp add: buffers_ok_def ins'_def)
  show "content_in T' ins' ar = (content_in T ins ar)(ino_of ins w \<mapsto> c)"
  proof
    fix i
    show "content_in T' ins' ar i = ((content_in T ins ar)(ino_of ins w \<mapsto> c)) i"
    proof (cases "inodes_find ins i")
      case None
      then have "i \<noteq> ino_of ins w" using live_find[OF iok w] by auto
      with None T'(2) show ?thesis by (simp add: content_in_def others_same_def ins'_def)
    next
      case (Some u)
      note u = find_live[OF iok Some]
      show ?thesis
      proof (cases "u = w")
        case True
        with Some u(2) reg clean slot_content_clean[OF c] show ?thesis by (simp add: content_in_def ins'_def col)
      next
        case False
        then have "i \<noteq> ino_of ins w" using live_inos_differ[OF iok u(1) w] u(2) by simp
        with False Some u other(2)[OF u(1) False] show ?thesis by (simp add: content_in_def ins'_def col)
      qed
    qed
  qed
qed

definition files_same :: "tables \<Rightarrow> u64 \<Rightarrow> tables \<Rightarrow> bool" where
  "files_same t ino t' \<longleftrightarrow> (\<forall>i. i \<noteq> ino \<longrightarrow> head t' i = head t i \<and> file_bytes t' i = file_bytes t i \<and>
     (\<forall>k < 2 ^ 24. valid_ino i \<longrightarrow> chunk_row t' i k = chunk_row t i k))"

lemma others_files: "others_same t ino t' \<Longrightarrow> files_same t ino t'"
  by (simp add: others_same_def files_same_def)

lemma unopened_change:
  assumes b: "buffers_ok X T ins ar" and ok: "data_ok T" and none: "inodes_find ins ino = None"
    and T': "files_same T ino T'"
  shows "buffers_ok X T' ins ar" and "content_in T' ins ar = (content_in T ins ar)(ino := file_bytes T' ino)"
proof -
  have iok: "inodes_ok ins" using b by (simp add: buffers_ok_def)
  have ne: "ino_of ins u \<noteq> ino" if "u \<in> live ins" for u using live_find[OF iok that] none by auto
  have same: "head T' i = head T i" "valid_ino i \<Longrightarrow> k < 2 ^ 24 \<Longrightarrow> chunk_row T' i k = chunk_row T i k"
    "file_bytes T' i = file_bytes T i" if "i \<noteq> ino" for i k
    using T' that by (simp_all add: files_same_def)
  have other: "slot_ok T' ar (ino_of ins u) (kind_of ins u) (size_of ins u) (dirty_of ins u)"
    "kind_of ins u = RegularFile \<Longrightarrow> slot_content T' ar (ino_of ins u) (size_of ins u) (dirty_of ins u) =
       slot_content T ar (ino_of ins u) (size_of ins u) (dirty_of ins u)" if u: "u \<in> live ins" for u
    by (rule slot_cong[OF ok buffers_live(1)[OF b u] same(1)[OF ne[OF u]] same(2)[OF ne[OF u]] refl]; assumption)+
  show "buffers_ok X T' ins ar" using b other(1) by (simp add: buffers_ok_def)
  show "content_in T' ins ar = (content_in T ins ar)(ino := file_bytes T' ino)"
  proof
    fix i
    show "content_in T' ins ar i = ((content_in T ins ar)(ino := file_bytes T' ino)) i"
    proof (cases "inodes_find ins i")
      case None
      then show ?thesis using same(3) by (simp add: content_in_def)
    next
      case (Some u)
      note u = find_live[OF iok Some]
      then have "i \<noteq> ino" using ne by auto
      with Some u other(2)[OF u(1)] show ?thesis by (simp add: content_in_def)
    qed
  qed
qed

lemma truncate_file_rowid [simp]: "new_rowid (snd (truncate_file d ino sz now)) = new_rowid d"
  by (auto simp: truncate_file_def inode_kind_of_def query_def transaction_def try_transaction_def pop_fault_def and_then_def Let_def split: list.splits option.splits sum.splits prod.splits)

lemma truncate_run:
  assumes ok: "data_ok (tabs d)" and c: "file_bytes (tabs d) ino = Some c"
  obtains r d' where "truncate_file d ino sz now = (r, d')" "new_rowid d' = new_rowid d" "faults d = [] \<longrightarrow> faults d' = []"
    "case r of
       Inl e \<Rightarrow> tabs d' = tabs d \<and> (faults d \<noteq> [] \<or> e = FileTooLarge \<and> max_size < unat sz)
     | Inr _ \<Rightarrow> unat sz \<le> max_size \<and> data_ok (tabs d') \<and> file_bytes (tabs d') ino = Some (resize (unat sz) c) \<and>
         others_same (tabs d) ino (tabs d')"
proof (cases "truncate_file d ino sz now")
  case (Pair r d')
  have "new_rowid d' = new_rowid d" using truncate_file_rowid[of d ino sz now] Pair by simp
  with that[OF Pair] truncate_file_spec[OF ok c, of sz now] Pair show thesis by (cases r) auto
qed

definition resized :: "Shared \<Rightarrow> u64 \<Rightarrow> u64 \<Rightarrow> bytes \<Rightarrow> errno + unit \<Rightarrow> Shared \<Rightarrow> bool" where
  "resized s ino sz c r s' \<longleftrightarrow> (case r of
     Inl e \<Rightarrow> content s' = content s \<and> (faults (db s) \<noteq> [] \<or> e = EFBIG \<and> max_size < unat sz)
   | Inr _ \<Rightarrow> unat sz \<le> max_size \<and> content s' = (content s)(ino \<mapsto> resize (unat sz) c))"

lemma truncate_unopened:
  assumes run: "running {} s" and c: "content s ino = Some c" and none: "inodes_find (inodes (table s)) ino = None"
  shows "\<exists>r s'. truncate_locked s ino sz now = Some (r, s') \<and> running {} s' \<and> quiet s s' \<and> resized s ino sz c r s'"
proof -
  have ok: "data_ok (tabs (db s))" and b: "buffers_ok {} (tabs (db s)) (inodes (table s)) (arena (table s))"
    using run by (simp_all add: running_def)
  have c: "file_bytes (tabs (db s)) ino = Some c" using c none by (simp add: content_def content_in_def)
  obtain r d' where t: "truncate_file (db s) ino sz now = (r, d')" "new_rowid d' = new_rowid (db s)" "faults (db s) = [] \<longrightarrow> faults d' = []"
    "case r of
       Inl e \<Rightarrow> tabs d' = tabs (db s) \<and> (faults (db s) \<noteq> [] \<or> e = FileTooLarge \<and> max_size < unat sz)
     | Inr _ \<Rightarrow> unat sz \<le> max_size \<and> data_ok (tabs d') \<and> file_bytes (tabs d') ino = Some (resize (unat sz) c) \<and>
         others_same (tabs (db s)) ino (tabs d')"
    using truncate_run[OF ok c, of sz now] by metis
  have q: "quiet s (s\<lparr>db := d'\<rparr>)" using t(2,3) by (simp add: quiet_def)
  show ?thesis
  proof (cases r)
    case (Inl e)
    then have "truncate_locked s ino sz now = Some (Inl (errno_from_db_error e), s\<lparr>db := d'\<rparr>)"
      using none t(1) by (simp add: truncate_locked_def on_db_def)
    moreover have "running {} (s\<lparr>db := d'\<rparr>)" "content (s\<lparr>db := d'\<rparr>) = content s"
      using running_cong[OF run, of "s\<lparr>db := d'\<rparr>"] t(4) Inl by simp_all
    ultimately show ?thesis using q t(4) Inl by (auto simp: resized_def)
  next
    case (Inr u)
    then have T': "unat sz \<le> max_size" "data_ok (tabs d')" "file_bytes (tabs d') ino = Some (resize (unat sz) c)"
      "others_same (tabs (db s)) ino (tabs d')" using t(4) by simp_all
    have "truncate_locked s ino sz now = Some (Inr (), s\<lparr>db := d'\<rparr>)"
      using none t(1) Inr by (simp add: truncate_locked_def on_db_def)
    moreover have "running {} (s\<lparr>db := d'\<rparr>)"
      using unopened_change(1)[OF b ok none others_files[OF T'(4)]] T'(2) run by (simp add: running_def)
    moreover have "content (s\<lparr>db := d'\<rparr>) = (content s)(ino \<mapsto> resize (unat sz) c)"
      using unopened_change(2)[OF b ok none others_files[OF T'(4)]] T'(3) by (simp add: content_def)
    ultimately show ?thesis using q T'(1) by (auto simp: resized_def)
  qed
qed

lemma truncate_opened:
  assumes run: "running {} s" and c: "content s ino = Some c" and find: "inodes_find (inodes (table s)) ino = Some w"
  shows "\<exists>r s'. truncate_locked s ino sz now = Some (r, s') \<and> running {} s' \<and> quiet s s' \<and> resized s ino sz c r s'"
proof -
  have iok: "inodes_ok (inodes (table s))" using run by (simp add: running_def buffers_ok_def)
  note w = find_live[OF iok find]
  from flush_slot_spec[OF run w(1), of Persist] obtain q s1 where f:
    "flush_slot s w Persist = Some (q, s1)" "running {} s1" "flushed s s1"
    "case q of Inl e \<Rightarrow> faults (db s) \<noteq> [] | Inr _ \<Rightarrow> dirty_of (inodes (table s1)) w = []"
    by (elim exE conjE) (rule that, assumption+, auto split: sum.splits if_splits)
  note fr = flushed_frame[OF f(3)]
  have q1: "quiet s s1" and cont1: "content s1 = content s" using f(3) by (simp_all add: flushed_quiet flushed_def)
  show ?thesis
  proof (cases q)
    case (Inl e)
    then have "truncate_locked s ino sz now = Some (Inl e, s1)" using find f(1) by (simp add: truncate_locked_def)
    with f(2,4) q1 cont1 Inl show ?thesis by (auto simp: resized_def)
  next
    case (Inr u)
    define ins T ar where "ins = inodes (table s1)" "T = tabs (db s1)" "ar = arena (table s1)"
    note defs = ins_T_ar_def
    have clean: "dirty_of ins w = []" using f(4) Inr by (simp add: defs)
    have find1: "inodes_find ins ino = Some w" using fr(2) find by (simp add: defs)
    have b: "buffers_ok {} T ins ar" and ok: "data_ok T" using f(2) by (simp_all add: running_def defs)
    have iok1: "inodes_ok ins" using b by (simp add: buffers_ok_def)
    note w1 = find_live[OF iok1 find1]
    have c1: "content_in T ins ar ino = Some c" using c cont1 by (simp add: content_def defs)
    then have reg: "kind_of ins w = RegularFile" using find1 by (simp add: content_in_def split: if_splits)
    have fb: "file_bytes T ino = Some c"
      using content_clean[of T ar ino "kind_of ins w" "size_of ins w"] buffers_live(1)[OF b w1(1)] clean w1(2) c1 find1 reg
      by (simp add: content_in_def)
    obtain r d' where t: "truncate_file (db s1) ino sz now = (r, d')" "new_rowid d' = new_rowid (db s1)" "faults (db s1) = [] \<longrightarrow> faults d' = []"
      "case r of
         Inl e \<Rightarrow> tabs d' = T \<and> (faults (db s1) \<noteq> [] \<or> e = FileTooLarge \<and> max_size < unat sz)
       | Inr _ \<Rightarrow> unat sz \<le> max_size \<and> data_ok (tabs d') \<and> file_bytes (tabs d') ino = Some (resize (unat sz) c) \<and>
           others_same T ino (tabs d')"
      using truncate_run[of "db s1" ino c sz now] ok fb unfolding defs by metis
    have fl: "faults (db s1) \<noteq> [] \<longrightarrow> faults (db s) \<noteq> []" using q1 by (auto simp: quiet_def)
    show ?thesis
    proof (cases r)
      case (Inl e)
      have "truncate_locked s ino sz now = Some (Inl (errno_from_db_error e), s1\<lparr>db := d'\<rparr>)"
        using find f(1) Inr t(1) Inl by (simp add: truncate_locked_def on_db_def)
      moreover have "running {} (s1\<lparr>db := d'\<rparr>)" "content (s1\<lparr>db := d'\<rparr>) = content s"
        using running_cong[OF f(2), of "s1\<lparr>db := d'\<rparr>"] t(4) Inl cont1 by (simp_all add: defs)
      moreover have "quiet s (s1\<lparr>db := d'\<rparr>)" using q1 t(2,3) by (simp add: quiet_def)
      ultimately show ?thesis using t(4) Inl fl by (auto simp: resized_def)
    next
      case (Inr v)
      then have T': "unat sz \<le> max_size" "data_ok (tabs d')" "file_bytes (tabs d') (ino_of ins w) = Some (resize (unat sz) c)"
        "others_same T (ino_of ins w) (tabs d')" using t(4) w1(2) by simp_all
      let ?ins = "ins\<lparr>oi_size := (oi_size ins)[unat w := sz]\<rparr>"
      let ?s2 = "s1\<lparr>db := d', table := (table s1)\<lparr>inodes := ?ins\<rparr>\<rparr>"
      have len: "unat sz = length (resize (unat sz) c)" by simp
      note rs = resized_slot[OF b ok w1(1) reg clean T'(2,4,3) len]
      have run2: "running {} ?s2" using rs(1) T'(2) f(2) by (simp add: running_def handles_match_def defs)
      have cont2: "content ?s2 = (content s)(ino \<mapsto> resize (unat sz) c)"
        using rs(2) cont1 w1(2) by (simp add: content_def defs)
      have "keeps s1 ?s2" by (rule keeps_columns) (simp_all add: defs)
      then have q2: "quiet s ?s2" using q1 t(2,3) keeps_trans[of s s1 ?s2] by (simp add: quiet_def)
      have "w \<in> live (inodes (table ?s2))" using w1(1) by simp
      then obtain t' where t': "free_if_idle (table ?s2) w = Some t'" "running {} (?s2\<lparr>table := t'\<rparr>)"
        "content (?s2\<lparr>table := t'\<rparr>) = content ?s2" "quiet ?s2 (?s2\<lparr>table := t'\<rparr>)" using free_idle[OF run2] by blast
      have "truncate_locked s ino sz now = Some (Inr (), ?s2\<lparr>table := t'\<rparr>)"
        using find f(1) \<open>q = Inr u\<close> t(1) Inr t'(1) live_columns(3)[OF iok1 w1(1)]
        by (simp add: truncate_locked_def on_db_def defs)
      moreover have "resized s ino sz c (Inr ()) (?s2\<lparr>table := t'\<rparr>)" using T'(1) t'(3) cont2 by (simp add: resized_def)
      ultimately show ?thesis using t'(2) quiet_trans[OF q2 t'(4)] by blast
    qed
  qed
qed

lemma truncate_locked_spec:
  assumes "running {} s" "content s ino = Some c"
  shows "\<exists>r s'. truncate_locked s ino sz now = Some (r, s') \<and> running {} s' \<and> quiet s s' \<and> resized s ino sz c r s'"
  using truncate_unopened[OF assms] truncate_opened[OF assms]
  by (cases "inodes_find (inodes (table s)) ino") blast+

section \<open>The buffering layer as a file store\<close>

text \<open>The contract asks for a free slot number, and for an offset that the kernel can send, a
  non-negative \<^verbatim>\<open>i64\<close>.\<close>

definition guarded_write :: "SystemTime \<Rightarrow> Shared \<Rightarrow> u64 \<Rightarrow> u64 \<Rightarrow> bytes \<Rightarrow> u32 outcome" where
  "guarded_write now s ino offset data =
     (if room s \<and> unat offset < 2 ^ 63 then fs_write s ino offset data now else None)"

lemma fs_write_law:
  assumes run: "running {} s" and c: "content s ino = Some c" and len: "length data < 2 ^ 32"
    and g: "guarded_write now s ino offset data = Some (Inr m, s')"
  shows "running {} s' \<and> unat m = length data \<and> content s' = (content s)(ino \<mapsto> pwrite (offset, data) c)"
proof -
  have g: "room s" "unat offset < 2 ^ 63" "fs_write s ino offset data now = Some (Inr m, s')"
    using g by (auto simp: guarded_write_def split: if_splits)
  have "unat offset + length data < 2 ^ 64" using g(2) len by simp
  from fs_write_spec[OF run g(1) c this, of now] g(3)
  have s': "running {} s'" "if data = [] then m = 0 \<and> s' = s else written s ino offset data c (Inr m) s'" by auto
  show ?thesis
  proof (cases "data = []")
    case True
    with s' c show ?thesis by (simp add: pwrite_def fun_upd_idem)
  next
    case False
    with s' len show ?thesis by (simp add: written_def unat_of_nat)
  qed
qed

lemma fs_read_law:
  assumes "running {} s" "content s ino = Some c" "fs_read s ino offset n = Some (Inr out, s')"
  shows "running {} s' \<and> out = pread offset n c \<and> content s' = content s"
  using fs_read_spec[OF assms(1,2), of offset n] assms(3) by auto

lemma truncate_locked_law:
  assumes "running {} s" "content s ino = Some c" "truncate_locked s ino n now = Some (Inr (), s')"
  shows "running {} s' \<and> content s' = (content s)(ino \<mapsto> resize (unat n) c)"
  using truncate_locked_spec[OF assms(1,2), of n now] assms(3) by (auto simp: resized_def)

interpretation buffered: file_store "running {}" content fs_read "guarded_write stime" "\<lambda>s ino n. truncate_locked s ino n now"
  for stime :: SystemTime and now :: Timestamp
  by unfold_locales (auto dest: fs_read_law fs_write_law truncate_locked_law)

section \<open>Flushing everything\<close>

text \<open>The loop of \<open>flush_all\<close>: every slot visited is clean afterwards, unless its flush failed or its
  inode was unlinked while open. Slots are only freed, never moved.\<close>

definition settled :: "Shared \<Rightarrow> Slot \<Rightarrow> bool" where
  "settled s w \<longleftrightarrow> w \<in> live (inodes (table s)) \<longrightarrow> dirty_of (inodes (table s)) w = [] \<or> gone_of (inodes (table s)) w"

definition subsides :: "Shared \<Rightarrow> Shared \<Rightarrow> bool" where
  "subsides s s' \<longleftrightarrow> quiet s s' \<and> content s' = content s \<and> live (inodes (table s')) \<subseteq> live (inodes (table s)) \<and>
     (\<forall>u \<in> live (inodes (table s')). ino_of (inodes (table s')) u = ino_of (inodes (table s)) u \<and>
        gone_of (inodes (table s')) u = gone_of (inodes (table s)) u \<and> refs_of (inodes (table s')) u = refs_of (inodes (table s)) u \<and>
        set (dirty_of (inodes (table s')) u) \<subseteq> set (dirty_of (inodes (table s)) u))"

lemma subsides_refl [simp]: "subsides s s"
  by (simp add: subsides_def)

lemma subsides_trans:
  assumes "subsides s t" "subsides t u"
  shows "subsides s u"
proof -
  have st: "quiet s t" "content t = content s" "live (inodes (table t)) \<subseteq> live (inodes (table s))" and
    tu: "quiet t u" "content u = content t" "live (inodes (table u)) \<subseteq> live (inodes (table t))"
    using assms by (simp_all add: subsides_def)
  have "ino_of (inodes (table u)) w = ino_of (inodes (table s)) w \<and> gone_of (inodes (table u)) w = gone_of (inodes (table s)) w \<and>
      refs_of (inodes (table u)) w = refs_of (inodes (table s)) w \<and>
      set (dirty_of (inodes (table u)) w) \<subseteq> set (dirty_of (inodes (table s)) w)" if w: "w \<in> live (inodes (table u))" for w
  proof -
    note w' = subsetD[OF tu(3) w]
    from assms(2) w have "ino_of (inodes (table u)) w = ino_of (inodes (table t)) w" "gone_of (inodes (table u)) w = gone_of (inodes (table t)) w"
      "refs_of (inodes (table u)) w = refs_of (inodes (table t)) w" "set (dirty_of (inodes (table u)) w) \<subseteq> set (dirty_of (inodes (table t)) w)"
      unfolding subsides_def by simp_all
    moreover from assms(1) w' have "ino_of (inodes (table t)) w = ino_of (inodes (table s)) w" "gone_of (inodes (table t)) w = gone_of (inodes (table s)) w"
      "refs_of (inodes (table t)) w = refs_of (inodes (table s)) w" "set (dirty_of (inodes (table t)) w) \<subseteq> set (dirty_of (inodes (table s)) w)"
      unfolding subsides_def by simp_all
    ultimately show ?thesis by (intro conjI) (simp, simp, simp, rule subset_trans)
  qed
  with st tu quiet_trans[OF st(1) tu(1)] show ?thesis unfolding subsides_def by (simp add: subset_trans[OF tu(3) st(3)])
qed

lemma settled_subsides: "settled s w \<Longrightarrow> subsides s s' \<Longrightarrow> settled s' w"
  unfolding settled_def subsides_def by fastforce

lemma flush_turn:
  assumes run: "running {} s" and w: "w \<in> live (inodes (table s))"
  shows "\<exists>q s1. flush_slot s w Skip = Some (q, s1) \<and> running {} s1 \<and> subsides s s1 \<and> w \<in> live (inodes (table s1)) \<and>
    live (inodes (table s1)) = live (inodes (table s)) \<and>
    (case q of Inl e \<Rightarrow> faults (db s) \<noteq> [] | Inr _ \<Rightarrow> settled s1 w)"
proof -
  from flush_slot_spec[OF run w, of Skip] obtain q s1 where f:
    "flush_slot s w Skip = Some (q, s1)" "running {} s1" "flushed s s1"
    "\<forall>u. u \<noteq> w \<longrightarrow> dirty_of (inodes (table s1)) u = dirty_of (inodes (table s)) u"
    "case q of Inl e \<Rightarrow> table s1 = table s \<and> faults (db s) \<noteq> []
     | Inr _ \<Rightarrow> s1 = s \<and> (dirty_of (inodes (table s)) w = [] \<or> gone_of (inodes (table s)) w) \<or> dirty_of (inodes (table s1)) w = []"
    by (elim exE conjE) (rule that, assumption+, auto split: sum.splits if_splits)
  note fr = flushed_frame[OF f(3)]
  have "set (dirty_of (inodes (table s1)) u) \<subseteq> set (dirty_of (inodes (table s)) u)" for u
    using f(4,5) by (cases "u = w"; cases q) auto
  moreover have "ino_of (inodes (table s1)) u = ino_of (inodes (table s)) u \<and> gone_of (inodes (table s1)) u = gone_of (inodes (table s)) u \<and>
      refs_of (inodes (table s1)) u = refs_of (inodes (table s)) u" if "u \<in> live (inodes (table s))" for u
    using fr(3)[OF that] by (simp add: steady_def Let_def)
  ultimately have "subsides s s1" using f(3) fr(1) by (simp add: subsides_def flushed_quiet flushed_def)
  then show ?thesis using f w fr(1) by (cases q) (auto simp: settled_def)
qed

lemma idle_turn:
  assumes run: "running {} s" and w: "w \<in> live (inodes (table s))"
  shows "\<exists>t'. free_if_idle (table s) w = Some t' \<and> running {} (s\<lparr>table := t'\<rparr>) \<and> subsides s (s\<lparr>table := t'\<rparr>) \<and>
    live (inodes (table s)) - {w} \<subseteq> live (inodes t')"
proof -
  obtain t' where t: "free_if_idle (table s) w = Some t'" "running {} (s\<lparr>table := t'\<rparr>)" "content (s\<lparr>table := t'\<rparr>) = content s"
    "handles t' = handles (table s)" "arena t' = arena (table s)" "closing t' = closing (table s)"
    "live (inodes t') = live (inodes (table s)) - {w} \<and> (\<forall>u \<in> live (inodes t'). entry (inodes t') u = entry (inodes (table s)) u) \<and>
       refs_of (inodes (table s)) w = 0 \<or> t' = table s"
    using free_if_idle_spec[OF run w] by (auto split: if_splits)
  then have "keeps s (s\<lparr>table := t'\<rparr>)" by (intro keeps_freed[of _ _ w]) auto
  with t have "subsides s (s\<lparr>table := t'\<rparr>)"
    by (auto simp: subsides_def quiet_def entry_columns)
  with t show ?thesis by auto
qed

lemma flush_slots_spec:
  assumes "running {} s" "distinct ws" "set ws \<subseteq> live (inodes (table s))"
  shows "\<exists>fe' s'. flush_slots ws fe s = Some (fe', s') \<and> running {} s' \<and> subsides s s' \<and>
    (faults (db s) = [] \<longrightarrow> fe' = fe) \<and> (fe \<noteq> None \<longrightarrow> fe' = fe) \<and> (fe' = None \<longrightarrow> (\<forall>w \<in> set ws. settled s' w))"
  using assms
proof (induction ws arbitrary: s fe)
  case (Cons w ws)
  have w: "w \<in> live (inodes (table s))" using Cons.prems(3) by simp
  obtain q s1 where q: "flush_slot s w Skip = Some (q, s1)" "running {} s1" "subsides s s1" "w \<in> live (inodes (table s1))"
    "live (inodes (table s1)) = live (inodes (table s))"
    "case q of Inl e \<Rightarrow> faults (db s) \<noteq> [] | Inr _ \<Rightarrow> settled s1 w" using flush_turn[OF Cons.prems(1) w] by blast
  have fl: "faults (db s) = [] \<longrightarrow> faults (db s1) = []" using q(3) by (simp add: subsides_def quiet_def)
  show ?case
  proof (cases q)
    case (Inl e)
    have sub: "distinct ws" "set ws \<subseteq> live (inodes (table s1))" using Cons.prems q(5) by auto
    let ?fe = "case fe of None \<Rightarrow> Some e | Some e' \<Rightarrow> Some e'"
    obtain fe' s' where r: "flush_slots ws ?fe s1 = Some (fe', s')" "running {} s'" "subsides s1 s'" "?fe \<noteq> None \<longrightarrow> fe' = ?fe"
      using Cons.IH[OF q(2) sub, of ?fe] by blast
    have "fe' = ?fe" using r(4) by (simp split: option.splits)
    with r q Inl subsides_trans[OF q(3) r(3)] show ?thesis by (auto split: option.splits)
  next
    case (Inr u)
    obtain t' where t: "free_if_idle (table s1) w = Some t'" "running {} (s1\<lparr>table := t'\<rparr>)" "subsides s1 (s1\<lparr>table := t'\<rparr>)"
      "live (inodes (table s1)) - {w} \<subseteq> live (inodes t')" using idle_turn[OF q(2,4)] by blast
    have sub: "distinct ws" "set ws \<subseteq> live (inodes (table (s1\<lparr>table := t'\<rparr>)))" using Cons.prems q(5) t(4) by auto
    obtain fe' s' where r: "flush_slots ws fe (s1\<lparr>table := t'\<rparr>) = Some (fe', s')" "running {} s'" "subsides (s1\<lparr>table := t'\<rparr>) s'"
      "faults (db (s1\<lparr>table := t'\<rparr>)) = [] \<longrightarrow> fe' = fe" "fe \<noteq> None \<longrightarrow> fe' = fe"
      "fe' = None \<longrightarrow> (\<forall>w \<in> set ws. settled s' w)"
      using Cons.IH[OF t(2) sub, of fe] by blast
    have ss: "subsides s s'" "subsides s1 s'" using subsides_trans[OF q(3) subsides_trans[OF t(3) r(3)]] subsides_trans[OF t(3) r(3)] by simp_all
    have "settled s' w" using q(6) Inr settled_subsides[OF _ ss(2)] by simp
    moreover have "flush_slots (w # ws) fe s = Some (fe', s')" using q(1) Inr t(1) r(1) by simp
    ultimately show ?thesis using r ss(1) fl by auto
  qed
qed simp

text \<open>The files whose buffered data a flush of everything leaves in memory: those unlinked while open.\<close>

definition unlinked_open :: "Shared \<Rightarrow> u64 \<Rightarrow> bool" where
  "unlinked_open s ino \<longleftrightarrow> (\<exists>w. inodes_find (inodes (table s)) ino = Some w \<and> gone_of (inodes (table s)) w)"

lemma settled_stored:
  assumes run: "running {} s" and set: "\<And>w. w \<in> live (inodes (table s)) \<Longrightarrow> settled s w" and gone: "\<not> unlinked_open s ino"
  shows "file_bytes (tabs (db s)) ino = content s ino"
proof (cases "inodes_find (inodes (table s)) ino")
  case None
  then show ?thesis by (simp add: content_def content_in_def)
next
  case (Some w)
  have b: "buffers_ok {} (tabs (db s)) (inodes (table s)) (arena (table s))" using run by (simp add: running_def)
  then have iok: "inodes_ok (inodes (table s))" by (simp add: buffers_ok_def)
  note w = find_live[OF iok Some]
  have "dirty_of (inodes (table s)) w = []" using set[OF w(1)] gone Some w(1) by (auto simp: settled_def unlinked_open_def)
  then show ?thesis
    using content_clean[of "tabs (db s)" "arena (table s)" ino "kind_of (inodes (table s)) w" "size_of (inodes (table s)) w"]
      buffers_live(1)[OF b w(1)] w(2) Some by (simp add: content_def content_in_def split: if_splits)
qed

lemma sync_durable_run:
  "\<exists>r d'. sync_durable d = (r, d') \<and> tabs d' = tabs d \<and> new_rowid d' = new_rowid d \<and> (faults d = [] \<longrightarrow> faults d' = [] \<and> r = Inr ())"
  by (auto simp: sync_durable_def pop_fault_def split: list.splits option.splits)

lemma subsides_gone:
  assumes iok: "inodes_ok (inodes (table s))" and run: "running {} s1" and sub: "subsides s s1" and g: "unlinked_open s1 ino"
  shows "unlinked_open s ino"
proof -
  obtain w where w: "inodes_find (inodes (table s1)) ino = Some w" "gone_of (inodes (table s1)) w" using g by (auto simp: unlinked_open_def)
  have iok1: "inodes_ok (inodes (table s1))" using run by (simp add: running_def buffers_ok_def)
  note lw = find_live[OF iok1 w(1)]
  have "w \<in> live (inodes (table s))" "ino_of (inodes (table s)) w = ino" "gone_of (inodes (table s)) w"
    using sub lw w(2) by (auto simp: subsides_def)
  then show ?thesis using live_find[OF iok, of w] by (auto simp: unlinked_open_def)
qed

lemma flush_all_spec:
  assumes run: "running {} s"
  shows "\<exists>r s'. flush_all s = Some (r, s') \<and> running {} s' \<and> content s' = content s \<and> quiet s s' \<and>
    (faults (db s) = [] \<longrightarrow> r = Inr ()) \<and>
    (r = Inr () \<longrightarrow> (\<forall>ino. \<not> unlinked_open s ino \<longrightarrow> file_bytes (tabs (db s')) ino = content s ino)) \<and>
    (\<forall>ino. unlinked_open s' ino \<longrightarrow> unlinked_open s ino)"
proof -
  have iok: "inodes_ok (inodes (table s))" using run by (simp add: running_def buffers_ok_def)
  let ?ws = "live_slots (inodes (table s))"
  have ws: "set ?ws \<subseteq> live (inodes (table s))" using live_slots_set[OF iok] by simp
  obtain fe s1 where f: "flush_slots ?ws None s = Some (fe, s1)" "running {} s1" "subsides s s1"
    "faults (db s) = [] \<longrightarrow> fe = None" "fe = None \<longrightarrow> (\<forall>w \<in> set ?ws. settled s1 w)"
    using flush_slots_spec[OF run live_slots_distinct[OF iok] ws, of None] by blast
  obtain r d' where d: "sync_durable (db s1) = (r, d')" "tabs d' = tabs (db s1)" "new_rowid d' = new_rowid (db s1)"
    "faults (db s1) = [] \<longrightarrow> faults d' = [] \<and> r = Inr ()" using sync_durable_run by blast
  have fl: "faults (db s) = [] \<longrightarrow> faults (db s1) = []" using f(3) by (simp add: subsides_def quiet_def)
  define q where "q = (case fe of Some errno \<Rightarrow> Inl errno | None \<Rightarrow> map_sum errno_from_db_error id r)"
  let ?s' = "s1\<lparr>db := d'\<rparr>"
  have "flush_all s = Some (q, ?s')"
    using f(1) d(1) by (cases r; cases fe) (simp_all add: flush_all_def on_db_def q_def)
  moreover have rs: "running {} ?s'" "content ?s' = content s1" using running_cong[OF f(2), of ?s'] d(2) by simp_all
  moreover have cs: "content s1 = content s" using f(3) by (simp add: subsides_def)
  moreover have "quiet s ?s'" using f(3) d(3,4) by (auto simp: subsides_def quiet_def)
  moreover have "faults (db s) = [] \<longrightarrow> q = Inr ()" using f(4) d(4) fl by (auto simp: q_def)
  moreover have "unlinked_open s ino" if "unlinked_open ?s' ino" for ino
    using subsides_gone[OF iok f(2,3)] that by (simp add: unlinked_open_def)
  moreover have "file_bytes (tabs d') ino = content s ino" if q: "q = Inr ()" and g: "\<not> unlinked_open s ino" for ino
  proof -
    have "fe = None" using q by (auto simp: q_def split: option.splits)
    then have "settled s1 w" if "w \<in> live (inodes (table s1))" for w
      using f(3,5) live_slots_set[OF iok] that by (auto simp: subsides_def)
    moreover have "\<not> unlinked_open s1 ino" using subsides_gone[OF iok f(2,3)] g by blast
    ultimately show ?thesis using settled_stored[OF f(2)] d(2) cs by simp
  qed
  ultimately show ?thesis by auto
qed

section \<open>What the filesystem promises of file contents\<close>

text \<open>C8. A write of the filesystem layer always returns. It is a positional write of the file's
  contents, touches no other file, and is refused only after shutdown has begun, past the largest
  file size, or when SQLite fails; a failed write has written a prefix of its data, never anything
  else.\<close>

theorem buffered_write_exact:
  assumes "shared_ok s" and "room s" and "content s ino = Some c" and "data \<noteq> []"
    and "unat offset + length data < 2 ^ 64"
  shows "\<exists>r s'. fs_write s ino offset data now = Some (r, s') \<and> shared_ok s' \<and>
    (case r of
       Inr n \<Rightarrow> n = of_nat (length data) \<and> content s' = (content s)(ino \<mapsto> pwrite (offset, data) c)
     | Inl e \<Rightarrow>
         e = EIO \<and> closing (table s) \<and> content s' = content s \<or>
         e = EFBIG \<and> max_size < unat offset + length data \<and> content s' = content s \<or>
         faults (db s) \<noteq> [] \<and> (\<exists>n < length data. content s' = (content s)(ino \<mapsto> pwrite (offset, take n data) c)))"
proof -
  obtain r s' where w: "fs_write s ino offset data now = Some (r, s')" "shared_ok s'" "written s ino offset data c r s'"
    using fs_write_spec[OF assms(1,2,3,5), of now] assms(4) by auto
  then show ?thesis unfolding written_def by (cases r) auto
qed

text \<open>C12. Data written through the buffers and not overwritten since is what the next read of those
  bytes returns, whether it is still buffered, was evicted or was never in a full chunk.\<close>

theorem buffered_read_your_write:
  assumes "shared_ok s" and "content s ino = Some c" and "data \<noteq> []" and "length data < 2 ^ 32"
    and "room s" and "unat offset < 2 ^ 63"
    and "fs_write s ino offset data now = Some (Inr m, s1)"
    and "fs_read s1 ino offset m = Some (Inr out, s2)"
  shows "out = data"
proof -
  have "guarded_write now s ino offset data = Some (Inr m, s1)" using assms(5-7) by (simp add: guarded_write_def)
  from buffered.read_your_write[OF assms(1-4) this assms(8)] show ?thesis .
qed

end
