(* ===== verification/Open_Files.thy ===== *)
theory Open_Files
  imports Buffered
begin

text \<open>
  Open files: handles and the slots they name, closing the last handle, files unlinked while open,
  and the sessions a client can run. Every session keeps the invariant of the buffers, and what it
  reads is what an abstract map from inodes to byte strings would give it.
\<close>

section \<open>Opening\<close>

lemma NO_SLOT_count: "s \<in> live ins \<Longrightarrow> inodes_ok ins \<Longrightarrow> s \<noteq> NO_SLOT"
  by (rule live_not_NO_SLOT)

text \<open>A change of handles and handle counts changes no contents.\<close>

definition with_refs :: "Shared \<Rightarrow> Slot \<Rightarrow> u32 \<Rightarrow> Handles \<Rightarrow> Shared" where
  "with_refs s w r hs = s\<lparr>table := (table s)\<lparr>inodes := (inodes (table s))\<lparr>oi_refs :=
     (oi_refs (inodes (table s)))[unat w := r]\<rparr>, handles := hs\<rparr>\<rparr>"

lemma with_refs_running:
  assumes run: "running {} s" and w: "w \<in> live (inodes (table s))" and hs: "handles_ok hs"
    and get: "\<And>fh u. handles_get hs fh = Some u \<Longrightarrow> u = w \<or> handles_get (handles (table s)) fh = Some u"
    and count: "unat r = count_list (h_slot hs) w"
      "\<And>u. u \<noteq> NO_SLOT \<Longrightarrow> u \<noteq> w \<Longrightarrow> count_list (h_slot hs) u = count_list (h_slot (handles (table s))) u"
  shows "running {} (with_refs s w r hs)" and "content (with_refs s w r hs) = content s"
proof -
  define ins where "ins = inodes (table s)"
  have b: "buffers_ok {} (tabs (db s)) ins (arena (table s))" and hm: "handles_match ins (handles (table s))"
    using run by (simp_all add: running_def ins_def)
  have iok: "inodes_ok ins" using b by (simp add: buffers_ok_def)
  have w: "w \<in> live ins" using w by (simp add: ins_def)
  let ?ins = "ins\<lparr>oi_refs := (oi_refs ins)[unat w := r]\<rparr>"
  note col = column_update[OF live_columns(5)[OF iok w], of r]
  have "inodes_ok ?ins" by (rule inodes_ok_update(3)[OF iok]) simp
  then have "buffers_ok {} (tabs (db s)) ?ins (arena (table s))" using b by (simp add: buffers_ok_def owners_def)
  moreover have "unat (refs_of ?ins u) = count_list (h_slot hs) u" if "u \<in> live ins" for u
    using hm count(1) count(2)[OF live_not_NO_SLOT[OF iok that]] that by (auto simp: col handles_match_def)
  moreover have "u \<in> live ins" if "handles_get hs fh = Some u" for fh u
    using get[OF that] w hm by (auto simp: handles_match_def)
  ultimately show "running {} (with_refs s w r hs)"
    using run hs by (simp add: running_def handles_match_def with_refs_def ins_def)
  show "content (with_refs s w r hs) = content s"
    by (simp add: content_def content_in_def[abs_def] with_refs_def cong: option.case_cong if_cong)
qed

text \<open>\<open>openable\<close>: the handle table and the count of the slot have room for one more handle.\<close>

definition openable :: "Shared \<Rightarrow> bool" where
  "openable s \<longleftrightarrow> room s \<and> length (h_slot (handles (table s))) < 2 ^ 32 - 1"

lemma refs_bound:
  assumes "handles_match ins hs" "w \<in> live ins"
  shows "unat (refs_of ins w) \<le> length (h_slot hs)"
  using assms count_le_length[of "h_slot hs" w] by (simp add: handles_match_def)

lemma open_slot_spec:
  assumes run: "running {} s" and w: "w \<in> live (inodes (table s))"
    and h: "length (h_slot (handles (table s))) < 2 ^ 32 - 1"
  shows "\<exists>fh hs. open_slot (table s) w = Some (fh, table (with_refs s w (refs_of (inodes (table s)) w + 1) hs)) \<and>
    handles_get (handles (table s)) fh = None \<and> handles_get hs = (handles_get (handles (table s)))(fh \<mapsto> w) \<and>
    running {} (with_refs s w (refs_of (inodes (table s)) w + 1) hs) \<and>
    content (with_refs s w (refs_of (inodes (table s)) w + 1) hs) = content s"
proof -
  have iok: "inodes_ok (inodes (table s))" and hm: "handles_match (inodes (table s)) (handles (table s))"
    using run by (simp_all add: running_def buffers_ok_def)
  have hok: "handles_ok (handles (table s))" using hm by (simp add: handles_match_def)
  have av: "handle_available (handles (table s))" using h by (simp add: handle_available_def)
  note nos = live_not_NO_SLOT[OF iok w]
  obtain fh hs where a: "handles_alloc (handles (table s)) w = Some (fh, hs)" "handles_ok hs" "handles_get (handles (table s)) fh = None"
    "handles_get hs = (handles_get (handles (table s)))(fh \<mapsto> w)"
    "\<forall>u. u \<noteq> NO_SLOT \<longrightarrow> count_list (h_slot hs) u = count_list (h_slot (handles (table s))) u + (if u = w then 1 else 0)"
    using handles_alloc_spec[OF hok av nos] by blast
  let ?r = "refs_of (inodes (table s)) w"
  have "unat ?r < 2 ^ 32 - 1" using refs_bound[OF hm w] h by linarith
  then have "unat (?r + 1) = unat ?r + 1" by (simp add: unat_word_ariths)
  then have cnt: "unat (?r + 1) = count_list (h_slot hs) w" using a(5) nos hm w by (simp add: handles_match_def)
  have get: "u = w \<or> handles_get (handles (table s)) f = Some u" if "handles_get hs f = Some u" for f u
    using that a(4) by (auto split: if_splits)
  have oth: "count_list (h_slot hs) u = count_list (h_slot (handles (table s))) u" if "u \<noteq> NO_SLOT" "u \<noteq> w" for u
    using a(5) that by simp
  note wr = with_refs_running[OF run w a(2) get cnt oth]
  have "open_slot (table s) w = Some (fh, table (with_refs s w (?r + 1) hs))"
    using a(1) live_columns(5)[OF iok w] by (simp add: open_slot_def with_refs_def)
  with a wr show ?thesis by blast
qed

lemma with_refs_simps [simp]:
  "handles (table (with_refs s w r hs)) = hs" "closing (table (with_refs s w r hs)) = closing (table s)"
  "arena (table (with_refs s w r hs)) = arena (table s)" "db (with_refs s w r hs) = db s"
  "live (inodes (table (with_refs s w r hs))) = live (inodes (table s))"
  "inodes_find (inodes (table (with_refs s w r hs))) = inodes_find (inodes (table s))"
  "oi_ino (inodes (table (with_refs s w r hs))) = oi_ino (inodes (table s))"
  "oi_unlinked (inodes (table (with_refs s w r hs))) = oi_unlinked (inodes (table s))"
  "oi_dirty (inodes (table (with_refs s w r hs))) = oi_dirty (inodes (table s))"
  "s\<lparr>table := table (with_refs s w r hs)\<rparr> = with_refs s w r hs"
  by (simp_all add: with_refs_def)

text \<open>The inode a handle stands for.\<close>

definition handle_ino :: "Shared \<Rightarrow> u64 \<Rightarrow> u64 option" where
  "handle_ino s fh = map_option (\<lambda>w. ino_of (inodes (table s)) w) (handles_get (handles (table s)) fh)"

lemma handle_live:
  assumes "running {} s" "handles_get (handles (table s)) fh = Some w"
  shows "w \<in> live (inodes (table s))"
  using assms by (auto simp: running_def handles_match_def)

section \<open>Dropping a slot\<close>

lemma owners_removed:
  assumes "owners ins ar X" "live ins' = live ins - {w}" "dirty_of ins w = []"
    and "\<And>u. u \<in> live ins' \<Longrightarrow> dirty_of ins' u = dirty_of ins u"
  shows "owners ins' ar X"
proof -
  have "(\<Union>u \<in> live ins'. snd ` set (dirty_of ins' u)) = (\<Union>u \<in> live ins'. snd ` set (dirty_of ins u))"
    using assms(4) by simp
  also have "\<dots> = (\<Union>u \<in> live ins. snd ` set (dirty_of ins u))"
    using assms(2,3) by (intro equalityI UN_least) auto
  finally show ?thesis using assms(1,2,4) unfolding owners_def by simp
qed

text \<open>Discarding forgets the buffered data: the contents are the stored ones again.\<close>

lemma discard_slot_spec:
  assumes b: "buffers_ok {} T (inodes t) (arena t)" and ok: "data_ok T" and w: "w \<in> live (inodes t)"
  shows "\<exists>t'. discard_slot t w = Some t' \<and> handles t' = handles t \<and> closing t' = closing t \<and>
    max_slots (arena t') = max_slots (arena t) \<and> buffers_ok {} T (inodes t') (arena t') \<and> live (inodes t') = live (inodes t) - {w} \<and>
    (\<forall>u \<in> live (inodes t'). entry (inodes t') u = entry (inodes t) u) \<and>
    inodes_find (inodes t') (ino_of (inodes t) w) = None \<and>
    content_in T (inodes t') (arena t') = (content_in T (inodes t) (arena t))(ino_of (inodes t) w := file_bytes T (ino_of (inodes t) w))"
proof -
  let ?ins = "inodes t" and ?ar = "arena t"
  have iok: "inodes_ok ?ins" and aok: "arena_ok ?ar" and own: "owners ?ins ?ar {}" using b by (auto simp: buffers_ok_def)
  note bl = buffers_live[OF b w]
  obtain ar' where rel: "release_into (dirty_of ?ins w) ?ar = ([], ar')" "arena_ok ar'" "in_use ar' = in_use ?ar - snd ` set (dirty_of ?ins w)"
    "\<forall>a. slot_bytes ar' a = slot_bytes ?ar a" "max_slots ar' = max_slots ?ar"
    using release_into_spec[OF aok bl(3,2)] by blast
  let ?em = "emptied ?ins w"
  have iok': "inodes_ok ?em" using inodes_ok_dirty[OF iok w, of "[]"] by (simp add: emptied_def)
  have own': "owners ?em ar' {}" by (rule owners_emptied[OF iok w own rel(3)])
  have w': "w \<in> live ?em" and em: "dirty_of ?em w = []" using w emptied_dirty[OF iok w] by simp_all
  obtain ins' where r: "inodes_remove ?em w = Some ins'" "inodes_ok ins'" "live ins' = live ?em - {w}"
    "inodes_find ins' = (inodes_find ?em)(ino_of ?em w := None)" "\<forall>u \<in> live ins'. entry ins' u = entry ?em u"
    using inodes_remove_spec[OF iok' w' em] by blast
  have ent: "entry ins' u = entry ?ins u" if "u \<in> live ins'" for u
    using r(3,5) that emptied_dirty[OF iok w, of u] by (simp add: entry_def)
  have col: "ino_of ins' u = ino_of ?ins u \<and> kind_of ins' u = kind_of ?ins u \<and> size_of ins' u = size_of ?ins u \<and>
      dirty_of ins' u = dirty_of ?ins u" if "u \<in> live ins'" for u
    using ent[OF that] by (auto simp: entry_columns)
  have "owners ins' ar' {}"
    using r(3,5) by (intro owners_removed[OF own' r(3) em]) (auto simp: entry_columns)
  moreover have "slot_ok T ar' (ino_of ins' u) (kind_of ins' u) (size_of ins' u) (dirty_of ins' u)" if u: "u \<in> live ins'" for u
  proof -
    have "u \<in> live ?ins" using u r(3) by simp
    from slot_cong(1)[OF ok buffers_live(1)[OF b this] refl refl] rel(4) col[OF u] show ?thesis by simp
  qed
  ultimately have b': "buffers_ok {} T ins' ar'" using r(2) rel(2) by (simp add: buffers_ok_def)
  have "content_in T ins' ar' i = ((content_in T ?ins ?ar)(ino_of ?ins w := file_bytes T (ino_of ?ins w))) i" for i
  proof (cases "i = ino_of ?ins w")
    case True
    then show ?thesis using r(4) by (simp add: content_in_def)
  next
    case False
    then have f: "inodes_find ins' i = inodes_find ?ins i" using r(4) by simp
    show ?thesis
    proof (cases "inodes_find ?ins i")
      case (Some u)
      then have u: "u \<in> live ins'" "u \<in> live ?ins" "ino_of ?ins u = i" using f find_live(1)[OF r(2), of i u] find_live[OF iok Some] by simp_all
      have "slot_content T ar' i (size_of ?ins u) (dirty_of ?ins u) = slot_content T ?ar i (size_of ?ins u) (dirty_of ?ins u)"
        if "kind_of ?ins u = RegularFile"
        using slot_cong(2)[OF ok buffers_live(1)[OF b u(2)] refl refl, of ar'] rel(4) that u(3) by simp
      with Some f False col[OF u(1)] show ?thesis by (simp add: content_in_def)
    qed (use f False in \<open>simp add: content_in_def\<close>)
  qed
  then have "content_in T ins' ar' = (content_in T ?ins ?ar)(ino_of ?ins w := file_bytes T (ino_of ?ins w))" by blast
  moreover have "discard_slot t w = Some (t\<lparr>inodes := ins', arena := ar'\<rparr>)"
    using live_columns(7)[OF iok w] rel(1) r(1) by (simp add: discard_slot_def emptied_def)
  ultimately show ?thesis using b' r ent rel(5) by auto
qed

lemma delete_inode_run:
  obtains r d' where "delete_inode d ino = (r, d')" "new_rowid d' = new_rowid d" "faults d = [] \<longrightarrow> faults d' = []"
    "case r of Inl e \<Rightarrow> tabs d' = tabs d \<and> faults d \<noteq> []
     | Inr _ \<Rightarrow> tabs d' = delete_inode_rows (tabs d) ino"
proof (cases "delete_inode d ino")
  case (Pair r d')
  then have "new_rowid d' = new_rowid d \<and> (faults d = [] \<longrightarrow> faults d' = []) \<and>
    (case r of Inl e \<Rightarrow> tabs d' = tabs d \<and> faults d \<noteq> [] | Inr _ \<Rightarrow> tabs d' = delete_inode_rows (tabs d) ino)"
    by (auto simp: delete_inode_def transaction_def pop_fault_def split: list.splits option.splits)
  with that Pair show thesis by blast
qed

lemma deleted_rows:
  assumes ok: "data_ok T" and ino: "valid_ino ino"
  shows "data_ok (delete_inode_rows T ino)" and "files_same T ino (delete_inode_rows T ino)"
    and "file_bytes (delete_inode_rows T ino) ino = None"
proof -
  have tbl: "tbl_ok (t_chunks T)" using ok by (simp add: data_ok_def)
  note d = delete_inode_rows_data[OF ok ino]
  show "data_ok (delete_inode_rows T ino)" by (rule d(1))
  show "file_bytes (delete_inode_rows T ino) ino = None" using d(2)[of ino] by (simp add: file_bytes_def)
  have "chunk_row (delete_inode_rows T ino) i k = chunk_row T i k" if "i \<noteq> ino" "valid_ino i" "k < 2 ^ 24" for i k
  proof -
    have "\<not> (\<exists>k' < 2 ^ 24. chunk_key i (of_nat k) = chunk_key ino (of_nat k'))"
      using chunk_key_inject[OF that(2) ino that(3)] that(1) by blast
    then show ?thesis using delete_chunk_range_map[OF ino tbl] by (auto simp: chunk_row_def delete_inode_rows_def)
  qed
  then show "files_same T ino (delete_inode_rows T ino)" using d(2,4) by (simp add: files_same_def)
qed

section \<open>Operations by handle\<close>

lemma regular_slot:
  assumes "running {} s" "w \<in> live (inodes (table s))" "content s (ino_of (inodes (table s)) w) = Some c"
  shows "kind_of (inodes (table s)) w = RegularFile"
  using assms live_find[of "inodes (table s)" w]
  by (simp add: running_def buffers_ok_def content_def content_in_def split: if_splits)

lemma fs_open_spec:
  assumes run: "running {} s" and op: "openable s" and c: "content s ino = Some c"
  shows "\<exists>r s'. fs_open s ino = Some (r, s') \<and> running {} s' \<and> content s' = content s \<and>
    (case r of
       Inl e \<Rightarrow> faults (db s) \<noteq> [] \<and> handles (table s') = handles (table s)
     | Inr fh \<Rightarrow> handles_get (handles (table s)) fh = None \<and>
         (\<exists>w. handles_get (handles (table s')) = (handles_get (handles (table s)))(fh \<mapsto> w) \<and> ino_of (inodes (table s')) w = ino)) \<and>
    (\<forall>fh i. handle_ino s fh = Some i \<longrightarrow> handle_ino s' fh = Some i) \<and> closing (table s') = closing (table s)"
proof -
  have rm: "room s" using op by (simp add: openable_def)
  obtain r s1 where r: "slot_for s ino = Some (r, s1)" "running {} s1" "content s1 = content s" "quiet s s1"
    "case r of Inl e \<Rightarrow> faults (db s) \<noteq> [] | Inr w \<Rightarrow> w \<in> live (inodes (table s1)) \<and> ino_of (inodes (table s1)) w = ino"
    using slot_for_spec[OF run rm c] by blast
  have hm: "handles_match (inodes (table s)) (handles (table s))" using run by (simp add: running_def)
  have inos: "ino_of (inodes (table s1)) w = ino_of (inodes (table s)) w" if "handles_get (handles (table s)) fh = Some w" for fh w
  proof -
    have "w \<in> live (inodes (table s))" by (rule handle_live[OF run that])
    moreover have "refs_of (inodes (table s)) w \<noteq> 0" using handles_no_refs[OF hm calculation] that by blast
    ultimately show ?thesis using r(4) by (simp add: quiet_def keeps_def)
  qed
  show ?thesis
  proof (cases r)
    case (Inl e)
    then have "fs_open s ino = Some (Inl e, s1)" using r(1) by (simp add: fs_open_def)
    with r Inl inos show ?thesis by (auto simp: handle_ino_def quiet_def)
  next
    case (Inr w)
    then have w: "w \<in> live (inodes (table s1))" "ino_of (inodes (table s1)) w = ino" using r(5) by simp_all
    have len: "length (h_slot (handles (table s1))) < 2 ^ 32 - 1" using op r(4) by (simp add: openable_def quiet_def)
    let ?s' = "\<lambda>hs. with_refs s1 w (refs_of (inodes (table s1)) w + 1) hs"
    obtain fh hs where o: "open_slot (table s1) w = Some (fh, table (?s' hs))" "handles_get (handles (table s1)) fh = None"
      "handles_get hs = (handles_get (handles (table s1)))(fh \<mapsto> w)" "running {} (?s' hs)" "content (?s' hs) = content s1"
      using open_slot_spec[OF r(2) w(1) len] by blast
    have "fs_open s ino = Some (Inr fh, ?s' hs)" using r(1) Inr o(1) by (simp add: fs_open_def)
    moreover have "handles (table s1) = handles (table s)" "closing (table s1) = closing (table s)" using r(4) by (simp_all add: quiet_def)
    moreover from this have "handle_ino (?s' hs) f = Some i" if "handle_ino s f = Some i" for f i
      using that o(2,3) inos by (auto simp: handle_ino_def)
    ultimately show ?thesis using o r(3) w(2) by auto
  qed
qed

lemma quiet_handles:
  assumes run: "running {} s" and q: "quiet s s'"
  shows "handle_ino s' = handle_ino s"
proof
  fix fh
  have hm: "handles_match (inodes (table s)) (handles (table s))" using run by (simp add: running_def)
  show "handle_ino s' fh = handle_ino s fh"
  proof (cases "handles_get (handles (table s)) fh")
    case (Some w)
    have "w \<in> live (inodes (table s))" by (rule handle_live[OF run Some])
    moreover have "refs_of (inodes (table s)) w \<noteq> 0" using handles_no_refs[OF hm calculation] Some by blast
    ultimately show ?thesis using q Some by (simp add: handle_ino_def quiet_def keeps_def)
  qed (use q in \<open>simp add: handle_ino_def quiet_def\<close>)
qed

lemma read_fh_spec:
  assumes run: "running {} s" and h: "handle_ino s fh = Some ino" and c: "content s ino = Some c"
  shows "\<exists>r s'. read_fh s fh offset n = Some (r, s') \<and> running {} s' \<and> quiet s s' \<and> content s' = content s \<and>
    (case r of Inl e \<Rightarrow> faults (db s) \<noteq> [] | Inr out \<Rightarrow> out = pread offset n c)"
proof -
  obtain w where w: "handles_get (handles (table s)) fh = Some w" "ino_of (inodes (table s)) w = ino"
    using h by (auto simp: handle_ino_def)
  note lw = handle_live[OF run w(1)]
  have c: "content s (ino_of (inodes (table s)) w) = Some c" using c w(2) by simp
  obtain r d' where r: "read_slot s w offset n = Some (r, s\<lparr>db := d'\<rparr>)" "tabs d' = tabs (db s)" "new_rowid d' = new_rowid (db s)"
    "faults (db s) = [] \<longrightarrow> faults d' = []"
    "case r of Inl e \<Rightarrow> faults (db s) \<noteq> [] | Inr out \<Rightarrow> out = pread offset n c"
    using read_slot_spec[OF run lw c] by blast
  then show ?thesis using running_cong[OF run, of "s\<lparr>db := d'\<rparr>"] w(1) by (auto simp: read_fh_def quiet_def)
qed

lemma write_fh_spec:
  assumes run: "running {} s" and h: "handle_ino s fh = Some ino" and c: "content s ino = Some c"
    and fit: "unat offset + length data < 2 ^ 64"
  shows "\<exists>r s'. write_fh s fh offset data now = Some (r, s') \<and> running {} s' \<and> quiet s s' \<and> written s ino offset data c r s'"
proof -
  obtain w where w: "handles_get (handles (table s)) fh = Some w" "ino_of (inodes (table s)) w = ino"
    using h by (auto simp: handle_ino_def)
  from write_slot_spec[OF run handle_live[OF run w(1)] w(2) c fit, of now] w(1) show ?thesis
    using steady_quiet by (auto simp: write_fh_def)
qed

lemma flush_fh_spec:
  assumes run: "running {} s" and h: "handle_ino s fh = Some ino"
  shows "\<exists>r s'. flush_fh s fh = Some (r, s') \<and> running {} s' \<and> quiet s s' \<and> content s' = content s \<and>
    (case r of Inl e \<Rightarrow> faults (db s) \<noteq> [] | Inr _ \<Rightarrow> \<not> unlinked_open s ino \<longrightarrow> file_bytes (tabs (db s')) ino = content s ino)"
proof -
  obtain w where w: "handles_get (handles (table s)) fh = Some w" "ino_of (inodes (table s)) w = ino"
    using h by (auto simp: handle_ino_def)
  note lw = handle_live[OF run w(1)]
  have b: "buffers_ok {} (tabs (db s)) (inodes (table s)) (arena (table s))" using run by (simp add: running_def)
  then have iok: "inodes_ok (inodes (table s))" by (simp add: buffers_ok_def)
  have find: "inodes_find (inodes (table s)) ino = Some w" using live_find[OF iok lw] w(2) by simp
  from flush_slot_spec[OF run lw, of Skip] obtain r s' where f:
    "flush_slot s w Skip = Some (r, s')" "running {} s'" "flushed s s'"
    "case r of Inl e \<Rightarrow> faults (db s) \<noteq> []
     | Inr _ \<Rightarrow> s' = s \<and> (dirty_of (inodes (table s)) w = [] \<or> gone_of (inodes (table s)) w) \<or>
         file_bytes (tabs (db s')) (ino_of (inodes (table s)) w) = content s (ino_of (inodes (table s)) w)"
    by (elim exE conjE) (rule that, assumption+, auto split: sum.splits if_splits)
  have "file_bytes (tabs (db s)) ino = content s ino" if "dirty_of (inodes (table s)) w = []"
    using content_clean[of "tabs (db s)" "arena (table s)" ino "kind_of (inodes (table s)) w" "size_of (inodes (table s)) w"]
      buffers_live(1)[OF b lw] w(2) find that by (simp add: content_def content_in_def split: if_splits)
  then have "case r of Inl e \<Rightarrow> faults (db s) \<noteq> [] | Inr _ \<Rightarrow> \<not> unlinked_open s ino \<longrightarrow> file_bytes (tabs (db s')) ino = content s ino"
    using f(4) w(2) find by (cases r) (auto simp: unlinked_open_def)
  moreover have "quiet s s'" "content s' = content s" using f(3) by (simp_all add: flushed_quiet flushed_def)
  ultimately show ?thesis using f(1,2) w(1) by (auto simp: flush_fh_def)
qed

section \<open>Closing\<close>

lemma record_order:
  "(t :: OpenTable)\<lparr>handles := h, inodes := i\<rparr> = t\<lparr>inodes := i, handles := h\<rparr>"
  "(s :: Shared)\<lparr>table := t, db := d\<rparr> = s\<lparr>db := d, table := t\<rparr>"
  by (cases t, simp) (cases s, simp)

text \<open>The last handle of an inode that was unlinked while open.\<close>

definition last_of_gone :: "Shared \<Rightarrow> u64 \<Rightarrow> bool" where
  "last_of_gone s fh \<longleftrightarrow> (\<exists>w. handles_get (handles (table s)) fh = Some w \<and> refs_of (inodes (table s)) w = 1 \<and>
     gone_of (inodes (table s)) w)"

lemma slot_valid_ino:
  assumes "data_ok T" "slot_ok T ar ino kind sz d"
  shows "valid_ino ino"
  using assms(2) valid_ino_of_row[OF assms(1)] by (auto simp: slot_ok_def split: if_splits)

lemma dropped_handle:
  assumes run: "running {} s" and g: "handles_get (handles (table s)) fh = Some w"
  obtains hs where "handles_release (handles (table s)) fh = (Some w, hs)" "handles_get hs = (handles_get (handles (table s)))(fh := None)"
    "running {} (with_refs s w (refs_of (inodes (table s)) w - 1) hs)"
    "content (with_refs s w (refs_of (inodes (table s)) w - 1) hs) = content s"
    "refs_of (inodes (table (with_refs s w (refs_of (inodes (table s)) w - 1) hs))) w = refs_of (inodes (table s)) w - 1"
    "refs_of (inodes (table s)) w \<noteq> 0" "\<And>u. u \<noteq> NO_SLOT \<Longrightarrow> u \<noteq> w \<Longrightarrow> count_list (h_slot hs) u = count_list (h_slot (handles (table s))) u"
proof -
  have iok: "inodes_ok (inodes (table s))" and hm: "handles_match (inodes (table s)) (handles (table s))"
    using run by (simp_all add: running_def buffers_ok_def)
  have hok: "handles_ok (handles (table s))" using hm by (simp add: handles_match_def)
  note lw = handle_live[OF run g] and nos = live_not_NO_SLOT[OF iok handle_live[OF run g]]
  obtain hs where r: "handles_release (handles (table s)) fh = (Some w, hs)" "handles_ok hs"
    "handles_get hs = (handles_get (handles (table s)))(fh := None)"
    "\<forall>u. u \<noteq> NO_SLOT \<longrightarrow> count_list (h_slot hs) u = count_list (h_slot (handles (table s))) u - (if u = w then 1 else 0)"
    "0 < count_list (h_slot (handles (table s))) w"
    using handles_release_spec[OF hok g] by blast
  let ?r = "refs_of (inodes (table s)) w"
  have cnt: "unat ?r = count_list (h_slot (handles (table s))) w" using hm lw by (simp add: handles_match_def)
  then have nz: "?r \<noteq> 0" using r(5) by (auto simp: unat_eq_0)
  have cnt': "unat (?r - 1) = count_list (h_slot hs) w" using r(4) nos cnt nz by (simp add: unat_minus_one)
  have get: "u = w \<or> handles_get (handles (table s)) f = Some u" if "handles_get hs f = Some u" for f u
    using that r(3) by (auto split: if_splits)
  have oth: "count_list (h_slot hs) u = count_list (h_slot (handles (table s))) u" if "u \<noteq> NO_SLOT" "u \<noteq> w" for u
    using r(4) that by simp
  note wr = with_refs_running[OF run lw r(2) get cnt' oth]
  have "refs_of (inodes (table (with_refs s w (?r - 1) hs))) w = ?r - 1"
    using column_update[OF live_columns(5)[OF iok lw]] by (simp add: with_refs_def)
  with that r(1,3) wr nz oth show thesis by blast
qed

lemma release_last_gone:
  assumes run: "running {} s" and g: "handles_get (handles (table s)) fh = Some w" and last: "refs_of (inodes (table s)) w = 1"
    and gone: "gone_of (inodes (table s)) w"
  defines "ino \<equiv> ino_of (inodes (table s)) w"
  shows "\<exists>r s'. release_fh s fh = Some (r, s') \<and> running {} s' \<and> closing (table s') = closing (table s) \<and>
    handles_get (handles (table s')) = (handles_get (handles (table s)))(fh := None) \<and>
    (\<forall>u \<in> live (inodes (table s')). u \<in> live (inodes (table s)) \<and> ino_of (inodes (table s')) u = ino_of (inodes (table s)) u) \<and>
    (case r of
       Inl e \<Rightarrow> faults (db s) \<noteq> [] \<and> content s' = (content s)(ino := file_bytes (tabs (db s)) ino)
     | Inr _ \<Rightarrow> content s' = (content s)(ino := None))"
proof -
  obtain hs where h: "handles_release (handles (table s)) fh = (Some w, hs)" "handles_get hs = (handles_get (handles (table s)))(fh := None)"
    "running {} (with_refs s w 0 hs)" "content (with_refs s w 0 hs) = content s"
    using dropped_handle[OF run g] last by (metis diff_self)
  define s1 where "s1 = with_refs s w 0 hs"
  have iok: "inodes_ok (inodes (table s))" using run by (simp add: running_def buffers_ok_def)
  note lw = handle_live[OF run g]
  have b1: "buffers_ok {} (tabs (db s1)) (inodes (table s1)) (arena (table s1))" and ok: "data_ok (tabs (db s1))"
    and hm1: "handles_match (inodes (table s1)) (handles (table s1))"
    using h(3) by (simp_all add: running_def s1_def[symmetric])
  have w1: "w \<in> live (inodes (table s1))" and ino1: "ino_of (inodes (table s1)) w = ino" using lw by (simp_all add: s1_def ino_def)
  have iok1: "inodes_ok (inodes (table s1))" using b1 by (simp add: buffers_ok_def)
  have refs1: "refs_of (inodes (table s1)) w = 0"
    using column_update[OF live_columns(5)[OF iok lw]] by (simp add: s1_def with_refs_def)
  have vino: "valid_ino ino" using slot_valid_ino[OF ok buffers_live(1)[OF b1 w1]] ino1 by simp
  obtain t' where t: "discard_slot (table s1) w = Some t'" "handles t' = handles (table s1)" "closing t' = closing (table s1)"
    "buffers_ok {} (tabs (db s1)) (inodes t') (arena t')" "live (inodes t') = live (inodes (table s1)) - {w}"
    "\<forall>u \<in> live (inodes t'). entry (inodes t') u = entry (inodes (table s1)) u" "inodes_find (inodes t') ino = None"
    "content_in (tabs (db s1)) (inodes t') (arena t') = (content s1)(ino := file_bytes (tabs (db s1)) ino)"
    using discard_slot_spec[OF b1 ok w1] unfolding content_def ino1 by blast
  have hm': "handles_match (inodes t') (handles t')"
    using hm1 t(2,5,6) handles_no_refs[OF hm1 w1 refs1] by (auto simp: handles_match_def entry_columns)
  obtain r d' where d: "delete_inode (db s1) ino = (r, d')" "faults (db s1) = [] \<longrightarrow> faults d' = []"
    "case r of Inl e \<Rightarrow> tabs d' = tabs (db s1) \<and> faults (db s1) \<noteq> []
     | Inr _ \<Rightarrow> tabs d' = delete_inode_rows (tabs (db s1)) ino" using delete_inode_run[of "db s1" ino] by metis
  define s' where "s' = s1\<lparr>db := d', table := t'\<rparr>"
  have step: "release_fh s fh = Some (map_sum errno_from_db_error id r, s')"
    using h(1) last gone live_columns(5,6)[OF iok lw] live_columns(1)[OF iok lw] t(1) d(1)
    by (cases r) (simp_all add: release_fh_def s1_def with_refs_def ino_def on_db_def s'_def Let_def record_order)
  have hs': "handles_get (handles (table s')) = (handles_get (handles (table s)))(fh := None)" "closing (table s') = closing (table s)"
    using h(2) t(2,3) by (simp_all add: s'_def s1_def)
  have lv: "\<forall>u \<in> live (inodes (table s')). u \<in> live (inodes (table s)) \<and> ino_of (inodes (table s')) u = ino_of (inodes (table s)) u"
    using t(5,6) by (auto simp: s'_def s1_def entry_columns)
  have "running {} s' \<and> (case map_sum errno_from_db_error id r of
      Inl e \<Rightarrow> faults (db s) \<noteq> [] \<and> content s' = (content s)(ino := file_bytes (tabs (db s)) ino)
    | Inr _ \<Rightarrow> content s' = (content s)(ino := None))"
  proof (cases r)
    case (Inl e)
    then show ?thesis using d(3) t(4,8) ok hm' h(4) by (simp add: running_def content_def s'_def s1_def)
  next
    case (Inr u)
    note dr = deleted_rows[OF ok vino]
    note uc = unopened_change[OF t(4) ok t(7) dr(2)]
    show ?thesis using Inr d(3) uc dr(1,3) hm' t(8) h(4) by (simp add: running_def content_def s'_def s1_def)
  qed
  with step hs' lv show ?thesis by blast
qed

lemma release_kept:
  assumes run: "running {} s" and g: "handles_get (handles (table s)) fh = Some w"
    and not: "\<not> (refs_of (inodes (table s)) w = 1 \<and> gone_of (inodes (table s)) w)"
  shows "\<exists>r s'. release_fh s fh = Some (r, s') \<and> running {} s' \<and> closing (table s') = closing (table s) \<and>
    handles_get (handles (table s')) = (handles_get (handles (table s)))(fh := None) \<and>
    (\<forall>u \<in> live (inodes (table s')). u \<in> live (inodes (table s)) \<and> ino_of (inodes (table s')) u = ino_of (inodes (table s)) u) \<and>
    content s' = content s \<and> (\<forall>e. r = Inl e \<longrightarrow> faults (db s) \<noteq> [])"
proof -
  let ?r = "refs_of (inodes (table s)) w - 1"
  obtain hs where h: "handles_release (handles (table s)) fh = (Some w, hs)" "handles_get hs = (handles_get (handles (table s)))(fh := None)"
    "running {} (with_refs s w ?r hs)" "content (with_refs s w ?r hs) = content s" "refs_of (inodes (table s)) w \<noteq> 0"
    using dropped_handle[OF run g] by metis
  define s1 where "s1 = with_refs s w ?r hs"
  have iok: "inodes_ok (inodes (table s))" using run by (simp add: running_def buffers_ok_def)
  note lw = handle_live[OF run g]
  have w1: "w \<in> live (inodes (table s1))" using lw by (simp add: s1_def)
  have not1: "\<not> (?r = 0 \<and> gone_of (inodes (table s)) w)" using not by auto
  obtain q s2 where f: "flush_slot s1 w Skip = Some (q, s2)" "running {} s2" "subsides s1 s2" "w \<in> live (inodes (table s2))"
    "case q of Inl e \<Rightarrow> faults (db s1) \<noteq> [] | Inr _ \<Rightarrow> settled s2 w"
    using flush_turn[OF h(3)[folded s1_def] w1] by blast
  have step: "release_fh s fh = try_then (flush_slot s1 w Skip) (\<lambda>_ s. do { t \<leftarrow> free_if_idle (table s) w; Some (Inr (), s\<lparr>table := t\<rparr>) })"
    using h(1) not1 live_columns(5,6)[OF iok lw] by (auto simp: release_fh_def s1_def with_refs_def Let_def record_order)
  have s1: "handles (table s1) = hs" "closing (table s1) = closing (table s)" "content s1 = content s"
    "live (inodes (table s1)) = live (inodes (table s))" "oi_ino (inodes (table s1)) = oi_ino (inodes (table s))" "db s1 = db s"
    using h(4) by (simp_all add: s1_def)
  show ?thesis
  proof (cases q)
    case (Inl e)
    then have "release_fh s fh = Some (Inl e, s2)" using step f(1) by simp
    with f Inl s1 h(2) show ?thesis by (auto simp: subsides_def quiet_def)
  next
    case (Inr u)
    obtain t' where t: "free_if_idle (table s2) w = Some t'" "running {} (s2\<lparr>table := t'\<rparr>)" "subsides s2 (s2\<lparr>table := t'\<rparr>)"
      using idle_turn[OF f(2,4)] by blast
    have "subsides s1 (s2\<lparr>table := t'\<rparr>)" by (rule subsides_trans[OF f(3) t(3)])
    moreover have "release_fh s fh = Some (Inr (), s2\<lparr>table := t'\<rparr>)" using step f(1) Inr t(1) by simp
    ultimately show ?thesis using t(2) s1 h(2) by (auto simp: subsides_def quiet_def)
  qed
qed

end
