(* ===== verification/Sessions.thy ===== *)
theory Sessions
  imports Open_Files
begin

text \<open>
  Sessions: the calls a client makes on open files, as a step relation on the state of the
  filesystem layer, and the abstract file system they implement, a map from inodes to byte strings
  and a map from handles to inodes with no caches, chunks or rows. Every step is simulated by the
  abstract one, so buffering, eviction and flushing are invisible.
\<close>

section \<open>The abstract file system\<close>

record view =
  files :: "u64 \<Rightarrow> bytes option"
  fds :: "u64 \<Rightarrow> u64 option"

datatype call =
  Open u64 "errno + u64"
| Read u64 u64 u32 "errno + bytes"
| Write u64 u64 bytes "errno + u32"
| Truncate u64 u64 "errno + unit"
| Flush u64 "errno + unit"
| Sync u64 "errno + unit"
| Flush_All "errno + unit"
| Close u64 "errno + unit"
| Reap u64 "errno + unit"

text \<open>What a call may do: a failed write has written a prefix, any other failure changes nothing;
  closing a handle frees it even when the flush it triggers fails. \<open>Reap\<close> closes the last handle of
  a file without a name, which deletes the file.\<close>

inductive spec :: "view \<Rightarrow> call \<Rightarrow> view \<Rightarrow> bool" where
  open_ok: "files v ino \<noteq> None \<Longrightarrow> fds v fh = None \<Longrightarrow> spec v (Open ino (Inr fh)) (v\<lparr>fds := (fds v)(fh \<mapsto> ino)\<rparr>)"
| open_err: "spec v (Open ino (Inl e)) v"
| read_ok: "fds v fh = Some ino \<Longrightarrow> files v ino = Some c \<Longrightarrow> spec v (Read fh offset n (Inr (pread offset n c))) v"
| read_err: "spec v (Read fh offset n (Inl e)) v"
| write_ok: "fds v fh = Some ino \<Longrightarrow> files v ino = Some c \<Longrightarrow> unat m = length data \<Longrightarrow>
    spec v (Write fh offset data (Inr m)) (v\<lparr>files := (files v)(ino \<mapsto> pwrite (offset, data) c)\<rparr>)"
| write_part: "fds v fh = Some ino \<Longrightarrow> files v ino = Some c \<Longrightarrow> n < length data \<Longrightarrow>
    spec v (Write fh offset data (Inl e)) (v\<lparr>files := (files v)(ino \<mapsto> pwrite (offset, take n data) c)\<rparr>)"
| write_none: "spec v (Write fh offset data (Inl e)) v"
| truncate_ok: "files v ino = Some c \<Longrightarrow> spec v (Truncate ino sz (Inr ())) (v\<lparr>files := (files v)(ino \<mapsto> resize (unat sz) c)\<rparr>)"
| truncate_err: "spec v (Truncate ino sz (Inl e)) v"
| flush_any: "spec v (Flush fh r) v"
| sync_any: "spec v (Sync fh r) v"
| flush_all_any: "spec v (Flush_All r) v"
| close_any: "spec v (Close fh r) (v\<lparr>fds := (fds v)(fh := None)\<rparr>)"
| reap_ok: "fds v fh = Some ino \<Longrightarrow> spec v (Reap fh (Inr ())) (v\<lparr>files := (files v)(ino := None), fds := (fds v)(fh := None)\<rparr>)"
| reap_err: "fds v fh = Some ino \<Longrightarrow> spec v (Reap fh (Inl e)) (v\<lparr>files := (files v)(ino := c), fds := (fds v)(fh := None)\<rparr>)"

section \<open>The calls of a client\<close>

definition regular_handle :: "Shared \<Rightarrow> u64 \<Rightarrow> bool" where
  "regular_handle s fh \<longleftrightarrow> (\<exists>ino c. handle_ino s fh = Some ino \<and> content s ino = Some c)"

inductive step :: "Shared \<Rightarrow> call \<Rightarrow> Shared \<Rightarrow> bool" where
  open_call: "openable s \<Longrightarrow> content s ino \<noteq> None \<Longrightarrow> fs_open s ino = Some (r, s') \<Longrightarrow> step s (Open ino r) s'"
| read_call: "regular_handle s fh \<Longrightarrow> read_fh s fh offset n = Some (r, s') \<Longrightarrow> step s (Read fh offset n r) s'"
| write_call: "regular_handle s fh \<Longrightarrow> unat offset < 2 ^ 63 \<Longrightarrow> length data < 2 ^ 32 \<Longrightarrow>
    write_fh s fh offset data now = Some (r, s') \<Longrightarrow> step s (Write fh offset data r) s'"
| truncate_call: "content s ino \<noteq> None \<Longrightarrow> truncate_locked s ino sz stamp = Some (r, s') \<Longrightarrow> step s (Truncate ino sz r) s'"
| flush_call: "handle_ino s fh \<noteq> None \<Longrightarrow> flush_fh s fh = Some (r, s') \<Longrightarrow> step s (Flush fh r) s'"
| sync_call: "handle_ino s fh \<noteq> None \<Longrightarrow> sync_fh s fh = Some (r, s') \<Longrightarrow> step s (Sync fh r) s'"
| flush_all_call: "flush_all s = Some (r, s') \<Longrightarrow> step s (Flush_All r) s'"
| close_call: "handle_ino s fh \<noteq> None \<Longrightarrow> \<not> last_of_gone s fh \<Longrightarrow> release_fh s fh = Some (r, s') \<Longrightarrow> step s (Close fh r) s'"
| reap_call: "last_of_gone s fh \<Longrightarrow> release_fh s fh = Some (r, s') \<Longrightarrow> step s (Reap fh r) s'"

definition view_of :: "Shared \<Rightarrow> view" where
  "view_of s = \<lparr>files = content s, fds = handle_ino s\<rparr>"

lemma view_eqI: "files v = f \<Longrightarrow> fds v = g \<Longrightarrow> v = \<lparr>files = f, fds = g\<rparr>"
  by (cases v) simp

lemma view_of_simps [simp]: "files (view_of s) = content s" "fds (view_of s) = handle_ino s"
  by (simp_all add: view_of_def)

lemma view_of_quiet: "running {} s \<Longrightarrow> quiet s s' \<Longrightarrow> view_of s' = (view_of s)\<lparr>files := content s'\<rparr>"
  using quiet_handles[of s s'] by (simp add: view_of_def)

lemma view_of_same: "running {} s \<Longrightarrow> quiet s s' \<Longrightarrow> content s' = content s \<Longrightarrow> view_of s' = view_of s"
  using quiet_handles[of s s'] by (simp add: view_of_def)

lemma handle_ino_released:
  assumes run: "running {} s'" and get: "handles_get (handles (table s')) = (handles_get (handles (table s)))(fh := None)"
    and lv: "\<forall>u \<in> live (inodes (table s')). u \<in> live (inodes (table s)) \<and> ino_of (inodes (table s')) u = ino_of (inodes (table s)) u"
  shows "handle_ino s' = (handle_ino s)(fh := None)"
proof
  fix f
  show "handle_ino s' f = ((handle_ino s)(fh := None)) f"
  proof (cases "handles_get (handles (table s')) f")
    case (Some u)
    then have "u \<in> live (inodes (table s'))" by (rule handle_live[OF run])
    with Some get lv show ?thesis by (auto simp: handle_ino_def split: if_splits)
  qed (use get in \<open>auto simp: handle_ino_def split: if_splits\<close>)
qed

lemma sync_fh_spec:
  assumes run: "running {} s" and h: "handle_ino s fh = Some ino"
  shows "\<exists>r s'. sync_fh s fh = Some (r, s') \<and> running {} s' \<and> quiet s s' \<and> content s' = content s \<and>
    (case r of Inl e \<Rightarrow> faults (db s) \<noteq> [] | Inr _ \<Rightarrow> \<not> unlinked_open s ino \<longrightarrow> file_bytes (tabs (db s')) ino = content s ino)"
proof -
  obtain r s1 where f: "flush_fh s fh = Some (r, s1)" "running {} s1" "quiet s s1" "content s1 = content s"
    "case r of Inl e \<Rightarrow> faults (db s) \<noteq> [] | Inr _ \<Rightarrow> \<not> unlinked_open s ino \<longrightarrow> file_bytes (tabs (db s1)) ino = content s ino"
    using flush_fh_spec[OF run h] by blast
  show ?thesis
  proof (cases r)
    case (Inl e)
    with f show ?thesis by (auto simp: sync_fh_def)
  next
    case (Inr u)
    obtain q d' where d: "sync_durable (db s1) = (q, d')" "tabs d' = tabs (db s1)" "new_rowid d' = new_rowid (db s1)"
      "faults (db s1) = [] \<longrightarrow> faults d' = [] \<and> q = Inr ()" using sync_durable_run by blast
    have "sync_fh s fh = Some (map_sum errno_from_db_error id q, s1\<lparr>db := d'\<rparr>)"
      using f(1) Inr d(1) by (cases q) (simp_all add: sync_fh_def on_db_def)
    moreover have "running {} (s1\<lparr>db := d'\<rparr>)" "content (s1\<lparr>db := d'\<rparr>) = content s"
      using running_cong[OF f(2), of "s1\<lparr>db := d'\<rparr>"] d(2) f(4) by simp_all
    moreover have "quiet s (s1\<lparr>db := d'\<rparr>)" using f(3) d(3,4) by (simp add: quiet_def)
    moreover have "faults (db s1) \<noteq> [] \<longrightarrow> faults (db s) \<noteq> []" using f(3) by (auto simp: quiet_def)
    ultimately show ?thesis using f(5) Inr d by (cases q) auto
  qed
qed

section \<open>Simulation\<close>

lemma sim_open:
  assumes run: "running {} s" and op: "openable s" and c: "content s ino \<noteq> None" and o: "fs_open s ino = Some (r, s')"
  shows "running {} s' \<and> spec (view_of s) (Open ino r) (view_of s')"
proof -
  obtain c where c': "content s ino = Some c" using c by auto
  from fs_open_spec[OF run op c'] o have s': "running {} s'" "content s' = content s"
    "case r of
       Inl e \<Rightarrow> handles (table s') = handles (table s)
     | Inr fh \<Rightarrow> handles_get (handles (table s)) fh = None \<and>
         (\<exists>w. handles_get (handles (table s')) = (handles_get (handles (table s)))(fh \<mapsto> w) \<and> ino_of (inodes (table s')) w = ino)"
    "\<forall>fh i. handle_ino s fh = Some i \<longrightarrow> handle_ino s' fh = Some i"
    by (auto split: sum.splits)
  have old: "handle_ino s' f = handle_ino s f" if "handles_get (handles (table s')) f = handles_get (handles (table s)) f" for f
  proof (cases "handles_get (handles (table s)) f")
    case (Some a)
    then have "handle_ino s' f = Some (ino_of (inodes (table s)) a)" using s'(4) by (simp add: handle_ino_def)
    with Some show ?thesis by (simp add: handle_ino_def)
  qed (use that in \<open>simp add: handle_ino_def\<close>)
  show ?thesis
  proof (cases r)
    case (Inl e)
    then have "handle_ino s' = handle_ino s" using s'(3) old by auto
    then have "view_of s' = view_of s" using s'(2) by (simp add: view_of_def)
    then show ?thesis using s'(1) Inl by (simp add: open_err)
  next
    case (Inr fh)
    obtain w where w: "handles_get (handles (table s)) fh = None"
      "handles_get (handles (table s')) = (handles_get (handles (table s)))(fh \<mapsto> w)" "ino_of (inodes (table s')) w = ino"
      using s'(3) Inr by auto
    have "handle_ino s' = (handle_ino s)(fh \<mapsto> ino)"
      using w old by (auto simp: fun_eq_iff handle_ino_def)
    then have "view_of s' = (view_of s)\<lparr>fds := (fds (view_of s))(fh \<mapsto> ino)\<rparr>" using s'(2) by (simp add: view_of_def)
    moreover have "fds (view_of s) fh = None" using w(1) by (simp add: handle_ino_def)
    ultimately show ?thesis using s'(1) Inr c' open_ok[of "view_of s" ino fh] by simp
  qed
qed

lemma sim_read:
  assumes run: "running {} s" and h: "regular_handle s fh" and r: "read_fh s fh offset n = Some (r, s')"
  shows "running {} s' \<and> spec (view_of s) (Read fh offset n r) (view_of s')"
proof -
  obtain ino c where hc: "handle_ino s fh = Some ino" "content s ino = Some c" using h by (auto simp: regular_handle_def)
  from read_fh_spec[OF run hc, of offset n] r have s': "running {} s'" "quiet s s'" "content s' = content s"
    "case r of Inl e \<Rightarrow> faults (db s) \<noteq> [] | Inr out \<Rightarrow> out = pread offset n c" by auto
  note v = view_of_same[OF run s'(2,3)]
  show ?thesis
    using s'(1,4) hc read_err read_ok[of "view_of s" fh ino c offset n] by (cases r) (simp_all add: v)
qed

lemma sim_write:
  assumes run: "running {} s" and h: "regular_handle s fh" and fit: "unat offset < 2 ^ 63" "length data < 2 ^ 32"
    and w: "write_fh s fh offset data now = Some (r, s')"
  shows "running {} s' \<and> spec (view_of s) (Write fh offset data r) (view_of s')"
proof -
  obtain ino c where hc: "handle_ino s fh = Some ino" "content s ino = Some c" using h by (auto simp: regular_handle_def)
  have "unat offset + length data < 2 ^ 64" using fit by simp
  from write_fh_spec[OF run hc this, of now] w have s': "running {} s'" "quiet s s'" "written s ino offset data c r s'" by auto
  note v = view_of_quiet[OF run s'(2)]
  show ?thesis
  proof (cases r)
    case (Inr m)
    then have "unat m = length data" "content s' = (content s)(ino \<mapsto> pwrite (offset, data) c)"
      using s'(3) fit by (simp_all add: written_def unat_of_nat)
    then show ?thesis using s'(1) Inr hc write_ok[of "view_of s" fh ino c m data offset] by (simp add: v)
  next
    case (Inl e)
    then consider "content s' = content s" | k where "k < length data" "content s' = (content s)(ino \<mapsto> pwrite (offset, take k data) c)"
      using s'(3) by (auto simp: written_def)
    then show ?thesis
    proof cases
      case 1
      with s'(1) Inl view_of_same[OF run s'(2)] show ?thesis by (simp add: write_none)
    next
      case (2 k)
      then show ?thesis using s'(1) Inl hc write_part[of "view_of s" fh ino c k data offset e] by (simp add: v)
    qed
  qed
qed

lemma sim_truncate:
  assumes run: "running {} s" and c: "content s ino \<noteq> None" and t: "truncate_locked s ino sz stamp = Some (r, s')"
  shows "running {} s' \<and> spec (view_of s) (Truncate ino sz r) (view_of s')"
proof -
  obtain c where c': "content s ino = Some c" using c by auto
  from truncate_locked_spec[OF run c', of sz stamp] t have s': "running {} s'" "quiet s s'" "resized s ino sz c r s'" by auto
  note v = view_of_quiet[OF run s'(2)]
  show ?thesis
  proof (cases r)
    case (Inl e)
    then have "content s' = content s" using s'(3) by (simp add: resized_def)
    with s'(1) Inl view_of_same[OF run s'(2)] show ?thesis by (simp add: truncate_err)
  next
    case (Inr u)
    then have "content s' = (content s)(ino \<mapsto> resize (unat sz) c)" using s'(3) by (simp add: resized_def)
    then show ?thesis using s'(1) Inr c' truncate_ok[of "view_of s" ino c sz] by (simp add: v)
  qed
qed

lemma sim_close:
  assumes run: "running {} s" and h: "handle_ino s fh \<noteq> None" and r: "release_fh s fh = Some (r, s')"
  shows "running {} s' \<and> (if last_of_gone s fh then spec (view_of s) (Reap fh r) (view_of s')
    else spec (view_of s) (Close fh r) (view_of s'))"
proof -
  obtain w where w: "handles_get (handles (table s)) fh = Some w" using h by (auto simp: handle_ino_def)
  let ?i = "ino_of (inodes (table s)) w"
  have ino: "handle_ino s fh = Some ?i" using w by (simp add: handle_ino_def)
  show ?thesis
  proof (cases "last_of_gone s fh")
    case True
    then have g: "refs_of (inodes (table s)) w = 1" "gone_of (inodes (table s)) w" using w by (auto simp: last_of_gone_def)
    from release_last_gone[OF run w g] r have s': "running {} s'"
      "handles_get (handles (table s')) = (handles_get (handles (table s)))(fh := None)"
      "\<forall>u \<in> live (inodes (table s')). u \<in> live (inodes (table s)) \<and> ino_of (inodes (table s')) u = ino_of (inodes (table s)) u"
      "case r of Inl e \<Rightarrow> content s' = (content s)(?i := file_bytes (tabs (db s)) ?i) | Inr _ \<Rightarrow> content s' = (content s)(?i := None)"
      by (auto split: sum.splits)
    note hi = handle_ino_released[OF s'(1-3)]
    have "spec (view_of s) (Reap fh r) (view_of s')"
    proof (cases r)
      case (Inl e)
      then show ?thesis
        using s'(4) hi ino reap_err[of "view_of s" fh ?i e "file_bytes (tabs (db s)) ?i"] by (simp add: view_of_def)
    next
      case (Inr u)
      then show ?thesis using s'(4) hi ino reap_ok[of "view_of s" fh ?i] by (simp add: view_of_def)
    qed
    with s'(1) True show ?thesis by simp
  next
    case False
    then have g: "\<not> (refs_of (inodes (table s)) w = 1 \<and> gone_of (inodes (table s)) w)" using w by (auto simp: last_of_gone_def)
    from release_kept[OF run w g] r have s': "running {} s'"
      "handles_get (handles (table s')) = (handles_get (handles (table s)))(fh := None)"
      "\<forall>u \<in> live (inodes (table s')). u \<in> live (inodes (table s)) \<and> ino_of (inodes (table s')) u = ino_of (inodes (table s)) u"
      "content s' = content s" by auto
    have "view_of s' = (view_of s)\<lparr>fds := (fds (view_of s))(fh := None)\<rparr>"
      using handle_ino_released[OF s'(1-3)] s'(4) by (simp add: view_of_def)
    with s'(1) False close_any[of "view_of s" fh r] show ?thesis by simp
  qed
qed

lemma step_simulated:
  assumes "step s call s'" "running {} s"
  shows "running {} s' \<and> spec (view_of s) call (view_of s')"
  using assms
proof (cases rule: step.cases)
  case (open_call ino r)
  with sim_open assms(2) show ?thesis by blast
next
  case (read_call fh offset n r)
  with sim_read assms(2) show ?thesis by blast
next
  case (write_call fh offset data now r)
  with sim_write assms(2) show ?thesis by blast
next
  case (truncate_call ino sz stamp r)
  with sim_truncate assms(2) show ?thesis by blast
next
  case (flush_call fh r)
  then obtain ino where h: "handle_ino s fh = Some ino" by auto
  from flush_fh_spec[OF assms(2) h] flush_call view_of_same[OF assms(2), of s'] flush_any show ?thesis by auto
next
  case (sync_call fh r)
  then obtain ino where h: "handle_ino s fh = Some ino" by auto
  from sync_fh_spec[OF assms(2) h] sync_call view_of_same[OF assms(2), of s'] sync_any show ?thesis by auto
next
  case (flush_all_call r)
  from flush_all_spec[OF assms(2)] flush_all_call view_of_same[OF assms(2), of s'] flush_all_any show ?thesis by auto
next
  case (close_call fh r)
  with sim_close[OF assms(2), of fh r s'] show ?thesis by simp
next
  case (reap_call fh r)
  then have "handle_ino s fh \<noteq> None" by (auto simp: last_of_gone_def handle_ino_def)
  with reap_call sim_close[OF assms(2), of fh r s'] show ?thesis by simp
qed

inductive session :: "Shared \<Rightarrow> call list \<Rightarrow> Shared \<Rightarrow> bool" where
  session_nil: "session s [] s"
| session_cons: "step s call t \<Longrightarrow> session t calls u \<Longrightarrow> session s (call # calls) u"

inductive spec_session :: "view \<Rightarrow> call list \<Rightarrow> view \<Rightarrow> bool" where
  spec_nil: "spec_session v [] v"
| spec_cons: "spec v call v1 \<Longrightarrow> spec_session v1 calls v2 \<Longrightarrow> spec_session v (call # calls) v2"

inductive_cases session_ConsE: "session s (call # calls) u"

lemma session_simulated:
  assumes "session s calls s'" "running {} s"
  shows "running {} s' \<and> spec_session (view_of s) calls (view_of s')"
  using assms
proof (induction rule: session.induct)
  case (session_nil s)
  then show ?case by (simp add: spec_nil)
next
  case (session_cons s call t calls u)
  from step_simulated[OF session_cons.hyps(1) session_cons.prems] session_cons.IH show ?case
    by (auto intro: spec_cons)
qed

section \<open>What a session can rely on\<close>

text \<open>C1. Whatever a client does with open files, in any order, and whatever SQLite fails in between,
  the buffering filesystem behaves as a plain map from inodes to byte strings: every session is a
  session of the abstract file system with the same calls and the same replies, and the invariant
  of the buffers holds after it.\<close>

theorem sessions_refine_file_map:
  assumes "session s calls s'" and "shared_ok s"
  shows "shared_ok s' \<and> spec_session (view_of s) calls (view_of s')"
  by (rule session_simulated[OF assms])

text \<open>No call on an open file ever panics or runs forever: a handle that is open on a regular
  file can be read, written, flushed, synced and closed, and each call returns.\<close>

theorem open_file_calls_return:
  assumes "shared_ok s" and "regular_handle s fh" and "unat offset < 2 ^ 63" and "length data < 2 ^ 32"
  shows "(\<exists>r s'. step s (Read fh offset n r) s') \<and> (\<exists>r s'. step s (Write fh offset data r) s') \<and>
    (\<exists>r s'. step s (Flush fh r) s') \<and> (\<exists>r s'. step s (Sync fh r) s') \<and>
    (\<exists>r s'. step s (Close fh r) s' \<or> step s (Reap fh r) s')"
proof -
  obtain ino c where h: "handle_ino s fh = Some ino" "content s ino = Some c" using assms(2) by (auto simp: regular_handle_def)
  obtain w where w: "handles_get (handles (table s)) fh = Some w" using h(1) by (auto simp: handle_ino_def)
  have fit: "unat offset + length data < 2 ^ 64" using assms(3,4) by simp
  have "\<exists>r s'. step s (Read fh offset n r) s'"
    using read_fh_spec[OF assms(1) h, of offset n] read_call[OF assms(2)] by blast
  moreover have "\<exists>r s'. step s (Write fh offset data r) s'"
    using write_fh_spec[OF assms(1) h fit, of 0] write_call[OF assms(2-4)] by blast
  moreover have "\<exists>r s'. step s (Flush fh r) s'" using flush_fh_spec[OF assms(1) h(1)] flush_call[of s fh] h(1) by blast
  moreover have "\<exists>r s'. step s (Sync fh r) s'" using sync_fh_spec[OF assms(1) h(1)] sync_call[of s fh] h(1) by blast
  moreover have "\<exists>r s'. step s (Close fh r) s' \<or> step s (Reap fh r) s'"
  proof (cases "last_of_gone s fh")
    case True
    then have g: "refs_of (inodes (table s)) w = 1" "gone_of (inodes (table s)) w" using w by (auto simp: last_of_gone_def)
    from release_last_gone[OF assms(1) w g] reap_call[OF True] show ?thesis by blast
  next
    case False
    then have g: "\<not> (refs_of (inodes (table s)) w = 1 \<and> gone_of (inodes (table s)) w)" using w by (auto simp: last_of_gone_def)
    from release_kept[OF assms(1) w g] close_call[of s fh] False h(1) show ?thesis by blast
  qed
  ultimately show ?thesis by blast
qed

lemma sync_unlinked:
  assumes run: "running {} s" and h: "handle_ino s fh = Some ino" and u: "unlinked_open s ino" and f: "sync_fh s fh = Some (r, s')"
  shows "tabs (db s') = tabs (db s)"
proof -
  have iok: "inodes_ok (inodes (table s))" using run by (simp add: running_def buffers_ok_def)
  obtain w where w: "handles_get (handles (table s)) fh = Some w" "ino_of (inodes (table s)) w = ino" using h by (auto simp: handle_ino_def)
  note lw = handle_live[OF run w(1)]
  have "gone_of (inodes (table s)) w" using u live_find[OF iok lw] w(2) by (auto simp: unlinked_open_def)
  then have "flush_slot s w Skip = Some (Inr (), s)" using live_columns(6,7)[OF iok lw] by (simp add: flush_slot_def)
  moreover obtain q d where "sync_durable (db s) = (q, d)" "tabs d = tabs (db s)" using sync_durable_run by blast
  ultimately show ?thesis using f w(1) by (cases q) (auto simp: sync_fh_def flush_fh_def on_db_def)
qed

text \<open>C11. An fsync returns, and unless SQLite fails it reports success. Success means, for a file that has
  not been unlinked while open, that whatever was written through any handle of it is then in the database,
  as its readers see it. For a file that was unlinked while open fsync stores nothing: no table changes.
  In either case, and when it fails, every file reads as before.\<close>

theorem fsync_stores_file:
  assumes "shared_ok s" and "handle_ino s fh = Some ino"
  shows "\<exists>r s'. sync_fh s fh = Some (r, s') \<and> shared_ok s' \<and> content s' = content s \<and>
    (case r of
       Inl e \<Rightarrow> faults (db s) \<noteq> []
     | Inr _ \<Rightarrow> if unlinked_open s ino then tabs (db s') = tabs (db s) else file_bytes (tabs (db s')) ino = content s ino)"
proof -
  obtain r s' where r: "sync_fh s fh = Some (r, s')" "running {} s'" "content s' = content s"
    "case r of Inl e \<Rightarrow> faults (db s) \<noteq> [] | Inr _ \<Rightarrow> \<not> unlinked_open s ino \<longrightarrow> file_bytes (tabs (db s')) ino = content s ino"
    using sync_fh_spec[OF assms] by blast
  then show ?thesis using sync_unlinked[OF assms _ r(1)] by (cases r) auto
qed

text \<open>C13. A handle is dead once it is closed, even if closing it reported an error: every later
  call on it is refused with EBADF and changes nothing.\<close>

theorem closed_handle_refused:
  assumes "shared_ok s" and "release_fh s fh = Some (r, s')" and "handle_ino s fh \<noteq> None"
  shows "read_fh s' fh offset n = Some (Inl EBADF, s') \<and> write_fh s' fh offset data now = Some (Inl EBADF, s') \<and>
    flush_fh s' fh = Some (Inl EBADF, s') \<and> sync_fh s' fh = Some (Inl EBADF, s') \<and>
    release_fh s' fh = Some (Inl EBADF, s')"
proof -
  obtain w where w: "handles_get (handles (table s)) fh = Some w" using assms(3) by (auto simp: handle_ino_def)
  have "handles_get (handles (table s')) = (handles_get (handles (table s)))(fh := None)"
    using release_last_gone[OF assms(1) w] release_kept[OF assms(1) w] assms(2)
    by (cases "refs_of (inodes (table s)) w = 1 \<and> gone_of (inodes (table s)) w") auto
  then have none: "handles_get (handles (table s')) fh = None" by simp
  with handles_release_None[OF none] show ?thesis
    by (simp add: read_fh_def write_fh_def flush_fh_def sync_fh_def release_fh_def)
qed

end
