(* ===== verification/Names.thy ===== *)
theory Names
  imports File_Data
begin

text \<open>
  The directory tree of the storage layer: what a set of entries must satisfy to be a tree,
  and the proof that creating, linking, removing and renaming keep it so. The
  tree is stated over the kinds of the inodes and the set of entries, apart from the tables.
\<close>

section \<open>Trees\<close>

type_synonym kinds = "i64 \<Rightarrow> i64 option"
type_synonym entry_set = "(i64 \<times> dirent_row) set"

abbreviation DIR :: i64 where "DIR \<equiv> kind_as_i64 Directory"

text \<open>From a directory to the directory that holds its entry.\<close>

definition up :: "kinds \<Rightarrow> entry_set \<Rightarrow> (i64 \<times> i64) set" where
  "up K D = {(d_child d, d_parent d) | rid d. (rid, d) \<in> D \<and> K (d_child d) = Some DIR}"

lemma up_insert:
  "up K (insert (rid, d) D) = (if K (d_child d) = Some DIR then insert (d_child d, d_parent d) (up K D) else up K D)"
  by (auto simp: up_def)

lemma up_iff: "(i, j) \<in> up K D \<longleftrightarrow> K i = Some DIR \<and> (\<exists>rid d. (rid, d) \<in> D \<and> d_child d = i \<and> d_parent d = j)"
  unfolding up_def by blast

lemma up_mono: "D' \<subseteq> D \<Longrightarrow> up K D' \<subseteq> up K D"
  by (auto simp: up_def)

lemma up_child: "(i, j) \<in> up K D \<Longrightarrow> \<exists>rid d. (rid, d) \<in> D \<and> d_child d = i \<and> d_parent d = j"
  by (auto simp: up_def)

text \<open>\<open>only R D\<close>: no two entries are related.\<close>

definition only :: "(dirent_row \<Rightarrow> dirent_row \<Rightarrow> bool) \<Rightarrow> entry_set \<Rightarrow> bool" where
  "only R D \<longleftrightarrow> (\<forall>x \<in> D. \<forall>y \<in> D. R (snd x) (snd y) \<longrightarrow> x = y)"

lemma only_insert: "only R D \<Longrightarrow> \<forall>y \<in> D. \<not> R d (snd y) \<and> \<not> R (snd y) d \<Longrightarrow> only R (insert (rid, d) D)"
  unfolding only_def by simp

lemma only_subset: "only R D \<Longrightarrow> D' \<subseteq> D \<Longrightarrow> only R D'"
  unfolding only_def by blast

lemma onlyD: "only R D \<Longrightarrow> x \<in> D \<Longrightarrow> y \<in> D \<Longrightarrow> R (snd x) (snd y) \<Longrightarrow> x = y"
  unfolding only_def by blast

lemma only_weaken: "only R D \<Longrightarrow> \<forall>x \<in> D. \<forall>y \<in> D. S (snd x) (snd y) \<longrightarrow> R (snd x) (snd y) \<Longrightarrow> only S D"
  unfolding only_def by simp

definition same_name :: "dirent_row \<Rightarrow> dirent_row \<Rightarrow> bool" where
  "same_name d e \<longleftrightarrow> d_parent d = d_parent e \<and> d_name d = d_name e"

definition same_dir :: "kinds \<Rightarrow> dirent_row \<Rightarrow> dirent_row \<Rightarrow> bool" where
  "same_dir K d e \<longleftrightarrow> d_child d = d_child e \<and> K (d_child d) = Some DIR"

definition closed :: "kinds \<Rightarrow> dirent_row \<Rightarrow> bool" where
  "closed K d \<longleftrightarrow> K (d_parent d) = Some DIR \<and> K (d_child d) \<noteq> None \<and> d_child d \<noteq> 1"

definition tree :: "kinds \<Rightarrow> entry_set \<Rightarrow> bool" where
  "tree K D \<longleftrightarrow> K 1 = Some DIR \<and> only same_name D \<and> only (same_dir K) D \<and> (\<forall>x \<in> D. closed K (snd x)) \<and> acyclic (up K D)"

text \<open>A new inode gets its first entry.\<close>

lemma tree_new:
  assumes t: "tree K D" and new: "K (d_child d) = None" and p: "K (d_parent d) = Some DIR"
    and free: "\<forall>y \<in> D. \<not> same_name d (snd y)"
  shows "tree (K(d_child d \<mapsto> k)) (insert (rid, d) D)"
proof -
  let ?K = "K(d_child d \<mapsto> k)" and ?c = "d_child d"
  have none: "\<forall>y \<in> D. d_child (snd y) \<noteq> ?c \<and> d_parent (snd y) \<noteq> ?c"
    using t new by (auto simp: tree_def closed_def)
  have pc: "d_parent d \<noteq> ?c" and one: "?c \<noteq> 1" using p new t by (auto simp: tree_def)
  have upK: "up ?K D = up K D" using none by (force simp: up_def)
  have "(d_parent d, ?c) \<notin> (up K D)\<^sup>*"
  proof
    assume "(d_parent d, ?c) \<in> (up K D)\<^sup>*"
    then obtain j where "(j, ?c) \<in> up K D" using pc by (meson rtranclE)
    then show False using up_child[of j ?c K D] none by force
  qed
  then have "acyclic (insert (?c, d_parent d) (up K D))" using t by (simp add: tree_def)
  then have "acyclic (up ?K (insert (rid, d) D))"
    unfolding up_insert upK by (rule acyclic_subset) auto
  moreover have "only same_name (insert (rid, d) D)"
    using t free by (intro only_insert) (auto simp: tree_def same_name_def)
  moreover have "only (same_dir ?K) D"
    by (rule only_weaken[of "same_dir K"]) (use t none in \<open>auto simp: tree_def same_dir_def\<close>)
  then have "only (same_dir ?K) (insert (rid, d) D)"
    using none by (intro only_insert) (auto simp: same_dir_def)
  moreover have "\<forall>x \<in> insert (rid, d) D. closed ?K (snd x)"
    using t none p pc one by (auto simp: tree_def closed_def)
  ultimately show ?thesis using t one by (simp add: tree_def)
qed

text \<open>A further name for an inode that is not a directory.\<close>

lemma tree_link:
  assumes t: "tree K D" and c: "K (d_child d) = Some k" "k \<noteq> DIR" and p: "K (d_parent d) = Some DIR"
    and free: "\<forall>y \<in> D. \<not> same_name d (snd y)"
  shows "tree K (insert (rid, d) D)"
proof -
  have "only same_name (insert (rid, d) D)"
    using t free by (intro only_insert) (auto simp: tree_def same_name_def)
  moreover have "only (same_dir K) (insert (rid, d) D)"
    using t c by (intro only_insert) (auto simp: tree_def same_dir_def)
  moreover have "closed K d" using t c p by (auto simp: tree_def closed_def)
  ultimately show ?thesis using t c by (simp add: tree_def up_insert)
qed

lemma tree_less:
  assumes t: "tree K D" and "D' \<subseteq> D"
  shows "tree K D'"
  using t assms(2) only_subset[OF _ assms(2)] acyclic_subset[OF _ up_mono[OF assms(2)]]
  unfolding tree_def by blast

text \<open>An inode that no entry names goes away.\<close>

lemma tree_gone:
  assumes t: "tree K D" and none: "\<forall>y \<in> D. d_child (snd y) \<noteq> c \<and> d_parent (snd y) \<noteq> c" and one: "c \<noteq> 1"
  shows "tree (K(c := None)) D"
proof -
  have "up (K(c := None)) D = up K D" using none by (force simp: up_def)
  moreover have "only (same_dir (K(c := None))) D"
    by (rule only_weaken[of "same_dir K"]) (use t none in \<open>auto simp: tree_def same_dir_def\<close>)
  ultimately show ?thesis using t none one by (simp add: tree_def closed_def)
qed

text \<open>An entry moves; a directory never below itself.\<close>

lemma tree_move:
  assumes t: "tree K D" and d: "(rid, d) \<in> D" and q: "K q = Some DIR"
    and free: "\<forall>y \<in> D. y \<noteq> (rid, d) \<longrightarrow> \<not> (d_parent (snd y) = q \<and> d_name (snd y) = n)"
    and below: "K (d_child d) = Some DIR \<Longrightarrow> (q, d_child d) \<notin> (up K D)\<^sup>*"
  shows "tree K (insert (rid, d\<lparr>d_parent := q, d_name := n\<rparr>) (D - {(rid, d)}))"
proof -
  let ?d = "d\<lparr>d_parent := q, d_name := n\<rparr>" and ?E = "D - {(rid, d)}"
  have E: "tree K ?E" by (rule tree_less[OF t]) blast
  have "only same_name (insert (rid, ?d) ?E)"
    using E free by (intro only_insert) (auto simp: tree_def same_name_def)
  moreover have "\<not> same_dir K d (snd y)" "\<not> same_dir K (snd y) d" if "y \<in> ?E" for y
    using t that d onlyD[of "same_dir K" D "(rid, d)" y] onlyD[of "same_dir K" D y "(rid, d)"] by (auto simp: tree_def)
  then have "only (same_dir K) (insert (rid, ?d) ?E)"
    using E by (intro only_insert) (auto simp: tree_def same_dir_def)
  moreover have "closed K ?d" using t d q by (auto simp: tree_def closed_def)
  moreover have "acyclic (up K (insert (rid, ?d) ?E))"
  proof (cases "K (d_child d) = Some DIR")
    case True
    have "acyclic (insert (d_child d, q) (up K D))" using below[OF True] t by (simp add: tree_def)
    moreover have "up K (insert (rid, ?d) ?E) \<subseteq> insert (d_child d, q) (up K D)"
      using up_mono[of ?E D K] by (auto simp: up_insert)
    ultimately show ?thesis by (rule acyclic_subset)
  qed (use E in \<open>simp add: up_insert tree_def\<close>)
  ultimately show ?thesis using E by (simp add: tree_def)
qed

section \<open>The tree of the tables\<close>

definition kinds :: "tables \<Rightarrow> kinds" where
  "kinds t = (\<lambda>i. map_option r_kind (map_of (t_inodes t) i))"

definition nlinks :: "tables \<Rightarrow> i64 \<Rightarrow> i64 option" where
  "nlinks t i = map_option r_nlink (map_of (t_inodes t) i)"

definition tree_ok :: "tables \<Rightarrow> bool" where
  "tree_ok t \<longleftrightarrow> tbl_ok (t_inodes t) \<and> tbl_ok (t_dirents t) \<and>
     (\<forall>i k. kinds t i = Some k \<longrightarrow> 0 < i \<and> i < 2 ^ 39 \<and> k \<in> {1, 2, 3}) \<and> tree (kinds t) (set (t_dirents t))"

lemma DIR_eq: "DIR = 2"
  by simp

lemma kinds_range:
  assumes "tree_ok t" "kinds t i = Some k"
  shows "0 < i" "i < 2 ^ 39" "in_i64 i" "k \<in> {1, 2, 3}"
proof -
  show "0 < i" "i < 2 ^ 39" "k \<in> {1, 2, 3}" using assms unfolding tree_ok_def by blast+
  then show "in_i64 i" by (simp add: in_i64_def i64_MIN_def i64_MAX_def)
qed

lemma kinds_update:
  assumes "\<And>r. r_kind (f r) = r_kind r"
  shows "kinds (t\<lparr>t_inodes := tbl_update k f (t_inodes t)\<rparr>) = kinds t"
  using assms by (simp add: kinds_def map_of_tbl_update fun_eq_iff option.map_comp comp_def)

lemma tree_ok_cong:
  assumes "tree_ok t" "kinds t' = kinds t" "t_dirents t' = t_dirents t" "tbl_ok (t_inodes t')"
  shows "tree_ok t'"
  using assms by (simp add: tree_ok_def)

text \<open>Statements that change neither kinds nor entries.\<close>

lemma meta_simps [simp]:
  "kinds (set_size t ino n m) = kinds t" "kinds (touch_dir t ino m) = kinds t" "kinds (add_directory_nlink t ino x) = kinds t"
  "kinds (set_nlink t ino l m) = kinds t" "kinds (delete_chunk_range t ino) = kinds t" "kinds (upsert_chunk t key d) = kinds t"
  "t_dirents (touch_dir t ino m) = t_dirents t" "t_dirents (add_directory_nlink t ino x) = t_dirents t"
  "t_dirents (set_nlink t ino l m) = t_dirents t" "t_dirents (delete_chunk_range t ino) = t_dirents t"
  "tbl_ok (t_inodes (touch_dir t ino m)) = tbl_ok (t_inodes t)" "tbl_ok (t_inodes (add_directory_nlink t ino x)) = tbl_ok (t_inodes t)"
  "tbl_ok (t_inodes (set_nlink t ino l m)) = tbl_ok (t_inodes t)" "t_inodes (delete_chunk_range t ino) = t_inodes t"
  "t_chunks (touch_dir t ino m) = t_chunks t" "t_chunks (add_directory_nlink t ino x) = t_chunks t" "t_chunks (set_nlink t ino l m) = t_chunks t"
  by (simp_all add: set_size_def touch_dir_def add_directory_nlink_def set_nlink_def delete_chunk_range_def upsert_chunk_def
      Let_def split: prod.splits) (simp_all add: kinds_def map_of_tbl_update fun_eq_iff option.map_comp comp_def)

lemma tree_ok_meta [simp]:
  "tree_ok (touch_dir t ino m) = tree_ok t" "tree_ok (add_directory_nlink t ino x) = tree_ok t"
  "tree_ok (set_nlink t ino l m) = tree_ok t" "tree_ok (set_size t ino n m) = tree_ok t"
  by (simp_all add: tree_ok_def)

lemma delete_dirent_entries:
  "set (t_dirents (delete_dirent t p n)) = {(i, d) \<in> set (t_dirents t). \<not> (d_parent d = i64_of_u64 p \<and> d_name d = n)}"
  by (simp add: delete_dirent_def set_tbl_delete)

lemma delete_dirent_frame [simp]:
  "kinds (delete_dirent t p n) = kinds t" "t_inodes (delete_dirent t p n) = t_inodes t" "t_chunks (delete_dirent t p n) = t_chunks t"
  "t_symlinks (delete_dirent t p n) = t_symlinks t"
  by (simp_all add: delete_dirent_def kinds_def)

lemma delete_dirent_tree: "tree_ok t \<Longrightarrow> tree_ok (delete_dirent t p n)"
proof -
  assume t: "tree_ok t"
  then have "tree (kinds t) (set (t_dirents t))" by (simp add: tree_ok_def)
  then have "tree (kinds t) (set (t_dirents (delete_dirent t p n)))" by (rule tree_less) (auto simp: delete_dirent_entries)
  moreover have "tbl_ok (t_dirents (delete_dirent t p n))" using t by (simp add: tree_ok_def delete_dirent_def tbl_ok_delete)
  ultimately show ?thesis using t by (simp add: tree_ok_def)
qed

lemma delete_inode_rows_entries:
  "set (t_dirents (delete_inode_rows t ino)) =
    {(i, d) \<in> set (t_dirents t). d_parent d \<noteq> i64_of_u64 ino \<and> d_child d \<noteq> i64_of_u64 ino}"
  by (auto simp: delete_inode_rows_def delete_inode_row_def Let_def set_tbl_delete)

lemma delete_inode_rows_kinds:
  assumes "tbl_ok (t_inodes t)"
  shows "kinds (delete_inode_rows t ino) = (kinds t)(i64_of_u64 ino := None)"
  using assms
  by (auto simp: kinds_def delete_inode_rows_def delete_inode_row_def Let_def fun_eq_iff map_of_tbl_delete split: option.splits)

lemma delete_inode_rows_tree:
  assumes t: "tree_ok t" and one: "i64_of_u64 ino \<noteq> 1"
  shows "tree_ok (delete_inode_rows t ino)"
proof -
  have tbl: "tbl_ok (t_inodes t)" "tbl_ok (t_dirents t)" using t by (simp_all add: tree_ok_def)
  let ?D = "set (t_dirents (delete_inode_rows t ino))"
  have "tree (kinds t) (set (t_dirents t))" using t by (simp add: tree_ok_def)
  then have "tree (kinds t) ?D" by (rule tree_less) (auto simp: delete_inode_rows_entries)
  then have "tree ((kinds t)(i64_of_u64 ino := None)) ?D"
    by (rule tree_gone) (use one in \<open>auto simp: delete_inode_rows_entries\<close>)
  moreover have "tbl_ok (t_inodes (delete_inode_rows t ino))" "tbl_ok (t_dirents (delete_inode_rows t ino))"
    using tbl by (simp_all add: delete_inode_rows_def delete_inode_row_def Let_def tbl_ok_delete)
  ultimately show ?thesis using t by (simp add: tree_ok_def delete_inode_rows_kinds[OF tbl(1)] split: if_splits)
qed

section \<open>Entries\<close>

lemma insert_dirent_Inr:
  assumes "insert_dirent pick t p n c = Inr t'"
  obtains rid where "pick (map fst (t_dirents t)) = Some rid"
    "\<forall>y \<in> set (t_dirents t). \<not> same_name \<lparr>d_parent = i64_of_u64 p, d_name = n, d_child = i64_of_u64 c\<rparr> (snd y)"
    "kinds t (i64_of_u64 p) \<noteq> None" "kinds t (i64_of_u64 c) \<noteq> None"
    "t' = t\<lparr>t_dirents := tbl_put rid \<lparr>d_parent = i64_of_u64 p, d_name = n, d_child = i64_of_u64 c\<rparr> (t_dirents t)\<rparr>"
  using assms by (auto simp: insert_dirent_def Let_def kinds_def list_ex_iff same_name_def case_prod_beta
      eq_commute[of "i64_of_u64 p"] eq_commute[of n] split: option.splits if_splits)

lemma inode_kind_of_Inr:
  assumes "inode_kind_of db ino = (Inr k, db')"
  shows "kinds (tabs db) (i64_of_u64 ino) = Some (kind_as_i64 k)" and "tabs db' = tabs db" and "new_rowid db' = new_rowid db"
proof -
  have q: "(case map_of (t_inodes (tabs db)) (i64_of_u64 ino) of None \<Rightarrow> Inl (from_sql_error QueryReturnedNoRows)
      | Some row \<Rightarrow> kind_from_i64 (r_kind row)) = Inr k"
    using assms unfolding inode_kind_of_def by (rule query_Inr)
  then show "kinds (tabs db) (i64_of_u64 ino) = Some (kind_as_i64 k)"
    by (auto simp: kinds_def kind_from_i64_def split: option.splits if_splits)
  show "tabs db' = tabs db" "new_rowid db' = new_rowid db"
    using assms unfolding inode_kind_of_def by (auto dest: query_frame)
qed

lemma insert_dirent_entries:
  assumes "tbl_ok (t_dirents t)" "rowids_fresh pick" "pick (map fst (t_dirents t)) = Some rid"
  shows "set (tbl_put rid d (t_dirents t)) = insert (rid, d) (set (t_dirents t))" and "tbl_ok (tbl_put rid d (t_dirents t))"
    and "rid \<notin> fst ` set (t_dirents t)"
proof -
  show f: "rid \<notin> fst ` set (t_dirents t)" using assms(2,3) unfolding rowids_fresh_def by (metis list.set_map)
  show "set (tbl_put rid d (t_dirents t)) = insert (rid, d) (set (t_dirents t))" by (rule set_tbl_put_fresh[OF f])
  show "tbl_ok (tbl_put rid d (t_dirents t))" by (rule tbl_ok_put[OF assms(1)])
qed

section \<open>Creating\<close>

fun node_kind :: "NewNode \<Rightarrow> FileKind" where
  "node_kind (NewDirectory _) = Directory"
| "node_kind (NewFile _) = RegularFile"
| "node_kind (NewSymlink _) = Symlink"

text \<open>The timestamps that \<^verbatim>\<open>from_ns\<close> reads back from the columns.\<close>

definition stored_times :: "Inode \<Rightarrow> Inode" where
  "stored_times inode = inode\<lparr>i_atime := from_ns (to_ns (i_atime inode)), i_mtime := from_ns (to_ns (i_mtime inode)),
     i_ctime := from_ns (to_ns (i_ctime inode))\<rparr>"

text \<open>\<open>born\<close>: what a successful creation leaves: one inode with a fresh number and one entry for it.\<close>

definition born :: "tables \<Rightarrow> u64 \<Rightarrow> bytes \<Rightarrow> NewNode \<Rightarrow> Inode \<Rightarrow> tables \<Rightarrow> bool" where
  "born t parent_ino name node inode t' \<longleftrightarrow>
     (\<exists>rid. let i = i64_of_u64 (i_ino inode); d = \<lparr>d_parent = i64_of_u64 parent_ino, d_name = name, d_child = i\<rparr> in
        kinds t (i64_of_u64 parent_ino) = Some DIR \<and> kinds t i = None \<and> valid_ino (i_ino inode) \<and> 0 < i \<and> i < 2 ^ 39 \<and>
        (\<forall>y \<in> set (t_dirents t). \<not> same_name d (snd y)) \<and> rid \<notin> fst ` set (t_dirents t) \<and>
        i_kind inode = node_kind node \<and> kinds t' = (kinds t)(i \<mapsto> kind_as_i64 (node_kind node)) \<and>
        set (t_dirents t') = insert (rid, d) (set (t_dirents t)) \<and> tbl_ok (t_dirents t') \<and> tbl_ok (t_inodes t') \<and>
        t_chunks t' = t_chunks t \<and>
        (\<forall>j. j \<noteq> i \<longrightarrow> map_option r_size (map_of (t_inodes t') j) = map_option r_size (map_of (t_inodes t) j)) \<and>
        nlinks t' i = Some (if node_kind node = Directory then 2 else 1) \<and>
        (\<forall>j. j \<noteq> i \<longrightarrow> nlinks t' j = map_option (\<lambda>k. if node_kind node = Directory \<and> j = i64_of_u64 parent_ino then k + 1 else k) (nlinks t j)) \<and>
        (\<exists>row. map_of (t_inodes t') i = Some row \<and> r_size row = i64_of_u64 (i_size inode) \<and> inode_from_row i row = Inr (stored_times inode)))"

lemma insert_symlink_Inr:
  assumes "insert_symlink t ino target = Inr t'"
  shows "t' = t\<lparr>t_symlinks := tbl_put (i64_of_u64 ino) target (t_symlinks t)\<rparr>" and "map_of (t_symlinks t) (i64_of_u64 ino) = None"
  using assms by (auto simp: insert_symlink_def Let_def split: if_splits)

lemma rowid_bounds:
  assumes "0 < rowid" "in_i64 rowid" "\<not> MAX_INO < u64_of_i64 rowid"
  shows "i64_of_u64 (u64_of_i64 rowid) = rowid" and "rowid < 2 ^ 39" and "valid_ino (u64_of_i64 rowid)"
proof -
  show r: "i64_of_u64 (u64_of_i64 rowid) = rowid" by (rule i64_u64_i64[OF assms(2)])
  show v: "valid_ino (u64_of_i64 rowid)" using assms(3) by (simp add: valid_ino_def)
  show "rowid < 2 ^ 39" using i64_of_valid_ino[OF v] r v[unfolded valid_ino_unat] by (metis of_nat_less_iff of_nat_numeral of_nat_power)
qed

lemma create_node_born:
  assumes c: "create_node db p n node uid gid now = (Inr inode, db')" and t: "tree_ok (tabs db)" and f: "rowids_fresh (new_rowid db)"
  shows "born (tabs db) p n node inode (tabs db')" and "new_rowid db' = new_rowid db"
proof -
  define T where "T = tabs db"
  define sz :: u64 where "sz = (case node of NewSymlink target \<Rightarrow> of_nat (length target) | _ \<Rightarrow> 0)"
  define md :: u32 where "md = (case node of NewDirectory m \<Rightarrow> m | NewFile m \<Rightarrow> m | NewSymlink _ \<Rightarrow> 511)"
  define nl :: i64 where "nl = (if node_kind node = Directory then 2 else 1)"
  define row where "row = \<lparr>r_kind = kind_as_i64 (node_kind node), r_mode = i64_of_u32 md, r_uid = i64_of_u32 uid,
    r_gid = i64_of_u32 gid, r_size = i64_of_u64 sz, r_atime_ns = to_ns now, r_mtime_ns = to_ns now, r_ctime_ns = to_ns now, r_nlink = nl\<rparr>"
  have kms: "(case node of NewDirectory m \<Rightarrow> (Directory, m, 0) | NewFile m \<Rightarrow> (RegularFile, m, 0)
      | NewSymlink target \<Rightarrow> (Symlink, 511, of_nat (length target))) = (node_kind node, md, sz)"
    by (cases node) (simp_all add: md_def sz_def)
  obtain db1 where k: "inode_kind_of db p = (Inr Directory, db1)" and
    tr: "transaction db1 (\<lambda>t.
      case new_rowid db1 (map fst (t_inodes t)) of
        None \<Rightarrow> Inl (from_sql_error full_error)
      | Some rowid \<Rightarrow>
          let t = t\<lparr>t_inodes := tbl_put rowid row (t_inodes t)\<rparr>; ino = u64_of_i64 rowid
          in if MAX_INO < ino then Inl NoSpace
             else (case insert_dirent (new_rowid db1) t p n ino of
                Inl e \<Rightarrow> Inl e
              | Inr t \<Rightarrow> (case (case node of NewSymlink target \<Rightarrow> insert_symlink t ino target | _ \<Rightarrow> Inr t) of
                  Inl e \<Rightarrow> Inl e
                | Inr t \<Rightarrow>
                    let t = touch_dir t p now;
                        t = (if (if node_kind node = Directory then 1 else 0 :: i64) \<noteq> 0
                             then add_directory_nlink t p (if node_kind node = Directory then 1 else 0) else t)
                    in Inr (\<lparr>i_ino = ino, i_kind = node_kind node, i_mode = md, i_uid = uid, i_gid = gid,
                             i_size = sz, i_atime = now, i_mtime = now, i_ctime = now, i_nlink = u32_of_i64 nl\<rparr>, t)))) = (Inr inode, db')"
    using c unfolding create_node_def kms row_def nl_def
    by (auto simp: and_then_Inr_iff split: sum.splits if_splits)
  note kk = inode_kind_of_Inr[OF k]
  show "new_rowid db' = new_rowid db" using transaction_Inr[OF tr] kk(3) by simp
  from transaction_Inr[OF tr, THEN conjunct1] obtain rowid t2 t3 where
    r: "new_rowid db (map fst (t_inodes T)) = Some rowid" "\<not> MAX_INO < u64_of_i64 rowid"
      "insert_dirent (new_rowid db) (T\<lparr>t_inodes := tbl_put rowid row (t_inodes T)\<rparr>) p n (u64_of_i64 rowid) = Inr t2"
      "(case node of NewSymlink target \<Rightarrow> insert_symlink t2 (u64_of_i64 rowid) target | _ \<Rightarrow> Inr t2) = Inr t3"
    and i: "inode = \<lparr>i_ino = u64_of_i64 rowid, i_kind = node_kind node, i_mode = md, i_uid = uid, i_gid = gid,
                 i_size = sz, i_atime = now, i_mtime = now, i_ctime = now, i_nlink = u32_of_i64 nl\<rparr>"
    and t': "tabs db' = (if node_kind node = Directory then add_directory_nlink (touch_dir t3 p now) p 1 else touch_dir t3 p now)"
    unfolding kk(2,3) T_def[symmetric]
    by (auto simp: Let_def split: option.splits if_splits sum.splits)
  have T: "tbl_ok (t_inodes T)" "tbl_ok (t_dirents T)" "\<forall>i k. kinds T i = Some k \<longrightarrow> 0 < i \<and> i < 2 ^ 39 \<and> k \<in> {1, 2, 3}"
    using t by (simp_all add: tree_ok_def T_def)
  have pos: "\<forall>j \<in> set (map fst (t_inodes T)). 0 < j"
  proof
    fix j assume "j \<in> set (map fst (t_inodes T))"
    then have "map_of (t_inodes T) j \<noteq> None" by (simp add: map_of_eq_None_iff)
    then have "kinds T j \<noteq> None" by (simp add: kinds_def)
    then show "0 < j" using T(3) by blast
  qed
  have fresh: "rowid \<notin> fst ` set (t_inodes T)" "in_i64 rowid" "0 < rowid"
    using f r(1) pos unfolding rowids_fresh_def by (metis list.set_map)+
  note b = rowid_bounds[OF fresh(3,2) r(2)]
  have new: "kinds T rowid = None" using fresh(1) by (simp add: kinds_def map_of_eq_None_iff)
  let ?T = "T\<lparr>t_inodes := tbl_put rowid row (t_inodes T)\<rparr>" and ?d = "\<lparr>d_parent = i64_of_u64 p, d_name = n, d_child = rowid\<rparr>"
  obtain rid where d: "new_rowid db (map fst (t_dirents T)) = Some rid" "\<forall>y \<in> set (t_dirents T). \<not> same_name ?d (snd y)"
    "t2 = ?T\<lparr>t_dirents := tbl_put rid ?d (t_dirents T)\<rparr>"
    by (rule insert_dirent_Inr[OF r(3)]) (simp add: b(1))
  have t3: "t_inodes t3 = t_inodes t2" "t_dirents t3 = t_dirents t2" "t_chunks t3 = t_chunks t2"
    using r(4) by (auto split: NewNode.splits dest: insert_symlink_Inr(1))
  note de = insert_dirent_entries[OF T(2) f d(1)]
  let ?F = "tabs db'"
  have F: "kinds ?F = kinds t3" "t_dirents ?F = t_dirents t3" "t_chunks ?F = t_chunks t3"
    "tbl_ok (t_inodes ?F) = tbl_ok (t_inodes t3)"
    unfolding t' by simp_all
  have ne: "i64_of_u64 p \<noteq> rowid" using kk(1) new unfolding T_def by auto
  have row_of: "map_of (t_inodes ?F) rowid = Some row"
    unfolding t' using ne t3 d(3) by (simp add: touch_dir_def add_directory_nlink_def tbl_simps)
  have sizes: "map_option r_size (map_of (t_inodes ?F) j) = map_option r_size (map_of (t_inodes T) j)" if "j \<noteq> rowid" for j
    unfolding t' using that t3 d(3)
    by (simp add: touch_dir_def add_directory_nlink_def tbl_simps option.map_comp comp_def)
  have links: "nlinks ?F j = map_option (\<lambda>k. if node_kind node = Directory \<and> j = i64_of_u64 p then k + 1 else k) (nlinks T j)" if "j \<noteq> rowid" for j
    unfolding t' nlinks_def using that t3 d(3)
    by (simp add: touch_dir_def add_directory_nlink_def tbl_simps option.map_comp comp_def)
  have K: "kinds ?F = (kinds T)(rowid \<mapsto> kind_as_i64 (node_kind node))"
    unfolding F(1) by (auto simp: kinds_def t3(1) d(3) tbl_simps row_def fun_eq_iff)
  have I: "inode_from_row rowid row = Inr (stored_times inode)"
    unfolding i row_def by (simp add: inode_from_row_def stored_times_def)
  have ii: "i64_of_u64 (i_ino inode) = rowid" "i_kind inode = node_kind node" "valid_ino (i_ino inode)" "r_size row = i64_of_u64 (i_size inode)"
    using b by (simp_all add: i row_def)
  show "born (tabs db) p n node inode (tabs db')"
    unfolding born_def Let_def T_def[symmetric] ii(1)
  proof (rule exI[of _ rid], intro conjI)
    show "kinds T (i64_of_u64 p) = Some DIR" using kk(1) by (simp add: T_def)
    show "set (t_dirents ?F) = insert (rid, ?d) (set (t_dirents T))" "tbl_ok (t_dirents ?F)"
      using F(2) t3(2) d(3) de(1)[of ?d] de(2)[of ?d] by simp_all
    show "tbl_ok (t_inodes ?F)" using F(4) t3(1) d(3) tbl_ok_put[OF T(1)] by simp
    show "t_chunks ?F = t_chunks T" using F(3) t3(3) d(3) by simp
    show "\<forall>j. j \<noteq> rowid \<longrightarrow> map_option r_size (map_of (t_inodes ?F) j) = map_option r_size (map_of (t_inodes T) j)"
      using sizes by blast
    show "\<forall>j. j \<noteq> rowid \<longrightarrow> nlinks ?F j = map_option (\<lambda>k. if node_kind node = Directory \<and> j = i64_of_u64 p then k + 1 else k) (nlinks T j)"
      using links by blast
    show "nlinks ?F rowid = Some (if node_kind node = Directory then 2 else 1)" using row_of by (simp add: nlinks_def row_def nl_def)
    show "\<exists>r. map_of (t_inodes ?F) rowid = Some r \<and> r_size r = i64_of_u64 (i_size inode) \<and> inode_from_row rowid r = Inr (stored_times inode)"
      using row_of ii(4) I by blast
  qed (use new b fresh(3) d(2) de(3) K ii in simp_all)
qed

section \<open>Walking up\<close>

lemma up_finite: "finite (up K (set xs))"
proof -
  have "up K (set xs) \<subseteq> (\<lambda>x. (d_child (snd x), d_parent (snd x))) ` set xs" by (force simp: up_def)
  then show ?thesis by (rule finite_subset) simp
qed

lemma parent_row_None: "parent_row t ino = None \<Longrightarrow> (i64_of_u64 ino, j) \<notin> up K (set (t_dirents t))"
  by (force simp: parent_row_def up_def find_None_iff)

lemma parent_row_Some:
  assumes t: "tree_ok t" and k: "kinds t (i64_of_u64 ino) = Some DIR" and p: "parent_row t ino = Some q"
  shows "(i64_of_u64 ino, j) \<in> up (kinds t) (set (t_dirents t)) \<longleftrightarrow> j = q"
    and "kinds t q = Some DIR" and "i64_of_u64 (u64_of_i64 q) = q"
proof -
  obtain rid d where d: "(rid, d) \<in> set (t_dirents t)" "d_child d = i64_of_u64 ino" "d_parent d = q"
    using p by (auto simp: parent_row_def find_Some_iff dest!: nth_mem)
  have T: "tree (kinds t) (set (t_dirents t))" using t by (simp add: tree_ok_def)
  have e: "e = d" if "(rid', e) \<in> set (t_dirents t)" "d_child e = i64_of_u64 ino" for rid' e
    using T d(1,2) k that onlyD[of "same_dir (kinds t)" "set (t_dirents t)" "(rid, d)" "(rid', e)"]
    by (auto simp: tree_def same_dir_def)
  then show "(i64_of_u64 ino, j) \<in> up (kinds t) (set (t_dirents t)) \<longleftrightarrow> j = q"
    unfolding up_iff using d k e by blast
  show q: "kinds t q = Some DIR" using T d(1,3) by (auto simp: tree_def closed_def)
  show "i64_of_u64 (u64_of_i64 q) = q" by (rule i64_u64_i64) (rule kinds_range(3)[OF t q])
qed

lemma root_no_parent: "tree K D \<Longrightarrow> (1, j) \<notin> up K D"
  by (force simp: tree_def closed_def up_def)

definition names_ok :: "Db \<Rightarrow> bool" where
  "names_ok db \<longleftrightarrow> tree_ok (tabs db) \<and> rowids_fresh (new_rowid db)"

abbreviation ups :: "tables \<Rightarrow> (i64 \<times> i64) set" where "ups t \<equiv> up (kinds t) (set (t_dirents t))"

lemma climb_spec:
  assumes t: "tree_ok t"
  shows "tabs db = t \<Longrightarrow> kinds t (i64_of_u64 cur) = Some DIR \<Longrightarrow>
    \<exists>r db'. climb db cur anc = Some (r, db') \<and> tabs db' = t \<and> new_rowid db' = new_rowid db \<and>
    (faults db = [] \<longrightarrow> \<not> isl r) \<and> (\<forall>b. r = Inr b \<longrightarrow> b = ((i64_of_u64 cur, i64_of_u64 anc) \<in> (ups t)\<^sup>+))"
proof -
  have T: "tree (kinds t) (set (t_dirents t))" using t by (simp add: tree_ok_def)
  have wf: "wf ((ups t)\<inverse>)"
    using T by (intro finite_acyclic_wf_converse up_finite) (simp add: tree_def)
  assume "tabs db = t" "kinds t (i64_of_u64 cur) = Some DIR"
  then show ?thesis
  proof (induction "i64_of_u64 cur" arbitrary: cur db rule: wf_induct_rule[OF wf])
    case less: 1
    show ?case
    proof (cases "cur = 1")
      case True
      have "(1, j) \<notin> (ups t)\<^sup>+" for j using root_no_parent[OF T] by (blast dest: tranclD)
      then show ?thesis using less.prems True by (subst climb.simps) (simp add: i64_of_u64_def)
    next
      case False
      obtain q db1 where q: "query db (\<lambda>t. Inr (parent_row t cur) :: DbError + i64 option) = (q, db1)" by fastforce
      have db1: "tabs db1 = t" "new_rowid db1 = new_rowid db" using query_frame[OF q] less.prems by simp_all
      have nf: "faults db = [] \<Longrightarrow> db1 = db \<and> q = Inr (parent_row t cur)" using q less.prems by (simp add: query_no_fault)
      show ?thesis
      proof (cases q)
        case (Inl e)
        then show ?thesis using False q db1 nf by (subst climb.simps) auto
      next
        case (Inr pr)
        have pr: "pr = parent_row t cur" using query_Inr[OF q[unfolded Inr]] less.prems by simp
        show ?thesis
        proof (cases pr)
          case None
          have "(i64_of_u64 cur, j) \<notin> (ups t)\<^sup>+" for j
            using parent_row_None[OF pr[symmetric, unfolded None]] by (blast dest: tranclD)
          then show ?thesis using False q db1 nf Inr None by (subst climb.simps) simp
        next
          case (Some p)
          note u = parent_row_Some[OF t less.prems(2) pr[symmetric, unfolded Some]]
          have step: "(i64_of_u64 cur, i64_of_u64 anc) \<in> (ups t)\<^sup>+ \<longleftrightarrow> p = i64_of_u64 anc \<or> (p, i64_of_u64 anc) \<in> (ups t)\<^sup>+"
            using u(1) by (metis trancl.simps tranclD rtranclD trancl_into_trancl2)
          have eq: "u64_of_i64 p = anc \<longleftrightarrow> p = i64_of_u64 anc" using u(3) by (metis u64_i64_u64)
          show ?thesis
          proof (cases "p = i64_of_u64 anc")
            case True
            then show ?thesis using False q db1 nf Inr Some step by (subst climb.simps) simp
          next
            case ne: False
            have "\<exists>r db'. climb db1 (u64_of_i64 p) anc = Some (r, db') \<and> tabs db' = t \<and> new_rowid db' = new_rowid db1 \<and>
              (faults db1 = [] \<longrightarrow> \<not> isl r) \<and>
              (\<forall>b. r = Inr b \<longrightarrow> b = ((i64_of_u64 (u64_of_i64 p), i64_of_u64 anc) \<in> (ups t)\<^sup>+))"
              by (rule less.hyps) (use u db1 in auto)
            then show ?thesis using False q db1 nf Inr Some ne eq step u(3) by (subst climb.simps) auto
          qed
        qed
      qed
    qed
  qed
qed

lemma is_descendant_spec:
  assumes t: "tree_ok (tabs db)" and k: "kinds (tabs db) (i64_of_u64 ino) = Some DIR"
  obtains r db' where "is_descendant db ino anc = Some (r, db')" "tabs db' = tabs db" "new_rowid db' = new_rowid db"
    "faults db = [] \<Longrightarrow> \<not> isl r" "\<And>b. r = Inr b \<Longrightarrow> b = ((i64_of_u64 ino, i64_of_u64 anc) \<in> (ups (tabs db))\<^sup>*)"
proof (cases "ino = anc")
  case True
  then show ?thesis by (intro that[of "Inr True" db]) (auto simp: is_descendant_def)
next
  case False
  then show ?thesis using climb_spec[OF t refl k, of anc] that by (auto simp: is_descendant_def rtrancl_eq_or_trancl)
qed

end
