(* ===== verification/Tree_Ops.thy ===== *)
theory Tree_Ops
  imports Names
begin

text \<open>
  The operations of the storage layer on the directory tree: each keeps \<open>names_ok\<close>, whatever it
  returns, and the two that follow parent links return.
\<close>

section \<open>Composing steps\<close>

lemma names_query: "names_ok db \<Longrightarrow> names_ok (snd (query db q))"
  using query_frame[of db q "fst (query db q)" "snd (query db q)"] by (simp add: names_ok_def)

lemma names_transaction:
  assumes "names_ok db" "\<And>a t. body (tabs db) = Inr (a, t) \<Longrightarrow> tree_ok t"
  shows "names_ok (snd (transaction db body))"
proof (cases "transaction db body")
  case (Pair r db')
  then show ?thesis using assms transaction_Inr[of db body _ db'] transaction_Inl[of db body _ db']
    by (cases r) (auto simp: names_ok_def)
qed

lemma names_try_transaction:
  assumes "names_ok db" "\<And>a t. body (tabs db) = Some (Inr (a, t)) \<Longrightarrow> tree_ok t"
    and "try_transaction db body = Some (r, db')"
  shows "names_ok db'"
  using assms try_transaction_Some[OF assms(3)] by (cases r) (auto simp: names_ok_def)

lemma names_and_then:
  assumes "names_ok (snd m)" "\<And>a db. m = (Inr a, db) \<Longrightarrow> names_ok (snd (f a db))"
  shows "names_ok (snd (and_then m f))"
  using assms by (cases m; cases "fst m") auto

lemma names_try_then:
  assumes "try_then m f = Some (r, db')" "\<And>a db. m = Some (a, db) \<Longrightarrow> names_ok db"
    "\<And>a db. m = Some (Inr a, db) \<Longrightarrow> f a db = Some (r, db') \<Longrightarrow> names_ok db'"
  shows "names_ok db'"
  using assms by (auto simp: try_then_def split: option.splits sum.splits)

lemma names_by_result:
  assumes "names_ok db" "\<And>e db'. m = (Inl e, db') \<Longrightarrow> tabs db' = tabs db \<and> new_rowid db' = new_rowid db"
    "\<And>a db'. names_ok db \<Longrightarrow> m = (Inr a, db') \<Longrightarrow> tree_ok (tabs db') \<and> new_rowid db' = new_rowid db"
  shows "names_ok (snd m)"
proof (cases m)
  case (Pair r db')
  then show ?thesis using assms(1) assms(2)[of _ db'] assms(3)[OF assms(1), of _ db']
    by (cases r) (simp_all add: names_ok_def)
qed

lemma names_cong: "names_ok db \<Longrightarrow> tabs db' = tabs db \<Longrightarrow> new_rowid db' = new_rowid db \<Longrightarrow> names_ok db'"
  by (simp add: names_ok_def)

lemma names_kind_of: "names_ok db \<Longrightarrow> names_ok (snd (inode_kind_of db ino))"
  unfolding inode_kind_of_def by (rule names_query)

lemma names_get_inode: "names_ok db \<Longrightarrow> names_ok (snd (get_inode db ino))"
  unfolding get_inode_def by (rule names_query)

lemma names_lookup: "names_ok db \<Longrightarrow> names_ok (snd (lookup db p n))"
  unfolding lookup_def by (simp split: sum.splits add: names_query)

section \<open>What lookups return\<close>

lemma sql_result_Inr [simp]: "sql_result r = Inr a \<longleftrightarrow> r = Inr a"
  by (cases r) (simp_all add: sql_result_def)

lemma inode_from_row_Inr:
  assumes "inode_from_row i row = Inr inode"
  shows "i_ino inode = u64_of_i64 i" "r_kind row = kind_as_i64 (i_kind inode)"
  using assms by (auto simp: inode_from_row_def kind_from_i64_def split: sum.splits if_splits)

lemma get_inode_Inr:
  assumes "get_inode db ino = (Inr inode, db')"
  shows "kinds (tabs db) (i64_of_u64 ino) = Some (kind_as_i64 (i_kind inode))" "i_ino inode = ino"
    "tabs db' = tabs db" "new_rowid db' = new_rowid db"
proof -
  have "(case map_of (t_inodes (tabs db)) (i64_of_u64 ino) of None \<Rightarrow> Inl (from_sql_error QueryReturnedNoRows)
     | Some row \<Rightarrow> sql_result (inode_from_row (i64_of_u64 ino) row)) = Inr inode"
    using assms unfolding get_inode_def by (rule query_Inr)
  then obtain row where r: "map_of (t_inodes (tabs db)) (i64_of_u64 ino) = Some row" "inode_from_row (i64_of_u64 ino) row = Inr inode"
    by (auto split: option.splits)
  show "kinds (tabs db) (i64_of_u64 ino) = Some (kind_as_i64 (i_kind inode))" "i_ino inode = ino"
    using r inode_from_row_Inr[OF r(2)] by (simp_all add: kinds_def)
  show "tabs db' = tabs db" "new_rowid db' = new_rowid db"
    using assms unfolding get_inode_def by (auto dest: query_frame)
qed

lemma join_children_iff:
  "(rid, d, row) \<in> set (join_children P t) \<longleftrightarrow> (rid, d) \<in> set (t_dirents t) \<and> P rid d \<and> map_of (t_inodes t) (d_child d) = Some row"
proof -
  have "y \<in> set (List.map_filter f xs) \<longleftrightarrow> (\<exists>x \<in> set xs. f x = Some y)" for f :: "i64 \<times> dirent_row \<Rightarrow> (i64 \<times> dirent_row \<times> inode_row) option" and xs y
    by (induction xs) (auto simp: List.map_filter_simps split: option.splits)
  then show ?thesis by (force simp: join_children_def split: if_splits)
qed

lemma lookup_Inr:
  assumes "lookup db p n = (Inr inode, db')"
  obtains rid c where "(rid, \<lparr>d_parent = i64_of_u64 p, d_name = n, d_child = c\<rparr>) \<in> set (t_dirents (tabs db))"
    "i_ino inode = u64_of_i64 c" "kinds (tabs db) c = Some (kind_as_i64 (i_kind inode))"
    "tabs db' = tabs db" "new_rowid db' = new_rowid db"
proof -
  have q: "query db (\<lambda>t. case join_children (\<lambda>_ d. d_parent d = i64_of_u64 p \<and> d_name d = n) t of
            [] \<Rightarrow> Inl (from_sql_error QueryReturnedNoRows)
          | (_, d, row) # _ \<Rightarrow> sql_result (inode_from_row (d_child d) row)) = (Inr inode, db')"
    using assms unfolding lookup_def by (auto split: sum.splits)
  from query_Inr[OF q] obtain rid d row rows where
    r: "join_children (\<lambda>_ d. d_parent d = i64_of_u64 p \<and> d_name d = n) (tabs db) = (rid, d, row) # rows"
      "inode_from_row (d_child d) row = Inr inode"
    by (auto split: list.splits)
  have m: "(rid, d, row) \<in> set (join_children (\<lambda>_ d. d_parent d = i64_of_u64 p \<and> d_name d = n) (tabs db))" using r(1) by simp
  then have "(rid, d) \<in> set (t_dirents (tabs db))" "d = \<lparr>d_parent = i64_of_u64 p, d_name = n, d_child = d_child d\<rparr>"
    "map_of (t_inodes (tabs db)) (d_child d) = Some row"
    by (simp_all add: join_children_iff)
  then show thesis
    using that[of rid "d_child d"] inode_from_row_Inr[OF r(2)] query_frame[OF q] by (simp add: kinds_def)
qed

section \<open>Operations that add entries\<close>

lemma names_create_node: "names_ok db \<Longrightarrow> names_ok (snd (create_node db p n node uid gid now))"
proof (cases "create_node db p n node uid gid now")
  case (Pair r db')
  assume ok: "names_ok db"
  show ?thesis
  proof (cases r)
    case (Inr inode)
    have t: "tree_ok (tabs db)" and f: "rowids_fresh (new_rowid db)" using ok by (simp_all add: names_ok_def)
    let ?i = "i64_of_u64 (i_ino inode)"
    note b = create_node_born[OF Pair[unfolded Inr] t f]
    obtain rid where B: "kinds (tabs db) (i64_of_u64 p) = Some DIR" "kinds (tabs db) ?i = None" "0 < ?i" "?i < 2 ^ 39"
      "\<forall>y \<in> set (t_dirents (tabs db)). \<not> same_name \<lparr>d_parent = i64_of_u64 p, d_name = n, d_child = ?i\<rparr> (snd y)"
      "kinds (tabs db') = (kinds (tabs db))(?i \<mapsto> kind_as_i64 (node_kind node))"
      "set (t_dirents (tabs db')) = insert (rid, \<lparr>d_parent = i64_of_u64 p, d_name = n, d_child = ?i\<rparr>) (set (t_dirents (tabs db)))"
      "tbl_ok (t_dirents (tabs db'))" "tbl_ok (t_inodes (tabs db'))"
      using b(1) unfolding born_def Let_def by (elim exE conjE) (rule that, assumption+)
    have "tree (kinds (tabs db)) (set (t_dirents (tabs db)))" using t by (simp add: tree_ok_def)
    then have "tree (kinds (tabs db')) (set (t_dirents (tabs db')))"
      unfolding B(6,7) using tree_new[OF _ _ _ B(5), of "kinds (tabs db)"] B(1,2) by simp
    moreover have "kind_as_i64 (node_kind node) \<in> {1, 2, 3}" by (cases node) simp_all
    then have "\<forall>i k. kinds (tabs db') i = Some k \<longrightarrow> 0 < i \<and> i < 2 ^ 39 \<and> k \<in> {1, 2, 3}"
      using t B(3,4) unfolding B(6) tree_ok_def by auto
    ultimately show ?thesis using Pair B(8,9) f b(2) by (simp add: names_ok_def tree_ok_def)
  next
    case (Inl e)
    have "tabs db' = tabs db \<and> new_rowid db' = new_rowid db"
      using Pair[unfolded Inl] unfolding create_node_def Let_def
      by (auto simp: and_then_def inode_kind_of_def split: sum.splits prod.splits if_splits NewNode.splits
          dest!: query_frame transaction_Inl)
    then show ?thesis using ok Pair by (simp add: names_cong)
  qed
qed

lemma names_insert:
  assumes ok: "names_ok db" and i: "insert_dirent (new_rowid db) (tabs db) p n c = Inr t"
    and k: "kinds (tabs db) (i64_of_u64 c) = Some k" "k \<noteq> DIR" and p: "kinds (tabs db) (i64_of_u64 p) = Some DIR"
  shows "tree_ok t"
proof -
  let ?T = "tabs db" and ?d = "\<lparr>d_parent = i64_of_u64 p, d_name = n, d_child = i64_of_u64 c\<rparr>"
  have T: "tree_ok ?T" "rowids_fresh (new_rowid db)" "tree (kinds ?T) (set (t_dirents ?T))" "tbl_ok (t_dirents ?T)"
    using ok by (simp_all add: names_ok_def tree_ok_def)
  obtain rid where r: "new_rowid db (map fst (t_dirents ?T)) = Some rid" "\<forall>y \<in> set (t_dirents ?T). \<not> same_name ?d (snd y)"
    "t = ?T\<lparr>t_dirents := tbl_put rid ?d (t_dirents ?T)\<rparr>"
    by (rule insert_dirent_Inr[OF i])
  note e = insert_dirent_entries(1,2)[OF T(4,2) r(1), of ?d]
  have "tree (kinds ?T) (insert (rid, ?d) (set (t_dirents ?T)))"
    by (rule tree_link[OF T(3) _ k(2)]) (use k p r(2) in simp_all)
  then show ?thesis using T(1) r(3) e by (simp add: tree_ok_def kinds_def)
qed

lemma names_link: "names_ok db \<Longrightarrow> names_ok (snd (link db ino p n now))"
proof (rule names_by_result)
  fix inode db' assume ok: "names_ok db" and l: "link db ino p n now = (Inr inode, db')"
  obtain i0 db1 db2 where s: "get_inode db ino = (Inr i0, db1)" "i_kind i0 \<noteq> Directory" "inode_kind_of db1 p = (Inr Directory, db2)"
    and tr: "transaction db2 (\<lambda>t. case insert_dirent (new_rowid db2) t p n ino of Inl e \<Rightarrow> Inl e
        | Inr t \<Rightarrow> let new_nlink = i_nlink i0 + 1; t = touch_dir (set_nlink t ino new_nlink now) p now
            in Inr (i0\<lparr>i_nlink := new_nlink, i_ctime := now\<rparr>, t)) = (Inr inode, db')"
    using l unfolding link_def by (auto simp: and_then_Inr_iff split: sum.splits if_splits)
  note g = get_inode_Inr[OF s(1)] and k = inode_kind_of_Inr[OF s(3)]
  have ok2: "names_ok db2" using ok g k by (simp add: names_ok_def)
  obtain t1 where t1: "insert_dirent (new_rowid db2) (tabs db2) p n ino = Inr t1"
      "tabs db' = touch_dir (set_nlink t1 ino (i_nlink i0 + 1) now) p now"
    using transaction_Inr[OF tr] by (auto simp: Let_def split: sum.splits)
  have "kind_as_i64 (i_kind i0) \<noteq> DIR" using s(2) by (cases "i_kind i0") simp_all
  then have "tree_ok t1" using g k by (intro names_insert[OF ok2 t1(1)]) simp_all
  then show "tree_ok (tabs db') \<and> new_rowid db' = new_rowid db" using t1(2) transaction_Inr[OF tr] g k by simp
next
  fix e db' assume "link db ino p n now = (Inl e, db')"
  then show "tabs db' = tabs db \<and> new_rowid db' = new_rowid db"
    unfolding link_def Let_def
    by (auto simp: and_then_def inode_kind_of_def get_inode_def split: sum.splits prod.splits if_splits
        dest!: query_frame transaction_Inl)
qed

section \<open>Operations on file data and attributes\<close>

lemma tree_ok_chunks [simp]: "tree_ok (t\<lparr>t_chunks := c\<rparr>) = tree_ok t"
  by (simp add: tree_ok_def kinds_def)

lemma tree_ok_upsert [simp]: "tree_ok (upsert_chunk t k d) = tree_ok t"
  by (simp add: upsert_chunk_def)

lemma tree_ok_cut [simp]: "tree_ok (cut_chunks t f l n) = tree_ok t" "tree_ok (delete_chunk_range t ino) = tree_ok t"
  by (simp_all add: cut_chunks_def delete_chunk_range_def split: prod.splits)

lemma write_pieces_tree: "write_pieces ino span data ks t = Some t' \<Longrightarrow> tree_ok t' = tree_ok t"
proof (induction ks arbitrary: t)
  case (Cons k ks)
  then obtain d where "write_pieces ino span data ks (upsert_chunk t (chunk_key ino k) d) = Some t'"
    by (auto simp: Let_def bind_eq_Some_conv split: if_splits)
  from Cons.IH[OF this] show ?case by simp
qed simp

lemma write_all_tree: "write_all ino writes sz n t = Some (sz', n', t') \<Longrightarrow> tree_ok t' = tree_ok t"
proof (induction writes arbitrary: sz n t)
  case (Cons w ws)
  obtain off data where w: "w = (off, data)" by fastforce
  show ?case
  proof (cases "span_new off (length data)")
    case None
    then show ?thesis using Cons w by auto
  next
    case (Some sp)
    then obtain t1 where t1: "write_pieces ino sp data (span_chunks sp) t = Some t1"
      "write_all ino ws (max sz (off + of_nat (length data))) (n + length data) t1 = Some (sz', n', t')"
      using Cons.prems w by (auto simp: bind_eq_Some_conv)
    show ?thesis using Cons.IH[OF t1(2)] write_pieces_tree[OF t1(1)] by simp
  qed
qed simp

lemma names_inode_head: "names_ok db \<Longrightarrow> names_ok (snd (inode_head db ino))"
  unfolding inode_head_def by (rule names_query)

lemma names_write_batch:
  assumes ok: "names_ok db" and w: "write_file_batch_at db ino writes m = Some (r, db')"
  shows "names_ok db'"
proof -
  obtain h db1 where h: "inode_head db ino = (h, db1)" by fastforce
  have ok1: "names_ok db1" using names_inode_head[OF ok, of ino] h by simp
  have "names_ok db'" if tr: "try_transaction db1 (\<lambda>t. do {
             (new_size, written, t) \<leftarrow> write_all ino writes sz 0 t;
             Some (Inr (of_nat written, set_size t ino new_size m)) }) = Some (r, db')" for sz
  proof (rule names_try_transaction[OF ok1 _ tr])
    fix a t assume "do { (new_size, written, t) \<leftarrow> write_all ino writes sz 0 (tabs db1);
             Some (Inr (of_nat written, set_size t ino new_size m)) } = Some (Inr (a, t) :: DbError + u32 \<times> tables)"
    then obtain n k t1 where "write_all ino writes sz 0 (tabs db1) = Some (n, k, t1)" "t = set_size t1 ino n m"
      by (auto simp: bind_eq_Some_conv)
    then show "tree_ok t" using ok1 write_all_tree[of ino writes sz 0 "tabs db1" n k t1] by (simp add: names_ok_def)
  qed
  then show ?thesis using w ok1 h unfolding write_file_batch_at_def
    by (cases h) (auto split: option.splits if_splits)
qed

lemma fold_upsert_tree [simp]:
  "tree_ok (fold (\<lambda>(index, data) t. upsert_chunk t (chunk_key ino index) data) chunks t) = tree_ok t"
proof (induction chunks arbitrary: t)
  case (Cons x xs)
  show ?case by (cases x) (simp only: fold_Cons comp_apply prod.case Cons.IH tree_ok_upsert)
qed simp

lemma names_replace_chunks: "names_ok db \<Longrightarrow> names_ok (snd (replace_chunks db ino sz chunks now))"
  unfolding replace_chunks_def by (rule names_transaction) (auto simp: Let_def names_ok_def)

lemma names_truncate: "names_ok db \<Longrightarrow> names_ok (snd (truncate_file db ino sz now))"
  unfolding truncate_file_def
proof (rule names_and_then)
  assume ok: "names_ok db"
  show "names_ok (snd (inode_kind_of db ino))" by (rule names_kind_of[OF ok])
  fix kind db1 assume "inode_kind_of db ino = (Inr kind, db1)"
  then have ok1: "names_ok db1" using names_kind_of[OF ok, of ino] by simp
  have "names_ok (snd (transaction db1 (\<lambda>t. let (first_key, last_key) = chunk_keys ino;
               t = (if sz = 0 then delete_chunk_range t ino
                    else let final_chunk_index = (sz - 1) div of_nat CHUNK_SIZE;
                          final_chunk_len = unat (sz - 1) mod CHUNK_SIZE + 1
                      in cut_chunks t (chunk_key ino final_chunk_index) last_key final_chunk_len)
           in Inr ((), set_size t ino sz now))))"
  proof (rule names_transaction[OF ok1])
    fix a t assume "(let (first_key, last_key) = chunk_keys ino;
               t = (if sz = 0 then delete_chunk_range (tabs db1) ino
                    else let final_chunk_index = (sz - 1) div of_nat CHUNK_SIZE;
                          final_chunk_len = unat (sz - 1) mod CHUNK_SIZE + 1
                      in cut_chunks (tabs db1) (chunk_key ino final_chunk_index) last_key final_chunk_len)
           in Inr ((), set_size t ino sz now)) = (Inr (a, t) :: DbError + unit \<times> tables)"
    then obtain f l c where "t = set_size (if sz = 0 then delete_chunk_range (tabs db1) ino else cut_chunks (tabs db1) f l c) ino sz now"
      unfolding Let_def by (cases "chunk_keys ino") force
    then show "tree_ok t" using ok1 by (simp add: names_ok_def)
  qed
  then show "names_ok (snd (case regular_file_error kind of Some error \<Rightarrow> (Inl error, db1) | None \<Rightarrow>
         if MAX_FILE_SIZE < sz then (Inl FileTooLarge, db1)
         else transaction db1 (\<lambda>t. let (first_key, last_key) = chunk_keys ino;
               t = (if sz = 0 then delete_chunk_range t ino
                    else let final_chunk_index = (sz - 1) div of_nat CHUNK_SIZE;
                          final_chunk_len = unat (sz - 1) mod CHUNK_SIZE + 1
                      in cut_chunks t (chunk_key ino final_chunk_index) last_key final_chunk_len)
           in Inr ((), set_size t ino sz now))))"
    using ok1 by (simp split: option.split)
qed

lemma names_execute: "names_ok db \<Longrightarrow> (tree_ok (tabs db) \<Longrightarrow> tree_ok (f (tabs db))) \<Longrightarrow> names_ok (snd (execute db f))"
  unfolding execute_def by (rule names_transaction) (auto simp: names_ok_def)

lemma tree_ok_update_row: "(\<And>r. r_kind (f r) = r_kind r) \<Longrightarrow> tree_ok (t\<lparr>t_inodes := tbl_update k f (t_inodes t)\<rparr>) = tree_ok t"
  by (simp add: tree_ok_def kinds_update)

lemma names_update_metadata: "names_ok db \<Longrightarrow> names_ok (snd (update_metadata db ino u now))"
  unfolding update_metadata_def Let_def
proof (rule names_and_then)
  assume ok: "names_ok db"
  show "names_ok (snd (get_inode db ino))" by (rule names_get_inode[OF ok])
  fix i db1 assume "get_inode db ino = (Inr i, db1)"
  then have ok1: "names_ok db1" using names_get_inode[OF ok, of ino] by simp
  let ?f = "\<lambda>t. t\<lparr>t_inodes := tbl_update (i64_of_u64 ino)
            (\<lambda>r. r\<lparr>r_mode := i64_of_u32 (case_option (i_mode i) id (mu_mode u)), r_uid := i64_of_u32 (case_option (i_uid i) id (mu_uid u)),
              r_gid := i64_of_u32 (case_option (i_gid i) id (mu_gid u)), r_atime_ns := to_ns (case_option (i_atime i) id (mu_atime u)),
              r_mtime_ns := to_ns (case_option (i_mtime i) id (mu_mtime u)), r_ctime_ns := to_ns now\<rparr>) (t_inodes t)\<rparr>"
  have ex: "names_ok (snd (execute db1 ?f))"
    by (rule names_execute[OF ok1]) (simp add: tree_ok_update_row)
  show "names_ok (snd (and_then (execute db1 ?f) (\<lambda>_ db. get_inode db ino)))"
  proof (rule names_and_then[OF ex])
    fix a db2 assume "execute db1 ?f = (Inr a, db2)"
    then show "names_ok (snd (get_inode db2 ino))" using ex by (intro names_get_inode) simp
  qed
qed

section \<open>Removing\<close>

lemma names_delete_inode:
  assumes ok: "names_ok db" and one: "ino \<noteq> 1"
  shows "names_ok (snd (delete_inode db ino))"
  unfolding delete_inode_def
proof (rule names_transaction[OF ok])
  fix a t assume "Inr ((), delete_inode_rows (tabs db) ino) = (Inr (a, t) :: DbError + unit \<times> tables)"
  moreover have "i64_of_u64 ino \<noteq> 1" using one i64_of_u64_inject[of ino 1] by (simp add: i64_of_u64_def)
  ultimately show "tree_ok t" using ok delete_inode_rows_tree[of "tabs db" ino] by (simp add: names_ok_def)
qed

lemma drop_unlinked_tree:
  assumes "tree_ok t" "i64_of_u64 (i_ino target) \<noteq> 1"
  shows "tree_ok (drop_unlinked_inode t target now op)"
  using assms delete_inode_rows_tree[OF assms] by (simp add: drop_unlinked_inode_def Let_def)

lemma lookup_child:
  assumes ok: "names_ok db" and l: "lookup db p n = (Inr inode, db')"
  obtains rid where "(rid, \<lparr>d_parent = i64_of_u64 p, d_name = n, d_child = i64_of_u64 (i_ino inode)\<rparr>) \<in> set (t_dirents (tabs db))"
    "kinds (tabs db) (i64_of_u64 (i_ino inode)) = Some (kind_as_i64 (i_kind inode))" "i64_of_u64 (i_ino inode) \<noteq> 1"
    "kinds (tabs db) (i64_of_u64 p) = Some DIR" "tabs db' = tabs db" "new_rowid db' = new_rowid db"
proof -
  obtain rid c where c: "(rid, \<lparr>d_parent = i64_of_u64 p, d_name = n, d_child = c\<rparr>) \<in> set (t_dirents (tabs db))"
    "i_ino inode = u64_of_i64 c" "kinds (tabs db) c = Some (kind_as_i64 (i_kind inode))"
    "tabs db' = tabs db" "new_rowid db' = new_rowid db"
    by (rule lookup_Inr[OF l])
  have t: "tree_ok (tabs db)" using ok by (simp add: names_ok_def)
  have i: "i64_of_u64 (i_ino inode) = c" unfolding c(2) by (rule i64_u64_i64[OF kinds_range(3)[OF t c(3)]])
  have "closed (kinds (tabs db)) \<lparr>d_parent = i64_of_u64 p, d_name = n, d_child = c\<rparr>"
    using t c(1) unfolding tree_ok_def tree_def by auto
  then show thesis using that[of rid] c i by (simp add: closed_def)
qed

lemma names_unlink_entry:
  assumes ok: "names_ok db" and one: "i64_of_u64 (i_ino target) \<noteq> 1"
  shows "names_ok (snd (unlink_entry db p n target op now))"
proof -
  have "names_ok (snd (transaction db (\<lambda>t. Inr ((), touch_dir (drop_unlinked_inode (delete_dirent t p n) target now op) p now))))"
    by (rule names_transaction[OF ok])
      (use ok one in \<open>auto simp: names_ok_def intro!: drop_unlinked_tree delete_dirent_tree\<close>)
  then show ?thesis using ok by (simp add: unlink_entry_def)
qed

lemma names_unlink: "names_ok db \<Longrightarrow> names_ok (snd (unlink_file db p n now))"
  unfolding unlink_file_def
proof (rule names_and_then)
  assume ok: "names_ok db"
  show "names_ok (snd (lookup db p n))" by (rule names_lookup[OF ok])
  fix target db1 assume l: "lookup db p n = (Inr target, db1)"
  have "i64_of_u64 (i_ino target) \<noteq> 1" by (rule lookup_child[OF ok l])
  moreover have "names_ok db1" using names_lookup[OF ok, of p n] l by simp
  ultimately show "names_ok (snd (unlink_entry db1 p n target False now))" by (intro names_unlink_entry)
qed

lemma names_remove_dir: "names_ok db \<Longrightarrow> names_ok (snd (remove_dir db p n now))"
  unfolding remove_dir_def
proof (rule names_and_then)
  assume ok: "names_ok db"
  show "names_ok (snd (lookup db p n))" by (rule names_lookup[OF ok])
  fix target db1 assume l: "lookup db p n = (Inr target, db1)"
  have one: "i64_of_u64 (i_ino target) \<noteq> 1" by (rule lookup_child[OF ok l])
  have ok1: "names_ok db1" using names_lookup[OF ok, of p n] l by simp
  have "names_ok (snd (transaction db1 (\<lambda>t.
       let child_count = length (filter (\<lambda>(_, d). d_parent d = i64_of_u64 (i_ino target)) (t_dirents t))
       in if child_count \<noteq> 0 then Inl DirectoryNotEmpty
          else let t = delete_dirent t p n; t = delete_inode_rows t (i_ino target); t = touch_dir t p now
            in Inr ((), add_directory_nlink t p (-1)))))"
    by (rule names_transaction[OF ok1])
      (use ok1 one in \<open>auto simp: names_ok_def Let_def split: if_splits intro!: delete_inode_rows_tree delete_dirent_tree\<close>)
  then show "names_ok (snd (if i_kind target \<noteq> Directory then (Inl NotDirectory, db1) else transaction db1 (\<lambda>t.
       let child_count = length (filter (\<lambda>(_, d). d_parent d = i64_of_u64 (i_ino target)) (t_dirents t))
       in if child_count \<noteq> 0 then Inl DirectoryNotEmpty
          else let t = delete_dirent t p n; t = delete_inode_rows t (i_ino target); t = touch_dir t p now
            in Inr ((), add_directory_nlink t p (-1)))))"
    using ok1 by simp
qed

section \<open>Renaming\<close>

lemma move_dirent_tree:
  assumes t: "tree_ok t" and mv: "move_dirent t p n q m = Inr t'"
    and q: "kinds t (i64_of_u64 q) \<noteq> None \<Longrightarrow> kinds t (i64_of_u64 q) = Some DIR"
    and below: "\<And>rid c. (rid, \<lparr>d_parent = i64_of_u64 p, d_name = n, d_child = c\<rparr>) \<in> set (t_dirents t) \<Longrightarrow>
      kinds t c = Some DIR \<Longrightarrow> (i64_of_u64 q, c) \<notin> (ups t)\<^sup>*"
  shows "tree_ok t'"
proof -
  define hit where "hit d \<longleftrightarrow> d_parent d = i64_of_u64 p \<and> d_name d = n" for d :: dirent_row
  let ?mv = "\<lambda>(rid, d). (rid, if hit d then d\<lparr>d_parent := i64_of_u64 q, d_name := m\<rparr> else d)"
  let ?D = "set (t_dirents t)"
  have T: "tree (kinds t) ?D" "tbl_ok (t_dirents t)" using t by (simp_all add: tree_ok_def)
  show ?thesis
  proof (cases "\<exists>rid d. (rid, d) \<in> ?D \<and> hit d")
    case False
    then have "t' = t" using mv by (auto simp: move_dirent_def Let_def list_ex_iff hit_def split: if_splits)
    then show ?thesis using t by simp
  next
    case True
    then obtain rid d where d: "(rid, d) \<in> ?D" "hit d" by blast
    have m: "\<forall>y \<in> ?D. \<not> hit (snd y) \<longrightarrow> \<not> (d_parent (snd y) = i64_of_u64 q \<and> d_name (snd y) = m)"
      "kinds t (i64_of_u64 q) \<noteq> None" "t' = t\<lparr>t_dirents := map ?mv (t_dirents t)\<rparr>"
      using mv d unfolding move_dirent_def Let_def
      by (auto simp: list_ex_iff hit_def kinds_def split: if_splits)
    have hit1: "y = (rid, d)" if "y \<in> ?D" "hit (snd y)" for y
      using T(1) d that onlyD[of same_name ?D y "(rid, d)"] by (auto simp: tree_def same_name_def hit_def)
    let ?d = "d\<lparr>d_parent := i64_of_u64 q, d_name := m\<rparr>"
    have "?mv y = y" if "y \<in> ?D - {(rid, d)}" for y using hit1[of y] that by (cases y) auto
    then have E: "?mv ` (?D - {(rid, d)}) = ?D - {(rid, d)}" by (simp cong: image_cong_simp)
    have mvd: "?mv (rid, d) = (rid, ?d)" using d(2) by simp
    have "?mv ` ?D = ?mv ` insert (rid, d) (?D - {(rid, d)})" using d(1) by (simp add: insert_absorb)
    also have "\<dots> = insert (rid, ?d) (?D - {(rid, d)})" unfolding image_insert mvd E ..
    finally have D: "?mv ` ?D = insert (rid, ?d) (?D - {(rid, d)})" .
    have dd: "d = \<lparr>d_parent = i64_of_u64 p, d_name = n, d_child = d_child d\<rparr>" using d(2) by (cases d) (simp add: hit_def)
    have "tree (kinds t) (insert (rid, ?d) (?D - {(rid, d)}))"
    proof (rule tree_move[OF T(1) d(1) q[OF m(2)]])
      show "\<forall>y \<in> ?D. y \<noteq> (rid, d) \<longrightarrow> \<not> (d_parent (snd y) = i64_of_u64 q \<and> d_name (snd y) = m)" using m(1) hit1 by blast
      show "(i64_of_u64 q, d_child d) \<notin> (ups t)\<^sup>*" if "kinds t (d_child d) = Some DIR"
        by (rule below[OF _ that, of rid]) (use d(1) dd in simp)
    qed
    moreover have "map fst (map ?mv (t_dirents t)) = map fst (t_dirents t)" by auto
    then have "tbl_ok (map ?mv (t_dirents t))" using T(2) by (simp only: tbl_ok_def)
    ultimately show ?thesis using t m(3) D by (simp add: tree_ok_def kinds_def)
  qed
qed

lemma drop_unlinked_less:
  assumes "tree_ok t"
  shows "kinds (drop_unlinked_inode (delete_dirent t q m) target now op) \<subseteq>\<^sub>m kinds t"
    and "set (t_dirents (drop_unlinked_inode (delete_dirent t q m) target now op)) \<subseteq> set (t_dirents t)"
proof -
  have tb: "tbl_ok (t_inodes (delete_dirent t q m))" using assms by (simp add: tree_ok_def)
  show "kinds (drop_unlinked_inode (delete_dirent t q m) target now op) \<subseteq>\<^sub>m kinds t"
    using delete_inode_rows_kinds[OF tb] by (simp add: drop_unlinked_inode_def Let_def map_le_def)
  show "set (t_dirents (drop_unlinked_inode (delete_dirent t q m) target now op)) \<subseteq> set (t_dirents t)"
    by (auto simp: drop_unlinked_inode_def Let_def delete_dirent_entries delete_inode_rows_entries split: if_splits)
qed

lemma ups_less: "kinds t' \<subseteq>\<^sub>m kinds t \<Longrightarrow> set (t_dirents t') \<subseteq> set (t_dirents t) \<Longrightarrow> ups t' \<subseteq> ups t"
  unfolding up_def map_le_def dom_def by fastforce

lemma rename_rows_tree:
  assumes t: "tree_ok t" and mv: "rename_rows t p n q m source target is_open now = Inr t'"
    and q: "kinds t (i64_of_u64 q) = Some DIR"
    and tgt: "\<And>x. target = Some x \<Longrightarrow> i64_of_u64 (i_ino x) \<noteq> 1"
    and below: "\<And>rid c. (rid, \<lparr>d_parent = i64_of_u64 p, d_name = n, d_child = c\<rparr>) \<in> set (t_dirents t) \<Longrightarrow>
      kinds t c = Some DIR \<Longrightarrow> (i64_of_u64 q, c) \<notin> (ups t)\<^sup>*"
  shows "tree_ok t'"
proof -
  define t1 where "t1 = (case target of None \<Rightarrow> t
     | Some x \<Rightarrow> drop_unlinked_inode (delete_dirent t q m) x now (is_open (i_ino x)))"
  have t1: "tree_ok t1" using t tgt by (auto simp: t1_def split: option.split intro!: drop_unlinked_tree delete_dirent_tree)
  have k1: "kinds t1 \<subseteq>\<^sub>m kinds t" and d1: "set (t_dirents t1) \<subseteq> set (t_dirents t)"
    using drop_unlinked_less[OF t] by (simp_all add: t1_def split: option.split)
  obtain t2 where t2: "move_dirent t1 p n q m = Inr t2" "tree_ok t' = tree_ok t2"
    using mv unfolding rename_rows_def Let_def t1_def[symmetric] by (auto split: sum.splits)
  have le: "kinds t1 i = Some k \<Longrightarrow> kinds t i = Some k" for i k using k1 by (auto simp: map_le_def dom_def)
  have "tree_ok t2"
  proof (rule move_dirent_tree[OF t1 t2(1)])
    show "kinds t1 (i64_of_u64 q) = Some DIR" if "kinds t1 (i64_of_u64 q) \<noteq> None"
      using that le q by (metis not_None_eq)
    fix rid c assume "(rid, \<lparr>d_parent = i64_of_u64 p, d_name = n, d_child = c\<rparr>) \<in> set (t_dirents t1)" "kinds t1 c = Some DIR"
    then have "(i64_of_u64 q, c) \<notin> (ups t)\<^sup>*" using below[of rid c] d1 le by blast
    then show "(i64_of_u64 q, c) \<notin> (ups t1)\<^sup>*" using rtrancl_mono[OF ups_less[OF k1 d1]] by blast
  qed
  then show ?thesis using t2(2) by simp
qed

definition same_rows :: "Db \<Rightarrow> Db \<Rightarrow> bool" where
  "same_rows db db' \<longleftrightarrow> tabs db' = tabs db \<and> new_rowid db' = new_rowid db"

lemma same_rows_trans: "same_rows a b \<Longrightarrow> same_rows b c \<Longrightarrow> same_rows a c"
  by (simp add: same_rows_def)

lemma same_names: "same_rows db db' \<Longrightarrow> names_ok db \<Longrightarrow> names_ok db'"
  by (simp add: same_rows_def names_ok_def)

lemma same_query: "query db q = (r, db') \<Longrightarrow> same_rows db db'"
  by (simp add: same_rows_def query_frame)

lemma same_lookup: "lookup db p n = (r, db') \<Longrightarrow> same_rows db db'"
  by (auto simp: lookup_def same_rows_def split: sum.splits dest!: query_frame)

lemma same_kind_of: "inode_kind_of db i = (r, db') \<Longrightarrow> same_rows db db'"
  unfolding inode_kind_of_def by (rule same_query)

lemma same_lookup_opt: "lookup_opt db p n = (r, db') \<Longrightarrow> same_rows db db'"
  by (auto simp: lookup_opt_def split: prod.splits sum.splits DbError.splits dest: same_lookup)

lemma same_list_dir: "list_dir db i = (r, db') \<Longrightarrow> same_rows db db'"
  by (auto simp: list_dir_def and_then_def Let_def split: prod.splits sum.splits if_splits
      dest!: same_kind_of same_query intro: same_rows_trans) (simp add: same_rows_def)?

lemma same_replaceable: "replaceable db s x = (r, db') \<Longrightarrow> same_rows db db'"
  by (auto simp: replaceable_def and_then_def same_rows_def split: prod.splits sum.splits if_splits option.splits FileKind.splits
      dest!: same_list_dir)

text \<open>\<open>safe db m\<close>: \<open>m\<close> returns, leaves a database whose names are a tree, and has changed no row of
  \<open>db\<close> when it returns an error.\<close>

definition safe :: "Db \<Rightarrow> (('e + 'a) \<times> Db) option \<Rightarrow> bool" where
  "safe db m \<longleftrightarrow> (\<exists>r db'. m = Some (r, db') \<and> names_ok db' \<and> (isl r \<longrightarrow> same_rows db db'))"

lemma safe_Some: "names_ok db \<Longrightarrow> same_rows db db' \<Longrightarrow> safe db (Some (r, db'))"
  using same_names by (simp add: safe_def)

lemma safe_tx:
  assumes "names_ok (snd m)" "\<And>e db'. m = (Inl e, db') \<Longrightarrow> same_rows db db'"
  shows "safe db (Some m)"
  using assms by (cases m; cases "fst m") (auto simp: safe_def)

lemma safe_try_then:
  assumes "names_ok db" "same_rows db db'" "\<And>a. r = Inr a \<Longrightarrow> safe db (f a db')"
  shows "safe db (try_then (Some (r, db')) f)"
  using assms same_names[OF assms(2,1)] by (cases r) (auto simp: safe_def)

lemma rename_transaction_safe:
  assumes ok: "names_ok db" and same: "same_rows db db'"
    and src: "lookup db p n = (Inr source, db1)" and q: "kinds (tabs db) (i64_of_u64 q) = Some DIR"
    and below: "i_kind source = Directory \<Longrightarrow> (i64_of_u64 q, i64_of_u64 (i_ino source)) \<notin> (ups (tabs db))\<^sup>*"
    and tgt: "\<And>x. target = Some x \<Longrightarrow> i64_of_u64 (i_ino x) \<noteq> 1"
  shows "names_ok (snd (transaction db' (\<lambda>t. case rename_rows t p n q m source target is_open now of
     Inl e \<Rightarrow> Inl e | Inr t \<Rightarrow> Inr (target, t))))"
proof (rule names_transaction[OF same_names[OF same ok]])
  fix a t
  let ?T = "tabs db"
  assume "(case rename_rows (tabs db') p n q m source target is_open now of
     Inl e \<Rightarrow> Inl e | Inr t \<Rightarrow> Inr (target, t)) = Inr (a, t)"
  then have r: "rename_rows ?T p n q m source target is_open now = Inr t"
    using same by (simp add: same_rows_def split: sum.splits)
  obtain rid where s: "(rid, \<lparr>d_parent = i64_of_u64 p, d_name = n, d_child = i64_of_u64 (i_ino source)\<rparr>) \<in> set (t_dirents ?T)"
    "kinds ?T (i64_of_u64 (i_ino source)) = Some (kind_as_i64 (i_kind source))"
    by (rule lookup_child[OF ok src])
  have T: "tree_ok ?T" "tree (kinds ?T) (set (t_dirents ?T))" using ok by (simp_all add: names_ok_def tree_ok_def)
  show "tree_ok t"
  proof (rule rename_rows_tree[OF T(1) r q tgt])
    fix rid' c assume c: "(rid', \<lparr>d_parent = i64_of_u64 p, d_name = n, d_child = c\<rparr>) \<in> set (t_dirents ?T)" and k: "kinds ?T c = Some DIR"
    have "c = i64_of_u64 (i_ino source)"
      using T(2) c s(1) onlyD[of same_name "set (t_dirents ?T)", OF _ c s(1)] by (simp add: tree_def same_name_def)
    moreover from this have "i_kind source = Directory" using k s(2) by (cases "i_kind source") simp_all
    ultimately show "(i64_of_u64 q, c) \<notin> (ups ?T)\<^sup>*" using below by simp
  qed
qed

text \<open>Whatever \<open>rename_entry\<close> is asked, it returns and the names are still a tree.\<close>

lemma rename_entry_safe:
  assumes ok: "names_ok db"
  shows "safe db (rename_entry db p n q m noreplace is_open now)"
proof -
  define tx where "tx source target db = transaction db (\<lambda>t. case rename_rows t p n q m source target is_open now of
     Inl e \<Rightarrow> Inl e | Inr t \<Rightarrow> Inr (target, t))" for source target db
  define k5 where "k5 = (\<lambda>source target db. if noreplace \<and> target \<noteq> None then Some (Inl AlreadyExists, db)
      else try_then (Some (replaceable db source target)) (\<lambda>_ db. Some (tx source target db)))"
  define k4 where "k4 source db = (if p = q \<and> n = m then Some (Inr None, db)
      else try_then (Some (lookup_opt db q m)) (k5 source))" for source db
  define k3 where "k3 source kind db = (if kind \<noteq> Directory then Some (Inl NotDirectory, db)
      else try_then (if i_kind source = Directory then is_descendant db q (i_ino source) else Some (Inr False, db))
        (\<lambda>below db. if below then Some (Inl InvalidInput, db) else k4 source db))" for source kind db
  obtain r1 db1 where s1: "lookup db p n = (r1, db1)" by fastforce
  obtain r2 db2 where s2: "inode_kind_of db1 q = (r2, db2)" by fastforce
  note same1 = same_lookup[OF s1]
  note same2 = same_rows_trans[OF same1 same_kind_of[OF s2]]
  have "safe db (k3 source kind db2)" if r: "r1 = Inr source" "r2 = Inr kind" for source kind
  proof (cases "kind = Directory")
    case True
    have q: "kinds (tabs db) (i64_of_u64 q) = Some DIR"
      using inode_kind_of_Inr(1)[OF s2[unfolded r True]] same1 by (simp add: same_rows_def)
    have t2: "tree_ok (tabs db2)" "kinds (tabs db2) (i64_of_u64 q) = Some DIR"
      using same_names[OF same2 ok] same2 q by (simp_all add: names_ok_def same_rows_def)
    obtain r3 db3 where s3: "(if i_kind source = Directory then is_descendant db2 q (i_ino source) else Some (Inr False, db2)) = Some (r3, db3)"
      "same_rows db2 db3" "r3 = Inr False \<Longrightarrow> i_kind source = Directory \<Longrightarrow> (i64_of_u64 q, i64_of_u64 (i_ino source)) \<notin> (ups (tabs db))\<^sup>*"
    proof (cases "i_kind source = Directory")
      case dir: True
      show thesis
      proof (rule is_descendant_spec[OF t2, of "i_ino source"])
        fix r db' assume d: "is_descendant db2 q (i_ino source) = Some (r, db')" "tabs db' = tabs db2" "new_rowid db' = new_rowid db2"
          "\<And>b. r = Inr b \<Longrightarrow> b = ((i64_of_u64 q, i64_of_u64 (i_ino source)) \<in> (ups (tabs db2))\<^sup>*)"
        show thesis by (rule that[of r db']) (use d dir same2 in \<open>auto simp: same_rows_def\<close>)
      qed
    qed (rule that[of "Inr False" db2], simp_all add: same_rows_def)
    note same3 = same_rows_trans[OF same2 s3(2)]
    have "safe db (k4 source db3)" if b: "r3 = Inr False"
    proof -
      obtain r4 db4 where s4: "lookup_opt db3 q m = (r4, db4)" by fastforce
      note same4 = same_rows_trans[OF same3 same_lookup_opt[OF s4]]
      have "safe db (k5 source target db4)" if r4: "r4 = Inr target" for target
      proof -
        obtain r5 db5 where s5: "replaceable db4 source target = (r5, db5)" by fastforce
        note same5 = same_rows_trans[OF same4 same_replaceable[OF s5]]
        have one: "i64_of_u64 (i_ino x) \<noteq> 1" if "target = Some x" for x
        proof -
          have "lookup db3 q m = (Inr x, db4)"
            using s4 r4 that by (auto simp: lookup_opt_def split: prod.splits sum.splits DbError.splits)
          then show ?thesis by (rule lookup_child[OF same_names[OF same3 ok]])
        qed
        have "names_ok (snd (tx source target db5))"
          unfolding tx_def by (rule rename_transaction_safe[OF ok same5 s1[unfolded r] q s3(3)[OF b] one])
        then have "safe db (Some (tx source target db5))"
          by (rule safe_tx) (use same5 in \<open>auto simp: tx_def same_rows_def dest!: transaction_Inl\<close>)
        then have "safe db (try_then (Some (replaceable db4 source target)) (\<lambda>_ db. Some (tx source target db)))"
          unfolding s5 by (rule safe_try_then[OF ok same5])
        then show ?thesis using ok same4 by (simp add: k5_def safe_Some)
      qed
      then have "safe db (try_then (Some (lookup_opt db3 q m)) (k5 source))"
        unfolding s4 by (rule safe_try_then[OF ok same4])
      then show ?thesis using ok same3 by (simp add: k4_def safe_Some)
    qed
    then have "safe db (try_then (Some (r3, db3)) (\<lambda>below db. if below then Some (Inl InvalidInput, db) else k4 source db))"
      by (intro safe_try_then[OF ok same3]) (use ok same3 in \<open>auto simp: safe_Some\<close>)
    then show ?thesis using True s3(1) by (simp add: k3_def)
  qed (use ok same2 in \<open>simp add: k3_def safe_Some\<close>)
  then have "safe db (try_then (Some (inode_kind_of db1 q)) (\<lambda>kind db. k3 source kind db))" if "r1 = Inr source" for source
    unfolding s2 by (intro safe_try_then[OF ok same2]) (use that in simp)
  then have "safe db (try_then (Some (lookup db p n)) (\<lambda>source db. try_then (Some (inode_kind_of db q)) (\<lambda>kind db. k3 source kind db)))"
    unfolding s1 by (intro safe_try_then[OF ok same1]) simp
  then show ?thesis using ok unfolding rename_entry_def k3_def k4_def k5_def tx_def
    by (cases "check_name m") (simp_all add: safe_Some same_rows_def)
qed

section \<open>Start-up\<close>

lemma root_tree: "t_inodes t = [] \<Longrightarrow> t_dirents t = [] \<Longrightarrow> r_kind row = DIR \<Longrightarrow>
    tree_ok (t\<lparr>t_inodes := tbl_put 1 row (t_inodes t)\<rparr>)"
  by (simp add: tree_ok_def tbl_ok_def kinds_def tree_def only_def up_def acyclic_def)

lemma recompute_kinds [simp]: "kinds (recompute_directory_nlink t) = kinds t"
proof -
  have "map_option r_kind (map_of (map (\<lambda>(ino, r). (ino, if P r then r\<lparr>r_nlink := g ino\<rparr> else r)) xs) i) = map_option r_kind (map_of xs i)"
    for P g i and xs :: "inode_row table"
    by (induction xs) auto
  then show ?thesis by (simp add: kinds_def recompute_directory_nlink_def Let_def)
qed

lemma recompute_tree [simp]: "tree_ok (recompute_directory_nlink t) = tree_ok t"
proof -
  have "map fst (t_inodes (recompute_directory_nlink t)) = map fst (t_inodes t)"
    by (simp add: recompute_directory_nlink_def Let_def comp_def case_prod_beta)
  moreover have "t_dirents (recompute_directory_nlink t) = t_dirents t" by (simp add: recompute_directory_nlink_def Let_def)
  ultimately show ?thesis by (simp add: tree_ok_def tbl_ok_def)
qed

lemma names_orphans: "names_ok db \<Longrightarrow> \<forall>ino \<in> set inos. in_i64 ino \<and> ino \<noteq> 1 \<Longrightarrow> names_ok (snd (delete_orphans inos db))"
proof (induction inos arbitrary: db)
  case (Cons ino inos)
  have one: "i64_of_u64 (u64_of_i64 ino) \<noteq> 1" and rest: "\<forall>ino \<in> set inos. in_i64 ino \<and> ino \<noteq> 1"
    using Cons.prems(2) by (simp_all add: i64_u64_i64)
  let ?c = "execute db (\<lambda>t. delete_chunk_range t (u64_of_i64 ino))"
  have c: "names_ok (snd ?c)" by (rule names_execute[OF Cons.prems(1)]) simp
  show ?case unfolding delete_orphans.simps
  proof (rule names_and_then[OF c])
    fix a db1 assume "?c = (Inr a, db1)"
    then have ok1: "names_ok db1" using c by simp
    have row: "tree_ok (delete_inode_row t (u64_of_i64 ino))" if "tree_ok t" for t
    proof -
      have "delete_inode_row (delete_chunk_range t i) i = (delete_inode_row t i)\<lparr>t_chunks := t_chunks (delete_chunk_range t i)\<rparr>" for i
        by (simp add: delete_inode_row_def delete_chunk_range_def Let_def split: prod.split)
      then show ?thesis using delete_inode_rows_tree[OF that one] by (simp add: delete_inode_rows_def)
    qed
    have d: "names_ok (snd (execute db1 (\<lambda>t. delete_inode_row t (u64_of_i64 ino))))" by (rule names_execute[OF ok1 row])
    show "names_ok (snd (and_then (execute db1 (\<lambda>t. delete_inode_row t (u64_of_i64 ino))) (\<lambda>_ db. delete_orphans inos db)))"
    proof (rule names_and_then[OF d])
      fix a db2 assume "execute db1 (\<lambda>t. delete_inode_row t (u64_of_i64 ino)) = (Inr a, db2)"
      then show "names_ok (snd (delete_orphans inos db2))" using d by (intro Cons.IH[OF _ rest]) simp
    qed
  qed
qed simp

text \<open>A database as the schema leaves it, or one that an earlier run left.\<close>

definition startable :: "Db \<Rightarrow> bool" where
  "startable db \<longleftrightarrow> names_ok db \<or> t_inodes (tabs db) = [] \<and> t_dirents (tabs db) = [] \<and> rowids_fresh (new_rowid db)"

text \<open>The statements of start-up, up to the deletion of inodes without a name.\<close>

lemma initialize_stages:
  fixes now :: Timestamp
  assumes s: "startable db" and ok: "initialize db uid gid now = (Inr (), db')"
  obtains t db4 where "tree_ok t" "t_dirents t = t_dirents (tabs db)" "rowids_fresh (new_rowid db)"
    "\<And>i. i \<noteq> 1 \<Longrightarrow> map_of (t_inodes t) i = map_of (t_inodes (tabs db)) i"
    "tabs db4 = recompute_directory_nlink t" "new_rowid db4 = new_rowid db"
    "delete_orphans (map fst (filter (\<lambda>(ino, r). r_nlink r = 0 \<and> ino \<noteq> 1) (t_inodes (recompute_directory_nlink t)))) db4 = (Inr (), db')"
proof -
  let ?root = "\<lparr>r_kind = DIR, r_mode = 493, r_uid = uid, r_gid = gid, r_size = 0,
          r_atime_ns = to_ns now, r_mtime_ns = to_ns now, r_ctime_ns = to_ns now, r_nlink = 2\<rparr>"
  let ?ins = "\<lambda>t. if map_of (t_inodes t) 1 \<noteq> None then t else t\<lparr>t_inodes := tbl_put 1 ?root (t_inodes t)\<rparr>"
  let ?own = "\<lambda>t. t\<lparr>t_inodes := tbl_update 1 (\<lambda>r. if r_uid r = 0 \<and> r_gid r = 0
              then r\<lparr>r_uid := uid, r_gid := gid, r_ctime_ns := to_ns now\<rparr> else r) (t_inodes t)\<rparr>"
  let ?orphans = "\<lambda>t. map fst (filter (\<lambda>(ino, r). r_nlink r = 0 \<and> ino \<noteq> 1) (t_inodes t))"
  obtain db1 db2 db3 os db4 where q: "execute db ?ins = (Inr (), db1)" "execute db1 ?own = (Inr (), db2)"
    "execute db2 recompute_directory_nlink = (Inr (), db3)" "query db3 (\<lambda>t. Inr (?orphans t)) = (Inr os, db4)"
    "delete_orphans os db4 = (Inr (), db')"
    using ok unfolding initialize_def by (auto simp: and_then_Inr_iff)
  have d: "tabs db1 = ?ins (tabs db)" "tabs db2 = ?own (tabs db1)" "tabs db3 = recompute_directory_nlink (tabs db2)" "tabs db4 = tabs db3"
    "new_rowid db4 = new_rowid db" "os = ?orphans (tabs db3)"
    using execute_tabs[OF q(1)] execute_tabs[OF q(2)] execute_tabs[OF q(3)] query_frame[OF q(4)] query_Inr[OF q(4)] by simp_all
  have "map_of (t_inodes (tabs db)) 1 \<noteq> None" if "names_ok db" using that unfolding names_ok_def tree_ok_def tree_def kinds_def by auto
  then have t1: "tree_ok (tabs db1)" "rowids_fresh (new_rowid db)"
    using s root_tree[of "tabs db" ?root] unfolding d(1) by (auto simp: startable_def names_ok_def)
  show thesis
  proof (rule that)
    show "tree_ok (tabs db2)" using t1(1) unfolding d(2) by (simp add: tree_ok_update_row)
    show "map_of (t_inodes (tabs db2)) i = map_of (t_inodes (tabs db)) i" if "i \<noteq> 1" for i
      using that unfolding d(2,1) by (simp add: tbl_simps option.map_ident)
    show "t_dirents (tabs db2) = t_dirents (tabs db)" unfolding d(2,1) by simp
    show "delete_orphans (?orphans (recompute_directory_nlink (tabs db2))) db4 = (Inr (), db')" using q(5) d(3,6) by simp
  qed (use t1(2) d in simp_all)
qed

lemma orphans_in_range:
  assumes "tree_ok t" "i \<in> set (map fst (filter P (t_inodes t)))"
  shows "in_i64 i"
proof -
  obtain r where "(i, r) \<in> set (t_inodes t)" using assms(2) by auto
  then have "map_of (t_inodes t) i \<noteq> None" using weak_map_of_SomeI[of i r] by fastforce
  then obtain k where "kinds t i = Some k" by (auto simp: kinds_def)
  then show ?thesis by (rule kinds_range(3)[OF assms(1)])
qed

lemma initialize_names:
  assumes s: "startable db" and ok: "initialize db uid gid now = (Inr (), db')"
  shows "names_ok db'"
proof -
  obtain t db4 where T: "tree_ok t" "rowids_fresh (new_rowid db)" "tabs db4 = recompute_directory_nlink t" "new_rowid db4 = new_rowid db"
    "delete_orphans (map fst (filter (\<lambda>(ino, r). r_nlink r = 0 \<and> ino \<noteq> 1) (t_inodes (recompute_directory_nlink t)))) db4 = (Inr (), db')"
    by (rule initialize_stages[OF s ok])
  let ?os = "map fst (filter (\<lambda>(ino, r). r_nlink r = 0 \<and> ino \<noteq> 1) (t_inodes (recompute_directory_nlink t)))"
  have n4: "names_ok db4" using T(1-4) by (simp add: names_ok_def)
  have "\<forall>ino \<in> set ?os. in_i64 ino \<and> ino \<noteq> 1" using orphans_in_range[of "recompute_directory_nlink t"] T(1) by auto
  then show ?thesis using names_orphans[OF n4] T(5) by (metis snd_conv)
qed

end
