(* ===== verification/Directories.thy ===== *)
theory Directories
  imports Tree_Ops
begin

text \<open>
  What the directory operations of the storage layer do to names: which name a lookup finds after
  creating, removing and renaming, and that a failed call changes nothing.
\<close>

section \<open>Lookups\<close>

abbreviation entry :: "u64 \<Rightarrow> bytes \<Rightarrow> i64 \<Rightarrow> dirent_row" where
  "entry p n c \<equiv> \<lparr>d_parent = i64_of_u64 p, d_name = n, d_child = c\<rparr>"

abbreviation no_entry :: "tables \<Rightarrow> u64 \<Rightarrow> bytes \<Rightarrow> bool" where
  "no_entry t p n \<equiv> \<forall>rid c. (rid, entry p n c) \<notin> set (t_dirents t)"

lemma entry_eta: "d_parent d = i64_of_u64 p \<Longrightarrow> d_name d = n \<Longrightarrow> d = entry p n (d_child d)"
  by (cases d) simp

lemma lookup_missing:
  assumes "faults db = []" "length n \<le> NAME_MAX" "no_entry (tabs db) p n"
  shows "lookup db p n = (Inl NotFound, db)"
proof -
  have "join_children (\<lambda>_ d. d_parent d = i64_of_u64 p \<and> d_name d = n) (tabs db) = []"
  proof (rule ccontr)
    assume "join_children (\<lambda>_ d. d_parent d = i64_of_u64 p \<and> d_name d = n) (tabs db) \<noteq> []"
    then obtain x where x: "x \<in> set (join_children (\<lambda>_ d. d_parent d = i64_of_u64 p \<and> d_name d = n) (tabs db))"
      using list.set_sel(1) by blast
    obtain rid d row where "x = (rid, d, row)" by (rule prod_cases3)
    with x have "(rid, d, row) \<in> set (join_children (\<lambda>_ d. d_parent d = i64_of_u64 p \<and> d_name d = n) (tabs db))" by simp
    then have "(rid, d) \<in> set (t_dirents (tabs db))" "d = entry p n (d_child d)"
      by (simp_all add: join_children_iff entry_eta)
    then show False using assms(3) by metis
  qed
  then show ?thesis using assms(1,2) by (simp add: lookup_def check_name_def query_no_fault)
qed

lemma entry_unique:
  assumes "tree_ok t" "(rid, entry p n c) \<in> set (t_dirents t)" "(rid', entry p n c') \<in> set (t_dirents t)"
  shows "rid' = rid" "c' = c"
  using assms onlyD[of same_name "set (t_dirents t)" "(rid', entry p n c')" "(rid, entry p n c)"]
  unfolding tree_ok_def tree_def by (auto simp: same_name_def)

lemma lookup_found:
  assumes t: "tree_ok (tabs db)" and f: "faults db = []" and n: "length n \<le> NAME_MAX"
    and e: "(rid, entry p n c) \<in> set (t_dirents (tabs db))"
  obtains row inode where "map_of (t_inodes (tabs db)) c = Some row" "inode_from_row c row = Inr inode"
    "lookup db p n = (Inr inode, db)"
proof -
  let ?P = "\<lambda>_ d. d_parent d = i64_of_u64 p \<and> d_name d = n"
  have "closed (kinds (tabs db)) (entry p n c)" using t e unfolding tree_ok_def tree_def by auto
  then obtain k where k: "kinds (tabs db) c = Some k" by (auto simp: closed_def)
  then obtain row where row: "map_of (t_inodes (tabs db)) c = Some row" "r_kind row = k" by (auto simp: kinds_def)
  have "k \<in> {1, 2, 3}" by (rule kinds_range(4)[OF t k])
  then obtain inode where inode: "inode_from_row c row = Inr inode"
    using row(2) by (auto simp: inode_from_row_def kind_from_i64_def)
  have mem: "(rid, entry p n c, row) \<in> set (join_children ?P (tabs db))"
    using e row(1) by (simp add: join_children_iff)
  have only: "x = (rid, entry p n c, row)" if x: "x \<in> set (join_children ?P (tabs db))" for x
  proof -
    obtain rid' d row' where x': "x = (rid', d, row')" by (cases x)
    have "(rid', d) \<in> set (t_dirents (tabs db))" "d = entry p n (d_child d)" "map_of (t_inodes (tabs db)) (d_child d) = Some row'"
      using x unfolding x' by (simp_all add: join_children_iff entry_eta)
    moreover from this have "rid' = rid" "d_child d = c" using entry_unique[OF t e] by metis+
    ultimately show ?thesis using x' row(1) by simp
  qed
  obtain x rows where xs: "join_children ?P (tabs db) = x # rows" using mem by (cases "join_children ?P (tabs db)") simp_all
  then have "x = (rid, entry p n c, row)" by (intro only) simp
  then have "join_children ?P (tabs db) = (rid, entry p n c, row) # rows" using xs by simp
  then have "lookup db p n = (Inr inode, db)"
    using f n inode by (simp add: lookup_def check_name_def query_no_fault sql_result_def)
  then show thesis using that row(1) inode by blast
qed

lemma lookup_name_ok: "lookup db p n = (Inr x, db') \<Longrightarrow> length n \<le> NAME_MAX"
  by (auto simp: lookup_def check_name_def split: if_splits)

section \<open>Creating\<close>

lemma create_name_ok: "create_node db p n node uid gid now = (Inr x, db') \<Longrightarrow> length n \<le> NAME_MAX"
  by (auto simp: create_node_def check_name_def split: if_splits)

text \<open>C18. A successful creation gives the new inode a number that no inode had, a name that the
  directory did not have, and the kind asked for; looking the name up finds it, with its times as
  the columns keep them.\<close>

theorem created_name_found:
  assumes ok: "names_ok db" and c: "create_node db p n node uid gid now = (Inr inode, db')" and f: "faults db' = []"
  shows "lookup db' p n = (Inr (stored_times inode), db') \<and> i_kind inode = node_kind node \<and>
    lookup (db\<lparr>faults := []\<rparr>) p n = (Inl NotFound, db\<lparr>faults := []\<rparr>) \<and>
    kinds (tabs db) (i64_of_u64 (i_ino inode)) = None"
proof -
  have t: "tree_ok (tabs db)" "rowids_fresh (new_rowid db)" using ok by (simp_all add: names_ok_def)
  let ?i = "i64_of_u64 (i_ino inode)"
  obtain rid row where B: "kinds (tabs db) ?i = None" "\<forall>y \<in> set (t_dirents (tabs db)). \<not> same_name (entry p n ?i) (snd y)"
      "i_kind inode = node_kind node" "set (t_dirents (tabs db')) = insert (rid, entry p n ?i) (set (t_dirents (tabs db)))"
      "map_of (t_inodes (tabs db')) ?i = Some row" "inode_from_row ?i row = Inr (stored_times inode)"
    using create_node_born(1)[OF c t] unfolding born_def Let_def by (elim exE conjE) (rule that, assumption+)
  have t': "tree_ok (tabs db')" using names_create_node[OF ok, of p n node uid gid now] c by (simp add: names_ok_def)
  have "(rid, entry p n ?i) \<in> set (t_dirents (tabs db'))" unfolding B(4) by simp
  then have "lookup db' p n = (Inr (stored_times inode), db')"
    by (rule lookup_found[OF t' f create_name_ok[OF c]]) (use B(5,6) in simp)
  moreover have "no_entry (tabs db) p n" using B(2) by (auto simp: same_name_def)
  then have "lookup (db\<lparr>faults := []\<rparr>) p n = (Inl NotFound, db\<lparr>faults := []\<rparr>)"
    by (intro lookup_missing) (use create_name_ok[OF c] in simp_all)
  ultimately show ?thesis using B(1,3) by blast
qed

section \<open>Removing\<close>

lemma delete_rows_other: "(rid, d) \<in> set (t_dirents t) \<Longrightarrow> d_parent d \<noteq> i64_of_u64 i \<Longrightarrow> d_child d \<noteq> i64_of_u64 i \<Longrightarrow>
    (rid, d) \<in> set (t_dirents (delete_inode_rows t i))"
  by (simp add: delete_inode_rows_entries)

lemma not_below_file:
  assumes "tree_ok t" "(rid, d) \<in> set (t_dirents t)" "kinds t i = Some k" "k \<noteq> DIR"
  shows "d_parent d \<noteq> i"
  using assms unfolding tree_ok_def tree_def by (force simp: closed_def)

lemma kind_not_dir: "k \<noteq> Directory \<Longrightarrow> kind_as_i64 k \<noteq> DIR"
  by (cases k) simp_all

lemma unlink_Inr:
  assumes ok: "names_ok db" and u: "unlink_file db p n now = (Inr (), db')"
  obtains target db1 where "lookup db p n = (Inr target, db1)" "i_kind target \<noteq> Directory"
    "tabs db' = touch_dir (drop_unlinked_inode (delete_dirent (tabs db) p n) target now False) p now"
proof -
  obtain target db1 where l: "lookup db p n = (Inr target, db1)" "unlink_entry db1 p n target False now = (Inr (), db')"
    using u unfolding unlink_file_def and_then_Inr_iff by blast
  have s: "tabs db1 = tabs db" using same_lookup[OF l(1)] by (simp add: same_rows_def)
  have k: "i_kind target \<noteq> Directory" using l(2) by (auto simp: unlink_entry_def)
  have "transaction db1 (\<lambda>t. Inr ((), touch_dir (drop_unlinked_inode (delete_dirent t p n) target now False) p now)) = (Inr (), db')"
    using l(2) k by (simp add: unlink_entry_def)
  from transaction_Inr[OF this] show thesis using that[OF l(1) k] s by simp
qed

lemma remove_dir_Inr:
  assumes ok: "names_ok db" and u: "remove_dir db p n now = (Inr (), db')"
  obtains target db1 where "lookup db p n = (Inr target, db1)" "i_kind target = Directory"
    "\<forall>(rid, d) \<in> set (t_dirents (tabs db)). d_parent d \<noteq> i64_of_u64 (i_ino target)"
    "tabs db' = add_directory_nlink (touch_dir (delete_inode_rows (delete_dirent (tabs db) p n) (i_ino target)) p now) p (-1)"
proof -
  obtain target db1 where l: "lookup db p n = (Inr target, db1)" "i_kind target = Directory"
    and tr: "transaction db1 (\<lambda>t. let child_count = length (filter (\<lambda>(_, d). d_parent d = i64_of_u64 (i_ino target)) (t_dirents t))
       in if child_count \<noteq> 0 then Inl DirectoryNotEmpty
          else let t = delete_dirent t p n; t = delete_inode_rows t (i_ino target); t = touch_dir t p now
            in Inr ((), add_directory_nlink t p (-1))) = (Inr (), db')"
    using u unfolding remove_dir_def and_then_Inr_iff by (auto split: if_splits)
  have s: "tabs db1 = tabs db" using same_lookup[OF l(1)] by (simp add: same_rows_def)
  show thesis
    by (rule that[OF l]) (use transaction_Inr[OF tr] s in \<open>auto simp: Let_def filter_empty_conv split: if_splits\<close>)
qed

text \<open>C19. After a successful \<open>unlink_file\<close> or \<open>remove_dir\<close> the name is gone; no entry appears, and the
  only other entries that can go with it are further names of the same inode.\<close>

theorem removed_name_gone:
  assumes ok: "names_ok db" and f: "faults db' = []"
    and u: "unlink_file db p n now = (Inr (), db') \<or> remove_dir db p n now = (Inr (), db')"
  shows "lookup db' p n = (Inl NotFound, db') \<and> set (t_dirents (tabs db')) \<subseteq> set (t_dirents (tabs db)) \<and>
    (\<exists>target db1. lookup db p n = (Inr target, db1) \<and>
       (\<forall>(rid, d) \<in> set (t_dirents (tabs db)). d_child d \<noteq> i64_of_u64 (i_ino target) \<longrightarrow> (rid, d) \<in> set (t_dirents (tabs db'))))"
proof -
  let ?T = "delete_dirent (tabs db) p n"
  have t: "tree_ok (tabs db)" using ok by (simp add: names_ok_def)
  obtain target db1 where l: "lookup db p n = (Inr target, db1)"
    and D: "set (t_dirents (tabs db')) \<subseteq> set (t_dirents ?T)"
    and keep: "\<And>rid d. (rid, d) \<in> set (t_dirents ?T) \<Longrightarrow> d_child d \<noteq> i64_of_u64 (i_ino target) \<Longrightarrow> (rid, d) \<in> set (t_dirents (tabs db'))"
  proof (rule disjE[OF u])
    assume "unlink_file db p n now = (Inr (), db')"
    then obtain target db1 where x: "lookup db p n = (Inr target, db1)" "i_kind target \<noteq> Directory"
      "tabs db' = touch_dir (drop_unlinked_inode ?T target now False) p now"
      by (rule unlink_Inr[OF ok])
    have k: "kinds (tabs db) (i64_of_u64 (i_ino target)) = Some (kind_as_i64 (i_kind target))" by (rule lookup_child[OF ok x(1)])
    show thesis
    proof (rule that[OF x(1)])
      show "set (t_dirents (tabs db')) \<subseteq> set (t_dirents ?T)"
        unfolding x(3) by (auto simp: drop_unlinked_inode_def Let_def delete_inode_rows_entries split: if_splits)
      fix rid d assume d: "(rid, d) \<in> set (t_dirents ?T)" "d_child d \<noteq> i64_of_u64 (i_ino target)"
      have m: "(rid, d) \<in> set (t_dirents (tabs db))" using d(1) by (simp add: delete_dirent_entries)
      have "d_parent d \<noteq> i64_of_u64 (i_ino target)" by (rule not_below_file[OF t m k kind_not_dir[OF x(2)]])
      then show "(rid, d) \<in> set (t_dirents (tabs db'))"
        unfolding x(3) using d x(2) by (simp add: drop_unlinked_inode_def Let_def delete_rows_other)
    qed
  next
    assume "remove_dir db p n now = (Inr (), db')"
    then obtain target db1 where x: "lookup db p n = (Inr target, db1)"
      "\<forall>(rid, d) \<in> set (t_dirents (tabs db)). d_parent d \<noteq> i64_of_u64 (i_ino target)"
      "tabs db' = add_directory_nlink (touch_dir (delete_inode_rows ?T (i_ino target)) p now) p (-1)"
      by (rule remove_dir_Inr[OF ok])
    show thesis
      by (rule that[OF x(1)]) (use x(2,3) in \<open>auto simp: delete_inode_rows_entries delete_dirent_entries\<close>)
  qed
  have no: "no_entry (tabs db') p n" using D by (auto simp: delete_dirent_entries)
  have "lookup db' p n = (Inl NotFound, db')" by (rule lookup_missing[OF f lookup_name_ok[OF l] no])
  moreover have "(rid, d) \<in> set (t_dirents (tabs db'))"
    if "(rid, d) \<in> set (t_dirents (tabs db))" "d_child d \<noteq> i64_of_u64 (i_ino target)" for rid d
  proof (rule keep)
    obtain r where "(r, entry p n (i64_of_u64 (i_ino target))) \<in> set (t_dirents (tabs db))" by (rule lookup_child[OF ok l])
    then have "\<not> (d_parent d = i64_of_u64 p \<and> d_name d = n)"
      using that entry_unique(2)[OF t, of r p n _ rid "d_child d"] entry_eta[of d p n] by metis
    then show "(rid, d) \<in> set (t_dirents ?T)" using that(1) by (simp add: delete_dirent_entries)
  qed (use that in simp)
  ultimately show ?thesis using D l by (auto simp: delete_dirent_entries)
qed

text \<open>A directory that has an entry is not removed, and nothing changes.\<close>

theorem full_directory_stays:
  assumes f: "faults db = []" and l: "lookup db p n = (Inr target, db)"
    and k: "i_kind target = Directory" and e: "(rid, d) \<in> set (t_dirents (tabs db))" "d_parent d = i64_of_u64 (i_ino target)"
  shows "remove_dir db p n now = (Inl DirectoryNotEmpty, db)"
proof -
  have "filter (\<lambda>(_, d). d_parent d = i64_of_u64 (i_ino target)) (t_dirents (tabs db)) \<noteq> []"
    using e by (auto simp: filter_empty_conv)
  then show ?thesis using f k by (simp add: remove_dir_def l transaction_no_fault)
qed

section \<open>Renaming\<close>

lemma rename_Inr:
  assumes ok: "names_ok db" and r: "rename_entry db p n q m noreplace is_open now = Some (Inr existing, db')"
    and other: "\<not> (p = q \<and> n = m)"
  obtains source db1 db3 db4 db5 where "lookup db p n = (Inr source, db1)" "same_rows db db3" "lookup_opt db3 q m = (Inr existing, db4)"
    "same_rows db db4" "replaceable db4 source existing = (Inr (), db5)" "length m \<le> NAME_MAX"
    "rename_rows (tabs db) p n q m source existing is_open now = Inr (tabs db')"
proof -
  obtain source db1 where s1: "lookup db p n = (Inr source, db1)" and c: "check_name m = Inr ()"
    and r1: "try_then (Some (inode_kind_of db1 q)) (\<lambda>kind db. if kind \<noteq> Directory then Some (Inl NotDirectory, db) else
      try_then (if i_kind source = Directory then is_descendant db q (i_ino source) else Some (Inr False, db)) (\<lambda>below db.
      if below then Some (Inl InvalidInput, db) else if p = q \<and> n = m then Some (Inr None, db) else
      try_then (Some (lookup_opt db q m)) (\<lambda>existing_target db.
      if noreplace \<and> existing_target \<noteq> None then Some (Inl AlreadyExists, db) else
      try_then (Some (replaceable db source existing_target)) (\<lambda>_ db.
      Some (transaction db (\<lambda>t. case rename_rows t p n q m source existing_target is_open now of
          Inl e \<Rightarrow> Inl e | Inr t \<Rightarrow> Inr (existing_target, t))))))) = Some (Inr existing, db')"
    using r unfolding rename_entry_def by (auto simp: try_then_Inr_iff split: sum.splits)
  obtain db2 where s2: "inode_kind_of db1 q = (Inr Directory, db2)"
    and r2: "try_then (if i_kind source = Directory then is_descendant db2 q (i_ino source) else Some (Inr False, db2)) (\<lambda>below db.
      if below then Some (Inl InvalidInput, db) else if p = q \<and> n = m then Some (Inr None, db) else
      try_then (Some (lookup_opt db q m)) (\<lambda>existing_target db.
      if noreplace \<and> existing_target \<noteq> None then Some (Inl AlreadyExists, db) else
      try_then (Some (replaceable db source existing_target)) (\<lambda>_ db.
      Some (transaction db (\<lambda>t. case rename_rows t p n q m source existing_target is_open now of
          Inl e \<Rightarrow> Inl e | Inr t \<Rightarrow> Inr (existing_target, t)))))) = Some (Inr existing, db')"
    using r1 by (auto simp: try_then_Inr_iff split: if_splits)
  obtain db3 where s3: "(if i_kind source = Directory then is_descendant db2 q (i_ino source) else Some (Inr False, db2)) = Some (Inr False, db3)"
    and r3: "try_then (Some (lookup_opt db3 q m)) (\<lambda>existing_target db.
      if noreplace \<and> existing_target \<noteq> None then Some (Inl AlreadyExists, db) else
      try_then (Some (replaceable db source existing_target)) (\<lambda>_ db.
      Some (transaction db (\<lambda>t. case rename_rows t p n q m source existing_target is_open now of
          Inl e \<Rightarrow> Inl e | Inr t \<Rightarrow> Inr (existing_target, t))))) = Some (Inr existing, db')"
    using r2 other by (auto simp: try_then_Inr_iff split: if_splits)
  obtain x db4 where s4: "lookup_opt db3 q m = (Inr x, db4)"
    and r4: "try_then (Some (replaceable db4 source x)) (\<lambda>_ db. Some (transaction db (\<lambda>t.
        case rename_rows t p n q m source x is_open now of Inl e \<Rightarrow> Inl e | Inr t \<Rightarrow> Inr (x, t)))) = Some (Inr existing, db')"
    using r3 by (auto simp: try_then_Inr_iff split: if_splits)
  obtain db5 where s5: "replaceable db4 source x = (Inr (), db5)"
    and r5: "transaction db5 (\<lambda>t. case rename_rows t p n q m source x is_open now of Inl e \<Rightarrow> Inl e | Inr t \<Rightarrow> Inr (x, t)) = (Inr existing, db')"
    using r4 by (auto simp: try_then_Inr_iff)
  note same2 = same_rows_trans[OF same_lookup[OF s1] same_kind_of[OF s2]]
  have t2: "tree_ok (tabs db2)" "kinds (tabs db2) (i64_of_u64 q) = Some DIR"
    using same_names[OF same2 ok] inode_kind_of_Inr[OF s2] by (simp_all add: names_ok_def)
  have same3: "same_rows db db3"
  proof (cases "i_kind source = Directory")
    case True
    show ?thesis
      by (rule is_descendant_spec[OF t2, of "i_ino source"]) (use s3 same2 True in \<open>auto simp: same_rows_def\<close>)
  qed (use s3 same2 in simp)
  note same4 = same_rows_trans[OF same3 same_lookup_opt[OF s4]]
  have "tabs db5 = tabs db" using same_rows_trans[OF same4 same_replaceable[OF s5]] by (simp add: same_rows_def)
  moreover have "x = existing" "rename_rows (tabs db5) p n q m source x is_open now = Inr (tabs db')"
    using transaction_Inr[OF r5] by (auto split: sum.splits)
  moreover have "length m \<le> NAME_MAX" using c by (auto simp: check_name_def split: if_splits)
  ultimately show thesis using that[OF s1 same3 _ same4] s4 s5 by simp
qed

lemma rename_same_name:
  assumes ok: "names_ok d" and r: "rename_entry d p n p n noreplace is_open now = Some (Inr x, d')"
  shows "x = None" "same_rows d d'"
proof -
  obtain source d1 where s1: "lookup d p n = (Inr source, d1)"
    and r1: "try_then (Some (inode_kind_of d1 p)) (\<lambda>kind db. if kind \<noteq> Directory then Some (Inl NotDirectory, db) else
      try_then (if i_kind source = Directory then is_descendant db p (i_ino source) else Some (Inr False, db)) (\<lambda>below db.
      if below then Some (Inl InvalidInput, db) else Some (Inr None, db))) = Some (Inr x, d')"
    using r unfolding rename_entry_def simp_thms if_True by (auto simp: try_then_Inr_iff split: sum.splits)
  obtain d2 where s2: "inode_kind_of d1 p = (Inr Directory, d2)"
    and r2: "try_then (if i_kind source = Directory then is_descendant d2 p (i_ino source) else Some (Inr False, d2)) (\<lambda>below db.
      if below then Some (Inl InvalidInput, db) else Some (Inr None, db)) = Some (Inr x, d')"
    using r1 by (auto simp: try_then_Inr_iff split: if_splits)
  have s3: "x = None \<and> (if i_kind source = Directory then is_descendant d2 p (i_ino source) else Some (Inr False, d2)) = Some (Inr False, d')"
    using r2 by (auto simp: try_then_Inr_iff split: if_splits)
  then show "x = None" by simp
  note same2 = same_rows_trans[OF same_lookup[OF s1] same_kind_of[OF s2]]
  have t2: "tree_ok (tabs d2)" "kinds (tabs d2) (i64_of_u64 p) = Some DIR"
    using same_names[OF same2 ok] inode_kind_of_Inr[OF s2] by (simp_all add: names_ok_def)
  show "same_rows d d'"
  proof (cases "i_kind source = Directory")
    case True
    show ?thesis
      by (rule is_descendant_spec[OF t2, of "i_ino source"]) (use s3 same2 True in \<open>auto simp: same_rows_def\<close>)
  qed (use s3 same2 in simp)
qed

lemma lookup_opt_Some: "lookup_opt db q m = (Inr (Some x), db') \<Longrightarrow> lookup db q m = (Inr x, db')"
  by (auto simp: lookup_opt_def split: prod.splits sum.splits DbError.splits)

lemma move_dirent_entries:
  assumes t: "tree_ok t" and mv: "move_dirent t p n q m = Inr t'" and e: "(rid, entry p n c) \<in> set (t_dirents t)"
    and other: "\<not> (p = q \<and> n = m)"
  shows "(rid, entry q m c) \<in> set (t_dirents t')" and "no_entry t' p n" and "t_inodes t' = t_inodes t"
proof -
  let ?hit = "\<lambda>d :: dirent_row. d_parent d = i64_of_u64 p \<and> d_name d = n"
  let ?mv = "\<lambda>(rid, d). (rid, if ?hit d then d\<lparr>d_parent := i64_of_u64 q, d_name := m\<rparr> else d)"
  have ex: "list_ex (\<lambda>(_, d). ?hit d) (t_dirents t)" using e by (force simp: list_ex_iff)
  have t': "t' = t\<lparr>t_dirents := map ?mv (t_dirents t)\<rparr>"
    using mv ex by (simp add: move_dirent_def Let_def split: if_splits)
  have "(rid, entry q m c) \<in> ?mv ` set (t_dirents t)" by (rule image_eqI[OF _ e]) simp
  then show "(rid, entry q m c) \<in> set (t_dirents t')" by (simp add: t')
  have "\<forall>y \<in> set (t_dirents t'). \<not> ?hit (snd y)" using other by (auto simp: t' split: if_splits)
  then show "no_entry t' p n" by force
  show "t_inodes t' = t_inodes t" by (simp add: t')
qed

text \<open>What the replaced entry leaves of the source, provided it is another inode.\<close>

lemma drop_keeps:
  assumes t: "tree_ok t" and e: "(rid, entry p n c) \<in> set (t_dirents t)" and other: "\<not> (p = q \<and> n = m)"
    and ne: "c \<noteq> i64_of_u64 (i_ino x)" "i64_of_u64 p \<noteq> i64_of_u64 (i_ino x)"
  shows "(rid, entry p n c) \<in> set (t_dirents (drop_unlinked_inode (delete_dirent t q m) x now op))"
    and "map_of (t_inodes (drop_unlinked_inode (delete_dirent t q m) x now op)) c = map_of (t_inodes t) c"
proof -
  have "(rid, entry p n c) \<in> set (t_dirents (delete_dirent t q m))" using e other by (auto simp: delete_dirent_entries)
  then show "(rid, entry p n c) \<in> set (t_dirents (drop_unlinked_inode (delete_dirent t q m) x now op))"
    using ne by (simp add: drop_unlinked_inode_def Let_def delete_rows_other)
  have "tbl_ok (t_inodes t)" using t by (simp add: tree_ok_def)
  then show "map_of (t_inodes (drop_unlinked_inode (delete_dirent t q m) x now op)) c = map_of (t_inodes t) c"
    using ne(1) by (simp add: drop_unlinked_inode_def Let_def set_nlink_def delete_inode_rows_def delete_inode_row_def tbl_simps split: option.split)
qed

lemma replaceable_empty:
  assumes t: "names_ok db" and r: "replaceable db source (Some x) = (Inr (), db')" and k: "i_kind x = Directory"
    and e: "(rid, d) \<in> set (t_dirents (tabs db))"
  shows "d_parent d \<noteq> i64_of_u64 (i_ino x)"
proof
  assume p: "d_parent d = i64_of_u64 (i_ino x)"
  have r': "and_then (list_dir db (i_ino x)) (\<lambda>entries db. if entries \<noteq> [] then (Inl DirectoryNotEmpty, db) else (Inr (), db)) = (Inr (), db')"
    using r k by (cases "i_kind source") (simp_all add: replaceable_def)
  then obtain db1 where l: "list_dir db (i_ino x) = (Inr [], db1)" by (auto simp: and_then_Inr_iff split: if_splits)
  then obtain db2 where "same_rows db db2" and q: "query db2 (\<lambda>t.
       let rows = sort_key (\<lambda>(_, d, _). d_name d) (join_children (\<lambda>_ d. d_parent d = i64_of_u64 (i_ino x)) t)
       in sql_result (collect_results (map dir_entry_from_row rows))) = (Inr [], db1)"
    unfolding list_dir_def by (auto simp: and_then_Inr_iff split: if_splits dest: same_kind_of)
  let ?rows = "join_children (\<lambda>_ d. d_parent d = i64_of_u64 (i_ino x)) (tabs db2)"
  have c: "collect_results (map dir_entry_from_row (sort_key (\<lambda>(_, d, _). d_name d) ?rows)) = Inr []"
    using query_Inr[OF q] by (simp add: Let_def)
  have nil: "collect_results rs = Inr [] \<Longrightarrow> rs = []" for rs :: "(SqlError + DirEntry) list"
    by (cases rs rule: collect_results.cases) (auto split: sum.splits)
  have "sort_key (\<lambda>(_, d, _). d_name d) ?rows = []" using nil[OF c] by simp
  then have "?rows = []" by (metis length_sort length_0_conv)
  moreover have "closed (kinds (tabs db)) d" using t e unfolding names_ok_def tree_ok_def tree_def by auto
  then obtain row where "map_of (t_inodes (tabs db)) (d_child d) = Some row" by (auto simp: closed_def kinds_def)
  then have "(rid, d, row) \<in> set ?rows"
    using e p \<open>same_rows db db2\<close> by (simp add: join_children_iff same_rows_def)
  ultimately show False by simp
qed

text \<open>C17. A successful rename to another name moves the entry: the old name is gone and the new one
  finds the inode that the old one found, provided the replaced entry named another inode.\<close>

theorem rename_moves_entry:
  assumes ok: "names_ok db" and r: "rename_entry db p n q m noreplace is_open now = Some (Inr existing, db')"
    and other: "\<not> (p = q \<and> n = m)" and f: "faults db' = []"
    and src: "lookup db p n = (Inr source, db1)" and diff: "\<And>x. existing = Some x \<Longrightarrow> i_ino x \<noteq> i_ino source"
  shows "\<exists>inode. lookup db' p n = (Inl NotFound, db') \<and> lookup db' q m = (Inr inode, db') \<and>
    i_ino inode = i_ino source \<and> i_kind inode = i_kind source"
proof -
  let ?T = "tabs db" and ?c = "i64_of_u64 (i_ino source)"
  have t: "tree_ok ?T" using ok by (simp add: names_ok_def)
  have t': "tree_ok (tabs db')" using rename_entry_safe[OF ok, of p n q m noreplace is_open now] r by (simp add: safe_def names_ok_def)
  obtain source' db1' db3 db4 db5 where R: "lookup db p n = (Inr source', db1')" "same_rows db db3" "lookup_opt db3 q m = (Inr existing, db4)"
    "same_rows db db4" "replaceable db4 source' existing = (Inr (), db5)" "length m \<le> NAME_MAX"
    "rename_rows ?T p n q m source' existing is_open now = Inr (tabs db')"
    by (rule rename_Inr[OF ok r other])
  have s: "source' = source" using R(1) src by simp
  obtain rid where e: "(rid, entry p n ?c) \<in> set (t_dirents ?T)" and kc: "kinds ?T ?c = Some (kind_as_i64 (i_kind source))"
    by (rule lookup_child[OF ok src])
  define t1 where "t1 = (case existing of None \<Rightarrow> ?T | Some x \<Rightarrow> drop_unlinked_inode (delete_dirent ?T q m) x now (is_open (i_ino x)))"
  have t1: "(rid, entry p n ?c) \<in> set (t_dirents t1)" "map_of (t_inodes t1) ?c = map_of (t_inodes ?T) ?c" "tree_ok t1"
  proof -
    have "(rid, entry p n ?c) \<in> set (t_dirents t1) \<and> map_of (t_inodes t1) ?c = map_of (t_inodes ?T) ?c \<and> tree_ok t1"
    proof (cases existing)
      case (Some x)
      have l: "lookup db3 q m = (Inr x, db4)" using R(3) Some by (simp add: lookup_opt_Some)
      note ok3 = same_names[OF R(2) ok] and ok4 = same_names[OF R(4) ok]
      have kx: "kinds ?T (i64_of_u64 (i_ino x)) = Some (kind_as_i64 (i_kind x))" and one: "i64_of_u64 (i_ino x) \<noteq> 1"
        using lookup_child[OF ok3 l] R(2) by (auto simp: same_rows_def)
      have c: "?c \<noteq> i64_of_u64 (i_ino x)" using diff[OF Some] by simp
      have pa: "i64_of_u64 p \<noteq> i64_of_u64 (i_ino x)"
      proof (cases "i_kind x = Directory")
        case True
        show ?thesis using replaceable_empty[OF ok4 R(5)[unfolded Some] True, of rid "entry p n ?c"] e R(4) by (simp add: same_rows_def)
      next
        case False
        show ?thesis using not_below_file[OF t e kx kind_not_dir[OF False]] by simp
      qed
      show ?thesis using drop_keeps[OF t e other c pa] drop_unlinked_tree[OF delete_dirent_tree[OF t] one]
        by (simp add: t1_def Some)
    qed (use e t in \<open>simp add: t1_def\<close>)
    then show "(rid, entry p n ?c) \<in> set (t_dirents t1)" "map_of (t_inodes t1) ?c = map_of (t_inodes ?T) ?c" "tree_ok t1" by blast+
  qed
  obtain t2 where mv: "move_dirent t1 p n q m = Inr t2"
    using R(7) unfolding rename_rows_def Let_def t1_def[symmetric] s by (auto split: sum.splits)
  note R7 = R(7)[unfolded rename_rows_def Let_def t1_def[symmetric] s mv sum.case, THEN Inr_inject, symmetric]
  have t2: "move_dirent t1 p n q m = Inr t2" "t_dirents (tabs db') = t_dirents t2" "kinds (tabs db') = kinds t2"
    unfolding R7 by (simp_all add: mv)
  note mv = move_dirent_entries[OF t1(3) t2(1) t1(1) other]
  have no: "no_entry (tabs db') p n" using mv(2) t2(2) by simp
  have ne: "(rid, entry q m ?c) \<in> set (t_dirents (tabs db'))" using mv(1) t2(2) by simp
  obtain row inode where i: "map_of (t_inodes (tabs db')) ?c = Some row" "inode_from_row ?c row = Inr inode" "lookup db' q m = (Inr inode, db')"
    by (rule lookup_found[OF t' f R(6) ne])
  have "kinds (tabs db') ?c = Some (kind_as_i64 (i_kind source))" using t2(3) mv(3) t1(2) kc by (simp add: kinds_def)
  then have "kind_as_i64 (i_kind inode) = kind_as_i64 (i_kind source)" using i(1) inode_from_row_Inr(2)[OF i(2)] by (simp add: kinds_def)
  then have "i_kind inode = i_kind source" by (cases "i_kind inode"; cases "i_kind source") simp_all
  moreover have "i_ino inode = i_ino source" using inode_from_row_Inr(1)[OF i(2)] by simp
  ultimately show ?thesis using lookup_missing[OF f lookup_name_ok[OF src] no] i(3) by blast
qed

section \<open>Sequences of calls\<close>

text \<open>The calls of the storage layer that can change a table, with the values they are given; the
  open-file table decides \<open>is_open\<close>.\<close>

datatype storage_call =
    Create u64 bytes NewNode u32 u32 Timestamp
  | Link u64 u64 bytes Timestamp
  | Unlink u64 bytes bool Timestamp
  | RemoveDir u64 bytes Timestamp
  | Rename u64 bytes u64 bytes bool "u64 list" Timestamp
  | WriteBatch u64 "(u64 \<times> bytes) list" Timestamp
  | ReplaceChunks u64 u64 "(u64 \<times> bytes) list" Timestamp
  | Truncate u64 u64 Timestamp
  | Metadata u64 MetadataUpdate Timestamp
  | DeleteInode u64

definition no_value :: "(DbError + 'a) \<times> Db \<Rightarrow> (DbError + unit) \<times> Db" where
  "no_value m = (map_sum id (\<lambda>_. ()) (fst m), snd m)"

fun run_call :: "storage_call \<Rightarrow> Db \<Rightarrow> ((DbError + unit) \<times> Db) option" where
  "run_call (Create p n node uid gid now) db = Some (no_value (create_node db p n node uid gid now))"
| "run_call (Link ino p n now) db = Some (no_value (link db ino p n now))"
| "run_call (Unlink p n op now) db =
     Some (and_then (lookup db p n) (\<lambda>target db. unlink_entry db p n target op now))"
| "run_call (RemoveDir p n now) db = Some (remove_dir db p n now)"
| "run_call (Rename p n q m noreplace opened now) db =
     map_option no_value (rename_entry db p n q m noreplace (\<lambda>ino. ino \<in> set opened) now)"
| "run_call (WriteBatch ino writes now) db = map_option no_value (write_file_batch_at db ino writes now)"
| "run_call (ReplaceChunks ino sz chunks now) db = Some (replace_chunks db ino sz chunks now)"
| "run_call (Truncate ino sz now) db = Some (truncate_file db ino sz now)"
| "run_call (Metadata ino u now) db = Some (no_value (update_metadata db ino u now))"
| "run_call (DeleteInode ino) db = Some (delete_inode db ino)"

fun spares_root :: "storage_call \<Rightarrow> bool" where
  "spares_root (DeleteInode ino) = (ino \<noteq> 1)"
| "spares_root c = True"

inductive runs :: "Db \<Rightarrow> Db \<Rightarrow> bool" for db where
  runs_start: "runs db db"
| runs_call: "runs db d \<Longrightarrow> spares_root c \<Longrightarrow> run_call c d = Some (r, d') \<Longrightarrow> runs db d'"

lemma no_value_snd [simp]: "snd (no_value m) = snd m"
  by (simp add: no_value_def)

lemma no_value_Inl: "no_value m = (Inl e, db') \<longleftrightarrow> m = (Inl e, db')"
  by (cases m; cases "fst m") (auto simp: no_value_def)

lemma call_names:
  assumes ok: "names_ok db" and s: "spares_root c" and r: "run_call c db = Some (r, db')"
  shows "names_ok db'"
proof (cases c)
  case (Unlink p n op now)
  have "names_ok (snd (and_then (lookup db p n) (\<lambda>target db. unlink_entry db p n target op now)))"
  proof (rule names_and_then[OF names_lookup[OF ok]])
    fix target db1 assume l: "lookup db p n = (Inr target, db1)"
    have "i64_of_u64 (i_ino target) \<noteq> 1" by (rule lookup_child[OF ok l])
    then show "names_ok (snd (unlink_entry db1 p n target op now))"
      by (rule names_unlink_entry[OF same_names[OF same_lookup[OF l] ok]])
  qed
  then show ?thesis using r Unlink by simp
next
  case (Rename p n q m nr opened now)
  then show ?thesis using r rename_entry_safe[OF ok, of p n q m nr "\<lambda>ino. ino \<in> set opened" now] by (auto simp: safe_def no_value_def)
next
  case (WriteBatch ino writes now)
  then show ?thesis using r by (auto simp: no_value_def dest: names_write_batch[OF ok])
next
  case (Create p n node uid gid now)
  then show ?thesis using r names_create_node[OF ok, of p n node uid gid now] by (auto simp: no_value_def)
next
  case (Link ino p n now)
  then show ?thesis using r names_link[OF ok, of ino p n now] by (auto simp: no_value_def)
next
  case (Metadata ino u now)
  then show ?thesis using r names_update_metadata[OF ok, of ino u now] by (auto simp: no_value_def)
next
  case (RemoveDir p n now)
  then show ?thesis using r names_remove_dir[OF ok, of p n now] by simp
next
  case (ReplaceChunks ino sz chunks now)
  then show ?thesis using r names_replace_chunks[OF ok, of ino sz chunks now] by simp
next
  case (Truncate ino sz now)
  then show ?thesis using r names_truncate[OF ok, of ino sz now] by simp
next
  case (DeleteInode ino)
  then show ?thesis using r s names_delete_inode[OF ok, of ino] by simp
qed

text \<open>C14. From a database that start-up accepted, every sequence of storage calls leaves the
  directories a tree rooted at inode 1: every entry names a live inode in a live directory, names are
  unique in their directory, a directory has one entry, and no directory is below itself.\<close>

theorem names_stay_a_tree:
  assumes "startable db0" "initialize db0 uid gid now = (Inr (), db)" "runs db db'"
  shows "tree (kinds (tabs db')) (set (t_dirents (tabs db')))"
proof -
  have "names_ok db'"
    using assms(3) initialize_names[OF assms(1,2)] by (induction rule: runs.induct) (auto dest: call_names)
  then show ?thesis by (simp add: names_ok_def tree_ok_def)
qed

text \<open>C16. While the directories are a tree, \<open>is_descendant\<close> returns, and unless SQLite fails its
  answer is whether the directory lies below the other one, or is it.\<close>

theorem ancestor_check_exact:
  assumes "names_ok db" "kinds (tabs db) (i64_of_u64 ino) = Some DIR"
  shows "\<exists>r db'. is_descendant db ino anc = Some (r, db') \<and> tabs db' = tabs db \<and>
    (faults db = [] \<longrightarrow> r = Inr ((i64_of_u64 ino, i64_of_u64 anc) \<in> (ups (tabs db))\<^sup>*))"
proof -
  have t: "tree_ok (tabs db)" using assms(1) by (simp add: names_ok_def)
  obtain r db' where d: "is_descendant db ino anc = Some (r, db')" "tabs db' = tabs db"
    "faults db = [] \<Longrightarrow> \<not> isl r" "\<And>b. r = Inr b \<Longrightarrow> b = ((i64_of_u64 ino, i64_of_u64 anc) \<in> (ups (tabs db))\<^sup>*)"
    by (rule is_descendant_spec[OF t assms(2), of anc]) (rule that, assumption+)
  then show ?thesis by (cases r) auto
qed

text \<open>C15. A rename always returns, and leaves the directories a tree; a directory is never moved
  below itself.\<close>

theorem rename_returns:
  assumes "names_ok db"
  shows "\<exists>r db'. rename_entry db p n q m noreplace is_open now = Some (r, db') \<and>
    tree (kinds (tabs db')) (set (t_dirents (tabs db')))"
proof -
  have "safe db (rename_entry db p n q m noreplace is_open now)" by (rule rename_entry_safe[OF assms])
  then obtain r db' where "rename_entry db p n q m noreplace is_open now = Some (r, db')" "names_ok db'" by (auto simp: safe_def)
  then show ?thesis by (simp add: names_ok_def tree_ok_def)
qed

lemma create_node_Inl: "create_node db p n node uid gid now = (Inl e, db') \<Longrightarrow> same_rows db db'"
  unfolding create_node_def Let_def same_rows_def
  by (auto simp: and_then_def inode_kind_of_def split: sum.splits prod.splits if_splits NewNode.splits
      dest!: query_frame transaction_Inl)

lemma link_Inl: "link db ino p n now = (Inl e, db') \<Longrightarrow> same_rows db db'"
  unfolding link_def Let_def same_rows_def
  by (auto simp: and_then_def inode_kind_of_def get_inode_def split: sum.splits prod.splits if_splits
      dest!: query_frame transaction_Inl)

lemma unlink_entry_Inl: "unlink_entry db p n target op now = (Inl e, db') \<Longrightarrow> same_rows db db'"
  by (auto simp: unlink_entry_def same_rows_def split: if_splits dest!: transaction_Inl)

lemma remove_dir_Inl: "remove_dir db p n now = (Inl e, db') \<Longrightarrow> same_rows db db'"
  by (auto simp: remove_dir_def and_then_def same_rows_def split: sum.splits prod.splits if_splits
      dest!: same_lookup transaction_Inl)

lemma truncate_Inl: "truncate_file db ino sz now = (Inl e, db') \<Longrightarrow> same_rows db db'"
  by (auto simp: truncate_file_def and_then_def same_rows_def split: sum.splits prod.splits if_splits option.splits
      dest!: same_kind_of transaction_Inl)

lemma write_batch_Inl:
  assumes "write_file_batch_at db ino writes now = Some (Inl e, db')"
  shows "same_rows db db'"
  using assms unfolding write_file_batch_at_def inode_head_def same_rows_def
  by (auto simp: try_then_def split: sum.splits prod.splits if_splits option.splits dest!: query_frame try_transaction_Some)

lemma transaction_same: "transaction db body = (Inl e, db') \<Longrightarrow> same_rows db db'"
  by (simp add: same_rows_def transaction_Inl)

lemma failed_call_same:
  assumes ok: "names_ok db" and r: "run_call c db = Some (Inl e, db')" and "\<not> (\<exists>ino u now. c = Metadata ino u now)"
  shows "same_rows db db'"
proof (cases c)
  case (Unlink p n op now)
  then show ?thesis using r by (auto simp: and_then_def split: sum.splits prod.splits
        dest: same_lookup unlink_entry_Inl intro: same_rows_trans)
next
  case (Rename p n q m nr opened now)
  then show ?thesis using r rename_entry_safe[OF ok, of p n q m nr "\<lambda>ino. ino \<in> set opened" now]
    by (auto simp: safe_def no_value_Inl)
qed (use r assms(3) in \<open>auto simp: no_value_Inl replace_chunks_def delete_inode_def
    dest: create_node_Inl link_Inl remove_dir_Inl truncate_Inl write_batch_Inl transaction_same\<close>)

text \<open>\<open>update_metadata\<close> reads the row back after its update, so it can fail after a change; the change is
  then the one it makes when SQLite does not fail.\<close>

lemma metadata_failed:
  assumes u: "update_metadata db ino u now = (Inl e, db')"
  shows "tabs db' = tabs db \<or> faults db \<noteq> [] \<and> tabs db' = tabs (snd (update_metadata (db\<lparr>faults := []\<rparr>) ino u now))"
proof -
  let ?i = "i64_of_u64 ino"
  obtain q d1 where q: "get_inode db ino = (q, d1)" by fastforce
  have t1: "tabs d1 = tabs db" "faults db = [] \<Longrightarrow> faults d1 = []"
    using query_frame[OF q[unfolded get_inode_def]] q by (simp_all add: get_inode_def query_no_fault)
  show ?thesis
  proof (cases q)
    case (Inl x)
    then show ?thesis using u q t1 by (simp add: update_metadata_def)
  next
    case (Inr inode)
    define f where "f = (\<lambda>r :: inode_row. r\<lparr>r_mode := i64_of_u32 (case_option (i_mode inode) id (mu_mode u)), r_uid := i64_of_u32 (case_option (i_uid inode) id (mu_uid u)),
       r_gid := i64_of_u32 (case_option (i_gid inode) id (mu_gid u)), r_atime_ns := to_ns (case_option (i_atime inode) id (mu_atime u)),
       r_mtime_ns := to_ns (case_option (i_mtime inode) id (mu_mtime u)), r_ctime_ns := to_ns now\<rparr>)"
    let ?F = "\<lambda>t. t\<lparr>t_inodes := tbl_update ?i f (t_inodes t)\<rparr>"
    have step: "update_metadata d ino u now = and_then (execute d2 ?F) (\<lambda>_ d. get_inode d ino)" if "get_inode d ino = (Inr inode, d2)" for d d2
      using that by (simp add: update_metadata_def f_def)
    obtain y d2 where y: "execute d1 ?F = (y, d2)" by fastforce
    have free: "get_inode (d\<lparr>faults := []\<rparr>) ino = (Inr inode, d\<lparr>faults := []\<rparr>)" if "tabs d = tabs db" for d
      using q Inr that by (auto simp: get_inode_def query_no_fault dest!: query_Inr)
    have full: "tabs (snd (update_metadata (db\<lparr>faults := []\<rparr>) ino u now)) = ?F (tabs db)"
      unfolding step[OF free[of db, OF refl]] by (simp add: execute_def transaction_no_fault get_inode_def query_no_fault)
    show ?thesis
    proof (cases y)
      case (Inl z)
      then show ?thesis using u step[of db d1] q Inr y execute_tabs[OF y] t1(1) by simp
    next
      case (Inr z)
      have g: "get_inode d2 ino = (Inl e, db')" using u step[of db d1] q \<open>q = Inr inode\<close> y Inr by simp
      have t2: "tabs d2 = ?F (tabs db)" "faults db = [] \<Longrightarrow> faults d2 = []"
        using execute_tabs[OF y] Inr t1 y by (auto simp: execute_def transaction_no_fault)
      have "faults db \<noteq> []"
      proof
        assume no: "faults db = []"
        obtain r where r: "map_of (t_inodes (tabs db)) ?i = Some r" "sql_result (inode_from_row ?i r) = Inr inode"
          using q \<open>q = Inr inode\<close> by (auto simp: get_inode_def dest!: query_Inr split: option.splits)
        then obtain inode' where "inode_from_row ?i (f r) = Inr inode'"
          by (cases "inode_from_row ?i r") (auto simp: sql_result_def inode_from_row_def f_def split: sum.splits)
        then show False using g t2 no r(1) by (auto simp: get_inode_def query_no_fault map_of_tbl_update sql_result_def)
      qed
      then show ?thesis using full t2(1) query_frame[OF g[unfolded get_inode_def]] by simp
    qed
  qed
qed

text \<open>C20. A storage call that reports an error has changed no table. \<open>update_metadata\<close> is the one exception,
  and only when SQLite fails: its update, a statement of its own, may be stored while reading the row
  back fails, and then it is stored as a whole, as without failures.\<close>

theorem failed_calls_change_nothing:
  assumes "names_ok db" "run_call c db = Some (Inl e, db')"
  shows "tabs db' = tabs db \<or> (\<exists>ino u now. c = Metadata ino u now \<and> faults db \<noteq> [] \<and>
    tabs db' = tabs (snd (update_metadata (db\<lparr>faults := []\<rparr>) ino u now)))"
proof (cases "\<exists>ino u now. c = Metadata ino u now")
  case True
  then obtain ino u now where c: "c = Metadata ino u now" by blast
  then have "update_metadata db ino u now = (Inl e, db')" using assms(2) by (simp add: no_value_Inl)
  then show ?thesis using metadata_failed c by blast
next
  case False
  then show ?thesis using failed_call_same[OF assms] by (simp add: same_rows_def)
qed

end
