(* ===== verification/Mounted.thy ===== *)
theory Mounted
  imports Open_Files Directories
begin

text \<open>
  The mounted filesystem: the open files above the directory tree. Operations on names change rows
  of the tables under files that are open and partly buffered; here they are shown to keep both
  invariants, and what they do to the contents of files.
\<close>

section \<open>Changes that leave file data alone\<close>

definition heads :: "tables \<Rightarrow> i64 \<Rightarrow> (i64 \<times> i64) option" where
  "heads t i = map_option (\<lambda>r. (r_kind r, r_size r)) (map_of (t_inodes t) i)"

lemma head_heads: "head t ino = heads t (i64_of_u64 ino)"
  by (simp add: heads_def inode_row_of_def)

lemma kinds_heads: "kinds t i = map_option fst (heads t i)"
  by (simp add: kinds_def heads_def option.map_comp comp_def)

definition keeps_data :: "tables \<Rightarrow> tables \<Rightarrow> bool" where
  "keeps_data t t' \<longleftrightarrow> heads t' = heads t \<and> t_chunks t' = t_chunks t \<and> tbl_ok (t_inodes t') = tbl_ok (t_inodes t)"

lemma keeps_data_refl [simp]: "keeps_data t t"
  by (simp add: keeps_data_def)

lemma keeps_data_trans: "keeps_data t u \<Longrightarrow> keeps_data u v \<Longrightarrow> keeps_data t v"
  by (simp add: keeps_data_def)

lemma heads_update:
  "(\<And>r. r_kind (f r) = r_kind r \<and> r_size (f r) = r_size r) \<Longrightarrow>
    keeps_data t (t\<lparr>t_inodes := tbl_update k f (t_inodes t)\<rparr>)"
  by (auto simp: keeps_data_def heads_def fun_eq_iff map_of_tbl_update option.map_comp comp_def)

lemma keeps_data_meta [simp]:
  "keeps_data t (touch_dir t ino now)" "keeps_data t (set_nlink t ino nl now)" "keeps_data t (add_directory_nlink t ino delta)"
  "keeps_data t (delete_dirent t p n)" "keeps_data t (t\<lparr>t_dirents := ds\<rparr>)" "keeps_data t (t\<lparr>t_symlinks := ys\<rparr>)"
  unfolding touch_dir_def set_nlink_def add_directory_nlink_def
  by (auto intro!: heads_update) (simp_all add: keeps_data_def heads_def[abs_def] delete_dirent_def)

lemma heads_row:
  assumes "heads t' = heads t" "map_of (t_inodes t) i = Some r"
  obtains r' where "map_of (t_inodes t') i = Some r'" "r_kind r' = r_kind r" "r_size r' = r_size r"
proof -
  have "heads t' i = Some (r_kind r, r_size r)" using assms by (simp add: heads_def)
  then show thesis using that by (auto simp: heads_def)
qed

lemma keeps_data_ok:
  assumes k: "keeps_data t t'" and ok: "data_ok t"
  shows "data_ok t'" and "file_bytes t' = file_bytes t" and "files_same t ino t'"
proof -
  have h: "heads t' = heads t" and c: "t_chunks t' = t_chunks t" and tb: "tbl_ok (t_inodes t') = tbl_ok (t_inodes t)"
    using k by (simp_all add: keeps_data_def)
  have hd: "head t' i = head t i" for i using h by (simp add: head_heads)
  have cr: "chunk_row t' i j = chunk_row t i j" for i j using c by (simp add: chunk_row_def)
  show fb: "file_bytes t' = file_bytes t" using file_bytes_cong[OF ok hd cr] by blast
  show "files_same t ino t'" using hd cr fb by (simp add: files_same_def)
  have "inode_row_ok i r" if q: "map_of (t_inodes t') i = Some r" for i r
  proof -
    obtain r' where r': "map_of (t_inodes t) i = Some r'" "r_kind r' = r_kind r" "r_size r' = r_size r"
      using heads_row[OF h[symmetric] q] by blast
    have "inode_row_ok i r'" using ok r'(1) by (simp add: data_ok_def)
    then show ?thesis using r'(2,3) by (simp add: inode_row_ok_def row_size_def)
  qed
  moreover have "chunk_owned t' key d" if "map_of (t_chunks t') key = Some d" for key d
  proof -
    have "chunk_owned t key d" using ok c that by (simp add: data_ok_def)
    then show ?thesis using head_row[OF hd] unfolding chunk_owned_def by metis
  qed
  ultimately show "data_ok t'" using ok c tb by (simp add: data_ok_def)
qed

lemma files_same_trans: "files_same t ino u \<Longrightarrow> files_same u ino v \<Longrightarrow> files_same t ino v"
  by (simp add: files_same_def)

text \<open>Tables changed under open files.\<close>

lemma meta_change:
  assumes run: "running {} s" and k: "keeps_data (tabs (db s)) (tabs d)"
  shows "running {} (s\<lparr>db := d\<rparr>)" and "content (s\<lparr>db := d\<rparr>) = content s"
proof -
  define T ins ar where "T = tabs (db s)" "ins = inodes (table s)" "ar = arena (table s)"
  note defs = T_ins_ar_def
  have b: "buffers_ok {} T ins ar" and ok: "data_ok T" using run by (simp_all add: running_def defs)
  note kd = keeps_data_ok[OF k[folded defs] ok]
  have hd: "head (tabs d) i = head T i" for i using k by (simp add: head_heads keeps_data_def defs)
  have cr: "chunk_row (tabs d) i j = chunk_row T i j" for i j using k by (simp add: chunk_row_def keeps_data_def defs)
  have sl: "slot_ok (tabs d) ar (ino_of ins u) (kind_of ins u) (size_of ins u) (dirty_of ins u)"
    "kind_of ins u = RegularFile \<Longrightarrow> slot_content (tabs d) ar (ino_of ins u) (size_of ins u) (dirty_of ins u) =
       slot_content T ar (ino_of ins u) (size_of ins u) (dirty_of ins u)" if u: "u \<in> live ins" for u
    by (rule slot_cong[OF ok buffers_live(1)[OF b u] hd cr refl]; assumption)+
  show "running {} (s\<lparr>db := d\<rparr>)" using run sl(1) kd(1) by (simp add: running_def buffers_ok_def defs)
  have iok: "inodes_ok ins" using b by (simp add: buffers_ok_def)
  have "content_in (tabs d) ins ar i = content_in T ins ar i" for i
  proof (cases "inodes_find ins i")
    case (Some u)
    note u = find_live[OF iok Some]
    show ?thesis using Some u(2) sl(2)[OF u(1)] by (simp add: content_in_def)
  qed (simp add: content_in_def kd(2))
  then show "content (s\<lparr>db := d\<rparr>) = content s" by (simp add: content_def fun_eq_iff defs)
qed

text \<open>An inode that is not open, changed or removed.\<close>

lemma row_change:
  assumes run: "running {} s" and none: "inodes_find (inodes (table s)) ino = None"
    and d: "data_ok (tabs d)" "files_same (tabs (db s)) ino (tabs d)"
  shows "running {} (s\<lparr>db := d\<rparr>)" and "content (s\<lparr>db := d\<rparr>) = (content s)(ino := file_bytes (tabs d) ino)"
proof -
  have b: "buffers_ok {} (tabs (db s)) (inodes (table s)) (arena (table s))" and ok: "data_ok (tabs (db s))"
    using run by (simp_all add: running_def)
  note u = unopened_change[OF b ok none d(2)]
  show "running {} (s\<lparr>db := d\<rparr>)" using run u(1) d(1) by (simp add: running_def)
  show "content (s\<lparr>db := d\<rparr>) = (content s)(ino := file_bytes (tabs d) ino)" using u(2) by (simp add: content_def)
qed

section \<open>The invariant of a mount\<close>

text \<open>Both invariants, and every open inode is a regular file: the kernel opens nothing else.\<close>

definition regular_slots :: "Shared \<Rightarrow> bool" where
  "regular_slots s \<longleftrightarrow> (\<forall>w \<in> live (inodes (table s)). kind_of (inodes (table s)) w = RegularFile)"

definition mounted :: "Shared \<Rightarrow> bool" where
  "mounted s \<longleftrightarrow> running {} s \<and> names_ok (db s) \<and> regular_slots s"

lemma mountedD: "mounted s \<Longrightarrow> running {} s" "mounted s \<Longrightarrow> names_ok (db s)" "mounted s \<Longrightarrow> regular_slots s"
  by (simp_all add: mounted_def)

lemma mounted_slot:
  assumes m: "mounted s" and f: "inodes_find (inodes (table s)) ino = Some w"
  shows "w \<in> live (inodes (table s))" "ino_of (inodes (table s)) w = ino" "kinds (tabs (db s)) (i64_of_u64 ino) = Some (kind_as_i64 RegularFile)"
    "content s ino \<noteq> None"
proof -
  have b: "buffers_ok {} (tabs (db s)) (inodes (table s)) (arena (table s))" and iok: "inodes_ok (inodes (table s))"
    using mountedD(1)[OF m] by (simp_all add: running_def buffers_ok_def)
  show w: "w \<in> live (inodes (table s))" "ino_of (inodes (table s)) w = ino" using find_live[OF iok f] by simp_all
  have k: "kind_of (inodes (table s)) w = RegularFile" using mountedD(3)[OF m] w(1) by (simp add: regular_slots_def)
  show "kinds (tabs (db s)) (i64_of_u64 ino) = Some (kind_as_i64 RegularFile)"
    using buffers_live(1)[OF b w(1)] w(2) k by (auto simp: slot_ok_def kinds_def inode_row_of_def)
  show "content s ino \<noteq> None" using f k by (simp add: content_def content_in_def)
qed

lemma mounted_meta:
  assumes "mounted s" "keeps_data (tabs (db s)) (tabs d)" "names_ok d"
  shows "mounted (s\<lparr>db := d\<rparr>)" and "content (s\<lparr>db := d\<rparr>) = content s"
  using meta_change[OF mountedD(1)[OF assms(1)] assms(2)] assms(1,3) by (simp_all add: mounted_def regular_slots_def)

text \<open>Queries change no table.\<close>

lemma mounted_same:
  assumes "mounted s" "same_rows (db s) d"
  shows "mounted (s\<lparr>db := d\<rparr>)" and "content (s\<lparr>db := d\<rparr>) = content s"
  using mounted_meta[OF assms(1), of d] same_names[OF assms(2) mountedD(2)[OF assms(1)]] assms(2) by (simp_all add: same_rows_def)

lemma file_not_root: "names_ok d \<Longrightarrow> kinds (tabs d) (i64_of_u64 ino) = Some (kind_as_i64 RegularFile) \<Longrightarrow> i64_of_u64 ino \<noteq> 1"
  by (auto simp: names_ok_def tree_ok_def tree_def)

lemma handle_ino_db [simp]: "handle_ino (s\<lparr>db := d\<rparr>) = handle_ino s"
  by (simp add: handle_ino_def fun_eq_iff)

lemma not_file_unopened:
  "mounted s \<Longrightarrow> kinds (tabs (db s)) (i64_of_u64 ino) \<noteq> Some (kind_as_i64 RegularFile) \<Longrightarrow> inodes_find (inodes (table s)) ino = None"
  using mounted_slot(3) by (metis not_None_eq)

text \<open>A fresh mount.\<close>

lemma mounted_ok:
  assumes "data_ok (tabs d)" "visits_all order" "budget \<le> 2 ^ 48"
  defines "s \<equiv> with_write_buffer order d budget"
  shows "running {} s" and "content s = file_bytes (tabs d)" and "room s" and "openable s" and "\<not> closing (table s)" and "db s = d"
    and "\<not> unlinked_open s ino" and "live (inodes (table s)) = {}"
proof -
  have iok: "inodes_ok (inodes_default order)" by (rule inodes_default_ok[OF assms(2)])
  have lv: "live (inodes_default order) = {}" by (simp add: live_def inodes_default_def)
  have "buffers_ok {} (tabs d) (inodes_default order) (arena_new budget)"
    using iok lv arena_new_ok[OF assms(3)] by (simp add: buffers_ok_def owners_def)
  then show "running {} s"
    using assms(1) lv handles_default_ok
    by (simp add: running_def s_def with_write_buffer_def table_new_def handles_match_def)
  show "content s = file_bytes (tabs d)"
    by (simp add: fun_eq_iff content_def content_in_def s_def with_write_buffer_def table_new_def inodes_find_def inodes_default_def)
  show "room s" "openable s" "\<not> closing (table s)" "db s = d" "live (inodes (table s)) = {}"
    using lv by (simp_all add: s_def with_write_buffer_def table_new_def openable_def slot_available_def inodes_default_def
        handles_default_def)
  show "\<not> unlinked_open s ino"
    by (simp add: unlinked_open_def s_def with_write_buffer_def table_new_def inodes_find_def inodes_default_def)
qed

lemma fresh_mounted: "data_ok (tabs d) \<Longrightarrow> names_ok d \<Longrightarrow> visits_all order \<Longrightarrow> budget \<le> 2 ^ 48 \<Longrightarrow> mounted (with_write_buffer order d budget)"
  using mounted_ok[of d order budget] by (simp add: mounted_def regular_slots_def)

section \<open>Removing a name\<close>

definition open_now :: "Shared \<Rightarrow> u64 \<Rightarrow> bool" where
  "open_now s ino \<longleftrightarrow> (\<exists>w. inodes_find (inodes (table s)) ino = Some w \<and> refs_of (inodes (table s)) w \<noteq> 0)"

lemma fs_is_open_eq:
  assumes "running {} s" shows "fs_is_open (table s) ino = Some (open_now s ino)"
proof (cases "inodes_find (inodes (table s)) ino")
  case (Some w)
  have iok: "inodes_ok (inodes (table s))" using assms by (simp add: running_def buffers_ok_def)
  show ?thesis using Some live_columns(5)[OF iok find_live(1)[OF iok Some]]
    by (simp add: fs_is_open_def inodes_is_open_def open_now_def word_neq_0_conv)
qed (simp add: fs_is_open_def open_now_def)

text \<open>Marking an open inode as unlinked changes no contents.\<close>

lemma mark_gone:
  assumes m: "mounted s" and f: "inodes_find (inodes (table s)) ino = Some w"
  defines "s' \<equiv> s\<lparr>table := (table s)\<lparr>inodes := (inodes (table s))\<lparr>oi_unlinked := (oi_unlinked (inodes (table s)))[unat w := True]\<rparr>\<rparr>\<rparr>"
  shows "mounted s'" and "content s' = content s" and "unlinked_open s' ino"
proof -
  have run: "running {} s" by (rule mountedD[OF m])
  have iok: "inodes_ok (inodes (table s))" using run by (simp add: running_def buffers_ok_def)
  note w = find_live[OF iok f]
  let ?ins = "(inodes (table s))\<lparr>oi_unlinked := (oi_unlinked (inodes (table s)))[unat w := True]\<rparr>"
  have "inodes_ok ?ins" by (rule inodes_ok_update(4)[OF iok]) simp
  then have "running {} s'" using run by (simp add: running_def buffers_ok_def owners_def handles_match_def s'_def)
  then show "mounted s'" using m by (simp add: mounted_def regular_slots_def s'_def)
  show "content s' = content s" by (simp add: content_def content_in_def[abs_def] s'_def cong: option.case_cong if_cong)
  show "unlinked_open s' ino"
    using f live_columns(6)[OF iok w(1)] by (simp add: unlinked_open_def s'_def)
qed

text \<open>Forgetting an inode without handles and deleting its rows.\<close>

lemma forget_inode:
  assumes m: "mounted s" and f: "inodes_find (inodes (table s)) ino = Some w" and r: "refs_of (inodes (table s)) w = 0"
    and d: "data_ok (tabs d)" "files_same (tabs (db s)) ino (tabs d)" "names_ok d" "file_bytes (tabs d) ino = None"
  shows "\<exists>t. discard_slot (table s) w = Some t \<and> mounted (s\<lparr>db := d, table := t\<rparr>) \<and> content (s\<lparr>db := d, table := t\<rparr>) = (content s)(ino := None) \<and>
    handle_ino (s\<lparr>db := d, table := t\<rparr>) = handle_ino s"
proof -
  have run: "running {} s" by (rule mountedD[OF m])
  have b: "buffers_ok {} (tabs (db s)) (inodes (table s)) (arena (table s))" and ok: "data_ok (tabs (db s))"
    and hm: "handles_match (inodes (table s)) (handles (table s))" and iok: "inodes_ok (inodes (table s))"
    using run by (simp_all add: running_def buffers_ok_def)
  note w = find_live[OF iok f]
  obtain t where t: "discard_slot (table s) w = Some t" "handles t = handles (table s)" "closing t = closing (table s)"
    "buffers_ok {} (tabs (db s)) (inodes t) (arena t)" "live (inodes t) = live (inodes (table s)) - {w}"
    "\<forall>u \<in> live (inodes t). Open_Table.entry (inodes t) u = Open_Table.entry (inodes (table s)) u" "inodes_find (inodes t) ino = None"
    "content_in (tabs (db s)) (inodes t) (arena t) = (content s)(ino := file_bytes (tabs (db s)) ino)"
    using discard_slot_spec[OF b ok w(1)] unfolding content_def w(2) by blast
  have "handles_match (inodes t) (handles t)"
    using hm t(2,5,6) handles_no_refs[OF hm w(1) r] by (auto simp: handles_match_def entry_columns)
  then have run1: "running {} (s\<lparr>table := t\<rparr>)" using t(4) ok by (simp add: running_def)
  have reg: "regular_slots (s\<lparr>table := t\<rparr>)" using mountedD(3)[OF m] t(5,6) by (auto simp: regular_slots_def entry_columns)
  note rc = row_change[OF run1, of ino d]
  have "mounted (s\<lparr>db := d, table := t\<rparr>)" using rc(1) t(7) d(1-3) reg by (simp add: mounted_def regular_slots_def record_order)
  moreover have "content (s\<lparr>db := d, table := t\<rparr>) = (content s)(ino := None)"
    using rc(2) t(7,8) d(1,2,4) by (simp add: record_order content_def)
  moreover have "ino_of (inodes t) u = ino_of (inodes (table s)) u" if "handles_get (handles (table s)) fh = Some u" for fh u
    using t(5,6) handle_live[OF run that] handles_no_refs[OF hm w(1) r] that by (auto simp: entry_columns)
  then have "handle_ino (s\<lparr>db := d, table := t\<rparr>) = handle_ino s" using t(2) by (auto simp: handle_ino_def fun_eq_iff intro: option.map_cong)
  ultimately show ?thesis using t(1) by blast
qed

text \<open>The rows of an inode that lost its last name and is not open.\<close>

definition deleted :: "Shared \<Rightarrow> Inode \<Rightarrow> bool" where
  "deleted s target \<longleftrightarrow> i_kind target = Directory \<or> \<not> 1 < i_nlink target \<and> \<not> open_now s (i_ino target)"

lemma drop_unlinked_cases:
  "drop_unlinked_inode t target now (open_now s (i_ino target)) =
    (if deleted s target then delete_inode_rows t (i_ino target)
     else set_nlink t (i_ino target) (if i_nlink target = 0 then 0 else i_nlink target - 1) now)"
  by (simp add: drop_unlinked_inode_def deleted_def Let_def)

lemma kinds_valid: "data_ok t \<Longrightarrow> kinds t (i64_of_u64 ino) = Some k \<Longrightarrow> valid_ino ino"
  using valid_ino_of_row[of t ino] by (auto simp: kinds_def inode_row_of_def)

text \<open>What is left when \<open>target\<close> loses an entry: the tables after the transaction of \<open>unlink\<close> or \<open>rename\<close>, and
  the open table after \<open>entry_removed\<close>.\<close>

lemma entry_dropped:
  assumes m: "mounted s" and k: "kinds (tabs (db s)) (i64_of_u64 (i_ino target)) = Some (kind_as_i64 (i_kind target))"
    and U: "keeps_data (tabs (db s)) U" and d: "keeps_data (drop_unlinked_inode U target now (open_now s (i_ino target))) (tabs d)" "names_ok d"
  shows "\<exists>t. entry_removed (table s) target = Some t \<and> mounted (s\<lparr>db := d, table := t\<rparr>) \<and>
    content (s\<lparr>db := d, table := t\<rparr>) = (if deleted s target then (content s)(i_ino target := None) else content s) \<and>
    handle_ino (s\<lparr>db := d, table := t\<rparr>) = handle_ino s \<and>
    (i_kind target \<noteq> Directory \<and> \<not> 1 < i_nlink target \<and> open_now s (i_ino target) \<longrightarrow> unlinked_open (s\<lparr>db := d, table := t\<rparr>) (i_ino target))"
proof -
  let ?ino = "i_ino target"
  have run: "running {} s" by (rule mountedD[OF m])
  have ok: "data_ok (tabs (db s))" and iok: "inodes_ok (inodes (table s))" using run by (simp_all add: running_def buffers_ok_def)
  have okU: "data_ok U" by (rule keeps_data_ok(1)[OF U ok])
  have v: "valid_ino ?ino" by (rule kinds_valid[OF ok k])
  have unopened: "inodes_find (inodes (table s)) ?ino = None" if "i_kind target = Directory"
    by (rule not_file_unopened[OF m]) (use k that in simp)
  show ?thesis
  proof (cases "deleted s target")
    case False
    then have kd: "keeps_data (tabs (db s)) (tabs d)"
      using keeps_data_trans[OF U keeps_data_trans[OF keeps_data_meta(2)]] d(1) by (simp add: drop_unlinked_cases)
    note mm = mounted_meta[OF m kd d(2)]
    show ?thesis
    proof (cases "1 < i_nlink target")
      case True
      then have "entry_removed (table s) target = Some (table s)" by (simp add: entry_removed_def)
      with mm False True show ?thesis by (intro exI[of _ "table s"]) simp
    next
      case nl: False
      then obtain w where w: "inodes_find (inodes (table s)) ?ino = Some w" "refs_of (inodes (table s)) w \<noteq> 0"
        using False by (auto simp: deleted_def open_now_def)
      have "entry_removed (table s) target = Some ((table s)\<lparr>inodes := (inodes (table s))\<lparr>oi_unlinked := (oi_unlinked (inodes (table s)))[unat w := True]\<rparr>\<rparr>)"
        using w nl False live_columns(5,6)[OF iok find_live(1)[OF iok w(1)]]
        by (simp add: entry_removed_def inodes_is_open_def deleted_def word_neq_0_conv)
      with mark_gone[OF mm(1), of ?ino w] mm(2) w(1) False nl show ?thesis by (simp add: record_order handle_ino_def fun_eq_iff)
    qed
  next
    case True
    note dr = deleted_rows[OF okU v]
    have kd: "keeps_data (delete_inode_rows U ?ino) (tabs d)" using d(1) True by (simp add: drop_unlinked_cases)
    have T': "data_ok (tabs d)" "file_bytes (tabs d) ?ino = None" "files_same (tabs (db s)) ?ino (tabs d)"
      using keeps_data_ok[OF kd dr(1)] dr(3) files_same_trans[OF keeps_data_ok(3)[OF U ok] files_same_trans[OF dr(2)]] by simp_all
    have gone: "\<not> (i_kind target \<noteq> Directory \<and> \<not> 1 < i_nlink target \<and> open_now s ?ino)" using True by (auto simp: deleted_def)
    show ?thesis
    proof (cases "inodes_find (inodes (table s)) ?ino")
      case None
      then have "entry_removed (table s) target = Some (table s)" by (simp add: entry_removed_def)
      moreover have "mounted (s\<lparr>db := d\<rparr>)" "content (s\<lparr>db := d\<rparr>) = (content s)(?ino := None)"
        using row_change[OF run None T'(1,3)] T'(2) m d(2) by (simp_all add: mounted_def regular_slots_def)
      ultimately show ?thesis using True gone by (intro exI[of _ "table s"]) auto
    next
      case (Some w)
      then have dir: "i_kind target \<noteq> Directory" using unopened by auto
      then have nl: "\<not> 1 < i_nlink target" and r: "refs_of (inodes (table s)) w = 0"
        using True Some by (auto simp: deleted_def open_now_def)
      obtain t where t: "discard_slot (table s) w = Some t" "mounted (s\<lparr>db := d, table := t\<rparr>)"
        "content (s\<lparr>db := d, table := t\<rparr>) = (content s)(?ino := None)" "handle_ino (s\<lparr>db := d, table := t\<rparr>) = handle_ino s"
        using forget_inode[OF m Some r T'(1,3) d(2) T'(2)] by blast
      have "entry_removed (table s) target = Some t"
        using Some dir nl r t(1) live_columns(5)[OF iok find_live(1)[OF iok Some]] by (simp add: entry_removed_def inodes_is_open_def)
      then show ?thesis using t(2-4) True gone by (intro exI[of _ t]) auto
    qed
  qed
qed

text \<open>An operation on names: it returns, keeps the mount, and no handle changes; \<open>P\<close> says what it does.\<close>

definition serves :: "Shared \<Rightarrow> ('a \<Rightarrow> Shared \<Rightarrow> bool) \<Rightarrow> 'a outcome \<Rightarrow> bool" where
  "serves s P m \<longleftrightarrow> (\<exists>r s'. m = Some (r, s') \<and> mounted s' \<and>
     (case r of Inl e \<Rightarrow> content s' = content s \<and> table s' = table s | Inr a \<Rightarrow> P a s'))"

lemma servesE:
  assumes "serves s P m"
  obtains r s' where "m = Some (r, s')" "mounted s'" "case r of Inl e \<Rightarrow> content s' = content s \<and> table s' = table s | Inr a \<Rightarrow> P a s'"
  using assms unfolding serves_def by blast

lemma same_db: "mounted s \<Longrightarrow> same_rows (db s) d \<Longrightarrow> serves s P (Some (Inl e, s\<lparr>db := d\<rparr>))"
  using mounted_same[of s d] by (simp add: serves_def)

lemma lookup_target:
  assumes ok: "names_ok d" and l: "lookup d p n = (Inr target, d')"
  shows "kinds (tabs d) (i64_of_u64 (i_ino target)) = Some (kind_as_i64 (i_kind target))" "i64_of_u64 (i_ino target) \<noteq> 1"
    "same_rows d d'" "length n \<le> NAME_MAX"
  using lookup_child[OF ok l] same_lookup[OF l] lookup_name_ok[OF l] by blast+

text \<open>The directory entry \<open>n\<close> of \<open>p\<close> stands for \<open>ino\<close>.\<close>

definition named :: "Shared \<Rightarrow> u64 \<Rightarrow> bytes \<Rightarrow> u64 \<Rightarrow> bool" where
  "named s p n ino \<longleftrightarrow> (\<exists>rid. (rid, \<lparr>d_parent = i64_of_u64 p, d_name = n, d_child = i64_of_u64 ino\<rparr>) \<in> set (t_dirents (tabs (db s))))"

lemma lookup_named: "names_ok d \<Longrightarrow> lookup d p n = (Inr target, d') \<Longrightarrow> tabs d = tabs (db s) \<Longrightarrow> named s p n (i_ino target)"
  unfolding named_def by (metis lookup_child)

lemma unlink_serves:
  assumes m: "mounted s"
  shows "serves s (\<lambda>_ s'. \<exists>target d. lookup (db s) p n = (Inr target, d) \<and> i_kind target \<noteq> Directory \<and>
      content s' = (if deleted s target then (content s)(i_ino target := None) else content s) \<and>
      handle_ino s' = handle_ino s \<and>
      (\<not> 1 < i_nlink target \<and> open_now s (i_ino target) \<longrightarrow> unlinked_open s' (i_ino target)))
    (unlink s p n now)"
proof -
  have run: "running {} s" and names: "names_ok (db s)" using m by (simp_all add: mounted_def)
  obtain r d1 where l: "lookup (db s) p n = (r, d1)" by fastforce
  note same = same_lookup[OF l]
  show ?thesis
  proof (cases r)
    case (Inl e)
    then have "unlink s p n now = Some (Inl (errno_from_db_error e), s\<lparr>db := d1\<rparr>)"
      using l by (simp add: unlink_def on_db_def)
    then show ?thesis using same_db[OF m same] by simp
  next
    case (Inr target)
    note lt = lookup_target[OF names l[unfolded Inr]]
    have op: "fs_is_open (table (s\<lparr>db := d1\<rparr>)) (i_ino target) = Some (open_now s (i_ino target))" using fs_is_open_eq[OF run] by simp
    obtain q d2 where u: "unlink_entry d1 p n target (open_now s (i_ino target)) now = (q, d2)" by fastforce
    have step: "unlink s p n now = try_then (Some (map_sum errno_from_db_error id q, s\<lparr>db := d2\<rparr>)) (\<lambda>_ s. do {
         t \<leftarrow> entry_removed (table s) target; Some (Inr (), s\<lparr>table := t\<rparr>) })"
      using l Inr op u by (cases q) (simp_all add: unlink_def on_db_def)
    have n2: "names_ok d2" using names_unlink_entry[OF same_names[OF same names] lt(2), of p n "open_now s (i_ino target)" now] u by simp
    show ?thesis
    proof (cases q)
      case (Inl e)
      have "same_rows (db s) d2" using unlink_entry_Inl[of d1 p n target "open_now s (i_ino target)" now e d2] u Inl same by (simp add: same_rows_def)
      then show ?thesis using same_db[OF m] step Inl by simp
    next
      case q: (Inr u')
      have dir: "i_kind target \<noteq> Directory" using u q by (auto simp: unlink_entry_def)
      let ?U = "delete_dirent (tabs (db s)) p n"
      have "tabs d2 = touch_dir (drop_unlinked_inode ?U target now (open_now s (i_ino target))) p now"
        using u q dir lt(3) by (auto simp: unlink_entry_def same_rows_def dest!: transaction_Inr)
      then have kd: "keeps_data (drop_unlinked_inode ?U target now (open_now s (i_ino target))) (tabs d2)" by simp
      obtain t where t: "entry_removed (table s) target = Some t" "mounted (s\<lparr>db := d2, table := t\<rparr>)"
        "content (s\<lparr>db := d2, table := t\<rparr>) = (if deleted s target then (content s)(i_ino target := None) else content s)"
        "handle_ino (s\<lparr>db := d2, table := t\<rparr>) = handle_ino s"
        "i_kind target \<noteq> Directory \<and> \<not> 1 < i_nlink target \<and> open_now s (i_ino target) \<longrightarrow> unlinked_open (s\<lparr>db := d2, table := t\<rparr>) (i_ino target)"
        using entry_dropped[OF m lt(1) keeps_data_meta(4) kd n2] by blast
      then have "unlink s p n now = Some (Inr (), s\<lparr>db := d2, table := t\<rparr>)" using step q by simp
      then show ?thesis using t dir l Inr unfolding serves_def by auto
    qed
  qed
qed

lemma rmdir_serves:
  assumes m: "mounted s"
  shows "serves s (\<lambda>_ s'. content s' = content s \<and> table s' = table s) (Some (rmdir s p n now))"
proof -
  have run: "running {} s" and names: "names_ok (db s)" using m by (simp_all add: mounted_def)
  have ok: "data_ok (tabs (db s))" using run by (simp add: running_def)
  obtain r d where u: "remove_dir (db s) p n now = (r, d)" by fastforce
  have nd: "names_ok d" using names_remove_dir[OF names, of p n now] u by simp
  show ?thesis
  proof (cases r)
    case (Inl e)
    then have "same_rows (db s) d" using remove_dir_Inl[of "db s" p n now e d] u by (simp add: same_rows_def)
    then show ?thesis using same_db[OF m] u Inl by (simp add: rmdir_def on_db_def)
  next
    case (Inr v)
    then obtain target d1 where t: "lookup (db s) p n = (Inr target, d1)" "i_kind target = Directory"
      "tabs d = add_directory_nlink (touch_dir (delete_inode_rows (delete_dirent (tabs (db s)) p n) (i_ino target)) p now) p (-1)"
      using remove_dir_Inr[OF names, of p n now d] u Inr by (metis (full_types) old.unit.exhaust)
    note lt = lookup_target[OF names t(1)]
    let ?ino = "i_ino target" and ?U = "delete_dirent (tabs (db s)) p n"
    have k: "keeps_data (tabs (db s)) ?U" "keeps_data (delete_inode_rows ?U ?ino) (tabs d)"
      unfolding t(3) by (rule keeps_data_meta keeps_data_trans[OF keeps_data_meta(1) keeps_data_meta(3)])+
    note dr = deleted_rows[OF keeps_data_ok(1)[OF k(1) ok] kinds_valid[OF ok lt(1)]]
    have none: "inodes_find (inodes (table s)) ?ino = None" by (rule not_file_unopened[OF m]) (use lt(1) t(2) in simp)
    have T': "data_ok (tabs d)" "file_bytes (tabs d) ?ino = None" "files_same (tabs (db s)) ?ino (tabs d)"
      using keeps_data_ok[OF k(2) dr(1)] dr(3) files_same_trans[OF keeps_data_ok(3)[OF k(1) ok] files_same_trans[OF dr(2)]] by simp_all
    note rc = row_change[OF run none T'(1,3)]
    have "content s ?ino = None"
      using none lt(1) t(2) by (auto simp: content_def content_in_def file_bytes_def inode_row_of_def kinds_def)
    then have "content (s\<lparr>db := d\<rparr>) = content s" using rc(2) T'(2) by (auto simp: fun_upd_idem)
    moreover have "mounted (s\<lparr>db := d\<rparr>)" using rc(1) m nd by (simp add: mounted_def regular_slots_def)
    ultimately show ?thesis using u Inr by (simp add: serves_def rmdir_def on_db_def)
  qed
qed

section \<open>New names\<close>

lemma to_attr_eq: "to_attr (on_db s f) = (case f (db s) of
    (Inl e, d) \<Rightarrow> (Inl (errno_from_db_error e), s\<lparr>db := d\<rparr>) | (Inr inode, d) \<Rightarrow> (Inr (file_attr_from_inode inode), s\<lparr>db := d\<rparr>))"
  by (auto simp: to_attr_def on_db_def split: prod.splits sum.splits)

lemma link_data: "link d ino p n now = (Inr x, d') \<Longrightarrow> keeps_data (tabs d) (tabs d')"
proof -
  assume l: "link d ino p n now = (Inr x, d')"
  then obtain inode d1 d2 where g: "get_inode d ino = (Inr inode, d1)" "inode_kind_of d1 p = (Inr Directory, d2)"
    and tr: "transaction d2 (\<lambda>t. case insert_dirent (new_rowid d2) t p n ino of Inl e \<Rightarrow> Inl e
      | Inr t \<Rightarrow> let new_nlink = i_nlink inode + 1; t = touch_dir (set_nlink t ino new_nlink now) p now
          in Inr (inode\<lparr>i_nlink := new_nlink, i_ctime := now\<rparr>, t)) = (Inr x, d')"
    unfolding link_def by (auto simp: and_then_Inr_iff split: sum.splits if_splits)
  have g': "same_rows d d2" using same_rows_trans[OF same_query[OF g(1)[unfolded get_inode_def]] same_kind_of[OF g(2)]] .
  from transaction_Inr[OF tr] obtain t where t: "insert_dirent (new_rowid d2) (tabs d2) p n ino = Inr t"
    "tabs d' = touch_dir (set_nlink t ino (i_nlink inode + 1) now) p now" by (auto simp: Let_def split: sum.splits)
  have "keeps_data (tabs d2) t" using t(1) by (auto simp: insert_dirent_def Let_def split: option.splits if_splits)
  then have "keeps_data (tabs d2) (tabs d')" unfolding t(2) by (intro keeps_data_trans[OF _ keeps_data_trans[OF keeps_data_meta(2) keeps_data_meta(1)]])
  then show ?thesis using g' by (simp add: same_rows_def)
qed

lemma link_serves:
  assumes m: "mounted s"
  shows "serves s (\<lambda>_ s'. content s' = content s \<and> table s' = table s) (Some (fs_link s ino p n now))"
proof -
  obtain r d where l: "link (db s) ino p n now = (r, d)" by fastforce
  have nd: "names_ok d" using names_link[OF mountedD(2)[OF m], of ino p n now] l by simp
  show ?thesis
  proof (cases r)
    case (Inl e)
    then show ?thesis using same_db[OF m] link_Inl[of "db s" ino p n now e d] l by (simp add: fs_link_def to_attr_eq)
  next
    case (Inr x)
    then show ?thesis using mounted_meta[OF m link_data nd] l by (simp add: serves_def fs_link_def to_attr_eq)
  qed
qed

lemma create_size: "create_node d p n (NewFile md) uid gid now = (Inr inode, d') \<Longrightarrow> i_size inode = 0"
  by (auto simp: create_node_def and_then_Inr_iff Let_def split: sum.splits if_splits option.splits dest!: transaction_Inr)

lemma file_kind: "kind_as_i64 k = 1 \<longleftrightarrow> k = RegularFile"
  by (cases k) simp_all

text \<open>A new row under open files.\<close>

lemma born_data:
  assumes b: "born t p n node inode t'" and ok: "data_ok t" and sz: "node_kind node = RegularFile \<Longrightarrow> i_size inode = 0"
  shows "data_ok t'" "files_same t (i_ino inode) t'" "file_bytes t (i_ino inode) = None"
    "file_bytes t' (i_ino inode) = (if node_kind node = RegularFile then Some [] else None)"
proof -
  let ?i = "i64_of_u64 (i_ino inode)"
  obtain row where B: "kinds t ?i = None" "valid_ino (i_ino inode)" "0 < ?i" "?i < 2 ^ 39" "tbl_ok (t_inodes t')" "t_chunks t' = t_chunks t"
      "kinds t' = (kinds t)(?i \<mapsto> kind_as_i64 (node_kind node))"
      "\<forall>j. j \<noteq> ?i \<longrightarrow> map_option r_size (map_of (t_inodes t') j) = map_option r_size (map_of (t_inodes t) j)"
      "map_of (t_inodes t') ?i = Some row" "r_size row = i64_of_u64 (i_size inode)"
    using b unfolding born_def Let_def by (elim exE conjE) (rule that, assumption+)
  have kind: "r_kind row = kind_as_i64 (node_kind node)" using B(7,9) by (metis fun_upd_same kinds_def option.map(2) option.inject)
  have hd: "heads t' j = heads t j" if "j \<noteq> ?i" for j
    using fun_cong[OF B(7), of j] B(8)[rule_format, OF that] that
    by (cases "map_of (t_inodes t) j"; cases "map_of (t_inodes t') j") (simp_all add: heads_def kinds_def)
  have cr: "chunk_row t' j k = chunk_row t j k" for j k using B(6) by (simp add: chunk_row_def)
  have hu: "head t' j = head t j" if "j \<noteq> i_ino inode" for j
    unfolding head_heads by (rule hd) (use that in simp)
  have fb: "file_bytes t' j = file_bytes t j" if "j \<noteq> i_ino inode" for j
    by (rule file_bytes_cong[OF ok hu[OF that] cr])
  then show "files_same t (i_ino inode) t'" using hu cr by (simp add: files_same_def)
  show n: "file_bytes t (i_ino inode) = None" using B(1) by (simp add: file_bytes_def inode_row_of_def kinds_def)
  show "file_bytes t' (i_ino inode) = (if node_kind node = RegularFile then Some [] else None)"
    using B(9,10) kind sz by (simp add: file_bytes_def inode_row_of_def row_size_def file_kind)
  have "inode_row_ok j r" if q: "map_of (t_inodes t') j = Some r" for j r
  proof (cases "j = ?i")
    case True
    then show ?thesis using q B(3,4,9,10) kind sz by (auto simp: inode_row_ok_def row_size_def file_kind)
  next
    case False
    obtain r' where r': "map_of (t_inodes t) j = Some r'" "r_kind r' = r_kind r" "r_size r' = r_size r"
      using hd[OF False] q by (cases "map_of (t_inodes t) j") (auto simp: heads_def)
    have "inode_row_ok j r'" using ok r'(1) by (simp add: data_ok_def)
    then show ?thesis using r'(2,3) by (simp add: inode_row_ok_def row_size_def)
  qed
  moreover have "chunk_owned t' key d" if "map_of (t_chunks t') key = Some d" for key d
  proof -
    have "chunk_owned t key d" using ok B(6) that by (simp add: data_ok_def)
    then obtain j k r where o: "valid_ino j" "k < 2 ^ 24" "key = chunk_key j (of_nat k)" "inode_row_of t j = Some r"
        "r_kind r = kind_as_i64 RegularFile" "length d \<le> CHUNK_SIZE" "k * CHUNK_SIZE + length d \<le> row_size r"
      unfolding chunk_owned_def by blast
    have "j \<noteq> i_ino inode" using o(4) B(1) by (auto simp: inode_row_of_def kinds_def)
    then obtain r' where "inode_row_of t' j = Some r'" "r_kind r' = r_kind r" "row_size r' = row_size r"
      using head_row[OF hu o(4)] by blast
    then show ?thesis using o unfolding chunk_owned_def by metis
  qed
  ultimately show "data_ok t'" using ok B(5,6) by (simp add: data_ok_def)
qed

definition no_slot :: "Shared \<Rightarrow> u64 \<Rightarrow> bool" where
  "no_slot s ino \<longleftrightarrow> inodes_find (inodes (table s)) ino = None"

lemma create_serves:
  assumes m: "mounted s"
  shows "serves s (\<lambda>attr s'. content s (at_ino attr) = None \<and> no_slot s (at_ino attr) \<and> table s' = table s \<and>
      content s' = (content s)(at_ino attr := if node_kind node = RegularFile then Some [] else None))
    (Some (to_attr (on_db s (\<lambda>d. create_node d p n node uid gid now))))"
proof -
  have run: "running {} s" and names: "names_ok (db s)" using m by (simp_all add: mounted_def)
  have ok: "data_ok (tabs (db s))" using run by (simp add: running_def)
  obtain r d where c: "create_node (db s) p n node uid gid now = (r, d)" by fastforce
  have nd: "names_ok d" using names_create_node[OF names, of p n node uid gid now] c by simp
  show ?thesis
  proof (cases r)
    case (Inl e)
    then have eq: "to_attr (on_db s (\<lambda>d. create_node d p n node uid gid now)) = (Inl (errno_from_db_error e), s\<lparr>db := d\<rparr>)"
      using c by (simp add: to_attr_eq)
    show ?thesis unfolding eq by (rule same_db[OF m create_node_Inl]) (use c Inl in simp)
  next
    case (Inr inode)
    have b: "born (tabs (db s)) p n node inode (tabs d)"
      using create_node_born(1)[of "db s" p n node uid gid now inode d] c Inr names by (simp add: names_ok_def)
    have sz: "i_size inode = 0" if "node_kind node = RegularFile"
      using create_size[of "db s" p n _ uid gid now inode d] c Inr that by (cases node) auto
    note bd = born_data[OF b ok sz]
    have "kinds (tabs (db s)) (i64_of_u64 (i_ino inode)) = None" using b by (auto simp: born_def Let_def)
    then have none: "inodes_find (inodes (table s)) (i_ino inode) = None" by (intro not_file_unopened[OF m]) simp
    then have "content s (i_ino inode) = None" using bd(3) by (simp add: content_def content_in_def)
    moreover note rc = row_change[OF run none bd(1,2)]
    have "mounted (s\<lparr>db := d\<rparr>)" using rc(1) m nd by (simp add: mounted_def regular_slots_def)
    ultimately show ?thesis using c Inr rc(2) bd(4) none
      by (simp add: serves_def to_attr_eq file_attr_from_inode_def no_slot_def)
  qed
qed

text \<open>A slot for a file that had none, and a handle on a slot.\<close>

lemma slot_inserted:
  assumes m: "mounted s" and room: "room s" and none: "no_slot s ino" and sl: "slot_ok (tabs (db s)) (arena (table s)) ino RegularFile sz []"
  obtains w t where "inodes_insert (inodes (table s)) ino RegularFile sz = Some (w, t)" "w \<in> live t" "ino_of t w = ino"
    "mounted (s\<lparr>table := (table s)\<lparr>inodes := t\<rparr>\<rparr>)" "content (s\<lparr>table := (table s)\<lparr>inodes := t\<rparr>\<rparr>) = content s"
proof -
  have run: "running {} s" by (rule mountedD[OF m])
  have iok: "inodes_ok (inodes (table s))" using run by (simp add: running_def buffers_ok_def)
  obtain w t where i: "inodes_insert (inodes (table s)) ino RegularFile sz = Some (w, t)" "inserted (inodes (table s)) ino RegularFile sz w t"
    using inodes_insert_spec[OF iok none[unfolded no_slot_def] room, of RegularFile sz] by metis
  note ii = insert_slot[OF run i(2) sl]
  let ?s = "s\<lparr>table := (table s)\<lparr>inodes := t\<rparr>\<rparr>"
  have "regular_slots ?s"
    using mountedD(3)[OF m] inserted_live[OF i(2)] i(2) ii(5) by (auto simp: regular_slots_def inserted_def entry_columns)
  then have "mounted ?s" using ii(1) mountedD(2)[OF m] by (simp add: mounted_def)
  with that i(1) ii show thesis by simp
qed

lemma slot_opened:
  assumes m: "mounted s" and w: "w \<in> live (inodes (table s))" and h: "length (h_slot (handles (table s))) < 2 ^ 32 - 1"
  obtains fh s' where "open_slot (table s) w = Some (fh, table s')" "s\<lparr>table := table s'\<rparr> = s'" "mounted s'" "content s' = content s"
    "handles_get (handles (table s)) fh = None" "handle_ino s' fh = Some (ino_of (inodes (table s)) w)"
proof -
  let ?r = "refs_of (inodes (table s)) w + 1"
  obtain fh hs where o: "open_slot (table s) w = Some (fh, table (with_refs s w ?r hs))" "handles_get (handles (table s)) fh = None"
    "handles_get hs = (handles_get (handles (table s)))(fh \<mapsto> w)" "running {} (with_refs s w ?r hs)" "content (with_refs s w ?r hs) = content s"
    using open_slot_spec[OF mountedD(1)[OF m] w h] by blast
  have "mounted (with_refs s w ?r hs)" using o(4) m by (simp add: mounted_def regular_slots_def with_refs_def)
  moreover have "handle_ino (with_refs s w ?r hs) fh = Some (ino_of (inodes (table s)) w)" using o(3) by (simp add: handle_ino_def)
  ultimately show thesis using that[OF o(1)] o(2,5) by simp
qed

lemma create_open_serves:
  assumes m: "mounted s" and op: "openable s"
  shows "serves s (\<lambda>(attr, fh) s'. content s (at_ino attr) = None \<and> content s' = (content s)(at_ino attr \<mapsto> []) \<and>
      handles_get (handles (table s)) fh = None \<and> handle_ino s' fh = Some (at_ino attr))
    (create_open s p n mode umask uid gid now)"
proof -
  obtain r s1 where c0: "Some (to_attr (on_db s (\<lambda>d. create_node d p n (NewFile (mode AND NOT umask)) uid gid now))) = Some (r, s1)"
    and c2: "mounted s1" and c3: "case r of Inl e \<Rightarrow> content s1 = content s \<and> table s1 = table s
     | Inr attr \<Rightarrow> content s (at_ino attr) = None \<and> no_slot s (at_ino attr) \<and> table s1 = table s \<and>
         content s1 = (content s)(at_ino attr := if node_kind (NewFile (mode AND NOT umask)) = RegularFile then Some [] else None)"
    by (rule servesE[OF create_serves[OF m]])
  have c: "create s p n mode umask uid gid now = (r, s1)" "mounted s1"
    "case r of Inl e \<Rightarrow> content s1 = content s \<and> table s1 = table s
     | Inr attr \<Rightarrow> content s (at_ino attr) = None \<and> no_slot s (at_ino attr) \<and> table s1 = table s \<and> content s1 = (content s)(at_ino attr \<mapsto> [])"
    using c0 c2 c3 by (simp_all add: create_def create_file_def split: sum.splits)
  show ?thesis
  proof (cases r)
    case (Inl e)
    then show ?thesis using c by (simp add: serves_def create_open_def)
  next
    case (Inr attr)
    let ?ino = "at_ino attr"
    have p: "content s ?ino = None" "no_slot s1 ?ino" "table s1 = table s" "content s1 = (content s)(?ino \<mapsto> [])"
      using c(3) Inr by (simp_all add: no_slot_def)
    have ok: "data_ok (tabs (db s1))" using mountedD(1)[OF c(2)] by (simp add: running_def)
    have fb: "file_bytes (tabs (db s1)) ?ino = Some []" using p(2,4) by (auto simp: content_def content_in_def no_slot_def dest: fun_cong[of _ _ ?ino])
    have sl: "slot_ok (tabs (db s1)) (arena (table s1)) ?ino RegularFile 0 []" by (rule clean_slot_ok[OF ok fb]) simp
    have room: "room s1" and h: "length (h_slot (handles (table s1))) < 2 ^ 32 - 1" using op p(3) by (simp_all add: openable_def)
    obtain w t where i: "inodes_insert (inodes (table s1)) ?ino RegularFile 0 = Some (w, t)" "w \<in> live t" "ino_of t w = ?ino"
        "mounted (s1\<lparr>table := (table s1)\<lparr>inodes := t\<rparr>\<rparr>)" "content (s1\<lparr>table := (table s1)\<lparr>inodes := t\<rparr>\<rparr>) = content s1"
      by (rule slot_inserted[OF c(2) room p(2) sl])
    let ?s2 = "s1\<lparr>table := (table s1)\<lparr>inodes := t\<rparr>\<rparr>"
    have w2: "w \<in> live (inodes (table ?s2))" and h2: "length (h_slot (handles (table ?s2))) < 2 ^ 32 - 1" using i(2) h by simp_all
    obtain fh s' where o: "open_slot (table ?s2) w = Some (fh, table s')" "?s2\<lparr>table := table s'\<rparr> = s'" "mounted s'" "content s' = content ?s2"
        "handles_get (handles (table ?s2)) fh = None" "handle_ino s' fh = Some (ino_of (inodes (table ?s2)) w)"
      by (rule slot_opened[OF i(4) w2 h2])
    have "create_open s p n mode umask uid gid now = Some (Inr (attr, fh), s')"
      using c(1) Inr i(1) o(1,2) by (simp add: create_open_def)
    then show ?thesis using p(1,3,4) o(3-6) i(3,5) by (simp add: serves_def)
  qed
qed

section \<open>Renaming\<close>

lemma move_dirent_data: "move_dirent t p n q m = Inr t' \<Longrightarrow> keeps_data t t'"
  by (auto simp: move_dirent_def Let_def split: if_splits)

lemma rename_rows_data:
  assumes "rename_rows t p n q m source existing is_open now = Inr t'"
  shows "keeps_data (case existing of None \<Rightarrow> t
    | Some target \<Rightarrow> drop_unlinked_inode (delete_dirent t q m) target now (is_open (i_ino target))) t'"
proof -
  define t0 where "t0 = (case existing of None \<Rightarrow> t
    | Some target \<Rightarrow> drop_unlinked_inode (delete_dirent t q m) target now (is_open (i_ino target)))"
  define g1 where "g1 t = (if q \<noteq> p then touch_dir (touch_dir t p now) q now else touch_dir t p now)" for t
  define g2 where "g2 t = (if i_kind source = Directory \<and> p \<noteq> q then add_directory_nlink (add_directory_nlink t p (-1)) q 1 else t)" for t
  define g3 where "g3 t = (if (case existing of None \<Rightarrow> False | Some target \<Rightarrow> i_kind target = Directory) then add_directory_nlink t q (-1) else t)" for t
  obtain t1 where m: "move_dirent t0 p n q m = Inr t1" "t' = g3 (g2 (g1 t1))"
    using assms unfolding rename_rows_def t0_def g1_def g2_def g3_def Let_def by (auto split: sum.splits)
  have "keeps_data t (g1 t)" "keeps_data t (g2 t)" "keeps_data t (g3 t)" for t
    using keeps_data_trans[OF keeps_data_meta(1) keeps_data_meta(1)] keeps_data_trans[OF keeps_data_meta(3) keeps_data_meta(3)]
    by (simp_all add: g1_def g2_def g3_def)
  then have "keeps_data t1 t'" unfolding m(2) by (meson keeps_data_trans)
  then show ?thesis unfolding t0_def[symmetric] by (rule keeps_data_trans[OF move_dirent_data[OF m(1)]])
qed

lemma rename_serves:
  assumes m: "mounted s"
  shows "serves s (\<lambda>_ s'. handle_ino s' = handle_ino s \<and>
      (content s' = content s \<or> (\<exists>ino. named s q nm ino \<and> \<not> open_now s ino \<and> content s' = (content s)(ino := None))))
    (fs_rename s p n q nm flags now)"
proof (cases "flags AND NOT RENAME_NOREPLACE \<noteq> 0")
  case True
  then show ?thesis using m by (simp add: serves_def fs_rename_def)
next
  case False
  have run: "running {} s" and names: "names_ok (db s)" using m by (simp_all add: mounted_def)
  let ?nr = "flags AND RENAME_NOREPLACE \<noteq> 0"
  have op: "(\<lambda>ino. fs_is_open (table s) ino = Some True) = open_now s" using fs_is_open_eq[OF run] by (simp add: fun_eq_iff)
  obtain r d where r: "rename_entry (db s) p n q nm ?nr (open_now s) now = Some (r, d)" and nd: "names_ok d" and er: "isl r \<longrightarrow> same_rows (db s) d"
    using rename_entry_safe[OF names, of p n q nm ?nr "open_now s" now] unfolding safe_def by blast
  have step: "fs_rename s p n q nm flags now = (case r of
      Inl e \<Rightarrow> Some (Inl (errno_from_db_error e), s\<lparr>db := d\<rparr>)
    | Inr None \<Rightarrow> Some (Inr (), s\<lparr>db := d\<rparr>)
    | Inr (Some target) \<Rightarrow> do { t \<leftarrow> entry_removed (table s) target; Some (Inr (), s\<lparr>db := d, table := t\<rparr>) })"
    using False r unfolding fs_rename_def op by (simp split: sum.splits option.splits)
  show ?thesis
  proof (cases r)
    case (Inl e)
    then show ?thesis unfolding step by (simp add: same_db[OF m] er)
  next
    case (Inr existing)
    show ?thesis
    proof (cases "p = q \<and> n = nm")
      case True
      then have "existing = None" "same_rows (db s) d" using rename_same_name[OF names, of p n ?nr "open_now s" now existing d] r Inr by simp_all
      then show ?thesis using mounted_same[OF m] step Inr by (simp add: serves_def)
    next
      case other: False
      have q: "rename_entry (db s) p n q nm ?nr (open_now s) now = Some (Inr existing, d)" using r Inr by simp
      obtain source d3 d4 where R: "same_rows (db s) d3" "lookup_opt d3 q nm = (Inr existing, d4)"
        "rename_rows (tabs (db s)) p n q nm source existing (open_now s) now = Inr (tabs d)"
        by (rule rename_Inr[OF names q other])
      note kd = rename_rows_data[OF R(3)]
      show ?thesis
      proof (cases existing)
        case None
        then show ?thesis using mounted_meta[OF m _ nd] kd step Inr by (simp add: serves_def)
      next
        case (Some target)
        have l3: "lookup d3 q nm = (Inr target, d4)" using lookup_opt_Some R(2) Some by simp
        have nm: "named s q nm (i_ino target)" using lookup_named[OF same_names[OF R(1) names] l3] R(1) by (simp add: same_rows_def)
        from lookup_target(1)[OF same_names[OF R(1) names] l3]
        have k: "kinds (tabs (db s)) (i64_of_u64 (i_ino target)) = Some (kind_as_i64 (i_kind target))" using R(1) by (simp add: same_rows_def)
        have kd': "keeps_data (drop_unlinked_inode (delete_dirent (tabs (db s)) q nm) target now (open_now s (i_ino target))) (tabs d)"
          using kd Some by simp
        obtain t where t: "entry_removed (table s) target = Some t" "mounted (s\<lparr>db := d, table := t\<rparr>)"
          "content (s\<lparr>db := d, table := t\<rparr>) = (if deleted s target then (content s)(i_ino target := None) else content s)"
          "handle_ino (s\<lparr>db := d, table := t\<rparr>) = handle_ino s"
          using entry_dropped[OF m k keeps_data_meta(4) kd' nd] by blast
        have "\<not> open_now s (i_ino target)" if "deleted s target"
          using that not_file_unopened[OF m, of "i_ino target"] k by (auto simp: deleted_def open_now_def)
        then show ?thesis using t step Inr Some nm by (auto simp: serves_def)
      qed
    qed
  qed
qed

end
