(* ===== verification/File_Examples.thy ===== *)
theory File_Examples
  imports File_Data
begin

text \<open>
  A small concrete database, a root directory with one file of five bytes, and the applications
  of the theorems of \<open>File_Data\<close> to it. It shows that their hypotheses hold of real tables.
\<close>

definition root_row :: inode_row where
  "root_row = \<lparr>r_kind = 2, r_mode = 493, r_uid = 0, r_gid = 0, r_size = 0, r_atime_ns = 0,
     r_mtime_ns = 0, r_ctime_ns = 0, r_nlink = 2\<rparr>"

definition file_row :: "int \<Rightarrow> inode_row" where
  "file_row n = \<lparr>r_kind = 1, r_mode = 420, r_uid = 0, r_gid = 0, r_size = n, r_atime_ns = 0,
     r_mtime_ns = 0, r_ctime_ns = 0, r_nlink = 1\<rparr>"

definition small :: tables where
  "small = \<lparr>t_inodes = [(1, root_row), (2, file_row 5)],
     t_dirents = [(1, \<lparr>d_parent = 1, d_name = [102], d_child = 2\<rparr>)],
     t_chunks = [(33554432, [10, 20, 30, 40, 50])], t_symlinks = []\<rparr>"

definition small_db :: Db where
  "small_db = \<lparr>tabs = small, faults = [], new_rowid = sqlite_rowid\<rparr>"

lemma small_inode: "inode_row_of small 2 = Some (file_row 5)"
  by (simp add: inode_row_of_def small_def i64_of_u64_def)

lemma small_chunk_key: "chunk_key 2 (of_nat 0) = 33554432"
  by (subst chunk_key_nat) (simp_all add: valid_ino_unat)

lemma small_data_ok: "data_ok small"
proof -
  have "chunk_owned small 33554432 [10, 20, 30, 40, 50]"
    unfolding chunk_owned_def
    by (intro exI[of _ 2] exI[of _ 0] exI[of _ "file_row 5"])
      (simp add: small_inode small_chunk_key[simplified] valid_ino_unat row_size_def file_row_def u64_of_i64_def CHUNK_SIZE_def)
  then show ?thesis
    by (auto simp: data_ok_def small_def tbl_ok_def inode_row_ok_def root_row_def file_row_def row_size_def
        u64_of_i64_def max_size_def CHUNK_SIZE_def split: if_splits)
qed

lemma small_bytes: "file_bytes small 2 = Some [10, 20, 30, 40, 50]"
proof -
  have "stored_byte small 2 p = byte_at [10, 20, 30, 40, 50] p" if "p < 5" for p
    using that small_chunk_key by (simp add: stored_byte_def chunk_row_def CHUNK_SIZE_def) (simp add: small_def)
  then have "map (stored_byte small 2) [0 ..< 5] = map (byte_at [10, 20, 30, 40, 50]) [0 ..< 5]"
    by (intro map_cong) simp_all
  also have "\<dots> = [10, 20, 30, 40, 50]" by (simp add: upt_rec byte_at_def)
  finally show ?thesis
    by (simp add: file_bytes_def small_inode file_row_def row_size_def u64_of_i64_def)
qed

text \<open>The theorems applied to it.\<close>

lemma small_db_simps [simp]: "tabs small_db = small" "faults small_db = []"
  by (simp_all add: small_db_def)

theorem read_file_returns_slice_witness:
  "\<exists>db'. read_file small_db 2 1 3 = Some (Inr [20, 30, 40], db')"
proof -
  obtain r db' where "read_file small_db 2 1 3 = Some (r, db')"
    "case r of Inl e \<Rightarrow> faults small_db \<noteq> [] | Inr out \<Rightarrow> out = pread 1 3 [10, 20, 30, 40, 50]"
    using read_file_returns_slice[of small_db 2 "[10, 20, 30, 40, 50]" 1 3] by (auto simp: small_data_ok small_bytes)
  then show ?thesis by (cases r) (simp_all add: pread_def)
qed

text \<open>Two writes, the second one past the end of the file.\<close>

definition two_writes :: "(u64 \<times> bytes) list" where
  "two_writes = [(1, [7, 8]), (7, [9])]"

lemma two_writes_contents: "fold pwrite two_writes [10, 20, 30, 40, 50] = [10, 7, 8, 40, 50, 0, 0, 9]"
proof -
  have "replicate 2 (0 :: u8) = [0, 0]" by (simp add: numeral_2_eq_2)
  then show ?thesis by (simp add: two_writes_def pwrite_def write_at_def)
qed

lemma two_writes_ok: "slices_ok two_writes" "\<not> (\<exists>(offset, data) \<in> set two_writes. max_size < unat offset + length data)"
  by (simp_all add: two_writes_def slices_ok_def max_size_def CHUNK_SIZE_def)

theorem write_batch_is_pwrite_witness:
  "\<exists>db'. write_file_batch_at small_db 2 two_writes epoch = Some (Inr 3, db') \<and>
     file_bytes (tabs db') 2 = Some [10, 7, 8, 40, 50, 0, 0, 9]"
proof -
  obtain r db' where r: "write_file_batch_at small_db 2 two_writes epoch = Some (r, db')"
    "case r of Inl e \<Rightarrow> tabs db' = tabs small_db \<and> (faults small_db \<noteq> [] \<or> e = FileTooLarge \<and>
        (\<exists>(offset, data) \<in> set two_writes. max_size < unat offset + length data))
     | Inr n \<Rightarrow> n = of_nat (sum_list (map (length \<circ> snd) two_writes)) \<and>
         batch_written (tabs small_db) 2 two_writes [10, 20, 30, 40, 50] (tabs db')"
    using write_batch_is_pwrite[of small_db 2 "[10, 20, 30, 40, 50]" two_writes epoch] two_writes_ok(1)
    unfolding small_db_simps(1) by (meson small_data_ok small_bytes)
  have "of_nat (sum_list (map (length \<circ> snd) two_writes)) = (3 :: u32)" by (simp add: two_writes_def)
  with r two_writes_ok(2) show ?thesis by (cases r) (simp_all add: batch_written_def two_writes_contents)
qed

theorem truncate_is_resize_witness:
  "\<exists>db'. truncate_file small_db 2 3 epoch = (Inr (), db') \<and> file_bytes (tabs db') 2 = Some [10, 20, 30]"
proof (cases "truncate_file small_db 2 3 epoch")
  case (Pair r db')
  have "resize 3 [10, 20, 30, 40, 50] = [10, 20, 30 :: u8]" by (simp add: resize_def)
  with Pair show ?thesis
    using truncate_is_resize[of small_db 2 "[10, 20, 30, 40, 50]" 3 epoch]
    by (cases r) (simp_all add: small_data_ok small_bytes max_size_def CHUNK_SIZE_def)
qed

text \<open>A write of two bytes into another chunk, read back; and a truncation to two bytes, grown
  again to four.\<close>

theorem stored_read_your_write_witness:
  "\<exists>m out db1 db2. write_file small_db 2 70000 [1, 2] epoch = Some (Inr m, db1) \<and>
     read_file db1 2 70000 m = Some (Inr out, db2) \<and> out = [1, 2]"
proof -
  have ok: "data_ok (tabs small_db)" "file_bytes (tabs small_db) 2 = Some [10, 20, 30, 40, 50]" "faults small_db = []"
    by (simp_all add: small_data_ok small_bytes)
  have d: "[1, 2] \<noteq> ([] :: bytes)" "length [1, 2 :: u8] < 2 ^ 32" "unat (70000 :: u64) + length [1, 2 :: u8] \<le> max_size"
    by (simp_all add: max_size_def CHUNK_SIZE_def)
  obtain db1 where w: "write_file small_db 2 70000 [1, 2] epoch = Some (Inr (of_nat (length [1, 2 :: u8])), db1)" "faults db1 = []"
    "data_ok (tabs db1)" "file_bytes (tabs db1) 2 = Some (pwrite (70000, [1, 2]) [10, 20, 30, 40, 50])"
    using write_file_succeeds[OF ok d(2,3)] by blast
  obtain out db2 where r: "read_file db1 2 70000 (of_nat (length [1, 2 :: u8])) = Some (Inr out, db2)"
    using read_file_succeeds[OF w(3,4,2)] by blast
  show ?thesis using w(1) r stored_read_your_write[OF ok(1,2) d(1,2) w(1) r] by blast
qed

theorem stored_truncated_bytes_gone_witness:
  "\<exists>db1 db2 out db3. truncate_file small_db 2 2 epoch = (Inr (), db1) \<and> truncate_file db1 2 4 epoch = (Inr (), db2) \<and>
     read_file db2 2 2 10 = Some (Inr out, db3) \<and> out = replicate (length out) 0"
proof -
  have ok: "data_ok (tabs small_db)" "file_bytes (tabs small_db) 2 = Some [10, 20, 30, 40, 50]" "faults small_db = []"
    by (simp_all add: small_data_ok small_bytes)
  have le: "unat (2 :: u64) \<le> max_size" "unat (4 :: u64) \<le> max_size" by (simp_all add: max_size_def CHUNK_SIZE_def)
  obtain db1 where t1: "truncate_file small_db 2 2 epoch = (Inr (), db1)" "faults db1 = []" "data_ok (tabs db1)"
    "file_bytes (tabs db1) 2 = Some (resize (unat (2 :: u64)) [10, 20, 30, 40, 50])"
    using truncate_file_succeeds[OF ok le(1)] by blast
  obtain db2 where t2: "truncate_file db1 2 4 epoch = (Inr (), db2)" "faults db2 = []" "data_ok (tabs db2)"
    "file_bytes (tabs db2) 2 = Some (resize (unat (4 :: u64)) (resize (unat (2 :: u64)) [10, 20, 30, 40, 50]))"
    using truncate_file_succeeds[OF t1(3,4,2) le(2)] by blast
  obtain out db3 where r: "read_file db2 2 2 10 = Some (Inr out, db3)"
    using read_file_succeeds[OF t2(3,4,2)] by blast
  show ?thesis using t1(1) t2(1) r stored_truncated_bytes_gone[OF ok(1,2) t1(1) t2(1) r] by blast
qed

end
