(* ===== verification/Session_Examples.thy ===== *)
theory Session_Examples
  imports Sessions Mounted File_Examples
begin

text \<open>
  A mount of the small database of \<open>File_Examples\<close> with a write buffer of a single chunk, the file
  opened once, and the applications of the theorems on buffers and sessions to it.
\<close>

section \<open>A fresh mount\<close>

definition mnt :: Shared where
  "mnt = with_write_buffer (\<lambda>es. es) small_db 65536"

lemmas mnt_ok = mounted_ok[of small_db "\<lambda>es. es" 65536, folded mnt_def, unfolded small_db_simps]

lemma mnt_facts: "running {} mnt" "content mnt 2 = Some [10, 20, 30, 40, 50]" "room mnt" "openable mnt" "\<not> closing (table mnt)"
    "faults (db mnt) = []" "\<not> unlinked_open mnt ino"
  using mnt_ok[OF small_data_ok visits_all_id] small_bytes by simp_all

definition opened :: Shared where
  "opened = (case fs_open mnt 2 of Some (Inr fh, s) \<Rightarrow> s | _ \<Rightarrow> mnt)"

lemma open_mnt: "fs_open mnt 2 = Some (Inr 0, opened)" and opened_state: "faults (db opened) = []" "\<not> closing (table opened)"
    "handles_get (handles (table opened)) 0 = Some 0" "oi_unlinked (inodes (table opened)) = [False]" "oi_refs (inodes (table opened)) = [1]"
    "inodes_find (inodes (table opened)) 2 = Some 0" "oi_ino (inodes (table opened)) = [2]" "room opened"
proof -
  have "\<exists>s. fs_open mnt 2 = Some (Inr 0, s) \<and> faults (db s) = [] \<and> \<not> closing (table s) \<and>
      handles_get (handles (table s)) 0 = Some 0 \<and> oi_unlinked (inodes (table s)) = [False] \<and> oi_refs (inodes (table s)) = [1] \<and>
      inodes_find (inodes (table s)) 2 = Some 0 \<and> oi_ino (inodes (table s)) = [2] \<and> room s"
    by (simp add: fs_open_def slot_for_def mnt_def with_write_buffer_def table_new_def inodes_default_def inodes_find_def
        on_db_def inode_head_def query_def pop_fault_def small_db_def small_def file_row_def root_row_def i64_of_u64_def
        kind_from_i64_def inodes_insert_def open_slot_def handles_alloc_def handles_default_def Let_def
        handles_get_def idx_def NO_SLOT_def map_insert_def slot_available_def)
  then show "fs_open mnt 2 = Some (Inr 0, opened)" "faults (db opened) = []" "\<not> closing (table opened)"
    "handles_get (handles (table opened)) 0 = Some 0" "oi_unlinked (inodes (table opened)) = [False]" "oi_refs (inodes (table opened)) = [1]"
    "inodes_find (inodes (table opened)) 2 = Some 0" "oi_ino (inodes (table opened)) = [2]" "room opened"
    by (auto simp: opened_def)
qed

lemma opened_ok: "running {} opened" "content opened 2 = Some [10, 20, 30, 40, 50]" "handle_ino opened 0 = Some 2"
    "regular_handle opened 0" "\<not> unlinked_open opened 2" "0 \<in> live (inodes (table opened))"
proof -
  from fs_open_spec[OF mnt_facts(1,4,2)] open_mnt show r: "running {} opened" and c: "content opened 2 = Some [10, 20, 30, 40, 50]"
    using mnt_facts(2) by auto
  show h: "handle_ino opened 0 = Some 2" using opened_state by (simp add: handle_ino_def)
  show "regular_handle opened 0" using h c by (simp add: regular_handle_def)
  show "\<not> unlinked_open opened 2" using opened_state by (simp add: unlinked_open_def)
  show "0 \<in> live (inodes (table opened))" by (rule handle_live[OF r opened_state(3)])
qed

section \<open>The theorems applied\<close>

theorem eviction_makes_room_witness:
  "\<exists>r s'. alloc_chunk opened 0 = Some (r, s') \<and> content s' = content opened"
  using eviction_makes_room[OF opened_ok(1,6)] by blast

theorem buffered_write_exact_witness:
  "\<exists>s'. fs_write mnt 2 4 [7, 8] 0 = Some (Inr 2, s') \<and> content s' 2 = Some [10, 20, 30, 40, 7, 8]"
proof -
  have fit: "unat (4 :: u64) + length [7 :: u8, 8] < 2 ^ 64" "\<not> max_size < unat (4 :: u64) + length [7 :: u8, 8]"
    by (simp_all add: max_size_def CHUNK_SIZE_def)
  have ne: "[7 :: u8, 8] \<noteq> []" by simp
  obtain r s' where w: "fs_write mnt 2 4 [7, 8] 0 = Some (r, s')"
    "case r of
       Inr n \<Rightarrow> n = of_nat (length [7 :: u8, 8]) \<and> content s' = (content mnt)(2 \<mapsto> pwrite (4, [7, 8]) [10, 20, 30, 40, 50])
     | Inl e \<Rightarrow>
         e = EIO \<and> closing (table mnt) \<and> content s' = content mnt \<or>
         e = EFBIG \<and> max_size < unat (4 :: u64) + length [7 :: u8, 8] \<and> content s' = content mnt \<or>
         faults (db mnt) \<noteq> [] \<and>
         (\<exists>n < length [7 :: u8, 8]. content s' = (content mnt)(2 \<mapsto> pwrite (4, take n [7, 8]) [10, 20, 30, 40, 50]))"
    using buffered_write_exact[OF mnt_facts(1,3,2) ne fit(1), of 0] by blast
  show ?thesis using w fit(2) mnt_facts(5,6) by (cases r) (auto simp: pwrite_def write_at_def)
qed

lemma mnt_write: obtains s1 where "fs_write mnt 2 4 [7, 8] 0 = Some (Inr 2, s1)" "running {} s1" "content s1 2 = Some [10, 20, 30, 40, 7, 8]"
    "faults (db s1) = []"
proof -
  have fit: "unat (4 :: u64) + length [7 :: u8, 8] < 2 ^ 64" "\<not> max_size < unat (4 :: u64) + length [7 :: u8, 8]"
    by (simp_all add: max_size_def CHUNK_SIZE_def)
  obtain r s1 where w: "fs_write mnt 2 4 [7, 8] 0 = Some (r, s1)" "running {} s1" "quiet mnt s1"
    "written mnt 2 4 [7, 8] [10, 20, 30, 40, 50] r s1"
    using fs_write_spec[OF mnt_facts(1,3,2) fit(1), of 0] by auto
  have "r = Inr 2 \<and> content s1 2 = Some [10, 20, 30, 40, 7, 8]"
    using w(4) fit(2) mnt_facts(5,6) by (cases r) (auto simp: written_def pwrite_def write_at_def)
  with w that mnt_facts(6) show thesis by (auto simp: quiet_def)
qed

theorem buffered_read_your_write_witness:
  "\<exists>s1 s2. fs_write mnt 2 4 [7, 8] 0 = Some (Inr 2, s1) \<and> fs_read s1 2 4 2 = Some (Inr [7, 8], s2)"
proof -
  obtain s1 where w: "fs_write mnt 2 4 [7, 8] 0 = Some (Inr 2, s1)" "running {} s1" "content s1 2 = Some [10, 20, 30, 40, 7, 8]"
    "faults (db s1) = []" by (rule mnt_write)
  obtain r s2 where r: "fs_read s1 2 4 2 = Some (r, s2)"
    "case r of Inl e \<Rightarrow> faults (db s1) \<noteq> [] | Inr out \<Rightarrow> out = pread 4 2 [10, 20, 30, 40, 7, 8]"
    using fs_read_spec[OF w(2,3), of 4 2] by blast
  then obtain out where o: "fs_read s1 2 4 2 = Some (Inr out, s2)" using w(4) by (cases r) auto
  have "out = [7, 8]"
    by (rule buffered_read_your_write[OF mnt_facts(1,2) _ _ mnt_facts(3) _ w(1) o]) simp_all
  with w(1) o show ?thesis by blast
qed

theorem sessions_refine_file_map_witness:
  "session mnt [Open 2 (Inr 0)] opened \<and> shared_ok mnt \<and> spec_session (view_of mnt) [Open 2 (Inr 0)] (view_of opened)"
proof -
  have s: "session mnt [Open 2 (Inr 0)] opened"
    using open_call[OF mnt_facts(4) _ open_mnt] mnt_facts(2) by (auto intro: session_cons session_nil)
  with sessions_refine_file_map[OF s mnt_facts(1)] mnt_facts(1) show ?thesis by simp
qed

theorem open_file_calls_return_witness:
  "(\<exists>r s'. step opened (Read 0 1 3 r) s') \<and> (\<exists>r s'. step opened (Write 0 1 [9] r) s')"
  using open_file_calls_return[OF opened_ok(1,4), of 1 "[9]" 3] by simp

theorem fsync_stores_file_witness:
  "\<exists>s'. sync_fh opened 0 = Some (Inr (), s') \<and> file_bytes (tabs (db s')) 2 = Some [10, 20, 30, 40, 50]"
proof -
  obtain r s' where r: "sync_fh opened 0 = Some (r, s')"
    "case r of Inl e \<Rightarrow> faults (db opened) \<noteq> []
     | Inr _ \<Rightarrow> if unlinked_open opened 2 then tabs (db s') = tabs (db opened) else file_bytes (tabs (db s')) 2 = content opened 2"
    using fsync_stores_file[OF opened_ok(1,3)] by blast
  then show ?thesis using opened_state(1) opened_ok(2,5) by (cases r) auto
qed

theorem closed_handle_refused_witness:
  "\<exists>r s'. release_fh opened 0 = Some (r, s') \<and> read_fh s' 0 0 1 = Some (Inl EBADF, s') \<and> release_fh s' 0 = Some (Inl EBADF, s')"
proof -
  obtain r s' where r: "release_fh opened 0 = Some (r, s')"
    using release_kept[OF opened_ok(1) opened_state(3)] opened_state(4) by auto
  have "handle_ino opened 0 \<noteq> None" using opened_ok(3) by simp
  from closed_handle_refused[OF opened_ok(1) r this, of 0 1 "[]" 0] r show ?thesis by auto
qed

end
