(* ===== verification/Listing.thy ===== *)
theory Listing
  imports Directories Filesystem
begin

text \<open>
  Listing a directory: what \<open>readdir\<close> returns, and that a listing can be resumed from the offset of
  any entry it returned.
\<close>

definition list_entry :: "i64 \<times> dirent_row \<times> inode_row \<Rightarrow> DbfsDirEntry" where
  "list_entry = (\<lambda>(rid, d, row). \<lparr>dd_name = d_name d, dd_ino = u64_of_i64 (d_child d),
     dd_kind = (case kind_from_i64 (r_kind row) of Inr k \<Rightarrow> file_type k | Inl _ \<Rightarrow> FT_RegularFile), dd_offset = rid + 2\<rparr>)"

definition children_of :: "tables \<Rightarrow> u64 \<Rightarrow> (i64 \<times> dirent_row \<times> inode_row) list" where
  "children_of t ino = join_children (\<lambda>_ d. d_parent d = i64_of_u64 ino) t"

definition listing :: "tables \<Rightarrow> u64 \<Rightarrow> u64 \<Rightarrow> DbfsDirEntry list" where
  "listing t ino parent =
     \<lparr>dd_name = [46], dd_ino = ino, dd_kind = FT_Directory, dd_offset = DOT\<rparr> #
     \<lparr>dd_name = [46, 46], dd_ino = parent, dd_kind = FT_Directory, dd_offset = DOTDOT\<rparr> #
     map list_entry (children_of t ino)"

text \<open>Row ids of entries, which become directory offsets.\<close>

definition rids_ok :: "tables \<Rightarrow> bool" where
  "rids_ok t \<longleftrightarrow> (\<forall>rid \<in> fst ` set (t_dirents t). 0 < rid \<and> rid \<le> i64_MAX - 2)"

lemma join_children_filter:
  "join_children (\<lambda>rid d. P d \<and> a < rid) t = filter (\<lambda>(rid, _). a < rid) (join_children (\<lambda>_ d. P d) t)"
proof -
  have "List.map_filter (\<lambda>(rid, d). if P d \<and> a < rid then map_option (\<lambda>r. (rid, d, r)) (f d) else None) xs =
    filter (\<lambda>(rid, _). a < rid) (List.map_filter (\<lambda>(rid, d). if P d then map_option (\<lambda>r. (rid, d, r)) (f d) else None) xs)"
    for f :: "dirent_row \<Rightarrow> inode_row option" and xs
    by (induction xs) (auto split: option.splits if_splits)
  then show ?thesis by (simp add: join_children_def)
qed

lemma wrap_id: "in_i64 i \<Longrightarrow> wrap_i64 i = i"
  by (simp add: wrap_i64_def i64_u64_i64)

lemma emit_rows_all:
  assumes "\<And>rid d row. (rid, d, row) \<in> set rows \<Longrightarrow> in_i64 (rid + 2) \<and> r_kind row \<in> {1, 2, 3}"
  shows "emit_rows (\<lambda>es rid name child kind. (False, es @ [\<lparr>dd_name = name, dd_ino = child,
      dd_kind = file_type kind, dd_offset = wrap_i64 (rid + DOTDOT)\<rparr>])) rows es = (None, es @ map list_entry rows)"
  using assms
proof (induction rows arbitrary: es)
  case (Cons x rows)
  obtain rid d row where x: "x = (rid, d, row)" by (rule prod_cases3)
  have r: "in_i64 (rid + 2)" "r_kind row \<in> {1, 2, 3}" using Cons.prems[of rid d row] x by simp_all
  then obtain k where k: "kind_from_i64 (r_kind row) = Inr k" by (auto simp: kind_from_i64_def)
  have IH: "emit_rows (\<lambda>es rid name child kind. (False, es @ [\<lparr>dd_name = name, dd_ino = child,
      dd_kind = file_type kind, dd_offset = wrap_i64 (rid + DOTDOT)\<rparr>])) rows es' = (None, es' @ map list_entry rows)" for es'
    by (rule Cons.IH) (use Cons.prems in auto)
  have e: "list_entry x = \<lparr>dd_name = d_name d, dd_ino = u64_of_i64 (d_child d), dd_kind = file_type k, dd_offset = wrap_i64 (rid + DOTDOT)\<rparr>"
    using k r(1) by (simp add: x list_entry_def DOTDOT_def wrap_id)
  show ?case unfolding list.map e by (simp add: x k IH)
qed simp

text \<open>The parent that \<^verbatim>\<open>..\<close> shows: that of the directory's entry, the root's own, and for an open
  directory that was removed, itself.\<close>

definition listed_parent :: "tables \<Rightarrow> u64 \<Rightarrow> u64" where
  "listed_parent t ino = (if ino = 1 then 1 else case parent_row t ino of None \<Rightarrow> ino | Some p \<Rightarrow> u64_of_i64 p)"

lemma children_rows:
  assumes t: "tree_ok t" "rids_ok t" and x: "(rid, d, row) \<in> set (children_of t ino)"
  shows "in_i64 (rid + 2)" "r_kind row \<in> {1, 2, 3}" "0 < rid"
proof -
  have m: "(rid, d) \<in> set (t_dirents t)" "map_of (t_inodes t) (d_child d) = Some row"
    using x by (simp_all add: children_of_def join_children_iff)
  then have "kinds t (d_child d) = Some (r_kind row)" by (simp add: kinds_def)
  then show "r_kind row \<in> {1, 2, 3}" by (rule kinds_range(4)[OF t(1)])
  have "rid \<in> fst ` set (t_dirents t)" by (rule image_eqI[OF _ m(1)]) simp
  then show "0 < rid" "in_i64 (rid + 2)" using t(2) unfolding rids_ok_def by (auto simp: in_i64_def i64_MIN_def)
qed

lemma readdir_from:
  assumes ok: "names_ok (db s)" and r: "rids_ok (tabs (db s))" and f: "faults (db s) = []"
    and k: "kinds (tabs (db s)) (i64_of_u64 ino) = Some DIR" and off: "0 \<le> offset" "offset \<le> i64_MAX"
  shows "fs_readdir s ino offset =
    (Inr (filter (\<lambda>e. offset < dd_offset e) (listing (tabs (db s)) ino (listed_parent (tabs (db s)) ino))), s)"
proof -
  let ?t = "tabs (db s)" and ?p = "listed_parent (tabs (db s)) ino"
  define a where "a = max (offset - 2) 0"
  have t: "tree_ok ?t" using ok by (simp add: names_ok_def)
  have parent: "(case parent_of_dir (db s) ino of (Inr parent, d) \<Rightarrow> (Inr parent, d)
            | (Inl NotFound, d) \<Rightarrow> (Inr ino, d) | (Inl error, d) \<Rightarrow> (Inl error, d)) = (Inr ?p, db s)"
    using f by (auto simp: parent_of_dir_def query_no_fault listed_parent_def split: option.splits)
  have w: "wrap_i64 (offset - DOTDOT) = offset - 2"
    using off by (simp add: DOTDOT_def) (rule wrap_id, simp add: in_i64_def i64_MIN_def)
  have kk: "inode_kind_of (db s) ino = (Inr Directory, db s)"
    using k f by (auto simp: inode_kind_of_def query_no_fault kinds_def kind_from_i64_def)
  let ?emit = "\<lambda>es rid name child kind. (False, es @ [\<lparr>dd_name = name, dd_ino = child,
      dd_kind = file_type kind, dd_offset = wrap_i64 (rid + DOTDOT)\<rparr>])"
  let ?rows = "filter (\<lambda>(rid, _). a < rid) (children_of ?t ino)"
  have rows: "emit_rows ?emit ?rows es = (None, es @ map list_entry ?rows)" for es
  proof (rule emit_rows_all)
    fix rid d row assume "(rid, d, row) \<in> set ?rows"
    then have x: "(rid, d, row) \<in> set (children_of ?t ino)" by simp
    show "in_i64 (rid + 2) \<and> r_kind row \<in> {1, 2, 3}" using children_rows(1,2)[OF t r x] by blast
  qed
  have ch: "map list_entry ?rows = filter (\<lambda>e. offset < dd_offset e) (map list_entry (children_of ?t ino))"
  proof -
    have "a < fst x \<longleftrightarrow> offset < dd_offset (list_entry x)" if "x \<in> set (children_of ?t ino)" for x
      using children_rows(3)[OF t r, of "fst x" "fst (snd x)" "snd (snd x)" ino] that by (cases x) (auto simp: list_entry_def a_def)
    then show ?thesis by (simp add: filter_map comp_def case_prod_beta cong: filter_cong)
  qed
  have rd: "read_dir_after (db s) ino a ?emit es = ((Inr (), es @ map list_entry ?rows), db s)" for es
    using f rows by (simp add: read_dir_after_def kk query_no_fault join_children_filter children_of_def)
  show ?thesis
    unfolding fs_readdir_def readdir_stream_def parent emit_children_def w a_def[symmetric]
    using rd ch by (simp add: Let_def listing_def DOT_def DOTDOT_def)
qed

lemma join_children_sorted:
  assumes "tbl_ok (t_dirents t)"
  shows "sorted_wrt (<) (map fst (join_children P t))"
proof -
  have "sorted_wrt (<) (map fst xs) \<Longrightarrow> sorted_wrt (<) (map fst (List.map_filter
      (\<lambda>(rid, d). if P rid d then map_option (\<lambda>r. (rid, d, r)) (f d) else None) xs)) \<and>
    (\<forall>x \<in> set (List.map_filter (\<lambda>(rid, d). if P rid d then map_option (\<lambda>r. (rid, d, r)) (f d) else None) xs).
      \<exists>d. (fst x, d) \<in> set xs)"
    for f :: "dirent_row \<Rightarrow> inode_row option" and xs
  proof (induction xs)
    case (Cons x xs)
    then show ?case by (cases x) (fastforce split: option.splits if_splits)
  qed simp
  then show ?thesis using assms by (simp add: join_children_def tbl_ok_def)
qed

lemma children_names:
  assumes t: "tree_ok t"
  shows "distinct (map dd_name (map list_entry (children_of t ino)))"
proof -
  have "sorted_wrt (<) (map fst (children_of t ino))"
    unfolding children_of_def using t by (intro join_children_sorted) (simp add: tree_ok_def)
  then have "distinct (children_of t ino)" by (metis distinct_map strict_sorted_iff)
  moreover have "inj_on (dd_name \<circ> list_entry) (set (children_of t ino))"
  proof (rule inj_onI)
    fix x y assume x: "x \<in> set (children_of t ino)" and y: "y \<in> set (children_of t ino)" and e: "(dd_name \<circ> list_entry) x = (dd_name \<circ> list_entry) y"
    obtain rid d row where x': "x = (rid, d, row)" by (rule prod_cases3)
    obtain rid' d' row' where y': "y = (rid', d', row')" by (rule prod_cases3)
    have m: "(rid, d) \<in> set (t_dirents t)" "(rid', d') \<in> set (t_dirents t)" "d_parent d = d_parent d'" "d_name d = d_name d'"
      "map_of (t_inodes t) (d_child d) = Some row" "map_of (t_inodes t) (d_child d') = Some row'"
      using x y e unfolding x' y' by (simp_all add: children_of_def join_children_iff list_entry_def)
    then have "(rid, d) = (rid', d')"
      using t onlyD[of same_name "set (t_dirents t)" "(rid, d)" "(rid', d')"] unfolding tree_ok_def tree_def by (simp add: same_name_def)
    then show "x = y" using m(5,6) x' y' by simp
  qed
  ultimately show ?thesis by (simp add: distinct_map comp_def)
qed

text \<open>C25. A directory's listing has \<^verbatim>\<open>.\<close>, \<^verbatim>\<open>..\<close> and one entry for each of its names, with increasing
  offsets, and listing it again from the offset of any entry gives exactly the entries after it.\<close>

theorem listing_resumes:
  assumes ok: "names_ok (db s)" and r: "rids_ok (tabs (db s))" and f: "faults (db s) = []"
    and k: "kinds (tabs (db s)) (i64_of_u64 ino) = Some DIR"
  shows "\<exists>dot dotdot es. fs_readdir s ino 0 = (Inr (dot # dotdot # es), s) \<and>
    sorted_wrt (<) (map dd_offset (dot # dotdot # es)) \<and>
    (\<forall>n c. (\<exists>rid. (rid, entry ino n c) \<in> set (t_dirents (tabs (db s)))) \<longrightarrow> (\<exists>e \<in> set es. dd_name e = n \<and> dd_ino e = u64_of_i64 c)) \<and>
    distinct (map dd_name es) \<and>
    (\<forall>e \<in> set es. \<exists>rid. (rid, entry ino (dd_name e) (i64_of_u64 (dd_ino e))) \<in> set (t_dirents (tabs (db s)))) \<and>
    (\<forall>offset. 0 \<le> offset \<and> offset \<le> i64_MAX \<longrightarrow>
       fs_readdir s ino offset = (Inr (filter (\<lambda>e. offset < dd_offset e) (dot # dotdot # es)), s))"
proof -
  let ?t = "tabs (db s)"
  let ?es = "map list_entry (children_of ?t ino)"
  define dot where "dot = \<lparr>dd_name = [46], dd_ino = ino, dd_kind = FT_Directory, dd_offset = DOT\<rparr>"
  define dotdot where "dotdot = \<lparr>dd_name = [46, 46], dd_ino = listed_parent ?t ino, dd_kind = FT_Directory, dd_offset = DOTDOT\<rparr>"
  have t: "tree_ok ?t" using ok by (simp add: names_ok_def)
  have all: "listing ?t ino (listed_parent ?t ino) = dot # dotdot # ?es" by (simp add: listing_def dot_def dotdot_def)
  note rd = readdir_from[OF ok r f k, unfolded all]
  have off: "map dd_offset ?es = map (\<lambda>x. fst x + 2) (children_of ?t ino)" by (simp add: list_entry_def case_prod_beta)
  have pos: "0 < fst x" if "x \<in> set (children_of ?t ino)" for x
    using children_rows(3)[OF t r, of "fst x" "fst (snd x)" "snd (snd x)" ino] that by simp
  have "sorted_wrt (<) (map fst (children_of ?t ino))"
    unfolding children_of_def using t by (intro join_children_sorted) (simp add: tree_ok_def)
  then have "sorted_wrt (<) (map dd_offset ?es)" unfolding off by (simp add: sorted_wrt_map)
  moreover have "\<forall>x \<in> set (map dd_offset ?es). 2 < x" unfolding off using pos by simp
  ultimately have sorted: "sorted_wrt (<) (map dd_offset (dot # dotdot # ?es))"
    by (simp add: dot_def dotdot_def DOT_def DOTDOT_def) (smt (verit))
  have "0 < dd_offset e" if "e \<in> set ?es" for e
    using that \<open>\<forall>x \<in> set (map dd_offset ?es). 2 < x\<close> by fastforce
  then have "filter (\<lambda>e. 0 < dd_offset e) (dot # dotdot # ?es) = dot # dotdot # ?es"
    by (simp add: dot_def dotdot_def DOT_def DOTDOT_def)
  then have zero: "fs_readdir s ino 0 = (Inr (dot # dotdot # ?es), s)" using rd[of 0] by (simp add: i64_MAX_def)
  have sound: "\<exists>rid. (rid, entry ino (dd_name e) (i64_of_u64 (dd_ino e))) \<in> set (t_dirents ?t)" if e: "e \<in> set ?es" for e
  proof -
    obtain rid d row where x: "(rid, d, row) \<in> set (children_of ?t ino)" "e = list_entry (rid, d, row)" using e by auto
    then have m: "(rid, d) \<in> set (t_dirents ?t)" "d = entry ino (d_name d) (d_child d)" "map_of (t_inodes ?t) (d_child d) = Some row"
      by (simp_all add: children_of_def join_children_iff entry_eta)
    have "kinds ?t (d_child d) = Some (r_kind row)" using m(3) by (simp add: kinds_def)
    then have "i64_of_u64 (u64_of_i64 (d_child d)) = d_child d" by (intro i64_u64_i64 kinds_range(3)[OF t])
    then show ?thesis using m(1,2) x(2) by (auto simp: list_entry_def)
  qed
  have complete: "\<exists>e \<in> set ?es. dd_name e = n \<and> dd_ino e = u64_of_i64 c" if m: "(rid, entry ino n c) \<in> set (t_dirents ?t)" for rid n c
  proof -
    have "closed (kinds ?t) (entry ino n c)" using t m unfolding tree_ok_def tree_def by auto
    then obtain row where "map_of (t_inodes ?t) c = Some row" by (auto simp: closed_def kinds_def)
    then have "(rid, entry ino n c, row) \<in> set (children_of ?t ino)" using m by (simp add: children_of_def join_children_iff)
    then show ?thesis by (force simp: list_entry_def)
  qed
  show ?thesis
    by (rule exI[of _ dot], rule exI[of _ dotdot], rule exI[of _ ?es])
      (use zero sorted sound complete rd children_names[OF t, of ino] in blast)
qed

end
