(* ===== verification/Directory_Examples.thy ===== *)
theory Directory_Examples
  imports Listing
begin

text \<open>
  A database grown from the empty schema, a root with a directory that holds a file, and the
  applications of the theorems on names to it.
\<close>

definition blank_db :: Db where
  "blank_db = \<lparr>tabs = \<lparr>t_inodes = [], t_dirents = [], t_chunks = [], t_symlinks = []\<rparr>, faults = [], new_rowid = sqlite_rowid\<rparr>"

definition started_db :: Db where
  "started_db = snd (initialize blank_db 0 0 epoch)"

definition with_dir :: Db where
  "with_dir = snd (create_dir started_db 1 [100] 493 0 0 epoch)"

definition grown_db :: Db where
  "grown_db = snd (create_file with_dir 2 [102] 420 0 0 epoch)"

lemma cast_values [simp]: "i64_of_u64 1 = 1" "i64_of_u64 2 = 2" "i64_of_u64 3 = 3" "u64_of_i64 1 = 1" "u64_of_i64 2 = 2" "u64_of_i64 3 = 3"
  by (simp_all add: i64_of_u64_def u64_of_i64_def)

lemmas step_simps = query_no_fault transaction_no_fault execute_def create_dir_def create_file_def create_node_def check_name_def NAME_MAX_def
  inode_kind_of_def kind_from_i64_def insert_dirent_def touch_dir_def add_directory_nlink_def Let_def tbl_update_def

lemma started: "initialize blank_db 0 0 epoch = (Inr (), started_db)" "faults started_db = []" "new_rowid started_db = sqlite_rowid"
   "tabs started_db = \<lparr>t_inodes = [(1, \<lparr>r_kind = 2, r_mode = 493, r_uid = 0, r_gid = 0, r_size = 0, r_atime_ns = to_ns epoch,
     r_mtime_ns = to_ns epoch, r_ctime_ns = to_ns epoch, r_nlink = 2\<rparr>)], t_dirents = [], t_chunks = [], t_symlinks = []\<rparr>"
proof -
  have "\<exists>d. initialize blank_db 0 0 epoch = (Inr (), d) \<and> faults d = [] \<and> new_rowid d = sqlite_rowid \<and>
    tabs d = \<lparr>t_inodes = [(1, \<lparr>r_kind = 2, r_mode = 493, r_uid = 0, r_gid = 0, r_size = 0, r_atime_ns = to_ns epoch,
     r_mtime_ns = to_ns epoch, r_ctime_ns = to_ns epoch, r_nlink = 2\<rparr>)], t_dirents = [], t_chunks = [], t_symlinks = []\<rparr>"
    by (simp add: initialize_def blank_db_def step_simps recompute_directory_nlink_def join_children_def)
  then show "initialize blank_db 0 0 epoch = (Inr (), started_db)" "faults started_db = []" "new_rowid started_db = sqlite_rowid"
   "tabs started_db = \<lparr>t_inodes = [(1, \<lparr>r_kind = 2, r_mode = 493, r_uid = 0, r_gid = 0, r_size = 0, r_atime_ns = to_ns epoch,
     r_mtime_ns = to_ns epoch, r_ctime_ns = to_ns epoch, r_nlink = 2\<rparr>)], t_dirents = [], t_chunks = [], t_symlinks = []\<rparr>"
    by (auto simp: started_db_def)
qed

definition dir_row :: "i64 \<Rightarrow> inode_row" where
  "dir_row l = \<lparr>r_kind = 2, r_mode = 493, r_uid = 0, r_gid = 0, r_size = 0, r_atime_ns = to_ns epoch,
     r_mtime_ns = to_ns epoch, r_ctime_ns = to_ns epoch, r_nlink = l\<rparr>"

definition leaf_row :: inode_row where
  "leaf_row = \<lparr>r_kind = 1, r_mode = 420, r_uid = 0, r_gid = 0, r_size = 0, r_atime_ns = to_ns epoch,
     r_mtime_ns = to_ns epoch, r_ctime_ns = to_ns epoch, r_nlink = 1\<rparr>"

lemma mode_values [simp]: "i64_of_u32 493 = 493" "i64_of_u32 420 = 420" "i64_of_u32 0 = 0" "i64_of_u64 0 = 0"
  by (simp_all add: i64_of_u32_def i64_of_u64_def)

lemma max_ino_values [simp]: "\<not> MAX_INO < 2" "\<not> MAX_INO < 3"
  by (simp_all add: MAX_INO_def CHUNK_BITS_def)

lemma rowid_values [simp]: "sqlite_rowid [] = Some 1" "sqlite_rowid [1] = Some 2" "sqlite_rowid [1, 2] = Some 3"
  by (simp_all add: sqlite_rowid_def i64_MAX_def)

lemma with_dir: "fst (create_dir started_db 1 [100] 493 0 0 epoch) =
    Inr \<lparr>i_ino = 2, i_kind = Directory, i_mode = 493, i_uid = 0, i_gid = 0, i_size = 0, i_atime = epoch, i_mtime = epoch, i_ctime = epoch, i_nlink = 2\<rparr>"
  "faults with_dir = []" "new_rowid with_dir = sqlite_rowid"
  "tabs with_dir = \<lparr>t_inodes = [(1, dir_row 3), (2, dir_row 2)], t_dirents = [(1, entry 1 [100] 2)], t_chunks = [], t_symlinks = []\<rparr>"
  by (simp_all add: with_dir_def step_simps started dir_row_def u32_of_i64_def)

lemma grown: "fst (create_file with_dir 2 [102] 420 0 0 epoch) =
    Inr \<lparr>i_ino = 3, i_kind = RegularFile, i_mode = 420, i_uid = 0, i_gid = 0, i_size = 0, i_atime = epoch, i_mtime = epoch, i_ctime = epoch, i_nlink = 1\<rparr>"
  "faults grown_db = []" "new_rowid grown_db = sqlite_rowid"
  "tabs grown_db = \<lparr>t_inodes = [(1, dir_row 3), (2, dir_row 2), (3, leaf_row)],
     t_dirents = [(1, entry 1 [100] 2), (2, entry 2 [102] 3)], t_chunks = [], t_symlinks = []\<rparr>"
  by (simp_all add: grown_db_def step_simps with_dir dir_row_def leaf_row_def u32_of_i64_def)

lemma started_names: "names_ok started_db"
  by (rule initialize_names[OF _ started(1)]) (simp add: startable_def blank_db_def sqlite_rowid_fresh)

lemma with_dir_names: "names_ok with_dir"
  unfolding with_dir_def create_dir_def by (rule names_create_node[OF started_names])

lemma grown_names: "names_ok grown_db"
  unfolding grown_db_def create_file_def by (rule names_create_node[OF with_dir_names])

section \<open>The theorems applied\<close>

definition new_dir :: Inode where
  "new_dir = \<lparr>i_ino = 2, i_kind = Directory, i_mode = 493, i_uid = 0, i_gid = 0, i_size = 0, i_atime = epoch, i_mtime = epoch, i_ctime = epoch, i_nlink = 2\<rparr>"

definition new_leaf :: Inode where
  "new_leaf = \<lparr>i_ino = 3, i_kind = RegularFile, i_mode = 420, i_uid = 0, i_gid = 0, i_size = 0, i_atime = epoch, i_mtime = epoch, i_ctime = epoch, i_nlink = 1\<rparr>"

lemma make_dir: "create_node started_db 1 [100] (NewDirectory 493) 0 0 epoch = (Inr new_dir, with_dir)"
  using with_dir(1) by (auto simp: with_dir_def create_dir_def new_dir_def intro: prod_eqI)

lemma make_leaf: "create_node with_dir 2 [102] (NewFile 420) 0 0 epoch = (Inr new_leaf, grown_db)"
  using grown(1) by (auto simp: grown_db_def create_file_def new_leaf_def intro: prod_eqI)

theorem created_name_found_witness:
  "lookup grown_db 2 [102] = (Inr (stored_times new_leaf), grown_db) \<and> lookup with_dir 2 [102] = (Inl NotFound, with_dir)"
proof -
  have "with_dir\<lparr>faults := []\<rparr> = with_dir" using with_dir(2) by (cases with_dir) simp
  then show ?thesis using created_name_found[OF with_dir_names make_leaf grown(2)] by simp
qed

theorem names_stay_a_tree_witness:
  "runs started_db grown_db \<and> tree (kinds (tabs grown_db)) (set (t_dirents (tabs grown_db)))"
proof -
  have st: "startable blank_db" by (simp add: startable_def blank_db_def sqlite_rowid_fresh)
  have "runs started_db with_dir"
    by (rule runs_call[OF runs_start, of "Create 1 [100] (NewDirectory 493) 0 0 epoch"]) (simp_all add: make_dir no_value_def)
  then have "runs started_db grown_db"
    by (rule runs_call[where c = "Create 2 [102] (NewFile 420) 0 0 epoch"]) (simp_all add: make_leaf no_value_def)
  then show ?thesis using names_stay_a_tree[OF st started(1)] by simp
qed

text \<open>Moving the directory below itself is refused.\<close>

theorem rename_returns_witness:
  "\<exists>r db'. rename_entry grown_db 1 [100] 2 [120] False (\<lambda>_. False) epoch = Some (r, db') \<and>
     tree (kinds (tabs db')) (set (t_dirents (tabs db')))"
  by (rule rename_returns[OF grown_names])

lemma grown_kinds: "kinds (tabs grown_db) 1 = Some DIR" "kinds (tabs grown_db) 2 = Some DIR" "kinds (tabs grown_db) 3 = Some 1"
  by (simp_all add: kinds_def grown dir_row_def leaf_row_def)

theorem ancestor_check_exact_witness:
  "\<exists>db'. is_descendant grown_db 2 1 = Some (Inr True, db')"
proof -
  have "(1, entry 1 [100] 2) \<in> set (t_dirents (tabs grown_db))" by (simp add: grown)
  then have "(2, 1) \<in> ups (tabs grown_db)" unfolding up_iff using grown_kinds(2) by force
  then show ?thesis using ancestor_check_exact[OF grown_names, of 2 1] grown_kinds grown(2) by auto
qed

lemma lookup_leaf: "lookup grown_db 2 [102] = (Inr (stored_times new_leaf), grown_db)"
  by (simp add: lookup_def check_name_def NAME_MAX_def query_no_fault grown join_children_def sql_result_def
      inode_from_row_def kind_from_i64_def leaf_row_def stored_times_def new_leaf_def u32_of_i64_def u64_of_i64_def)

lemma lookup_dir: "\<exists>x. lookup grown_db 1 [100] = (Inr x, grown_db) \<and> i_ino x = 2 \<and> i_kind x = Directory"
  by (simp add: lookup_def check_name_def NAME_MAX_def query_no_fault grown join_children_def sql_result_def
      inode_from_row_def kind_from_i64_def dir_row_def)

theorem failed_calls_change_nothing_witness:
  "\<exists>db'. run_call (Create 2 [102] (NewFile 420) 0 0 epoch) grown_db = Some (Inl AlreadyExists, db') \<and> tabs db' = tabs grown_db"
proof -
  have "from_sql_error unique_error = AlreadyExists" by (simp add: unique_error_def sqlite_failure_def SQLITE_CONSTRAINT_UNIQUE_def SQLITE_FULL_def)
  moreover have "sqlite_rowid [1, 2, 3] = Some 4" "\<not> MAX_INO < u64_of_i64 4"
    by (simp_all add: sqlite_rowid_def i64_MAX_def MAX_INO_def CHUNK_BITS_def u64_of_i64_def)
  ultimately obtain db' where "run_call (Create 2 [102] (NewFile 420) 0 0 epoch) grown_db = Some (Inl AlreadyExists, db')"
    by (simp add: no_value_def create_node_def check_name_def NAME_MAX_def inode_kind_of_def query_no_fault transaction_no_fault grown
        dir_row_def kind_from_i64_def insert_dirent_def Let_def)
  then show ?thesis using failed_calls_change_nothing[OF grown_names] by fastforce
qed

theorem removed_name_gone_witness:
  "\<exists>db'. unlink_file grown_db 2 [102] epoch = (Inr (), db') \<and> lookup db' 2 [102] = (Inl NotFound, db')"
proof -
  obtain db' where u: "unlink_file grown_db 2 [102] epoch = (Inr (), db')" "faults db' = []"
    by (simp add: unlink_file_def lookup_leaf unlink_entry_def stored_times_def new_leaf_def transaction_no_fault grown)
  then show ?thesis using removed_name_gone[OF grown_names u(2), of 2 "[102]" epoch] by blast
qed

theorem full_directory_stays_witness: "remove_dir grown_db 1 [100] epoch = (Inl DirectoryNotEmpty, grown_db)"
proof -
  obtain x where x: "lookup grown_db 1 [100] = (Inr x, grown_db)" "i_ino x = 2" "i_kind x = Directory" using lookup_dir by blast
  show ?thesis by (rule full_directory_stays[OF grown(2) x(1,3), of 2 "entry 2 [102] 3"]) (simp_all add: grown x(2))
qed

theorem rename_moves_entry_witness:
  "\<exists>db' inode. rename_entry grown_db 2 [102] 1 [103] False (\<lambda>_. False) epoch = Some (Inr None, db') \<and>
     lookup db' 2 [102] = (Inl NotFound, db') \<and> lookup db' 1 [103] = (Inr inode, db') \<and> i_ino inode = 3"
proof -
  have nf: "lookup grown_db 1 [103] = (Inl NotFound, grown_db)" by (rule lookup_missing) (auto simp: grown NAME_MAX_def)
  have kind: "inode_kind_of grown_db 1 = (Inr Directory, grown_db)"
    by (simp add: inode_kind_of_def query_no_fault grown dir_row_def kind_from_i64_def)
  obtain db' where r: "rename_entry grown_db 2 [102] 1 [103] False (\<lambda>_. False) epoch = Some (Inr None, db')" "faults db' = []"
    by (simp add: rename_entry_def lookup_leaf stored_times_def new_leaf_def kind lookup_opt_def nf replaceable_def check_name_def NAME_MAX_def
        transaction_no_fault rename_rows_def move_dirent_def Let_def grown)
  obtain inode where "lookup db' 2 [102] = (Inl NotFound, db')" "lookup db' 1 [103] = (Inr inode, db')" "i_ino inode = i_ino (stored_times new_leaf)"
    using rename_moves_entry[OF grown_names r(1) _ r(2) lookup_leaf] by auto
  then show ?thesis using r(1) by (auto simp: stored_times_def new_leaf_def)
qed

definition grown_mount :: Shared where
  "grown_mount = with_write_buffer (\<lambda>es. es) grown_db 65536"

theorem listing_resumes_witness:
  "\<exists>dot dotdot es. fs_readdir grown_mount 2 0 = (Inr (dot # dotdot # es), grown_mount) \<and>
     (\<exists>e \<in> set es. dd_name e = [102] \<and> dd_ino e = 3) \<and>
     fs_readdir grown_mount 2 1 = (Inr (filter (\<lambda>e. 1 < dd_offset e) (dot # dotdot # es)), grown_mount)"
proof -
  have db: "db grown_mount = grown_db" by (simp add: grown_mount_def with_write_buffer_def)
  have r: "rids_ok (tabs (db grown_mount))" by (simp add: db rids_ok_def grown i64_MAX_def)
  have ok: "names_ok (db grown_mount)" "faults (db grown_mount) = []" "kinds (tabs (db grown_mount)) (i64_of_u64 2) = Some DIR"
    using grown_names grown(2) grown_kinds(2) by (simp_all add: db)
  have m: "\<exists>rid. (rid, entry 2 [102] 3) \<in> set (t_dirents (tabs (db grown_mount)))" by (rule exI[of _ 2]) (simp add: db grown)
  have one: "0 \<le> (1 :: i64) \<and> 1 \<le> i64_MAX" by (simp add: i64_MAX_def)
  from listing_resumes[OF ok(1) r ok(2,3)] obtain dot dotdot es where l: "fs_readdir grown_mount 2 0 = (Inr (dot # dotdot # es), grown_mount)"
    "\<forall>n c. (\<exists>rid. (rid, entry 2 n c) \<in> set (t_dirents (tabs (db grown_mount)))) \<longrightarrow> (\<exists>e \<in> set es. dd_name e = n \<and> dd_ino e = u64_of_i64 c)"
    "\<forall>offset. 0 \<le> offset \<and> offset \<le> i64_MAX \<longrightarrow>
       fs_readdir grown_mount 2 offset = (Inr (filter (\<lambda>e. offset < dd_offset e) (dot # dotdot # es)), grown_mount)"
    by (elim exE conjE) (rule that)
  have "\<exists>e \<in> set es. dd_name e = [102] \<and> dd_ino e = 3" using l(2)[rule_format, OF m] by simp
  then show ?thesis using l(1) l(3)[rule_format, OF one] by blast
qed

end
