(* ===== verification/Migration.thy ===== *)
theory Migration
  imports Storage
begin

text \<open>
  Opening a database (\<^verbatim>\<open>Db::initialize\<close> and \<^verbatim>\<open>migrate\<close> of \<^verbatim>\<open>src/src/db.rs\<close>): the table layouts of the
  schema versions 0 to 4 and the steps that bring an older one to the current layout. A statement
  may fail (\<open>c_faults\<close>, one entry per call into SQLite); a transaction that fails leaves the database
  file as it was. The numbers of the tables' new row ids are SQLite's (\<open>c_rowid\<close>).
\<close>

definition SCHEMA_VERSION :: i64 where "SCHEMA_VERSION = 4"

section \<open>Layouts\<close>

text \<open>A row of \<^verbatim>\<open>inodes\<close> before version 4: seconds, and nanoseconds in the columns that exist.\<close>

record old_row =
  o_kind :: i64
  o_mode :: i64
  o_uid :: i64
  o_gid :: i64
  o_size :: i64
  o_atime :: i64
  o_mtime :: i64
  o_ctime :: i64
  o_nlink :: i64
  o_nsec :: "string \<Rightarrow> i64"

datatype inodes_layout = SplitTimes "string list" "old_row table" | MergedTimes "inode_row table"
datatype dirents_layout = WithoutIds "dirent_row list" | WithIds "dirent_row table"
datatype chunks_layout = Indexed "(i64 \<times> i64 \<times> bytes) list" | Keyed "bytes table"

record schema =
  user_version :: i64
  l_inodes :: inodes_layout
  l_dirents :: dirents_layout
  l_chunks :: chunks_layout
  l_symlinks :: "bytes table"
  l_indexes :: "string list"

record conn =
  c_schema :: schema
  c_foreign_keys :: i64
  c_faults :: "SqlError option list"
  c_rowid :: "i64 list \<Rightarrow> i64 option"

text \<open>A database file before \<^verbatim>\<open>CREATE TABLE IF NOT EXISTS\<close>: any table may be missing.\<close>

record db_file =
  f_version :: i64
  f_inodes :: "inodes_layout option"
  f_dirents :: "dirents_layout option"
  f_chunks :: "chunks_layout option"
  f_symlinks :: "bytes table option"
  f_indexes :: "string list"

definition create_tables :: "db_file \<Rightarrow> schema" where
  "create_tables f =
     \<lparr>user_version = f_version f,
      l_inodes = case_option (MergedTimes []) id (f_inodes f),
      l_dirents = case_option (WithIds []) id (f_dirents f),
      l_chunks = case_option (Keyed []) id (f_chunks f),
      l_symlinks = case_option [] id (f_symlinks f),
      l_indexes = f_indexes f\<rparr>"

section \<open>Statements\<close>

definition statement :: "conn \<Rightarrow> (conn \<Rightarrow> DbError + 'a \<times> schema) \<Rightarrow> (DbError + 'a) \<times> conn" where
  "statement c body =
     (let (fault, c) = (case c_faults c of [] \<Rightarrow> (None, c) | f # fs \<Rightarrow> (f, c\<lparr>c_faults := fs\<rparr>)) in
      case fault of
        Some e \<Rightarrow> (Inl (from_sql_error e), c)
      | None \<Rightarrow> (case body c of Inl e \<Rightarrow> (Inl e, c) | Inr (a, s) \<Rightarrow> (Inr a, c\<lparr>c_schema := s\<rparr>)))"

definition no_such_column :: SqlError where
  "no_such_column = SqliteFailure (OtherCode 1) 1 (Some ''no such column'')"

definition columns_of :: "schema \<Rightarrow> string \<Rightarrow> string list" where
  "columns_of s table =
     (if table = ''inodes'' then
        (case l_inodes s of
           SplitTimes nanos _ \<Rightarrow> [''ino'', ''kind'', ''mode'', ''uid'', ''gid'', ''size'', ''atime'', ''mtime'', ''ctime'', ''nlink''] @ nanos
         | MergedTimes _ \<Rightarrow> [''ino'', ''kind'', ''mode'', ''uid'', ''gid'', ''size'', ''atime_ns'', ''mtime_ns'', ''ctime_ns'', ''nlink''])
      else if table = ''dirents'' then
        (case l_dirents s of
           WithoutIds _ \<Rightarrow> [''parent_ino'', ''name'', ''child_ino'']
         | WithIds _ \<Rightarrow> [''id'', ''parent_ino'', ''name'', ''child_ino''])
      else if table = ''file_chunks'' then
        (case l_chunks s of
           Indexed _ \<Rightarrow> [''ino'', ''chunk_index'', ''data'']
         | Keyed _ \<Rightarrow> [''id'', ''data''])
      else [])"

definition table_has_column :: "conn \<Rightarrow> string \<Rightarrow> string \<Rightarrow> (DbError + bool) \<times> conn" where
  "table_has_column c table column = statement c (\<lambda>c. Inr (column \<in> set (columns_of (c_schema c) table), c_schema c))"

text \<open>\<^verbatim>\<open>ALTER TABLE inodes ADD COLUMN column INTEGER NOT NULL DEFAULT 0\<close>\<close>

definition add_column :: "string \<Rightarrow> schema \<Rightarrow> schema" where
  "add_column column s =
     (case l_inodes s of
        SplitTimes nanos rows \<Rightarrow>
          s\<lparr>l_inodes := SplitTimes (nanos @ [column]) (map (\<lambda>(i, r). (i, r\<lparr>o_nsec := (o_nsec r)(column := 0)\<rparr>)) rows)\<rparr>
      | MergedTimes _ \<Rightarrow> s)"

fun ensure_columns :: "string list \<Rightarrow> conn \<Rightarrow> (DbError + unit) \<times> conn" where
  "ensure_columns [] c = (Inr (), c)"
| "ensure_columns (column # columns) c =
     and_then (table_has_column c ''inodes'' column) (\<lambda>present c.
       if present then ensure_columns columns c
       else and_then (statement c (\<lambda>c. Inr ((), add_column column (c_schema c)))) (\<lambda>_ c. ensure_columns columns c))"

definition ensure_nsec_columns :: "conn \<Rightarrow> (DbError + unit) \<times> conn" where
  "ensure_nsec_columns c = ensure_columns [''atime_nsec'', ''mtime_nsec'', ''ctime_nsec''] c"

definition create_index :: "string \<Rightarrow> schema \<Rightarrow> schema" where
  "create_index name s = s\<lparr>l_indexes := List.insert name (l_indexes s)\<rparr>"

text \<open>\<^verbatim>\<open>DROP TABLE\<close> drops the indexes of the table.\<close>

definition drop_indexes :: "string list \<Rightarrow> schema \<Rightarrow> schema" where
  "drop_indexes names s = s\<lparr>l_indexes := filter (\<lambda>n. n \<notin> set names) (l_indexes s)\<rparr>"

section \<open>Version 3: entry ids\<close>

fun insert_rows :: "(i64 list \<Rightarrow> i64 option) \<Rightarrow> 'r list \<Rightarrow> 'r table \<Rightarrow> 'r table option" where
  "insert_rows pick [] t = Some t"
| "insert_rows pick (r # rs) t =
     (case pick (map fst t) of None \<Rightarrow> None | Some rid \<Rightarrow> insert_rows pick rs (tbl_put rid r t))"

definition number_dirents :: "conn \<Rightarrow> DbError + unit \<times> schema" where
  "number_dirents c =
     (case l_dirents (c_schema c) of
        WithIds _ \<Rightarrow> Inr ((), c_schema c)
      | WithoutIds rows \<Rightarrow>
          (case insert_rows (c_rowid c) (sort_key d_parent (sort_key d_name rows)) [] of
             None \<Rightarrow> Inl (from_sql_error full_error)
           | Some t \<Rightarrow> Inr ((), drop_indexes [''dirents_child'', ''dirents_name'', ''dirents_scan'']
               ((c_schema c)\<lparr>l_dirents := WithIds t\<rparr>))))"

text \<open>The unique index cannot be made over two entries with the same name.\<close>

definition entry_names :: "schema \<Rightarrow> (i64 \<times> bytes) list" where
  "entry_names s = map (\<lambda>d. (d_parent d, d_name d))
     (case l_dirents s of WithoutIds rows \<Rightarrow> rows | WithIds t \<Rightarrow> map snd t)"

definition dirent_indexes :: "schema \<Rightarrow> DbError + unit \<times> schema" where
  "dirent_indexes s =
     (if ''dirents_name'' \<notin> set (l_indexes s) \<and> \<not> distinct (entry_names s)
      then Inl (from_sql_error unique_error)
      else Inr ((), create_index ''dirents_scan'' (create_index ''dirents_child'' (create_index ''dirents_name'' s))))"

section \<open>Version 4: one column per time, one key per chunk\<close>

definition merged_ns :: "i64 \<Rightarrow> i64 \<Rightarrow> i64" where
  "merged_ns sec ns =
     (if 9223372035 < sec then 9223372036854775807
      else if sec < - 9223372035 then - 9223372036854775807 - 1
      else if sec < 0 then sec * 1000000000 - ns
      else sec * 1000000000 + ns)"

definition merged_row :: "old_row \<Rightarrow> inode_row" where
  "merged_row r =
     \<lparr>r_kind = o_kind r, r_mode = o_mode r, r_uid = o_uid r, r_gid = o_gid r, r_size = o_size r,
      r_atime_ns = merged_ns (o_atime r) (o_nsec r ''atime_nsec''),
      r_mtime_ns = merged_ns (o_mtime r) (o_nsec r ''mtime_nsec''),
      r_ctime_ns = merged_ns (o_ctime r) (o_nsec r ''ctime_nsec''), r_nlink = o_nlink r\<rparr>"

text \<open>\<^verbatim>\<open>DROP TABLE inodes\<close> deletes its rows first when foreign keys are enforced, and with them, by the
  cascade, every entry and symlink target that refers to one of them.\<close>

definition cascade_dirents :: "i64 set \<Rightarrow> dirents_layout \<Rightarrow> dirents_layout" where
  "cascade_dirents inos l =
     (let gone = (\<lambda>d. d_parent d \<in> inos \<or> d_child d \<in> inos) in
      case l of WithoutIds rows \<Rightarrow> WithoutIds (filter (\<lambda>d. \<not> gone d) rows)
      | WithIds t \<Rightarrow> WithIds (tbl_delete (\<lambda>_ d. gone d) t))"

definition merge_timestamp_columns :: "conn \<Rightarrow> DbError + unit \<times> schema" where
  "merge_timestamp_columns c =
     (let s = c_schema c in
      case l_inodes s of
        MergedTimes _ \<Rightarrow> Inl (from_sql_error no_such_column)
      | SplitTimes nanos rows \<Rightarrow>
          if \<not> {''atime_nsec'', ''mtime_nsec'', ''ctime_nsec''} \<subseteq> set nanos then Inl (from_sql_error no_such_column)
          else
            let s = (if c_foreign_keys c = 0 then s
                     else s\<lparr>l_dirents := cascade_dirents (fst ` set rows) (l_dirents s),
                            l_symlinks := tbl_delete (\<lambda>i _. i \<in> fst ` set rows) (l_symlinks s)\<rparr>)
            in Inr ((), s\<lparr>l_inodes := MergedTimes (map (\<lambda>(i, r). (i, merged_row r)) rows)\<rparr>))"

definition inode_numbers :: "schema \<Rightarrow> i64 set" where
  "inode_numbers s = (case l_inodes s of SplitTimes _ rows \<Rightarrow> fst ` set rows | MergedTimes rows \<Rightarrow> fst ` set rows)"

fun insert_keyed :: "(i64 \<times> bytes) list \<Rightarrow> bytes table \<Rightarrow> bytes table option" where
  "insert_keyed [] t = Some t"
| "insert_keyed ((key, d) # rows) t =
     (if map_of t key \<noteq> None then None else insert_keyed rows (tbl_put key d t))"

text \<open>\<^verbatim>\<open>chunk_index >= MAX_CHUNKS OR ino > MAX_INO\<close>, with \<open>MAX_CHUNKS = 2\<^sup>2\<^sup>4\<close> and \<open>MAX_INO = 2\<^sup>3\<^sup>9 - 1\<close>.\<close>

definition past_limit :: "i64 \<times> i64 \<times> bytes \<Rightarrow> bool" where
  "past_limit = (\<lambda>(ino, chunk_index, _). i64_of_u64 MAX_CHUNKS \<le> chunk_index \<or> i64_of_u64 MAX_INO < ino)"

text \<open>Numbers in messages.\<close>

fun nat_string :: "nat \<Rightarrow> string" where
  "nat_string n = (if n < 10 then [char_of (48 + n)] else nat_string (n div 10) @ [char_of (48 + n mod 10)])"

declare nat_string.simps [simp del]

definition rekey_file_chunks :: "conn \<Rightarrow> (DbError + unit) \<times> conn" where
  "rekey_file_chunks c =
     and_then (statement c (\<lambda>c. case l_chunks (c_schema c) of
         Keyed _ \<Rightarrow> Inl (from_sql_error no_such_column)
       | Indexed rows \<Rightarrow> Inr (length (filter past_limit rows), c_schema c))) (\<lambda>too_large c.
     if 0 < too_large then (Inl (Sqlite (Text (''cannot upgrade to schema version '' @ nat_string (nat SCHEMA_VERSION) @ '': '' @
         nat_string too_large @ '' chunks belong to data past the 1 TiB file size limit''))), c)
     else and_then (statement c (\<lambda>c. Inr ((), c_schema c))) (\<lambda>_ c.
     statement c (\<lambda>c. case l_chunks (c_schema c) of
         Keyed _ \<Rightarrow> Inl (from_sql_error no_such_column)
       | Indexed rows \<Rightarrow>
           (case insert_keyed (map (\<lambda>(ino, chunk_index, data). (i64_of_u64 (push_bit CHUNK_BITS (u64_of_i64 ino) OR u64_of_i64 chunk_index), data))
                   (sort_key fst (sort_key (fst \<circ> snd)
                     (filter (\<lambda>(ino, _, _). ino \<in> inode_numbers (c_schema c)) rows)))) [] of
              None \<Rightarrow> Inl (from_sql_error primary_key_error)
            | Some t \<Rightarrow> Inr ((), (c_schema c)\<lparr>l_chunks := Keyed t\<rparr>)))))"

section \<open>Migration\<close>

text \<open>One step of the migration: taken or skipped.\<close>

definition when_ok :: "bool \<Rightarrow> (conn \<Rightarrow> (DbError + unit) \<times> conn) \<Rightarrow> conn \<Rightarrow> (DbError + unit) \<times> conn" where
  "when_ok b step c = (if b then step c else (Inr (), c))"

definition migrate_steps_in :: "i64 \<Rightarrow> conn \<Rightarrow> (DbError + unit) \<times> conn" where
  "migrate_steps_in version c =
     and_then (table_has_column c ''inodes'' ''mtime_ns'') (\<lambda>merged c.
     let split_timestamps = \<not> merged in
     and_then (when_ok (version < 1 \<and> split_timestamps) ensure_nsec_columns c) (\<lambda>_ c.
     and_then (when_ok (version < 2) (\<lambda>c. statement c (\<lambda>c. Inr ((), create_index ''dirents_child'' (c_schema c)))) c) (\<lambda>_ c.
     and_then (when_ok (version < 3) (\<lambda>c.
       and_then (table_has_column c ''dirents'' ''id'') (\<lambda>has_id c.
       and_then (when_ok (\<not> has_id) (\<lambda>c. statement c number_dirents) c) (\<lambda>_ c.
       statement c (\<lambda>c. dirent_indexes (c_schema c))))) c) (\<lambda>_ c.
     and_then (when_ok (version < 4) (\<lambda>c.
       and_then (when_ok split_timestamps (\<lambda>c. statement c merge_timestamp_columns) c) (\<lambda>_ c.
       and_then (table_has_column c ''file_chunks'' ''chunk_index'') (\<lambda>indexed c.
       when_ok indexed rekey_file_chunks c))) c) (\<lambda>_ c.
     and_then (statement c (\<lambda>c. Inr ((), (c_schema c)\<lparr>user_version := SCHEMA_VERSION\<rparr>))) (\<lambda>_ c.
     statement c (\<lambda>c. Inr ((), c_schema c))))))))"

text \<open>The transaction around them: any failure, the commit's included, leaves the schema as it was.\<close>

definition migrate_steps :: "conn \<Rightarrow> i64 \<Rightarrow> (DbError + unit) \<times> conn" where
  "migrate_steps c version =
     (case and_then (statement c (\<lambda>c. Inr ((), c_schema c))) (\<lambda>_ c. migrate_steps_in version c) of
        (Inl e, c') \<Rightarrow> (Inl e, c'\<lparr>c_schema := c_schema c\<rparr>)
      | (Inr _, c') \<Rightarrow> (Inr (), c'))"

definition set_foreign_keys :: "conn \<Rightarrow> i64 \<Rightarrow> (DbError + unit) \<times> conn" where
  "set_foreign_keys c v =
     and_then (statement c (\<lambda>c. Inr ((), c_schema c))) (\<lambda>_ c. (Inr (), c\<lparr>c_foreign_keys := v\<rparr>))"

definition migrate :: "conn \<Rightarrow> (DbError + unit) \<times> conn" where
  "migrate c =
     and_then (statement c (\<lambda>c. Inr (user_version (c_schema c), c_schema c))) (\<lambda>version c.
     if SCHEMA_VERSION < version then (Inl (UnsupportedSchema version), c)
     else if version = SCHEMA_VERSION then (Inr (), c)
     else
     and_then (statement c (\<lambda>c. Inr (c_foreign_keys c, c_schema c))) (\<lambda>foreign_keys c.
     and_then (set_foreign_keys c 0) (\<lambda>_ c.
     let (result, c) = migrate_steps c version in
     and_then (set_foreign_keys c foreign_keys) (\<lambda>_ c. (result, c)))))"

section \<open>Opening\<close>

text \<open>The tables, once every layout is the current one.\<close>

definition current_tables :: "schema \<Rightarrow> tables option" where
  "current_tables s =
     (case (l_inodes s, l_dirents s, l_chunks s) of
        (MergedTimes i, WithIds d, Keyed k) \<Rightarrow> Some \<lparr>t_inodes = i, t_dirents = d, t_chunks = k, t_symlinks = l_symlinks s\<rparr>
      | _ \<Rightarrow> None)"

text \<open>\<^verbatim>\<open>Db::initialize\<close>: missing tables are created, the schema is migrated, and the root directory, the link
  counts and the orphans are put in order (\<open>initialize\<close>).\<close>

definition initialize_file :: "db_file \<Rightarrow> SqlError option list \<Rightarrow> (i64 list \<Rightarrow> i64 option) \<Rightarrow> i64 \<Rightarrow> i64 \<Rightarrow> Timestamp \<Rightarrow>
    DbError + Db" where
  "initialize_file f fs pick mount_uid mount_gid now =
     (case and_then (statement \<lparr>c_schema = create_tables f, c_foreign_keys = 1, c_faults = fs, c_rowid = pick\<rparr>
             (\<lambda>c. Inr ((), c_schema c))) (\<lambda>_ c. migrate c) of
        (Inl e, c) \<Rightarrow> Inl e
      | (Inr _, c) \<Rightarrow>
          (case current_tables (c_schema c) of
             None \<Rightarrow> Inl (from_sql_error no_such_column)
           | Some t \<Rightarrow>
               (case initialize \<lparr>tabs = t, faults = c_faults c, new_rowid = c_rowid c\<rparr> mount_uid mount_gid now of
                  (Inl e, db) \<Rightarrow> Inl e
                | (Inr _, db) \<Rightarrow> Inr db)))"

definition pragma_query :: "string \<Rightarrow> DbError + string" where
  "pragma_query name =
     (if name \<in> {''busy_timeout'', ''foreign_keys'', ''journal_mode'', ''synchronous'', ''user_version''}
      then Inr (''PRAGMA '' @ name) else Inl InvalidInput)"

text \<open>\<^verbatim>\<open>sync_database_file\<close>: the write-ahead log is synced when it exists, the database otherwise; \<open>open_file\<close>
  and \<open>sync_data\<close> are the operating system's.\<close>

definition path_with_suffix :: "string \<Rightarrow> string \<Rightarrow> string" where
  "path_with_suffix path suffix = path @ suffix"

datatype open_error = FileNotFound | OtherOpenError nat

definition sync_database_file :: "(string \<Rightarrow> open_error + 'h) \<Rightarrow> ('h \<Rightarrow> open_error + unit) \<Rightarrow> string \<Rightarrow> open_error + unit" where
  "sync_database_file open_file sync_data db_path =
     (let wal_path = path_with_suffix db_path ''-wal'' in
      case open_file wal_path of
        Inr file \<Rightarrow> sync_data file
      | Inl FileNotFound \<Rightarrow> (case open_file db_path of Inl e \<Rightarrow> Inl e | Inr file \<Rightarrow> sync_data file)
      | Inl error \<Rightarrow> Inl error)"

end
