(* ===== verification/Migration_Proofs.thy ===== *)
theory Migration_Proofs
  imports Migration Tree_Ops File_Data
begin

text \<open>
  Migration keeps the data: what a database of any version holds is read off as attributes, entries,
  chunks and symlink targets, and each step is shown to keep that view until every layout is the
  current one.
\<close>

section \<open>What a database holds\<close>

abbreviation nanosecond_columns :: "string list" where
  "nanosecond_columns \<equiv> [''atime_nsec'', ''mtime_nsec'', ''ctime_nsec'']"

text \<open>A column that does not exist yet reads as zero.\<close>

definition filled :: "string list \<Rightarrow> old_row \<Rightarrow> old_row" where
  "filled nanos r = r\<lparr>o_nsec := (\<lambda>c. if c \<in> set nanos then o_nsec r c else 0)\<rparr>"

definition rows_of :: "schema \<Rightarrow> inode_row table" where
  "rows_of s = (case l_inodes s of
     SplitTimes nanos rows \<Rightarrow> map (\<lambda>(i, r). (i, merged_row (filled nanos r))) rows
   | MergedTimes rows \<Rightarrow> rows)"

definition entries_of :: "schema \<Rightarrow> dirent_row set" where
  "entries_of s = (case l_dirents s of WithoutIds rows \<Rightarrow> set rows | WithIds t \<Rightarrow> snd ` set t)"

text \<open>With the keys of the current layout, chunks past \<^verbatim>\<open>MAX_CHUNKS\<close> do not exist, and reading stops there
  (\<open>read_into\<close>): the rest of a sparse file reads as zeros.\<close>

definition chunk_of :: "schema \<Rightarrow> u64 \<Rightarrow> nat \<Rightarrow> bytes option" where
  "chunk_of s ino k = (case l_chunks s of
     Indexed rows \<Rightarrow> map_of (map (\<lambda>(i, j, d). ((i, j), d)) rows) (i64_of_u64 ino, int k)
   | Keyed t \<Rightarrow> if k < 2 ^ 24 then map_of t (chunk_key ino (of_nat k)) else None)"

definition bytes_of :: "schema \<Rightarrow> u64 \<Rightarrow> bytes option" where
  "bytes_of s ino =
     (case map_of (rows_of s) (i64_of_u64 ino) of
        None \<Rightarrow> None
      | Some r \<Rightarrow> if r_kind r = kind_as_i64 RegularFile
          then Some (map (\<lambda>p. byte_at (case_option [] id (chunk_of s ino (p div CHUNK_SIZE))) (p mod CHUNK_SIZE)) [0 ..< row_size r])
          else None)"

text \<open>A database as the versions of the program leave it.\<close>

definition inodes_fit :: "schema \<Rightarrow> bool" where
  "inodes_fit s \<longleftrightarrow> (case l_inodes s of
     SplitTimes nanos rows \<Rightarrow> user_version s < 4 \<and> (1 \<le> user_version s \<longrightarrow> set nanosecond_columns \<subseteq> set nanos) \<and>
       ''mtime_ns'' \<notin> set nanos \<and> tbl_ok rows
   | MergedTimes rows \<Rightarrow> tbl_ok rows)"

definition dirents_fit :: "schema \<Rightarrow> bool" where
  "dirents_fit s \<longleftrightarrow> distinct (entry_names s) \<and> (case l_dirents s of WithoutIds rows \<Rightarrow> user_version s < 3 | WithIds t \<Rightarrow> tbl_ok t)"

definition chunks_fit :: "schema \<Rightarrow> bool" where
  "chunks_fit s \<longleftrightarrow> (case l_chunks s of
     Indexed rows \<Rightarrow> user_version s < 4 \<and> distinct (map (\<lambda>(i, k, d). (i, k)) rows) \<and> (\<forall>(i, k, d) \<in> set rows. 0 < i \<and> 0 \<le> k)
   | Keyed t \<Rightarrow> tbl_ok t)"

definition schema_ok :: "schema \<Rightarrow> bool" where
  "schema_ok s \<longleftrightarrow> inodes_fit s \<and> dirents_fit s \<and> chunks_fit s"

lemma fits_cong:
  "user_version s' = user_version s \<Longrightarrow> l_inodes s' = l_inodes s \<Longrightarrow> inodes_fit s' = inodes_fit s"
  "user_version s' = user_version s \<Longrightarrow> l_dirents s' = l_dirents s \<Longrightarrow> dirents_fit s' = dirents_fit s"
  "user_version s' = user_version s \<Longrightarrow> l_chunks s' = l_chunks s \<Longrightarrow> chunks_fit s' = chunks_fit s"
  by (simp_all add: inodes_fit_def dirents_fit_def chunks_fit_def entry_names_def
      split: inodes_layout.split dirents_layout.split chunks_layout.split)

text \<open>Two databases that hold the same: chunks count only where their inode exists.\<close>

definition same_data :: "schema \<Rightarrow> schema \<Rightarrow> bool" where
  "same_data s s' \<longleftrightarrow> rows_of s' = rows_of s \<and> entries_of s' = entries_of s \<and> l_symlinks s' = l_symlinks s \<and>
     (\<forall>ino k. valid_ino ino \<and> map_of (rows_of s) (i64_of_u64 ino) \<noteq> None \<longrightarrow> chunk_of s' ino k = chunk_of s ino k)"

lemma same_data_refl [simp]: "same_data s s"
  by (simp add: same_data_def)

lemma same_data_trans: "same_data s t \<Longrightarrow> same_data t u \<Longrightarrow> same_data s u"
  unfolding same_data_def by auto

lemma same_data_bytes:
  assumes "same_data s s'" "valid_ino ino"
  shows "bytes_of s' ino = bytes_of s ino"
proof (cases "map_of (rows_of s) (i64_of_u64 ino)")
  case None
  then show ?thesis using assms(1) by (simp add: bytes_of_def same_data_def)
next
  case (Some r)
  then have "chunk_of s' ino k = chunk_of s ino k" for k using assms unfolding same_data_def by blast
  then show ?thesis using assms(1) Some by (simp add: bytes_of_def same_data_def)
qed

text \<open>The contents of a file of any size in the current tables.\<close>

definition sparse_bytes :: "tables \<Rightarrow> u64 \<Rightarrow> bytes option" where
  "sparse_bytes t ino =
     (case inode_row_of t ino of
        None \<Rightarrow> None
      | Some r \<Rightarrow> if r_kind r = kind_as_i64 RegularFile
          then Some (map (\<lambda>p. if p div CHUNK_SIZE < 2 ^ 24 then stored_byte t ino p else 0) [0 ..< row_size r]) else None)"

text \<open>For files within the program's size limit that is \<open>file_bytes\<close>.\<close>

lemma sparse_bytes_file:
  assumes "\<And>r. inode_row_of t ino = Some r \<Longrightarrow> row_size r \<le> max_size"
  shows "sparse_bytes t ino = file_bytes t ino"
proof (cases "inode_row_of t ino")
  case (Some r)
  have "p div CHUNK_SIZE < 2 ^ 24" if "p < row_size r" for p using that assms[OF Some] by (intro div_lt_chunks) simp
  then show ?thesis using Some by (simp add: sparse_bytes_def file_bytes_def)
qed (simp add: sparse_bytes_def file_bytes_def)

lemma sparse_bytes_of:
  assumes "current_tables s = Some t" shows "sparse_bytes t ino = bytes_of s ino"
proof -
  have "(if p div CHUNK_SIZE < 2 ^ 24 then stored_byte t ino p else 0) =
      byte_at (case_option [] id (chunk_of s ino (p div CHUNK_SIZE))) (p mod CHUNK_SIZE)" for p
    using assms by (auto simp: current_tables_def chunk_of_def stored_byte_def chunk_row_def
        split: inodes_layout.splits dirents_layout.splits chunks_layout.splits option.splits)
  moreover have "inode_row_of t ino = map_of (rows_of s) (i64_of_u64 ino)"
    using assms by (auto simp: current_tables_def rows_of_def inode_row_of_def
        split: inodes_layout.splits dirents_layout.splits chunks_layout.splits)
  ultimately show ?thesis by (simp only: sparse_bytes_def bytes_of_def)
qed

section \<open>Statements\<close>

text \<open>What every call into SQLite leaves: the settings, and no fault where there was none.\<close>

definition settled_conn :: "conn \<Rightarrow> conn \<Rightarrow> bool" where
  "settled_conn c c' \<longleftrightarrow> c_foreign_keys c' = c_foreign_keys c \<and> c_rowid c' = c_rowid c \<and> (c_faults c = [] \<longrightarrow> c_faults c' = [])"

lemma settled_conn_trans: "settled_conn c d \<Longrightarrow> settled_conn d e \<Longrightarrow> settled_conn c e"
  by (simp add: settled_conn_def)

lemma settled_conn_refl [simp]: "settled_conn c c"
  by (simp add: settled_conn_def)

lemma statement_cases:
  assumes "statement c body = (r, c')"
  obtains (fault) e where "r = Inl e" "c_schema c' = c_schema c" "settled_conn c c'" "c_faults c \<noteq> []"
  | (error) e fs where "r = Inl e" "body (c\<lparr>c_faults := fs\<rparr>) = Inl e" "c_schema c' = c_schema c" "settled_conn c c'"
  | (commit) a fs where "r = Inr a" "body (c\<lparr>c_faults := fs\<rparr>) = Inr (a, c_schema c')" "settled_conn c c'"
proof -
  have self: "c\<lparr>c_faults := []\<rparr> = c" if "c_faults c = []" using that by simp
  show thesis
  proof (cases "c_faults c")
    case Nil
    then show thesis using assms that(2)[of _ "[]"] that(3)[of _ "[]"] self[OF Nil]
      by (auto simp: statement_def settled_conn_def split: sum.splits prod.splits)
  next
    case (Cons f fs)
    then show thesis using assms that(1) that(2)[of _ fs] that(3)[of _ fs]
      by (cases f) (auto simp: statement_def settled_conn_def split: sum.splits prod.splits)
  qed
qed

lemma statement_Inr:
  assumes "statement c body = (Inr a, c')"
  obtains fs where "body (c\<lparr>c_faults := fs\<rparr>) = Inr (a, c_schema c')" "settled_conn c c'"
  using assms by (rule statement_cases) (simp_all add: that)

lemma statement_settled: "statement c body = (r, c') \<Longrightarrow> settled_conn c c'"
  by (erule statement_cases) simp_all

text \<open>A statement that only reads.\<close>

lemma statement_reads:
  assumes "statement c (\<lambda>c. Inr (g c, c_schema c)) = (r, c')" "\<And>fs. g (c\<lparr>c_faults := fs\<rparr>) = g c"
  shows "c_schema c' = c_schema c \<and> (\<forall>a. r = Inr a \<longrightarrow> a = g c) \<and> (c_faults c = [] \<longrightarrow> r = Inr (g c))"
  using assms(1) by (rule statement_cases) (simp_all add: assms(2))

lemma table_has_column_reads:
  assumes "table_has_column c table column = (r, c')"
  shows "c_schema c' = c_schema c" "settled_conn c c'" "\<And>b. r = Inr b \<Longrightarrow> b = (column \<in> set (columns_of (c_schema c) table))"
    "c_faults c = [] \<Longrightarrow> r = Inr (column \<in> set (columns_of (c_schema c) table))"
proof -
  let ?g = "\<lambda>c. column \<in> set (columns_of (c_schema c) table)"
  note st = assms[unfolded table_has_column_def]
  have r: "c_schema c' = c_schema c \<and> (\<forall>a. r = Inr a \<longrightarrow> a = ?g c) \<and> (c_faults c = [] \<longrightarrow> r = Inr (?g c))"
    by (rule statement_reads[where g = ?g, OF st]) simp
  show "settled_conn c c'" by (rule statement_settled[OF st])
  from r show "c_schema c' = c_schema c" "\<And>b. r = Inr b \<Longrightarrow> b = ?g c" "c_faults c = [] \<Longrightarrow> r = Inr (?g c)" by blast+
qed

section \<open>Steps\<close>

text \<open>A step keeps the data and ends in \<open>P\<close>; without faults and under \<open>G\<close> it succeeds.\<close>

definition goes :: "bool \<Rightarrow> conn \<Rightarrow> ('a \<Rightarrow> schema \<Rightarrow> bool) \<Rightarrow> (DbError + 'a) \<times> conn \<Rightarrow> bool" where
  "goes G c P m \<longleftrightarrow> (case m of (r, c') \<Rightarrow> settled_conn c c' \<and> (c_faults c = [] \<and> G \<longrightarrow> \<not> isl r) \<and>
     (\<forall>a. r = Inr a \<longrightarrow> schema_ok (c_schema c') \<and> same_data (c_schema c) (c_schema c') \<and> P a (c_schema c')))"

lemma goes_then:
  assumes "goes G c P m"
    and "\<And>a c1. settled_conn c c1 \<Longrightarrow> schema_ok (c_schema c1) \<Longrightarrow> P a (c_schema c1) \<Longrightarrow> goes G c1 Q (f a c1)"
  shows "goes G c Q (and_then m f)"
proof (cases m)
  case (Pair r c1)
  show ?thesis
  proof (cases r)
    case (Inr a)
    then have d: "settled_conn c c1" "same_data (c_schema c) (c_schema c1)"
      and g: "goes G c1 Q (f a c1)"
      using assms Pair unfolding goes_def by auto
    then show ?thesis using Inr Pair unfolding goes_def
      by (cases "f a c1") (auto simp: settled_conn_def intro: same_data_trans)
  qed (use assms(1) Pair in \<open>auto simp: goes_def\<close>)
qed

lemma goes_weaken: "goes G c P m \<Longrightarrow> (\<And>a s. P a s \<Longrightarrow> Q a s) \<Longrightarrow> goes G c Q m"
  by (auto simp: goes_def split: prod.splits)

lemma goes_return: "schema_ok (c_schema c) \<Longrightarrow> P a (c_schema c) \<Longrightarrow> goes G c P (Inr a, c)"
  by (simp add: goes_def)

lemma goes_when:
  assumes "b \<Longrightarrow> goes G c P (f c)" "\<not> b \<Longrightarrow> schema_ok (c_schema c) \<and> P () (c_schema c)"
  shows "goes G c P (when_ok b f c)"
  using assms by (auto simp: when_ok_def intro: goes_return)

text \<open>A statement with a given effect on the schema.\<close>

lemma goes_statement:
  assumes "\<And>fs a s. body (c\<lparr>c_faults := fs\<rparr>) = Inr (a, s) \<Longrightarrow> schema_ok s \<and> same_data (c_schema c) s \<and> P a s"
    and "\<And>fs. G \<Longrightarrow> \<not> isl (body (c\<lparr>c_faults := fs\<rparr>))"
  shows "goes G c P (statement c body)"
proof (cases "statement c body")
  case (Pair r c')
  show ?thesis using Pair
  proof (rule statement_cases)
    fix e assume "r = Inl e" "settled_conn c c'" "c_faults c \<noteq> []"
    then show ?thesis using Pair by (simp add: goes_def)
  next
    fix e fs assume "r = Inl e" "body (c\<lparr>c_faults := fs\<rparr>) = Inl e" "settled_conn c c'"
    then show ?thesis using Pair assms(2)[of fs] by (auto simp: goes_def)
  next
    fix a fs assume "r = Inr a" "body (c\<lparr>c_faults := fs\<rparr>) = Inr (a, c_schema c')" "settled_conn c c'"
    then show ?thesis using Pair assms(1)[of fs a] by (auto simp: goes_def)
  qed
qed

lemma goes_read:
  assumes "schema_ok (c_schema c)"
  shows "goes G c (\<lambda>a s. s = c_schema c \<and> a = g (c_schema c)) (statement c (\<lambda>c. Inr (g (c_schema c), c_schema c)))"
  using assms by (intro goes_statement) auto

lemma goes_column:
  "schema_ok (c_schema c) \<Longrightarrow>
    goes G c (\<lambda>b s. s = c_schema c \<and> b = (column \<in> set (columns_of (c_schema c) table))) (table_has_column c table column)"
  unfolding table_has_column_def by (rule goes_read)

subsection \<open>Nanosecond columns\<close>

text \<open>What may change of the inode layout before the times are merged.\<close>

definition only_columns :: "schema \<Rightarrow> string list \<Rightarrow> schema \<Rightarrow> bool" where
  "only_columns s columns s' \<longleftrightarrow> user_version s' = user_version s \<and> l_dirents s' = l_dirents s \<and> l_chunks s' = l_chunks s \<and>
     (case l_inodes s of MergedTimes rows \<Rightarrow> l_inodes s' = l_inodes s
      | SplitTimes nanos rows \<Rightarrow> \<exists>nanos' rows'. l_inodes s' = SplitTimes nanos' rows' \<and> set nanos \<union> set columns \<subseteq> set nanos')"

lemma filled_add: "column \<notin> set nanos \<Longrightarrow>
    filled (nanos @ [column]) (r\<lparr>o_nsec := (o_nsec r)(column := 0)\<rparr>) = filled nanos r"
  by (auto simp: filled_def fun_eq_iff)

lemma map_fst_pair: "map fst (map (\<lambda>(i, r). (i, g i r)) xs) = map fst xs"
  by (simp add: comp_def case_prod_beta)

lemma add_column_ok:
  assumes ok: "schema_ok s" and "column \<noteq> ''mtime_ns''" "column \<notin> set (columns_of s ''inodes'')" "\<exists>n r. l_inodes s = SplitTimes n r"
  shows "schema_ok (add_column column s)" "same_data s (add_column column s)" "only_columns s [column] (add_column column s)"
proof -
  obtain n rows where l: "l_inodes s = SplitTimes n rows" using assms(4) by blast
  then have c: "column \<notin> set n" using assms(3) by (auto simp: columns_of_def)
  let ?rows = "map (\<lambda>(i, r). (i, r\<lparr>o_nsec := (o_nsec r)(column := 0)\<rparr>)) rows"
  have e: "add_column column s = s\<lparr>l_inodes := SplitTimes (n @ [column]) ?rows\<rparr>" using l by (simp add: add_column_def)
  have "tbl_ok ?rows = tbl_ok rows" unfolding tbl_ok_def map_fst_pair ..
  then have "inodes_fit (add_column column s)" using ok l assms(2) unfolding e by (auto simp: schema_ok_def inodes_fit_def)
  then show "schema_ok (add_column column s)" using ok fits_cong(2,3)[of "add_column column s" s] unfolding e
    by (simp add: schema_ok_def)
  have "rows_of (add_column column s) = rows_of s" unfolding e using l filled_add[OF c]
    by (simp add: rows_of_def comp_def case_prod_beta)
  then show "same_data s (add_column column s)" unfolding e by (simp add: same_data_def entries_of_def chunk_of_def)
  show "only_columns s [column] (add_column column s)" using l unfolding e by (auto simp: only_columns_def)
qed

lemma only_columns_trans: "only_columns s xs t \<Longrightarrow> only_columns t ys u \<Longrightarrow> only_columns s (xs @ ys) u"
  unfolding only_columns_def by (auto split: inodes_layout.splits)

lemma only_columns_self: "\<exists>n r. l_inodes s = SplitTimes n r \<and> set xs \<subseteq> set n \<Longrightarrow> only_columns s xs s"
  by (auto simp: only_columns_def)

lemma ensure_columns_goes:
  assumes "schema_ok (c_schema c)" "\<exists>n r. l_inodes (c_schema c) = SplitTimes n r"
    "set columns \<inter> {''mtime_ns'', ''ino'', ''kind'', ''mode'', ''uid'', ''gid'', ''size'', ''atime'', ''mtime'', ''ctime'', ''nlink''} = {}"
  shows "goes G c (\<lambda>_ s. only_columns (c_schema c) columns s) (ensure_columns columns c)"
  using assms
proof (induction columns arbitrary: c)
  case Nil
  then show ?case by (auto intro!: goes_return only_columns_self)
next
  case (Cons column columns)
  show ?case unfolding ensure_columns.simps
  proof (rule goes_then[OF goes_column[OF Cons.prems(1)]], goal_cases)
    case (1 present c1)
    then have s1: "c_schema c1 = c_schema c" and p: "present = (column \<in> set (columns_of (c_schema c) ''inodes''))" by simp_all
    show ?case
    proof (cases present)
      case True
      have "column \<in> set n" if "l_inodes (c_schema c) = SplitTimes n r" for n r
        using True p that Cons.prems(3) by (auto simp: columns_of_def)
      then have one: "only_columns (c_schema c) [column] (c_schema c1)" using Cons.prems(2) s1 by (auto intro!: only_columns_self)
      have "goes G c1 (\<lambda>_ s. only_columns (c_schema c1) columns s) (ensure_columns columns c1)"
        using Cons.IH[of c1] Cons.prems s1 by simp
      then have "goes G c1 (\<lambda>_ s. only_columns (c_schema c) (column # columns) s) (ensure_columns columns c1)"
        by (rule goes_weaken) (use only_columns_trans[OF one] in simp)
      then show ?thesis using True by simp
    next
      case False
      let ?add = "\<lambda>c. Inr ((), add_column column (c_schema c)) :: DbError + unit \<times> schema"
      have cm: "column \<noteq> ''mtime_ns''" and cn: "column \<notin> set (columns_of (c_schema c) ''inodes'')" using Cons.prems(3) False p by auto
      note a = add_column_ok[OF Cons.prems(1) cm cn Cons.prems(2)]
      have "goes G c1 (\<lambda>_ s. s = add_column column (c_schema c)) (statement c1 ?add)"
        by (rule goes_statement) (use a s1 in auto)
      then have "goes G c1 (\<lambda>_ s. only_columns (c_schema c) (column # columns) s)
          (and_then (statement c1 ?add) (\<lambda>_ c. ensure_columns columns c))"
      proof (rule goes_then, goal_cases)
        case (1 u c2)
        have "\<exists>n r. l_inodes (c_schema c2) = SplitTimes n r" using 1(3) a(3) Cons.prems(2) by (auto simp: only_columns_def)
        then have "goes G c2 (\<lambda>_ s. only_columns (c_schema c2) columns s) (ensure_columns columns c2)"
          using Cons.IH[of c2] 1(2) Cons.prems(3) by simp
        then show ?case by (rule goes_weaken) (use only_columns_trans[OF a(3)] 1(3) in simp)
      qed
      then show ?thesis using False by simp
    qed
  qed
qed

subsection \<open>Entry ids\<close>

lemma mset_tbl_put: "k \<notin> fst ` set t \<Longrightarrow> mset (map snd (tbl_put k r t)) = add_mset r (mset (map snd t))"
  by (induction k r t rule: tbl_put.induct) auto

lemma insert_rows_spec:
  assumes "rowids_fresh pick"
  shows "insert_rows pick rs t = Some t' \<Longrightarrow> tbl_ok t \<Longrightarrow> tbl_ok t' \<and> mset (map snd t') = mset rs + mset (map snd t)"
proof (induction rs arbitrary: t)
  case (Cons r rs)
  then obtain k where k: "pick (map fst t) = Some k" "insert_rows pick rs (tbl_put k r t) = Some t'" by (auto split: option.splits)
  have "k \<notin> fst ` set t" using assms k(1) unfolding rowids_fresh_def by (metis list.set_map)
  then show ?case using Cons.IH[OF k(2) tbl_ok_put[OF Cons.prems(2)]] mset_tbl_put[of k t r] by simp
qed simp

lemma number_dirents_ok:
  assumes ok: "schema_ok (c_schema c)" and f: "rowids_fresh (c_rowid c)" and n: "number_dirents c = Inr (a, s')"
  shows "schema_ok s'" "same_data (c_schema c) s'" "\<exists>t. l_dirents s' = WithIds t" "l_inodes s' = l_inodes (c_schema c)"
    "l_chunks s' = l_chunks (c_schema c)" "user_version s' = user_version (c_schema c)"
proof -
  let ?s = "c_schema c"
  have "schema_ok s' \<and> same_data ?s s' \<and> (\<exists>t. l_dirents s' = WithIds t) \<and> l_inodes s' = l_inodes ?s \<and> l_chunks s' = l_chunks ?s \<and>
    user_version s' = user_version ?s"
  proof (cases "l_dirents ?s")
    case (WithIds t)
    then show ?thesis using n ok by (simp add: number_dirents_def)
  next
    case (WithoutIds rows)
    then obtain t where t: "insert_rows (c_rowid c) (sort_key d_parent (sort_key d_name rows)) [] = Some t"
      and s': "s' = drop_indexes [''dirents_child'', ''dirents_name'', ''dirents_scan''] (?s\<lparr>l_dirents := WithIds t\<rparr>)"
      using n by (auto simp: number_dirents_def split: option.splits)
    have m: "tbl_ok t" "mset (map snd t) = mset rows" using insert_rows_spec[OF f t] by (simp_all add: tbl_ok_def)
    have e: "set rows = snd ` set t" using arg_cong[OF m(2), of set_mset] by simp
    let ?g = "\<lambda>d. (d_parent d, d_name d)"
    have "mset (map ?g (map snd t)) = mset (map ?g rows)" unfolding mset_map[of ?g "map snd t"] m(2) by simp
    then have "mset (entry_names s') = mset (entry_names ?s)" using WithoutIds by (simp add: entry_names_def s' drop_indexes_def)
    then have "distinct (entry_names s')" using ok mset_eq_imp_distinct_iff unfolding schema_ok_def dirents_fit_def by blast
    then have "dirents_fit s'" using m(1) by (simp add: dirents_fit_def s' drop_indexes_def)
    then have "schema_ok s'" using ok fits_cong(1,3)[of s' ?s] by (simp add: schema_ok_def s' drop_indexes_def)
    then show ?thesis using WithoutIds e by (simp add: s' drop_indexes_def same_data_def rows_of_def chunk_of_def entries_of_def)
  qed
  then show "schema_ok s'" "same_data (c_schema c) s'" "\<exists>t. l_dirents s' = WithIds t" "l_inodes s' = l_inodes (c_schema c)"
    "l_chunks s' = l_chunks (c_schema c)" "user_version s' = user_version (c_schema c)" by auto
qed

text \<open>Indexes hold no data.\<close>

lemma indexes_only:
  assumes "schema_ok s"
  shows "schema_ok (s\<lparr>l_indexes := x\<rparr>)" "same_data s (s\<lparr>l_indexes := x\<rparr>)"
  using assms fits_cong[of "s\<lparr>l_indexes := x\<rparr>" s]
  by (simp_all add: schema_ok_def same_data_def rows_of_def entries_of_def chunk_of_def)

subsection \<open>Merged times\<close>

lemma merge_ok:
  assumes ok: "schema_ok (c_schema c)" and fk: "c_foreign_keys c = 0" and m: "merge_timestamp_columns c = Inr (a, s')"
  shows "schema_ok s'" "same_data (c_schema c) s'" "\<exists>t. l_inodes s' = MergedTimes t" "l_dirents s' = l_dirents (c_schema c)"
    "l_chunks s' = l_chunks (c_schema c)" "user_version s' = user_version (c_schema c)"
proof -
  let ?s = "c_schema c"
  obtain nanos rows where l: "l_inodes ?s = SplitTimes nanos rows" "set nanosecond_columns \<subseteq> set nanos"
    and s': "s' = ?s\<lparr>l_inodes := MergedTimes (map (\<lambda>(i, r). (i, merged_row r)) rows)\<rparr>"
    using m fk by (auto simp: merge_timestamp_columns_def Let_def split: inodes_layout.splits if_splits)
  have "tbl_ok rows" using ok l by (simp add: schema_ok_def inodes_fit_def)
  then have "tbl_ok (map (\<lambda>(i, r). (i, merged_row r)) rows)" unfolding tbl_ok_def map_fst_pair .
  then have "inodes_fit s'" by (simp add: inodes_fit_def s')
  then show "schema_ok s'" using ok fits_cong(2,3)[of s' ?s] by (simp add: schema_ok_def s')
  have "merged_row (filled nanos r) = merged_row r" for r using l(2) by (simp add: merged_row_def filled_def)
  then have "rows_of s' = rows_of ?s" using l(1) by (simp add: rows_of_def s')
  then show "same_data ?s s'" by (simp add: same_data_def entries_of_def chunk_of_def s')
  show "\<exists>t. l_inodes s' = MergedTimes t" "l_dirents s' = l_dirents ?s" "l_chunks s' = l_chunks ?s" "user_version s' = user_version ?s"
    by (simp_all add: s')
qed

subsection \<open>Chunk keys\<close>

lemma insert_keyed_spec:
  assumes "tbl_ok t" "distinct (map fst rows)" "\<forall>key \<in> fst ` set rows. map_of t key = None"
  shows "\<exists>t'. insert_keyed rows t = Some t' \<and> tbl_ok t' \<and> map_of t' = map_of t ++ map_of rows"
  using assms
proof (induction rows arbitrary: t)
  case (Cons x rows)
  obtain key d where x: "x = (key, d)" by (cases x)
  have f: "map_of t key = None" "key \<notin> fst ` set rows" using Cons.prems x by auto
  have "\<forall>k \<in> fst ` set rows. map_of (tbl_put key d t) k = None"
    using Cons.prems(3) f(2) x unfolding map_of_tbl_put by auto
  moreover have "distinct (map fst rows)" using Cons.prems(2) by simp
  ultimately obtain t' where t': "insert_keyed rows (tbl_put key d t) = Some t'" "tbl_ok t'"
    "map_of t' = map_of (tbl_put key d t) ++ map_of rows"
    using Cons.IH[OF tbl_ok_put[OF Cons.prems(1)], of key d] by blast
  have "map_of rows key = None" using f(2) by (simp add: map_of_eq_None_iff)
  then have "map_of t' = map_of t ++ map_of (x # rows)"
    unfolding t'(3) map_of_tbl_put x by (auto simp: fun_eq_iff map_add_def split: option.splits)
  moreover have "insert_keyed (x # rows) t = Some t'" using t'(1) f(1) x by simp
  ultimately show ?case using t'(2) by blast
qed simp

definition new_key :: "i64 \<times> i64 \<times> bytes \<Rightarrow> i64" where
  "new_key = (\<lambda>(ino, chunk_index, _). i64_of_u64 (push_bit CHUNK_BITS (u64_of_i64 ino) OR u64_of_i64 chunk_index))"

lemma not_past_limit: "\<not> past_limit (i, k, d) \<longleftrightarrow> i < 2 ^ 39 \<and> k < 2 ^ 24"
proof -
  have "i64_of_u64 MAX_CHUNKS = 2 ^ 24" using i64_of_u64_small[of MAX_CHUNKS] by (simp add: unat_MAX_CHUNKS)
  moreover have "i64_of_u64 MAX_INO = 2 ^ 39 - 1" using i64_of_u64_small[of MAX_INO] by (simp add: unat_MAX_INO)
  ultimately show ?thesis by (auto simp: past_limit_def)
qed

lemma new_key_chunk_key:
  assumes "0 < i" "0 \<le> k" "\<not> past_limit (i, k, d)"
  shows "new_key (i, k, d) = chunk_key (u64_of_i64 i) (of_nat (nat k))" "valid_ino (u64_of_i64 i)" "nat k < 2 ^ 24"
    "i64_of_u64 (u64_of_i64 i) = i"
proof -
  have b: "i < 2 ^ 39" "k < 2 ^ 24" using assms(3) by (simp_all add: not_past_limit)
  have "u64_of_i64 k = of_nat (nat k)" using assms(2) by (simp add: u64_of_i64_def)
  then show "new_key (i, k, d) = chunk_key (u64_of_i64 i) (of_nat (nat k))" by (simp add: new_key_def chunk_key_def)
  have "unat (u64_of_i64 i) = nat i" using assms(1) b(1) by (simp add: u64_of_i64_def unsigned_of_int take_bit_int_eq_self)
  then show "valid_ino (u64_of_i64 i)" using b(1) by (simp add: valid_ino_unat nat_less_iff assms(1) less_imp_le)
  show "nat k < 2 ^ 24" using b(2) assms(2) by (simp add: nat_less_iff)
  show "i64_of_u64 (u64_of_i64 i) = i" using b assms(1) by (intro i64_u64_i64) (simp add: in_i64_def i64_MIN_def i64_MAX_def)
qed

definition within :: "i64 \<times> i64 \<times> bytes \<Rightarrow> bool" where
  "within x \<longleftrightarrow> (case x of (i, k, _) \<Rightarrow> 0 < i \<and> 0 \<le> k) \<and> \<not> past_limit x"

lemma within_key_eq:
  assumes w: "within (i, j, b)" and v: "valid_ino ino" "k < 2 ^ 24"
  shows "chunk_key ino (of_nat k) = new_key (i, j, b) \<longleftrightarrow> i = i64_of_u64 ino \<and> j = int k"
proof -
  have w': "0 < i" "0 \<le> j" "\<not> past_limit (i, j, b)" using w by (simp_all add: within_def)
  note n = new_key_chunk_key[OF w']
  have "chunk_key ino (of_nat k) = new_key (i, j, b) \<longleftrightarrow> ino = u64_of_i64 i \<and> k = nat j"
    unfolding n(1) by (rule chunk_key_inject[OF v(1) n(2) v(2) n(3)])
  then show ?thesis using n(4) w'(2) by (auto simp: u64_i64_u64)
qed

lemma within_key_inj: "within (i, k, b) \<Longrightarrow> within (i', k', b') \<Longrightarrow> new_key (i, k, b) = new_key (i', k', b') \<Longrightarrow> i = i' \<and> k = k'"
  using within_key_eq[of i' k' b' "u64_of_i64 i" "nat k"] new_key_chunk_key[of i k b] by (auto simp: within_def)

lemma same_option: "(\<And>b. x = Some b \<longleftrightarrow> y = Some b) \<Longrightarrow> x = y"
  by (cases x; cases y) auto

text \<open>The new chunk table, for a list of old rows within the limits.\<close>

lemma keyed_rows:
  assumes d: "distinct (map (\<lambda>(i, k, d). (i, k)) rows)" and w: "\<forall>x \<in> set rows. within x"
    and m: "mset sorted_rows = mset (filter (\<lambda>(i, _, _). i \<in> inos) rows)"
  shows "\<exists>t. insert_keyed (map (\<lambda>x. (new_key x, snd (snd x))) sorted_rows) [] = Some t \<and> tbl_ok t \<and>
    (\<forall>ino k. valid_ino ino \<and> k < 2 ^ 24 \<and> i64_of_u64 ino \<in> inos \<longrightarrow>
       map_of t (chunk_key ino (of_nat k)) = map_of (map (\<lambda>(i, j, d). ((i, j), d)) rows) (i64_of_u64 ino, int k))"
proof -
  let ?new = "map (\<lambda>x. (new_key x, snd (snd x))) sorted_rows"
  let ?old = "map (\<lambda>(i, j, d). ((i, j), d)) rows"
  have set_eq: "set sorted_rows = {(i, k, b) \<in> set rows. i \<in> inos}" using arg_cong[OF m, of set_mset] by auto
  have "distinct (map (\<lambda>(i, k, b). (i, k)) (filter (\<lambda>(i, _, _). i \<in> inos) rows))" using d by (rule distinct_map_filter)
  then have du: "distinct (map (\<lambda>(i, k, b). (i, k)) sorted_rows)"
    using arg_cong[OF m, of "image_mset (\<lambda>(i, k, b). (i, k))"] mset_eq_imp_distinct_iff unfolding mset_map[symmetric] by blast
  have "inj_on new_key (set sorted_rows)"
  proof (rule inj_onI)
    fix x y assume xy: "x \<in> set sorted_rows" "y \<in> set sorted_rows" "new_key x = new_key y"
    obtain i k b i' k' b' where [simp]: "x = (i, k, b)" "y = (i', k', b')" by (cases x; cases y) auto
    have "(\<lambda>(i, k, b). (i, k)) x = (\<lambda>(i, k, b). (i, k)) y" using within_key_inj[of i k b i' k' b'] xy set_eq w by auto
    then show "x = y" using du xy(1,2) unfolding distinct_map inj_on_def by blast
  qed
  then have dn: "distinct (map fst ?new)" using du by (auto simp: distinct_map comp_def inj_on_def)
  obtain t where t: "insert_keyed ?new [] = Some t" "tbl_ok t" "map_of t = map_of ?new"
    using insert_keyed_spec[of "[]" ?new] dn by (auto simp: tbl_ok_def)
  have mo: "map fst ?old = map (\<lambda>(i, k, d). (i, k)) rows" by (simp add: comp_def case_prod_unfold)
  have do: "distinct (map fst ?old)" unfolding mo by (rule d)
  have look: "map_of ?new (chunk_key ino (of_nat k)) = Some b \<longleftrightarrow> map_of ?old (i64_of_u64 ino, int k) = Some b"
    if v: "valid_ino ino" "k < 2 ^ 24" "i64_of_u64 ino \<in> inos" for ino k b
  proof -
    have "(chunk_key ino (of_nat k), b) \<in> set ?new \<longleftrightarrow> (i64_of_u64 ino, int k, b) \<in> set rows"
      using within_key_eq[OF _ v(1,2)] w v(3) set_eq by fastforce
    then show ?thesis unfolding map_of_eq_Some_iff[OF dn] map_of_eq_Some_iff[OF do] by force
  qed
  then have "map_of t (chunk_key ino (of_nat k)) = map_of ?old (i64_of_u64 ino, int k)"
    if "valid_ino ino" "k < 2 ^ 24" "i64_of_u64 ino \<in> inos" for ino k unfolding t(3) by (intro same_option look that)
  with t(1,2) show ?thesis by blast
qed

definition in_limits :: "schema \<Rightarrow> bool" where
  "in_limits s \<longleftrightarrow> (case l_chunks s of Indexed rows \<Rightarrow> filter past_limit rows = [] | Keyed _ \<Rightarrow> True)"

lemma inode_numbers_rows: "inode_numbers s = fst ` set (rows_of s)"
  by (force simp: inode_numbers_def rows_of_def split: inodes_layout.splits)

lemma rekey_goes:
  assumes ok: "schema_ok (c_schema c)" and l: "l_chunks (c_schema c) = Indexed rows" and g: "G \<Longrightarrow> in_limits (c_schema c)"
  shows "goes G c (\<lambda>_ s. in_limits (c_schema c) \<and> (\<exists>t. l_chunks s = Keyed t) \<and> l_inodes s = l_inodes (c_schema c) \<and>
      l_dirents s = l_dirents (c_schema c)) (rekey_file_chunks c)"
proof -
  let ?s = "c_schema c"
  let ?sorted = "sort_key fst (sort_key (fst \<circ> snd) (filter (\<lambda>(ino, _, _). ino \<in> inode_numbers ?s) rows))"
  let ?new = "map (\<lambda>x. (new_key x, snd (snd x))) ?sorted"
  have new: "map (\<lambda>(ino, chunk_index, data). (i64_of_u64 (push_bit CHUNK_BITS (u64_of_i64 ino) OR u64_of_i64 chunk_index), data)) xs =
      map (\<lambda>x. (new_key x, snd (snd x))) xs" for xs by (simp add: new_key_def case_prod_unfold)
  have first: "goes G c (\<lambda>n s. s = ?s \<and> n = length (filter past_limit rows))
      (statement c (\<lambda>c. case l_chunks (c_schema c) of
         Keyed _ \<Rightarrow> Inl (from_sql_error no_such_column) | Indexed rows \<Rightarrow> Inr (length (filter past_limit rows), c_schema c)))"
    by (rule goes_statement) (use ok l in auto)
  show ?thesis unfolding rekey_file_chunks_def
  proof (rule goes_then[OF first], goal_cases)
    case (1 n c1)
    then have s1: "c_schema c1 = ?s" and n: "n = length (filter past_limit rows)" by simp_all
    show ?case
    proof (cases "0 < n")
      case True
      then have "\<not> G" using g l n by (auto simp: in_limits_def)
      then show ?thesis using True by (simp add: goes_def)
    next
      case False
      then have w: "\<forall>x \<in> set rows. within x"
        using ok l n by (auto simp: schema_ok_def chunks_fit_def within_def filter_empty_conv)
      have lim: "in_limits ?s" using False n l by (simp add: in_limits_def)
      have d: "distinct (map (\<lambda>(i, k, d). (i, k)) rows)" using ok l by (simp add: schema_ok_def chunks_fit_def)
      obtain t where t: "insert_keyed ?new [] = Some t" "tbl_ok t"
        "\<And>ino k. valid_ino ino \<and> k < 2 ^ 24 \<and> i64_of_u64 ino \<in> inode_numbers ?s \<Longrightarrow>
          map_of t (chunk_key ino (of_nat k)) = map_of (map (\<lambda>(i, j, d). ((i, j), d)) rows) (i64_of_u64 ino, int k)"
        using keyed_rows[OF d w, of ?sorted "inode_numbers ?s"] by auto
      let ?s' = "?s\<lparr>l_chunks := Keyed t\<rparr>"
      have "chunks_fit ?s'" using t(2) by (simp add: chunks_fit_def)
      then have ok': "schema_ok ?s'" using ok fits_cong(1,2)[of ?s' ?s] by (simp add: schema_ok_def)
      have "i64_of_u64 ino \<in> inode_numbers ?s" if "map_of (rows_of ?s) (i64_of_u64 ino) \<noteq> None" for ino
        using that unfolding inode_numbers_rows map_of_eq_None_iff by simp
      moreover have "map_of (map (\<lambda>(i, j, d). ((i, j), d)) rows) (i64_of_u64 ino, int k) = None" if "\<not> k < 2 ^ 24" for ino k
        using w that by (auto simp: map_of_eq_None_iff within_def not_past_limit)
      ultimately have same: "same_data ?s ?s'" using t(3) l by (simp add: same_data_def rows_of_def entries_of_def chunk_of_def)
      show ?thesis
      proof (simp only: False if_False, rule goes_then[OF goes_read[of c1 G "\<lambda>_. ()"]], goal_cases)
        case 1
        then show ?case using s1 ok by simp
      next
        case (2 u c2)
        then have s2: "c_schema c2 = ?s" using s1 by simp
        show ?case by (rule goes_statement) (use s2 l t(1) ok' same lim in \<open>auto simp: new\<close>)
      qed
    qed
  qed
qed

section \<open>All steps\<close>

definition split_times :: "schema \<Rightarrow> bool" where
  "split_times s \<longleftrightarrow> (case l_inodes s of SplitTimes _ _ \<Rightarrow> True | MergedTimes _ \<Rightarrow> False)"

definition has_columns :: "schema \<Rightarrow> bool" where
  "has_columns s \<longleftrightarrow> (case l_inodes s of SplitTimes nanos _ \<Rightarrow> set nanosecond_columns \<subseteq> set nanos | MergedTimes _ \<Rightarrow> True)"

definition with_ids :: "schema \<Rightarrow> bool" where
  "with_ids s \<longleftrightarrow> (case l_dirents s of WithIds _ \<Rightarrow> True | WithoutIds _ \<Rightarrow> False)"

definition with_keys :: "schema \<Rightarrow> bool" where
  "with_keys s \<longleftrightarrow> (case l_chunks s of Keyed _ \<Rightarrow> True | Indexed _ \<Rightarrow> False)"

lemmas layout_defs = split_times_def has_columns_def with_ids_def with_keys_def

lemma split_times_column:
  "schema_ok s \<Longrightarrow> ''mtime_ns'' \<in> set (columns_of s ''inodes'') \<longleftrightarrow> \<not> split_times s"
  by (auto simp: columns_of_def split_times_def schema_ok_def inodes_fit_def split: inodes_layout.splits)

lemma with_ids_column: "''id'' \<in> set (columns_of s ''dirents'') \<longleftrightarrow> with_ids s"
  by (auto simp: columns_of_def with_ids_def split: dirents_layout.splits)

lemma with_keys_column: "''chunk_index'' \<in> set (columns_of s ''file_chunks'') \<longleftrightarrow> \<not> with_keys s"
  by (auto simp: columns_of_def with_keys_def split: chunks_layout.splits)

text \<open>Entry ids can be given when SQLite finds one for every entry.\<close>

definition numberable :: "(i64 list \<Rightarrow> i64 option) \<Rightarrow> schema \<Rightarrow> bool" where
  "numberable pick s \<longleftrightarrow> (case l_dirents s of WithIds _ \<Rightarrow> True
     | WithoutIds rows \<Rightarrow> insert_rows pick (sort_key d_parent (sort_key d_name rows)) [] \<noteq> None)"

text \<open>How far the migration of \<open>s0\<close> has come.\<close>

definition stage1 :: "schema \<Rightarrow> schema \<Rightarrow> bool" where
  "stage1 s0 s \<longleftrightarrow> user_version s = user_version s0 \<and> l_chunks s = l_chunks s0 \<and> l_dirents s = l_dirents s0 \<and>
     split_times s = split_times s0 \<and> has_columns s"

definition stage2 :: "schema \<Rightarrow> schema \<Rightarrow> bool" where
  "stage2 s0 s \<longleftrightarrow> user_version s = user_version s0 \<and> l_chunks s = l_chunks s0 \<and> split_times s = split_times s0 \<and>
     has_columns s \<and> with_ids s"

definition stage3 :: "schema \<Rightarrow> bool" where
  "stage3 s \<longleftrightarrow> with_ids s \<and> \<not> split_times s \<and> with_keys s"

lemma nanoseconds_goes:
  assumes "schema_ok (c_schema c)"
  shows "goes G c (\<lambda>_ s. stage1 (c_schema c) s)
    (when_ok (user_version (c_schema c) < 1 \<and> split_times (c_schema c)) ensure_nsec_columns c)"
proof (rule goes_when, goal_cases)
  case 1
  then have "\<exists>n r. l_inodes (c_schema c) = SplitTimes n r" by (auto simp: split_times_def split: inodes_layout.splits)
  then have "goes G c (\<lambda>_ s. only_columns (c_schema c) nanosecond_columns s) (ensure_columns nanosecond_columns c)"
    by (intro ensure_columns_goes assms) simp_all
  then show ?case unfolding ensure_nsec_columns_def
    by (rule goes_weaken) (auto simp: only_columns_def stage1_def layout_defs split: inodes_layout.splits)
next
  case 2
  then show ?case using assms by (auto simp: stage1_def layout_defs schema_ok_def inodes_fit_def split: inodes_layout.splits)
qed

lemma indexes_goes:
  assumes "schema_ok (c_schema c)" "P (c_schema c)" "\<And>s x. P (s\<lparr>l_indexes := x\<rparr>) = P s"
  shows "goes G c (\<lambda>_ s. P s) (statement c (\<lambda>c. Inr ((), create_index name (c_schema c))))"
    "goes G c (\<lambda>_ s. P s) (statement c (\<lambda>c. dirent_indexes (c_schema c)))"
  using assms indexes_only[OF assms(1)]
  by (intro goes_statement; auto simp: create_index_def dirent_indexes_def schema_ok_def dirents_fit_def split: if_splits)+

lemma entry_ids_goes:
  assumes ok: "schema_ok (c_schema c)" and s1: "stage1 s0 (c_schema c)" and f: "rowids_fresh (c_rowid c)"
    and g: "G \<Longrightarrow> numberable (c_rowid c) (c_schema c)"
  shows "goes G c (\<lambda>_ s. stage2 s0 s) (when_ok (user_version s0 < 3) (\<lambda>c.
       and_then (table_has_column c ''dirents'' ''id'') (\<lambda>has_id c.
       and_then (when_ok (\<not> has_id) (\<lambda>c. statement c number_dirents) c) (\<lambda>_ c.
       statement c (\<lambda>c. dirent_indexes (c_schema c))))) c)"
proof (rule goes_when, goal_cases)
  case 1
  show ?case
  proof (rule goes_then[OF goes_column[OF ok]], goal_cases)
    case (1 has_id c1)
    then have c1: "c_schema c1 = c_schema c" "has_id = with_ids (c_schema c)" "c_rowid c1 = c_rowid c"
      by (simp_all add: with_ids_column settled_conn_def)
    have "goes G c1 (\<lambda>_ s. stage2 s0 s) (when_ok (\<not> has_id) (\<lambda>c. statement c number_dirents) c1)"
    proof (rule goes_when, goal_cases)
      case 1
      show ?case
      proof (rule goes_statement, goal_cases)
        case (1 fs a s)
        have "schema_ok (c_schema (c1\<lparr>c_faults := fs\<rparr>))" "rowids_fresh (c_rowid (c1\<lparr>c_faults := fs\<rparr>))" using ok f c1 by simp_all
        from number_dirents_ok[OF this 1] show ?case using s1 c1 by (auto simp: stage1_def stage2_def layout_defs)
      next
        case (2 fs)
        then show ?case using g c1 by (auto simp: number_dirents_def numberable_def split: dirents_layout.splits option.splits)
      qed
    next
      case 2
      then show ?case using ok s1 c1 by (simp add: stage1_def stage2_def)
    qed
    then show ?case
      by (rule goes_then) (rule indexes_goes(2), simp_all add: stage2_def layout_defs)
  qed
next
  case 2
  then show ?case using ok s1 by (auto simp: stage1_def stage2_def layout_defs schema_ok_def dirents_fit_def split: dirents_layout.splits)
qed

lemma version4_goes:
  assumes ok: "schema_ok (c_schema c)" and s2: "stage2 s0 (c_schema c)" and fk: "c_foreign_keys c = 0" and g: "G \<Longrightarrow> in_limits s0"
  shows "goes G c (\<lambda>_ s. stage3 s \<and> in_limits s0) (when_ok (user_version s0 < 4) (\<lambda>c.
       and_then (when_ok (split_times s0) (\<lambda>c. statement c merge_timestamp_columns) c) (\<lambda>_ c.
       and_then (table_has_column c ''file_chunks'' ''chunk_index'') (\<lambda>indexed c. when_ok indexed rekey_file_chunks c))) c)"
proof (rule goes_when, goal_cases)
  case 1
  let ?P = "\<lambda>s. l_chunks s = l_chunks s0 \<and> with_ids s \<and> \<not> split_times s"
  have "goes G c (\<lambda>_. ?P) (when_ok (split_times s0) (\<lambda>c. statement c merge_timestamp_columns) c)"
  proof (rule goes_when, goal_cases)
    case 1
    show ?case
    proof (rule goes_statement, goal_cases)
      case (1 fs a s)
      have "schema_ok (c_schema (c\<lparr>c_faults := fs\<rparr>))" "c_foreign_keys (c\<lparr>c_faults := fs\<rparr>) = 0" using ok fk by simp_all
      from merge_ok[OF this 1] show ?case using s2 by (auto simp: stage2_def layout_defs)
    next
      case (2 fs)
      then show ?case using 1 s2
        by (auto simp: merge_timestamp_columns_def Let_def stage2_def layout_defs split: inodes_layout.splits)
    qed
  next
    case 2
    then show ?case using ok s2 by (simp add: stage2_def)
  qed
  then show ?case
  proof (rule goes_then, goal_cases)
    case (1 u c1)
    note ok1 = 1(2) and p1 = 1(3)
    show ?case
    proof (rule goes_then[OF goes_column[OF ok1]], goal_cases)
      case (1 indexed c2)
      then have c2: "c_schema c2 = c_schema c1" "indexed = (\<not> with_keys (c_schema c1))" by (simp_all add: with_keys_column)
      show ?case
      proof (rule goes_when, goal_cases)
        case 1
        then obtain rows where r: "l_chunks (c_schema c2) = Indexed rows" using c2 by (auto simp: with_keys_def split: chunks_layout.splits)
        have l: "G \<Longrightarrow> in_limits (c_schema c2)" using g p1 c2(1) by (simp add: in_limits_def)
        show ?case
          by (rule goes_weaken, rule rekey_goes[OF _ r l]) (use p1 c2(1) ok1 in \<open>auto simp: stage3_def layout_defs in_limits_def\<close>)
      next
        case 2
        then show ?case using c2 p1 ok1 by (auto simp: stage3_def in_limits_def with_keys_def split: chunks_layout.splits)
      qed
    qed
  qed
next
  case 2
  then show ?case using ok s2
    by (auto simp: stage2_def stage3_def layout_defs in_limits_def schema_ok_def inodes_fit_def chunks_fit_def split: inodes_layout.splits chunks_layout.splits)
qed

definition current :: "schema \<Rightarrow> bool" where
  "current s \<longleftrightarrow> stage3 s \<and> user_version s = SCHEMA_VERSION"

lemma version_set:
  assumes "stage3 s" "schema_ok s"
  shows "schema_ok (s\<lparr>user_version := v\<rparr>)" "same_data s (s\<lparr>user_version := v\<rparr>)"
  using assms by (auto simp: stage3_def layout_defs schema_ok_def inodes_fit_def dirents_fit_def chunks_fit_def entry_names_def
      same_data_def rows_of_def entries_of_def chunk_of_def split: inodes_layout.splits dirents_layout.splits chunks_layout.splits)

lemma steps_goes:
  assumes ok: "schema_ok (c_schema c)" and f: "rowids_fresh (c_rowid c)" and fk: "c_foreign_keys c = 0"
    and g: "G \<Longrightarrow> in_limits (c_schema c) \<and> numberable (c_rowid c) (c_schema c)"
  shows "goes G c (\<lambda>_ s. current s \<and> in_limits (c_schema c)) (migrate_steps_in (user_version (c_schema c)) c)"
  unfolding migrate_steps_in_def Let_def
proof (rule goes_then[OF goes_column[OF ok]], goal_cases)
  case (1 merged c1)
  let ?s0 = "c_schema c"
  have c1: "c_schema c1 = ?s0" "(\<not> merged) = split_times ?s0" using 1 split_times_column[OF ok] by simp_all
  have w1: "settled_conn c c1" by (rule 1)
  show ?case unfolding c1(2)
  proof (rule goes_then[OF nanoseconds_goes[OF 1(2), of G, unfolded c1(1)]], goal_cases)
    case (1 u c2)
    note w2 = settled_conn_trans[OF w1 1(1)]
    show ?case
    proof (rule goes_then[OF goes_when[where P = "\<lambda>_. stage1 ?s0"]], goal_cases)
      case 1
      show ?case by (rule indexes_goes(1)) (use \<open>schema_ok (c_schema c2)\<close> \<open>stage1 ?s0 (c_schema c2)\<close> in \<open>simp_all add: stage1_def layout_defs\<close>)
    next
      case 2
      then show ?case using 1 by simp
    next
      case (3 u c3)
      note w3 = settled_conn_trans[OF w2 3(1)]
      have n3: "G \<Longrightarrow> numberable (c_rowid c3) (c_schema c3)" using g 3(3) w3 by (simp add: numberable_def stage1_def settled_conn_def)
      have f3: "rowids_fresh (c_rowid c3)" using f w3 by (simp add: settled_conn_def)
      show ?case
      proof (rule goes_then[OF entry_ids_goes[OF 3(2,3) f3 n3]], goal_cases)
        case (2 u c4)
        note w4 = settled_conn_trans[OF w3 2(1)]
        have fk4: "c_foreign_keys c4 = 0" using fk w4 by (simp add: settled_conn_def)
        show ?case
        proof (rule goes_then[OF version4_goes[OF 2(2,3) fk4]], goal_cases)
          case (2 u c5)
          show ?case
          proof (rule goes_then[where P = "\<lambda>_ s. current s \<and> in_limits ?s0"], goal_cases)
            case 1
            show ?case by (rule goes_statement) (use 2 version_set in \<open>auto simp: current_def stage3_def layout_defs\<close>)
          next
            case (2 u c6)
            show ?case by (rule goes_weaken, rule goes_read) (use 2 in auto)
          qed
        qed (use g in simp)
      qed
    qed
  qed
qed

lemma migrate_steps_spec:
  assumes "schema_ok (c_schema c)" "rowids_fresh (c_rowid c)" "c_foreign_keys c = 0" "migrate_steps c (user_version (c_schema c)) = (r, c')"
  shows "settled_conn c c'"
    "c_faults c = [] \<and> in_limits (c_schema c) \<and> numberable (c_rowid c) (c_schema c) \<longrightarrow> r = Inr ()"
    "case r of Inl _ \<Rightarrow> c_schema c' = c_schema c
     | Inr _ \<Rightarrow> schema_ok (c_schema c') \<and> same_data (c_schema c) (c_schema c') \<and> current (c_schema c') \<and> in_limits (c_schema c)"
proof -
  let ?G = "in_limits (c_schema c) \<and> numberable (c_rowid c) (c_schema c)"
  let ?m = "and_then (statement c (\<lambda>c. Inr ((), c_schema c))) (\<lambda>_ c1. migrate_steps_in (user_version (c_schema c)) c1)"
  have g: "goes ?G c (\<lambda>_ s. current s \<and> in_limits (c_schema c)) ?m"
  proof (rule goes_then[OF goes_read[OF assms(1)]], goal_cases)
    case (1 u c1)
    then show ?case using steps_goes[of c1 ?G] assms(1-3) by (simp add: settled_conn_def)
  qed
  obtain r0 c0 where m: "?m = (r0, c0)" by (cases ?m)
  then have r: "r = r0" "c' = (if isl r0 then c0\<lparr>c_schema := c_schema c\<rparr> else c0)"
    using assms(4) unfolding migrate_steps_def by (auto split: sum.splits)
  show "settled_conn c c'" "c_faults c = [] \<and> in_limits (c_schema c) \<and> numberable (c_rowid c) (c_schema c) \<longrightarrow> r = Inr ()"
    "case r of Inl _ \<Rightarrow> c_schema c' = c_schema c
     | Inr _ \<Rightarrow> schema_ok (c_schema c') \<and> same_data (c_schema c) (c_schema c') \<and> current (c_schema c') \<and> in_limits (c_schema c)"
    using g m r by (cases r0; auto simp: goes_def settled_conn_def)+
qed

section \<open>What migration promises\<close>

text \<open>The tables hold what the database of an older version held.\<close>

definition holds_same :: "schema \<Rightarrow> tables \<Rightarrow> bool" where
  "holds_same s t \<longleftrightarrow> t_inodes t = rows_of s \<and> snd ` set (t_dirents t) = entries_of s \<and> tbl_ok (t_dirents t) \<and>
     distinct (map (\<lambda>(_, d). (d_parent d, d_name d)) (t_dirents t)) \<and> t_symlinks t = l_symlinks s \<and> tbl_ok (t_chunks t) \<and>
     (\<forall>ino. valid_ino ino \<longrightarrow> sparse_bytes t ino = bytes_of s ino)"

lemma current_holds:
  assumes "schema_ok s'" "same_data s s'" "current s'"
  shows "\<exists>t. current_tables s' = Some t \<and> holds_same s t"
proof -
  obtain i d k where l: "l_inodes s' = MergedTimes i" "l_dirents s' = WithIds d" "l_chunks s' = Keyed k"
    using assms(3) by (auto simp: current_def stage3_def layout_defs split: inodes_layout.splits dirents_layout.splits chunks_layout.splits)
  let ?t = "\<lparr>t_inodes = i, t_dirents = d, t_chunks = k, t_symlinks = l_symlinks s'\<rparr>"
  have t: "current_tables s' = Some ?t" using l by (simp add: current_tables_def)
  have "sparse_bytes ?t ino = bytes_of s ino" if "valid_ino ino" for ino
    using sparse_bytes_of[OF t] same_data_bytes[OF assms(2) that] by simp
  moreover have "distinct (map (\<lambda>(_, d). (d_parent d, d_name d)) d)"
    using assms(1) l by (simp add: schema_ok_def dirents_fit_def entry_names_def comp_def case_prod_unfold)
  ultimately have "holds_same s ?t"
    using assms(1,2) l by (simp add: holds_same_def same_data_def rows_of_def entries_of_def schema_ok_def dirents_fit_def chunks_fit_def)
  with t show ?thesis by blast
qed

lemma already_current: "schema_ok s \<Longrightarrow> user_version s = SCHEMA_VERSION \<Longrightarrow> current s \<and> in_limits s"
  by (auto simp: current_def stage3_def layout_defs in_limits_def schema_ok_def inodes_fit_def dirents_fit_def chunks_fit_def SCHEMA_VERSION_def
      split: inodes_layout.splits dirents_layout.splits chunks_layout.splits)

lemma set_foreign_keys_spec:
  assumes "set_foreign_keys c v = (r, c')"
  shows "c_schema c' = c_schema c" "c_rowid c' = c_rowid c" "c_faults c = [] \<Longrightarrow> c_faults c' = [] \<and> r = Inr ()"
    "r = Inr () \<Longrightarrow> c_foreign_keys c' = v"
proof -
  obtain r1 c1 where st: "statement c (\<lambda>c. Inr ((), c_schema c)) = (r1, c1)" by fastforce
  have r: "c_schema c1 = c_schema c" "c_faults c = [] \<longrightarrow> r1 = Inr ()" using statement_reads[where g = "\<lambda>_. ()", OF st] by simp_all
  have "settled_conn c c1" by (rule statement_settled[OF st])
  then show "c_schema c' = c_schema c" "c_rowid c' = c_rowid c" "c_faults c = [] \<Longrightarrow> c_faults c' = [] \<and> r = Inr ()"
    "r = Inr () \<Longrightarrow> c_foreign_keys c' = v"
    using assms st r by (cases r1; auto simp: set_foreign_keys_def settled_conn_def)+
qed

text \<open>Every result of \<open>migrate\<close>: the schema is the old one or the current one with the same data.\<close>

definition upgraded :: "schema \<Rightarrow> schema \<Rightarrow> bool" where
  "upgraded s s' \<longleftrightarrow> schema_ok s' \<and> same_data s s' \<and> current s' \<and> in_limits s"

definition migrates :: "conn \<Rightarrow> DbError + unit \<Rightarrow> conn \<Rightarrow> bool" where
  "migrates c r c' \<longleftrightarrow> (c_schema c' = c_schema c \<and> isl r \<or> upgraded (c_schema c) (c_schema c')) \<and>
     (r = Inr () \<longrightarrow> c_foreign_keys c' = c_foreign_keys c \<and> c_rowid c' = c_rowid c) \<and>
     (c_faults c = [] \<and> numberable (c_rowid c) (c_schema c) \<and> in_limits (c_schema c) \<longrightarrow> r = Inr ()) \<and>
     (c_faults c = [] \<longrightarrow> c_faults c' = [])"

lemma upgrade_spec:
  assumes ok: "schema_ok (c_schema c)" and f: "rowids_fresh (c_rowid c)" and v: "v = user_version (c_schema c)"
    and m: "and_then (statement c (\<lambda>c. Inr (c_foreign_keys c, c_schema c))) (\<lambda>foreign_keys c.
      and_then (set_foreign_keys c 0) (\<lambda>_ c. let (result, c) = migrate_steps c v in
      and_then (set_foreign_keys c foreign_keys) (\<lambda>_ c. (result, c)))) = (r, c')"
  shows "migrates c r c'"
proof -
  obtain r1 c1 where q1: "statement c (\<lambda>c. Inr (c_foreign_keys c, c_schema c)) = (r1, c1)" by fastforce
  have p1: "c_schema c1 = c_schema c" "\<And>a. r1 = Inr a \<Longrightarrow> a = c_foreign_keys c" "c_faults c = [] \<Longrightarrow> r1 = Inr (c_foreign_keys c)"
  proof -
    have "c_schema c1 = c_schema c \<and> (\<forall>a. r1 = Inr a \<longrightarrow> a = c_foreign_keys c) \<and> (c_faults c = [] \<longrightarrow> r1 = Inr (c_foreign_keys c))"
      by (rule statement_reads[where g = c_foreign_keys, OF q1]) simp
    then show "c_schema c1 = c_schema c" "\<And>a. r1 = Inr a \<Longrightarrow> a = c_foreign_keys c" "c_faults c = [] \<Longrightarrow> r1 = Inr (c_foreign_keys c)"
      by blast+
  qed
  have w1: "settled_conn c c1" by (rule statement_settled[OF q1])
  obtain r2 c2 where q2: "set_foreign_keys c1 0 = (r2, c2)" by fastforce
  note p2 = set_foreign_keys_spec[OF q2]
  obtain r3 c3 where q3: "migrate_steps c2 v = (r3, c3)" by fastforce
  obtain r4 c4 where q4: "set_foreign_keys c3 (c_foreign_keys c) = (r4, c4)" by fastforce
  note p4 = set_foreign_keys_spec[OF q4]
  show ?thesis
  proof (cases r1)
    case (Inl e)
    then show ?thesis using m q1 p1 w1 by (auto simp: migrates_def settled_conn_def)
  next
    case (Inr fk)
    then have fk: "fk = c_foreign_keys c" using p1 by simp
    show ?thesis
    proof (cases r2)
      case (Inl e)
      then show ?thesis using m q1 q2 \<open>r1 = Inr fk\<close> p1 p2 w1 by (auto simp: migrates_def settled_conn_def)
    next
      case (Inr u)
      have c2: "c_schema c2 = c_schema c" "c_foreign_keys c2 = 0" "c_rowid c2 = c_rowid c" "c_faults c = [] \<Longrightarrow> c_faults c2 = []"
        using p1 p2 w1 Inr by (simp_all add: settled_conn_def)
      have q3': "migrate_steps c2 (user_version (c_schema c2)) = (r3, c3)" using q3 v c2 by simp
      note p3 = migrate_steps_spec[OF _ _ c2(2) q3', unfolded c2, OF ok f]
      have "and_then (r4, c4) (\<lambda>_. Pair r3) = (r, c')" 
        using m unfolding q1 \<open>r1 = Inr fk\<close> and_then_simps q2 Inr q3 Let_def prod.case fk q4 .
      then have r: "r = (case r4 of Inl e \<Rightarrow> Inl e | Inr _ \<Rightarrow> r3)" "c' = c4" by (auto simp: and_then_def split: sum.splits)
      show ?thesis using p3 p4 c2 r by (cases r3; cases r4) (auto simp: migrates_def upgraded_def settled_conn_def)
    qed
  qed
qed

lemma migrate_spec:
  assumes ok: "schema_ok (c_schema c)" and f: "rowids_fresh (c_rowid c)" and m: "migrate c = (r, c')"
  shows "if SCHEMA_VERSION < user_version (c_schema c)
    then c_schema c' = c_schema c \<and> isl r \<and> (c_faults c = [] \<longrightarrow> r = Inl (UnsupportedSchema (user_version (c_schema c))))
    else migrates c r c'"
proof -
  let ?v = "user_version (c_schema c)"
  obtain r1 c1 where q1: "statement c (\<lambda>c. Inr (user_version (c_schema c), c_schema c)) = (r1, c1)" by fastforce
  have p1: "c_schema c1 = c_schema c" "\<And>a. r1 = Inr a \<Longrightarrow> a = ?v" "c_faults c = [] \<Longrightarrow> r1 = Inr ?v"
  proof -
    have "c_schema c1 = c_schema c \<and> (\<forall>a. r1 = Inr a \<longrightarrow> a = ?v) \<and> (c_faults c = [] \<longrightarrow> r1 = Inr ?v)"
      by (rule statement_reads[where g = "\<lambda>c. user_version (c_schema c)", OF q1]) simp
    then show "c_schema c1 = c_schema c" "\<And>a. r1 = Inr a \<Longrightarrow> a = ?v" "c_faults c = [] \<Longrightarrow> r1 = Inr ?v" by blast+
  qed
  have w1: "settled_conn c c1" by (rule statement_settled[OF q1])
  show ?thesis
  proof (cases r1)
    case (Inl e)
    then show ?thesis using m q1 p1 w1 by (auto simp: migrate_def migrates_def settled_conn_def)
  next
    case (Inr v)
    then have v: "v = ?v" using p1 by simp
    consider "SCHEMA_VERSION < ?v" | "?v = SCHEMA_VERSION" | "?v < SCHEMA_VERSION" by linarith
    then show ?thesis
    proof cases
      case 1
      then show ?thesis using m q1 Inr v p1(1) by (auto simp: migrate_def)
    next
      case 2
      then show ?thesis using m q1 Inr v p1(1) w1 ok already_current[OF ok]
        by (auto simp: migrate_def migrates_def upgraded_def settled_conn_def)
    next
      case 3
      have "migrates c1 r c'"
        by (rule upgrade_spec[of _ v]) (use m q1 Inr v 3 p1(1) w1 ok f in \<open>auto simp: migrate_def settled_conn_def\<close>)
      then show ?thesis using 3 p1(1) w1 by (auto simp: migrates_def settled_conn_def)
    qed
  qed
qed

text \<open>C21. Opening a database of an older version keeps all it holds. When the migration reports
  success, every table has the current layout and version, foreign keys are enforced as before, and
  attributes, entries, symlink targets and the contents of every file are those of the old layout,
  those of sparse files past the size limit of the program included, for every inode number the chunk
  keys can hold (below \<open>2 ^ 39\<close>, the limit for new inodes).
  When it reports an error, the database is the old one, or, if only the closing statement failed,
  already the complete new one.\<close>

theorem migration_keeps_data:
  assumes "schema_ok (c_schema c)" and "rowids_fresh (c_rowid c)" and "migrate c = (r, c')"
  shows "(isl r \<and> c_schema c' = c_schema c) \<or>
    user_version (c_schema c') = SCHEMA_VERSION \<and> (\<exists>t. current_tables (c_schema c') = Some t \<and> holds_same (c_schema c) t) \<and>
    (r = Inr () \<longrightarrow> c_foreign_keys c' = c_foreign_keys c)"
  using migrate_spec[OF assms] current_holds[of "c_schema c'" "c_schema c"]
  by (auto simp: migrates_def upgraded_def current_def split: if_splits)

text \<open>The row ids of a fresh table are 1, 2, 3 and so on.\<close>

lemma insert_rows_fits:
  assumes "\<forall>k \<in> fst ` set t. k \<le> n" "0 \<le> n" "n + int (length rs) \<le> i64_MAX"
  shows "insert_rows sqlite_rowid rs t \<noteq> None"
  using assms
proof (induction rs arbitrary: t n)
  case (Cons r rs)
  have "fold max (map fst t) 0 \<le> n"
    using Cons.prems(1,2) by (induction t arbitrary: n rule: rev_induct) auto
  then obtain k where k: "sqlite_rowid (map fst t) = Some k" "k \<le> n + 1"
    using Cons.prems by (auto simp: sqlite_rowid_def Let_def)
  have "\<forall>j \<in> fst ` set (tbl_put k r t). j \<le> n + 1" unfolding set_tbl_put_keys using Cons.prems(1) k(2) by auto
  then have "insert_rows sqlite_rowid rs (tbl_put k r t) \<noteq> None" by (rule Cons.IH) (use Cons.prems in auto)
  then show ?case using k(1) by simp
qed simp

definition entry_count :: "schema \<Rightarrow> nat" where
  "entry_count s = length (entry_names s)"

lemma few_numberable: "int (entry_count s) \<le> i64_MAX \<Longrightarrow> numberable sqlite_rowid s"
  using insert_rows_fits[of "[]" 0 "sort_key d_parent (sort_key d_name rows)" for rows]
  by (auto simp: numberable_def entry_count_def entry_names_def simp del: not_None_eq split: dirents_layout.splits)

text \<open>C24. When SQLite reports no failure, a database is opened for migration exactly when its version is
  not newer than the program's and no chunk lies past the limits of the chunk key; a newer version
  is refused by name and nothing is changed.\<close>

theorem migration_succeeds_iff:
  assumes "schema_ok (c_schema c)" and "c_rowid c = sqlite_rowid" and "c_faults c = []"
    and "int (entry_count (c_schema c)) \<le> i64_MAX"
  shows "(fst (migrate c) = Inr () \<longleftrightarrow> user_version (c_schema c) \<le> SCHEMA_VERSION \<and> in_limits (c_schema c)) \<and>
    (SCHEMA_VERSION < user_version (c_schema c) \<longrightarrow>
       fst (migrate c) = Inl (UnsupportedSchema (user_version (c_schema c))) \<and> c_schema (snd (migrate c)) = c_schema c)"
proof -
  obtain r c' where m: "migrate c = (r, c')" by fastforce
  have f: "rowids_fresh (c_rowid c)" using sqlite_rowid_fresh assms(2) by simp
  note s = migrate_spec[OF assms(1) f m]
  have "r = Inr () \<longleftrightarrow> user_version (c_schema c) \<le> SCHEMA_VERSION \<and> in_limits (c_schema c)"
    using s assms(2,3) few_numberable[OF assms(4)] by (auto simp: migrates_def upgraded_def split: if_splits)
  then show ?thesis using s m assms(3) by simp
qed

text \<open>C31. Merging a time stored as seconds and nanoseconds gives the value that the program stores for
  the same timestamp, except in the two seconds at the ends of the range, which are clamped.\<close>

theorem merged_time_exact:
  assumes "0 \<le> ns" and "ns < NANOS" and "\<bar>sec\<bar> \<noteq> 9223372036"
  shows "merged_ns sec ns = to_ns \<lparr>secs = sec, nsec = word_of_int ns\<rparr>"
proof -
  have "uint (word_of_int ns :: u32) = ns" using uint_word_of_nanos[of ns] assms(1,2) by simp
  then show ?thesis using assms
    by (auto simp: merged_ns_def to_ns_exact exact_ns_def clamp_def i64_MIN_def i64_MAX_def)
qed

end
