(* ===== verification/Migration_Examples.thy ===== *)
theory Migration_Examples
  imports Migration_Proofs
begin

text \<open>
  A database from before schema versions existed, and the theorems on migration applied to it.
\<close>

definition old_file :: "i64 \<Rightarrow> i64 \<Rightarrow> old_row" where
  "old_file kind sz = \<lparr>o_kind = kind, o_mode = 420, o_uid = 0, o_gid = 0, o_size = sz, o_atime = 5, o_mtime = 6, o_ctime = 7,
     o_nlink = 1, o_nsec = (\<lambda>_. 0)\<rparr>"

definition old_schema :: schema where
  "old_schema = \<lparr>user_version = 0, l_inodes = SplitTimes [] [(1, old_file 2 0), (2, old_file 1 3)],
     l_dirents = WithoutIds [\<lparr>d_parent = 1, d_name = [97], d_child = 2\<rparr>],
     l_chunks = Indexed [(2, 0, [7, 8, 9])], l_symlinks = [], l_indexes = []\<rparr>"

definition old_conn :: conn where
  "old_conn = \<lparr>c_schema = old_schema, c_foreign_keys = 1, c_faults = [], c_rowid = sqlite_rowid\<rparr>"

lemma old_ok: "schema_ok (c_schema old_conn)" "c_rowid old_conn = sqlite_rowid" "c_faults old_conn = []"
    "int (entry_count (c_schema old_conn)) \<le> i64_MAX" "in_limits (c_schema old_conn)" "user_version (c_schema old_conn) = 0"
  by (simp_all add: old_conn_def old_schema_def schema_ok_def inodes_fit_def dirents_fit_def chunks_fit_def tbl_ok_def entry_names_def
      entry_count_def i64_MAX_def in_limits_def not_past_limit)

lemma old_bytes: "bytes_of (c_schema old_conn) 2 = Some [7, 8, 9]"
  by (simp add: bytes_of_def rows_of_def chunk_of_def old_conn_def old_schema_def old_file_def filled_def merged_row_def row_size_def
      i64_of_u64_def u64_of_i64_def upt_rec CHUNK_SIZE_def)

theorem migration_succeeds_iff_witness:
  "fst (migrate old_conn) = Inr () \<and> schema_ok (c_schema old_conn)"
  using migration_succeeds_iff[OF old_ok(1-4)] old_ok by (simp add: SCHEMA_VERSION_def)

theorem migration_keeps_data_witness:
  "\<exists>c' t. migrate old_conn = (Inr (), c') \<and> current_tables (c_schema c') = Some t \<and> file_bytes t 2 = Some [7, 8, 9]"
proof -
  obtain r c' where m: "migrate old_conn = (r, c')" by fastforce
  have f: "rowids_fresh (c_rowid old_conn)" using sqlite_rowid_fresh old_ok(2) by simp
  have r: "r = Inr ()" using migrate_spec[OF old_ok(1) f m] old_ok few_numberable[OF old_ok(4)]
    by (simp add: migrates_def SCHEMA_VERSION_def)
  then obtain t where t: "current_tables (c_schema c') = Some t" "holds_same (c_schema old_conn) t"
    using migration_keeps_data[OF old_ok(1) f m] by auto
  have "row_size r \<le> max_size" if "inode_row_of t 2 = Some r" for r
    using that t(2) by (auto simp: holds_same_def inode_row_of_def rows_of_def old_conn_def old_schema_def old_file_def filled_def
        merged_row_def row_size_def i64_of_u64_def u64_of_i64_def max_size_def CHUNK_SIZE_def)
  then have "file_bytes t 2 = bytes_of (c_schema old_conn) 2"
    using t(2) sparse_bytes_file[of t 2] by (simp add: holds_same_def valid_ino_unat)
  with m r t(1) old_bytes show ?thesis by auto
qed

theorem merged_time_exact_witness:
  "merged_ns (-7) 5 = to_ns \<lparr>secs = -7, nsec = 5\<rparr> \<and> merged_ns (-7) 5 = - 7000000005"
  using merged_time_exact[of 5 "-7"] by (simp add: merged_ns_def)

end
