(* ===== verification/Command_Line.thy ===== *)
theory Command_Line
  imports Prelude
begin

text \<open>
  The command line (\<^verbatim>\<open>src/src/cli.rs\<close>): the parsed arguments and the parser of \<^verbatim>\<open>--write-buffer\<close> sizes.
  A Rust string is its sequence of Unicode scalar values. Splitting the arguments is left to the
  \<^verbatim>\<open>clap\<close> library.
\<close>

section \<open>Text\<close>

type_synonym uchar = nat
type_synonym ustr = "uchar list"

definition lit :: "string \<Rightarrow> ustr" where
  "lit s = map of_char s"

text \<open>\<^verbatim>\<open>char::is_whitespace\<close>: the Unicode property White_Space.\<close>

definition is_whitespace :: "uchar \<Rightarrow> bool" where
  "is_whitespace c \<longleftrightarrow> 9 \<le> c \<and> c \<le> 13 \<or> c = 32 \<or> c = 0x85 \<or> c = 0xA0 \<or> c = 0x1680 \<or> 0x2000 \<le> c \<and> c \<le> 0x200A \<or>
     c = 0x2028 \<or> c = 0x2029 \<or> c = 0x202F \<or> c = 0x205F \<or> c = 0x3000"

definition trim_start :: "ustr \<Rightarrow> ustr" where
  "trim_start t = dropWhile is_whitespace t"

definition trim_end :: "ustr \<Rightarrow> ustr" where
  "trim_end t = rev (dropWhile is_whitespace (rev t))"

definition trim :: "ustr \<Rightarrow> ustr" where
  "trim t = trim_end (trim_start t)"

definition to_ascii_uppercase :: "uchar \<Rightarrow> uchar" where
  "to_ascii_uppercase c = (if 97 \<le> c \<and> c \<le> 122 then c - 32 else c)"

text \<open>\<^verbatim>\<open>str::parse::<usize>\<close>: an optional plus sign and at least one ASCII digit, within 64 bits.\<close>

fun parse_digits :: "ustr \<Rightarrow> usize \<Rightarrow> usize option" where
  "parse_digits [] value = Some value"
| "parse_digits (c # cs) value =
     (if 48 \<le> c \<and> c \<le> 57 \<and> value * 10 + (c - 48) < 2 ^ 64 then parse_digits cs (value * 10 + (c - 48)) else None)"

definition parse_usize :: "ustr \<Rightarrow> usize option" where
  "parse_usize t =
     (let ds = (case t of [] \<Rightarrow> [] | c # cs \<Rightarrow> if c = 43 then cs else t)
      in if ds = [] then None else parse_digits ds 0)"

section \<open>Arguments\<close>

record MountConfig =
  allow_other :: bool
  allow_root :: bool
  auto_unmount :: bool
  extra :: "ustr list"
  write_buffer :: "usize option"
  kernel_cache_flag :: bool

datatype Command = Mount (cmd_database: ustr) (cmd_mountpoint: ustr) (cmd_config: MountConfig)

record Cli =
  command :: Command

section \<open>Sizes\<close>

datatype size_error = NotASize ustr | SizeTooLarge ustr | BelowMinimum ustr

definition checked_mul :: "usize \<Rightarrow> usize \<Rightarrow> usize option" where
  "checked_mul a b = (if a * b < 2 ^ 64 then Some (a * b) else None)"

definition parse_size :: "ustr \<Rightarrow> size_error + usize" where
  "parse_size input =
     (let t = trim input;
          (digits, shift) =
            (if t = [] then (t, 0)
             else let c = to_ascii_uppercase (last t) in
               if c = 75 then (butlast t, 10)
               else if c = 77 then (butlast t, 20)
               else if c = 71 then (butlast t, 30)
               else (t, 0))
      in case parse_usize digits of
           None \<Rightarrow> Inl (NotASize t)
         | Some value \<Rightarrow>
             (case checked_mul value (2 ^ shift) of
                None \<Rightarrow> Inl (SizeTooLarge t)
              | Some bytes \<Rightarrow> if bytes < 64 * 1024 then Inl (BelowMinimum t) else Inr bytes))"

section \<open>Decimal numbers\<close>

text \<open>The decimal text of a number, and a size argument: a number with a unit and blanks around it.\<close>

fun decimal :: "nat \<Rightarrow> ustr" where
  "decimal n = (if n < 10 then [48 + n] else decimal (n div 10) @ [48 + n mod 10])"

declare decimal.simps [simp del]

datatype size_unit = Bytes | Kilo bool | Mega bool | Giga bool

fun unit_text :: "size_unit \<Rightarrow> ustr" where
  "unit_text Bytes = []"
| "unit_text (Kilo lower) = [if lower then 107 else 75]"
| "unit_text (Mega lower) = [if lower then 109 else 77]"
| "unit_text (Giga lower) = [if lower then 103 else 71]"

fun unit_bytes :: "size_unit \<Rightarrow> nat" where
  "unit_bytes Bytes = 1"
| "unit_bytes (Kilo _) = 2 ^ 10"
| "unit_bytes (Mega _) = 2 ^ 20"
| "unit_bytes (Giga _) = 2 ^ 30"

lemma decimal_not_Nil [simp]: "decimal n \<noteq> []"
  by (subst decimal.simps) simp

lemma decimal_digits: "c \<in> set (decimal n) \<Longrightarrow> 48 \<le> c \<and> c \<le> 57"
proof (induction n rule: decimal.induct)
  case (1 n)
  show ?case
  proof (cases "n < 10")
    case True
    then show ?thesis using "1.prems" by (subst (asm) decimal.simps) simp
  next
    case False
    then have "c \<in> set (decimal (n div 10)) \<or> c = 48 + n mod 10" using "1.prems" by (subst (asm) decimal.simps) auto
    moreover have "n mod 10 < 10" by simp
    ultimately show ?thesis using "1.IH"[OF False] by linarith
  qed
qed

lemma parse_digits_append:
  "parse_digits (xs @ ys) v = Option.bind (parse_digits xs v) (parse_digits ys)"
  by (induction xs arbitrary: v) auto

lemma parse_decimal: "parse_digits (decimal n) 0 = (if n < 2 ^ 64 then Some n else None)"
proof (induction n rule: decimal.induct)
  case (1 n)
  show ?case
  proof (cases "n < 10")
    case True
    then show ?thesis by (subst decimal.simps) simp
  next
    case False
    have n: "n mod 10 \<le> 9" "n div 10 \<le> n" by simp_all
    have "parse_digits (decimal n) 0 = Option.bind (parse_digits (decimal (n div 10)) 0) (parse_digits [48 + n mod 10])"
      using False by (subst decimal.simps) (simp add: parse_digits_append)
    also have "\<dots> = (if n < 2 ^ 64 then Some n else None)" unfolding "1.IH"[OF False] using n by auto
    finally show ?thesis .
  qed
qed

lemma dropWhile_blanks: "\<forall>c \<in> set ws. P c \<Longrightarrow> xs \<noteq> [] \<Longrightarrow> \<not> P (hd xs) \<Longrightarrow> dropWhile P (ws @ xs) = xs"
  by (induction ws) (auto simp: neq_Nil_conv)

lemma trim_padded:
  assumes "\<forall>c \<in> set pre. is_whitespace c" "\<forall>c \<in> set post. is_whitespace c" "\<forall>c \<in> set t. \<not> is_whitespace c" "t \<noteq> []"
  shows "trim (pre @ t @ post) = t"
proof -
  have "dropWhile is_whitespace (pre @ t @ post) = t @ post"
    using assms by (intro dropWhile_blanks) simp_all
  moreover have "dropWhile is_whitespace (rev post @ rev t) = rev t"
    using assms by (intro dropWhile_blanks) (simp_all add: hd_rev)
  ultimately show ?thesis by (simp add: trim_def trim_start_def trim_end_def)
qed

text \<open>C32. A size argument is read exactly: a decimal number with an optional unit K, M or G in either
  case and blanks around it gives the number times the unit, and it is refused exactly when the
  number or the product does not fit 64 bits or the product is below one chunk.\<close>

theorem size_argument_exact:
  assumes pre: "\<forall>c \<in> set pre. is_whitespace c" and post: "\<forall>c \<in> set post. is_whitespace c"
  shows "parse_size (pre @ (decimal n @ unit_text u) @ post) =
    (if 2 ^ 64 \<le> n then Inl (NotASize (decimal n @ unit_text u))
     else if 2 ^ 64 \<le> n * unit_bytes u then Inl (SizeTooLarge (decimal n @ unit_text u))
     else if n * unit_bytes u < 65536 then Inl (BelowMinimum (decimal n @ unit_text u))
     else Inr (n * unit_bytes u))"
proof -
  have ds: "\<forall>c \<in> set (decimal n). 48 \<le> c \<and> c \<le> 57" using decimal_digits by blast
  then have nw: "\<forall>c \<in> set (decimal n @ unit_text u). \<not> is_whitespace c"
    by (cases u) (auto simp: is_whitespace_def)
  have t: "trim (pre @ (decimal n @ unit_text u) @ post) = decimal n @ unit_text u"
    by (rule trim_padded[OF pre post nw]) simp
  have hd: "hd (decimal n) \<noteq> 43" "last (decimal n) \<le> 57" using ds hd_in_set[of "decimal n"] last_in_set[of "decimal n"] by force+
  have pu: "parse_usize (decimal n) = (if n < 2 ^ 64 then Some n else None)"
    using hd(1) parse_decimal[of n] by (cases "decimal n") (auto simp: parse_usize_def)
  have up: "to_ascii_uppercase (last (decimal n)) = last (decimal n)" using hd(2) by (simp add: to_ascii_uppercase_def)
  show ?thesis unfolding parse_size_def Let_def t
    using pu hd(2) up by (cases u) (auto simp: to_ascii_uppercase_def checked_mul_def)
qed

theorem size_argument_exact_witness:
  "parse_size [32, 56, 77, 10] = Inr 8388608"
  using size_argument_exact[of "[32]" "[10]" 8 "Mega False"] by (simp add: is_whitespace_def decimal.simps)

end
