(* ===== verification/Mounting.thy ===== *)
theory Mounting
  imports Command_Line Filesystem Migration
begin

text \<open>
  Mounting (\<^verbatim>\<open>src/src/run.rs\<close>): the mount options built from the command line, the run of the session
  until a signal or its end, and the exit status. The \<^verbatim>\<open>fuser\<close> session, the threads, signals and the
  channel between them are parameters: what each call returned, which events arrived in which
  order, and what the session thread did to the shared state in between.
\<close>

section \<open>Errors\<close>

datatype ErrorKind = PermissionDenied | OtherKind nat

record io_error =
  io_kind :: ErrorKind
  io_message :: ustr

datatype RunError =
    RunDb DbError
  | RunMount io_error
  | RunSession io_error
  | ShutdownFlush errno
  | MountOptions ustr

text \<open>\<^verbatim>\<open>impl Display for RunError\<close>. How the library prints numbers, a \<^verbatim>\<open>DbError\<close> for debugging and an operating
  system error are parameters.\<close>

fun display_run_error :: "(int \<Rightarrow> ustr) \<Rightarrow> (DbError \<Rightarrow> ustr) \<Rightarrow> (errno \<Rightarrow> ustr) \<Rightarrow> RunError \<Rightarrow> ustr" where
  "display_run_error num debug os (RunDb (UnsupportedSchema version)) =
     lit ''database schema version '' @ num version @ lit '' is newer than this dbfs supports ('' @ num SCHEMA_VERSION @
     lit ''); upgrade dbfs''"
| "display_run_error num debug os (RunDb error) = lit ''database error: '' @ debug error"
| "display_run_error num debug os (RunMount error) = lit ''mount error: '' @ trim_end (io_message error)"
| "display_run_error num debug os (MountOptions message) = lit ''invalid mount options: '' @ message"
| "display_run_error num debug os (RunSession error) = lit ''filesystem session error: '' @ io_message error"
| "display_run_error num debug os (ShutdownFlush errno) =
     lit ''failed to flush unsaved data on shutdown; recent writes may be lost: '' @ os errno"

section \<open>Mount options\<close>

datatype MountOption =
    FSName ustr | Subtype ustr | CUSTOM ustr
  | AutoUnmount | AllowOther | AllowRoot | DefaultPermissions
  | Dev | NoDev | Suid | NoSuid | RO | RW | Exec | NoExec | Atime | NoAtime | DirSync | Sync | Async

definition mount_options :: "MountOption list" where
  "mount_options = [FSName (lit ''dbfs''), DefaultPermissions]"

text \<open>\<^verbatim>\<open>str::contains\<close>, \<^verbatim>\<open>str::split\<close> and \<^verbatim>\<open>str::split_once\<close>.\<close>

fun str_contains :: "ustr \<Rightarrow> ustr \<Rightarrow> bool" where
  "str_contains [] pat \<longleftrightarrow> pat = []"
| "str_contains (c # cs) pat \<longleftrightarrow> take (length pat) (c # cs) = pat \<or> str_contains cs pat"

fun str_split :: "uchar \<Rightarrow> ustr \<Rightarrow> ustr list" where
  "str_split sep [] = [[]]"
| "str_split sep (c # cs) = (if c = sep then [] # str_split sep cs
     else (case str_split sep cs of [] \<Rightarrow> [[c]] | w # ws \<Rightarrow> (c # w) # ws))"

fun split_once :: "uchar \<Rightarrow> ustr \<Rightarrow> (ustr \<times> ustr) option" where
  "split_once sep [] = None"
| "split_once sep (c # cs) = (if c = sep then Some ([], cs) else map_option (map_prod (Cons c) id) (split_once sep cs))"

definition parse_option :: "ustr \<Rightarrow> RunError + MountOption" where
  "parse_option raw =
     (let token = trim raw in
      if token = [] then Inl (MountOptions (lit ''empty mount option''))
      else if str_contains token (lit ''default_permissions'') \<and> token \<noteq> lit ''default_permissions''
      then Inl (MountOptions ([39] @ token @ [39] @ lit '' would disable kernel permission checks; default_permissions is always enabled''))
      else if token = lit ''ro'' then Inr RO
      else if token = lit ''rw'' then Inr RW
      else if token = lit ''allow_other'' then Inr AllowOther
      else if token = lit ''allow_root'' then Inr AllowRoot
      else if token = lit ''auto_unmount'' then Inr AutoUnmount
      else if token = lit ''default_permissions'' then Inr DefaultPermissions
      else if token = lit ''atime'' then Inr Atime
      else if token = lit ''noatime'' then Inr NoAtime
      else if token = lit ''suid'' then Inr Suid
      else if token = lit ''nosuid'' then Inr NoSuid
      else if token = lit ''dev'' then Inr Dev
      else if token = lit ''nodev'' then Inr NoDev
      else if token = lit ''exec'' then Inr Exec
      else if token = lit ''noexec'' then Inr NoExec
      else if token = lit ''dirsync'' then Inr DirSync
      else if token = lit ''sync'' then Inr Sync
      else if token = lit ''async'' then Inr Async
      else (case split_once 61 token of
          None \<Rightarrow> Inr (CUSTOM token)
        | Some (key, name) \<Rightarrow>
            if (key = lit ''fsname'' \<or> key = lit ''subtype'') \<and> name = []
            then Inl (MountOptions ([39] @ token @ [39] @ lit '' needs a value''))
            else if key = lit ''fsname'' then Inr (FSName name)
            else if key = lit ''subtype'' then Inr (Subtype name)
            else Inr (CUSTOM token)))"

fun is_fsname :: "MountOption \<Rightarrow> bool" where "is_fsname (FSName _) = True" | "is_fsname _ = False"
fun is_subtype :: "MountOption \<Rightarrow> bool" where "is_subtype (Subtype _) = True" | "is_subtype _ = False"

text \<open>The loop over the requested options.\<close>

fun add_option :: "MountOption list \<Rightarrow> MountOption \<Rightarrow> MountOption list" where
  "add_option options (FSName n) = filter (\<lambda>existing. \<not> is_fsname existing) options @ [FSName n]"
| "add_option options (Subtype n) = filter (\<lambda>existing. \<not> is_subtype existing) options @ [Subtype n]"
| "add_option options option = (if option \<in> set options then options else options @ [option])"

fun parse_tokens :: "ustr list \<Rightarrow> RunError + MountOption list" where
  "parse_tokens [] = Inr []"
| "parse_tokens (t # ts) = (case parse_option t of
     Inl e \<Rightarrow> Inl e
   | Inr option \<Rightarrow> (case parse_tokens ts of Inl e \<Rightarrow> Inl e | Inr options \<Rightarrow> Inr (option # options)))"

definition requested_options :: "MountConfig \<Rightarrow> RunError + MountOption list" where
  "requested_options config =
     (let flags = (if allow_other config then [AllowOther] else []) @ (if allow_root config then [AllowRoot] else []) @
            (if auto_unmount config then [AutoUnmount] else [])
      in case parse_tokens (concat (map (str_split 44) (extra config))) of
           Inl e \<Rightarrow> Inl e
         | Inr options \<Rightarrow> Inr (flags @ options))"

definition mount_options_for :: "MountConfig \<Rightarrow> RunError + MountOption list" where
  "mount_options_for config =
     (case requested_options config of
        Inl e \<Rightarrow> Inl e
      | Inr requested \<Rightarrow>
          let options = foldl add_option mount_options requested;
              other = (AllowOther \<in> set options);
              root = (AllowRoot \<in> set options)
          in if other \<and> root
             then Inl (MountOptions (lit ''--allow-other and --allow-root cannot be used together''))
             else if AutoUnmount \<in> set options \<and> \<not> (other \<or> root)
             then Inl (MountOptions (lit ''auto_unmount requires --allow-other or --allow-root (fusermount3 requests allow_other for auto-unmount)''))
             else Inr options)"

definition ALLOW_OTHER_HINT :: ustr where
  "ALLOW_OTHER_HINT = lit ''hint: allow_other requires '' @ [39] @ lit ''user_allow_other'' @ [39] @ lit '' in /etc/fuse.conf''"

definition mount_failure :: "io_error \<Rightarrow> MountOption list \<Rightarrow> u32 \<Rightarrow> RunError" where
  "mount_failure error options euid =
     (let allow_other_refused = (euid \<noteq> 0 \<and> AllowOther \<in> set options \<and> io_kind error = PermissionDenied)
      in if allow_other_refused
         then RunMount \<lparr>io_kind = io_kind error, io_message = trim_end (io_message error) @ [10] @ ALLOW_OTHER_HINT\<rparr>
         else RunMount error)"

section \<open>Running\<close>

datatype Event = Shutdown | SessionEnded "io_error + unit"

text \<open>The events received before the deadline; after them the wait times out or the channel is closed.\<close>

fun await_session :: "Event list \<Rightarrow> io_error + unit" where
  "await_session [] = Inr ()"
| "await_session (SessionEnded result # es) = result"
| "await_session (Shutdown # es) = await_session es"

definition shut_down :: "Shared \<Rightarrow> io_error + unit \<Rightarrow> Event list \<Rightarrow> ((io_error + unit) \<times> Shared) option" where
  "shut_down s unmount events = do {
     (_, s) \<leftarrow> flush_for_shutdown s;
     Some (case unmount of Inl e \<Rightarrow> Inl e | Inr _ \<Rightarrow> await_session events, s)
   }"

text \<open>What happens around \<open>mount_dbfs\<close>: the results of its calls, the first event (\<open>None\<close> when the channel
  closed), the later ones, and the work of the session thread before the first event and after it.\<close>

record mount_run =
  session_new :: "io_error + unit"
  block_signals :: "io_error + unit"
  spawn_waiter :: "io_error + unit"
  spawn_session :: "io_error + unit"
  first_event :: "Event option"
  unmounted :: "io_error + unit"
  later_events :: "Event list"
  served :: "Shared \<Rightarrow> Shared"
  finished :: "Shared \<Rightarrow> Shared"

definition channel_closed :: io_error where
  "channel_closed = \<lparr>io_kind = OtherKind 0, io_message = lit ''event channel closed''\<rparr>"

definition mount_dbfs :: "mount_run \<Rightarrow> u32 \<Rightarrow> Shared \<Rightarrow> MountOption list \<Rightarrow> ((RunError + unit) \<times> Shared) option" where
  "mount_dbfs env euid fs options =
     (case session_new env of
        Inl error \<Rightarrow> Some (Inl (mount_failure error options euid), fs)
      | Inr _ \<Rightarrow>
     (case block_signals env of
        Inl error \<Rightarrow> Some (Inl (RunSession error), fs)
      | Inr _ \<Rightarrow>
     (case spawn_waiter env of
        Inl error \<Rightarrow> Some (Inl (RunSession error), fs)
      | Inr _ \<Rightarrow>
     (case spawn_session env of
        Inl error \<Rightarrow> Some (Inl (RunSession error), fs)
      | Inr _ \<Rightarrow> do {
          let s = served env fs;
          (session_result, s) \<leftarrow> (case first_event env of
              Some (SessionEnded result) \<Rightarrow> Some (result, s)
            | Some Shutdown \<Rightarrow> shut_down s (unmounted env) (later_events env)
            | None \<Rightarrow> Some (Inl channel_closed, s));
          let s = finished env s;
          case session_result of
            Inl error \<Rightarrow> Some (Inl (RunSession error), s)
          | Inr _ \<Rightarrow> Some (case flush_failure s of Some errno \<Rightarrow> Inl (ShutdownFlush errno) | None \<Rightarrow> Inr (), s)
        }))))"

text \<open>\<open>open_db\<close> opens or creates the database file; \<open>mounter\<close> is \<open>mount_dbfs\<close> in \<open>run\<close>. The options are checked
  before the database is opened.\<close>

definition run_with_mounter :: "(ustr \<Rightarrow> DbError + Db) \<Rightarrow> ((u64 \<times> Slot) list \<Rightarrow> (u64 \<times> Slot) list) \<Rightarrow> Cli \<Rightarrow>
    (Shared \<Rightarrow> ustr \<Rightarrow> MountOption list \<Rightarrow> ((RunError + unit) \<times> Shared) option) \<Rightarrow> ((RunError + unit) \<times> Shared option) option" where
  "run_with_mounter open_db order cli mounter =
     (case mount_options_for (cmd_config (command cli)) of
        Inl e \<Rightarrow> Some (Inl e, None)
      | Inr options \<Rightarrow>
          (case open_db (cmd_database (command cli)) of
             Inl e \<Rightarrow> Some (Inl (RunDb e), None)
           | Inr d \<Rightarrow>
               let buffer = case_option DEFAULT_WRITE_BUFFER id (write_buffer (cmd_config (command cli)));
                   fs = with_kernel_cache (with_write_buffer order d buffer) (kernel_cache_flag (cmd_config (command cli)))
               in map_option (map_prod id Some) (mounter fs (cmd_mountpoint (command cli)) options)))"

definition run :: "(ustr \<Rightarrow> DbError + Db) \<Rightarrow> ((u64 \<times> Slot) list \<Rightarrow> (u64 \<times> Slot) list) \<Rightarrow> mount_run \<Rightarrow> u32 \<Rightarrow> Cli \<Rightarrow>
    ((RunError + unit) \<times> Shared option) option" where
  "run open_db order env euid cli = run_with_mounter open_db order cli (\<lambda>fs _ options. mount_dbfs env euid fs options)"

end
