(* ===== verification/Requests.thy ===== *)
theory Requests
  imports Filesystem
begin

text \<open>
  The FUSE session of \<^verbatim>\<open>src/src/fuse.rs\<close> (\<^verbatim>\<open>impl Filesystem for Dbfs\<close>): one definition per request of the
  kernel, which decodes it, calls the operation of \<^verbatim>\<open>Dbfs\<close> and sends one reply. A reply is the value
  given to the \<^verbatim>\<open>fuser\<close> reply object; the buffer behind \<^verbatim>\<open>ReplyDirectory\<close>, which decides when it is full,
  is a parameter. \<open>clock\<close> arguments are what \<^verbatim>\<open>SystemTime::now()\<close> returns, one per reading.
\<close>

section \<open>Replies\<close>

definition EPERM :: errno where "EPERM = 1"

text \<open>The capabilities and limits asked of the kernel at session start, in order; the outcome of each call is
  ignored.\<close>

datatype capability = FUSE_WRITEBACK_CACHE | FUSE_PARALLEL_DIROPS | FUSE_CACHE_SYMLINKS | FUSE_ASYNC_DIO

datatype config_call =
    AddCapabilities capability
  | SetMaxWrite u32
  | SetMaxReadahead u32
  | SetMaxBackground "16 word"
  | SetCongestionThreshold "16 word"

text \<open>An entry of a directory listing: inode, offset of the next entry, type and name. \<open>R_Done\<close> stands for
  the end of \<^verbatim>\<open>destroy\<close>, which has no reply.\<close>

type_synonym listed = "u64 \<times> i64 \<times> FileType \<times> bytes"

datatype reply =
    R_Error errno
  | R_Config "config_call list"
  | R_Listing "listed list"
  | R_Done
  | R_Entry nat FileAttr u64
  | R_Attr nat FileAttr
  | R_Statfs u64 u64 u64 u64 u64 u32 u32 u32
  | R_Created nat FileAttr u64 u64 u32
  | R_Data bytes
  | R_Size u32
  | R_Opened u64 u32
  | R_Written u32
  | R_Ok

text \<open>\<^verbatim>\<open>match result { Ok(a) => reply.f(a), Err(errno) => reply.error(errno) }\<close>\<close>

definition answer :: "('a \<Rightarrow> Shared \<Rightarrow> reply) \<Rightarrow> (errno + 'a) \<times> Shared \<Rightarrow> reply \<times> Shared" where
  "answer f m = (case m of (Inl e, s) \<Rightarrow> (R_Error e, s) | (Inr a, s) \<Rightarrow> (f a s, s))"

definition answers :: "('a \<Rightarrow> Shared \<Rightarrow> reply) \<Rightarrow> 'a outcome \<Rightarrow> (reply \<times> Shared) option" where
  "answers f m = map_option (answer f) m"

abbreviation entry_reply :: "FileAttr \<Rightarrow> Shared \<Rightarrow> reply" where "entry_reply attr s \<equiv> R_Entry (ttl s) attr 0"
abbreviation attr_reply :: "FileAttr \<Rightarrow> Shared \<Rightarrow> reply" where "attr_reply attr s \<equiv> R_Attr (ttl s) attr"
abbreviation ok_reply :: "unit \<Rightarrow> Shared \<Rightarrow> reply" where "ok_reply _ _ \<equiv> R_Ok"

section \<open>Session start\<close>

definition DEFAULT_MAX_REQUEST :: u32 where "DEFAULT_MAX_REQUEST = 128 * 1024"
definition KERNEL_CACHE_MAX_REQUEST :: u32 where "KERNEL_CACHE_MAX_REQUEST = 1024 * 1024"

definition fuse_init :: "Shared \<Rightarrow> config_call list" where
  "fuse_init s =
     (if \<not> kernel_cache s then [SetMaxWrite DEFAULT_MAX_REQUEST]
      else map AddCapabilities [FUSE_WRITEBACK_CACHE, FUSE_PARALLEL_DIROPS, FUSE_CACHE_SYMLINKS, FUSE_ASYNC_DIO] @
        [SetMaxWrite KERNEL_CACHE_MAX_REQUEST, SetMaxReadahead KERNEL_CACHE_MAX_REQUEST,
         SetMaxBackground 64, SetCongestionThreshold 48])"

section \<open>Names and attributes\<close>

definition fuse_lookup :: "Shared \<Rightarrow> u64 \<Rightarrow> bytes \<Rightarrow> (reply \<times> Shared) option" where
  "fuse_lookup s parent name = answers entry_reply (fs_lookup s parent name)"

definition fuse_getattr :: "Shared \<Rightarrow> u64 \<Rightarrow> (reply \<times> Shared) option" where
  "fuse_getattr s ino = answers attr_reply (getattr s ino)"

text \<open>\<open>add\<close> is \<^verbatim>\<open>ReplyDirectory::add\<close>, which says whether the buffer is full; the reply is the buffer or
  an error.\<close>

definition fuse_readdir :: "('d \<Rightarrow> u64 \<Rightarrow> i64 \<Rightarrow> FileType \<Rightarrow> bytes \<Rightarrow> bool \<times> 'd) \<Rightarrow> 'd \<Rightarrow> Shared \<Rightarrow> u64 \<Rightarrow> i64 \<Rightarrow>
    (errno + 'd) \<times> Shared" where
  "fuse_readdir add buffer s ino offset =
     (case readdir_stream s ino offset add buffer of
        ((Inl e, _), s) \<Rightarrow> (Inl e, s)
      | ((Inr _, buffer), s) \<Rightarrow> (Inr buffer, s))"

text \<open>\<^verbatim>\<open>fuser\<close>'s buffer as a list: \<open>full\<close> says, for the entries it holds, whether another one does not fit;
  then the entry is dropped and \<^verbatim>\<open>add\<close> returns true.\<close>

definition add_listed :: "(listed list \<Rightarrow> listed \<Rightarrow> bool) \<Rightarrow> listed list \<Rightarrow> u64 \<Rightarrow> i64 \<Rightarrow> FileType \<Rightarrow> bytes \<Rightarrow> bool \<times> listed list" where
  "add_listed full es ino next_offset kind name =
     (let e = (ino, next_offset, kind, name) in if full es e then (True, es) else (False, es @ [e]))"

definition fuse_statfs :: "i64 \<times> i64 \<times> i64 \<Rightarrow> Shared \<Rightarrow> (reply \<times> Shared) option" where
  "fuse_statfs pragmas s = answers (\<lambda>st _. R_Statfs (blocks st) (bfree st) (bavail st) (files st) (ffree st)
     (bsize st) (namelen st) (frsize st)) (statfs pragmas s)"

definition fuse_mkdir :: "Shared \<Rightarrow> u64 \<Rightarrow> bytes \<Rightarrow> u32 \<Rightarrow> u32 \<Rightarrow> u32 \<Rightarrow> u32 \<Rightarrow> SystemTime \<Rightarrow> reply \<times> Shared" where
  "fuse_mkdir s parent name mode umask uid gid clock =
     answer entry_reply (mkdir s parent name mode umask uid gid (from_system_time clock))"

definition fuse_create :: "Shared \<Rightarrow> u64 \<Rightarrow> bytes \<Rightarrow> u32 \<Rightarrow> u32 \<Rightarrow> u32 \<Rightarrow> u32 \<Rightarrow> SystemTime \<Rightarrow> (reply \<times> Shared) option" where
  "fuse_create s parent name mode umask uid gid clock =
     answers (\<lambda>(attr, fh) s. R_Created (ttl s) attr 0 fh (open_flags s))
       (create_open s parent name mode umask uid gid (from_system_time clock))"

definition fuse_symlink :: "Shared \<Rightarrow> u64 \<Rightarrow> bytes \<Rightarrow> bytes \<Rightarrow> u32 \<Rightarrow> u32 \<Rightarrow> SystemTime \<Rightarrow> reply \<times> Shared" where
  "fuse_symlink s parent link_name target uid gid clock =
     answer entry_reply (symlink s parent link_name target uid gid (from_system_time clock))"

definition fuse_readlink :: "Shared \<Rightarrow> u64 \<Rightarrow> reply \<times> Shared" where
  "fuse_readlink s ino = answer (\<lambda>target _. R_Data target) (readlink s ino)"

definition fuse_link :: "Shared \<Rightarrow> u64 \<Rightarrow> u64 \<Rightarrow> bytes \<Rightarrow> SystemTime \<Rightarrow> reply \<times> Shared" where
  "fuse_link s ino newparent newname clock =
     answer entry_reply (fs_link s ino newparent newname (from_system_time clock))"

datatype TimeOrNow = SpecificTime SystemTime | Now

fun time_or_now :: "TimeOrNow option \<Rightarrow> SystemTime \<Rightarrow> SystemTime option" where
  "time_or_now None clock = None"
| "time_or_now (Some (SpecificTime time)) clock = Some time"
| "time_or_now (Some Now) clock = Some clock"

definition fuse_setattr :: "Shared \<Rightarrow> u64 \<Rightarrow> u32 option \<Rightarrow> u32 option \<Rightarrow> u32 option \<Rightarrow> u64 option \<Rightarrow>
    TimeOrNow option \<Rightarrow> TimeOrNow option \<Rightarrow> SystemTime \<Rightarrow> SystemTime \<Rightarrow> SystemTime \<Rightarrow> SystemTime \<Rightarrow>
    (reply \<times> Shared) option" where
  "fuse_setattr s ino mode uid gid sz atime mtime clock1 clock2 clock3 clock4 =
     answers attr_reply (setattr s ino mode uid gid sz (time_or_now atime clock1) (time_or_now mtime clock2)
       (from_system_time clock3) (from_system_time clock4))"

section \<open>Extended attributes\<close>

definition reply_xattr :: "bytes \<Rightarrow> u32 \<Rightarrow> reply" where
  "reply_xattr value sz =
     (if sz = 0 then R_Size (of_nat (length value))
      else if unat sz < length value then R_Error ERANGE
      else R_Data value)"

definition fuse_getxattr :: "Shared \<Rightarrow> u64 \<Rightarrow> bytes \<Rightarrow> u32 \<Rightarrow> (reply \<times> Shared) option" where
  "fuse_getxattr s ino name sz = answers (\<lambda>value _. reply_xattr value sz) (getxattr s ino name)"

definition fuse_listxattr :: "Shared \<Rightarrow> u64 \<Rightarrow> u32 \<Rightarrow> (reply \<times> Shared) option" where
  "fuse_listxattr s ino sz = answers (\<lambda>names _. reply_xattr names sz) (listxattr s ino)"

definition fuse_setxattr :: "Shared \<Rightarrow> u64 \<Rightarrow> bytes \<Rightarrow> (reply \<times> Shared) option" where
  "fuse_setxattr s ino name = answers ok_reply (setxattr s ino name)"

definition fuse_removexattr :: "Shared \<Rightarrow> u64 \<Rightarrow> bytes \<Rightarrow> (reply \<times> Shared) option" where
  "fuse_removexattr s ino name = answers ok_reply (removexattr s ino name)"

section \<open>Open files\<close>

definition fuse_open :: "Shared \<Rightarrow> u64 \<Rightarrow> (reply \<times> Shared) option" where
  "fuse_open s ino = answers (\<lambda>fh s. R_Opened fh (open_flags s)) (fs_open s ino)"

definition fuse_release :: "Shared \<Rightarrow> u64 \<Rightarrow> (reply \<times> Shared) option" where
  "fuse_release s fh = answers ok_reply (release_fh s fh)"

definition fuse_flush :: "Shared \<Rightarrow> u64 \<Rightarrow> (reply \<times> Shared) option" where
  "fuse_flush s fh = answers ok_reply (flush_fh s fh)"

definition fuse_fsync :: "Shared \<Rightarrow> u64 \<Rightarrow> (reply \<times> Shared) option" where
  "fuse_fsync s fh = answers ok_reply (sync_fh s fh)"

definition fuse_read :: "Shared \<Rightarrow> u64 \<Rightarrow> i64 \<Rightarrow> u32 \<Rightarrow> (reply \<times> Shared) option" where
  "fuse_read s fh offset sz =
     (if offset < 0 then Some (R_Error EINVAL, s)
      else answers (\<lambda>data _. R_Data data) (read_fh s fh (u64_of_i64 offset) sz))"

definition fuse_write :: "Shared \<Rightarrow> u64 \<Rightarrow> i64 \<Rightarrow> bytes \<Rightarrow> SystemTime \<Rightarrow> (reply \<times> Shared) option" where
  "fuse_write s fh offset data clock =
     (if offset < 0 then Some (R_Error EINVAL, s)
      else answers (\<lambda>written _. R_Written written) (write_fh s fh (u64_of_i64 offset) data clock))"

definition fuse_fallocate :: "Shared \<Rightarrow> u64 \<Rightarrow> i64 \<Rightarrow> i64 \<Rightarrow> u32 \<Rightarrow> SystemTime \<Rightarrow> (reply \<times> Shared) option" where
  "fuse_fallocate s ino offset len mode clock =
     answers ok_reply (fallocate s ino offset len mode (from_system_time clock))"

section \<open>Removing, making and renaming\<close>

definition fuse_unlink :: "Shared \<Rightarrow> u64 \<Rightarrow> bytes \<Rightarrow> SystemTime \<Rightarrow> (reply \<times> Shared) option" where
  "fuse_unlink s parent name clock = answers ok_reply (unlink s parent name (from_system_time clock))"

definition fuse_rmdir :: "Shared \<Rightarrow> u64 \<Rightarrow> bytes \<Rightarrow> SystemTime \<Rightarrow> reply \<times> Shared" where
  "fuse_rmdir s parent name clock = answer ok_reply (rmdir s parent name (from_system_time clock))"

definition S_IFMT :: u32 where "S_IFMT = 0xF000"
definition S_IFREG :: u32 where "S_IFREG = 0x8000"

definition fuse_mknod :: "Shared \<Rightarrow> u64 \<Rightarrow> bytes \<Rightarrow> u32 \<Rightarrow> u32 \<Rightarrow> u32 \<Rightarrow> u32 \<Rightarrow> SystemTime \<Rightarrow> reply \<times> Shared" where
  "fuse_mknod s parent name mode umask uid gid clock =
     (let file_type = mode AND S_IFMT in
      if file_type = 0 \<or> file_type = S_IFREG
      then answer entry_reply (create s parent name (mode AND NOT S_IFMT) umask uid gid (from_system_time clock))
      else (R_Error EPERM, s))"

definition fuse_rename :: "Shared \<Rightarrow> u64 \<Rightarrow> bytes \<Rightarrow> u64 \<Rightarrow> bytes \<Rightarrow> u32 \<Rightarrow> SystemTime \<Rightarrow> (reply \<times> Shared) option" where
  "fuse_rename s parent name newparent newname flags clock =
     answers ok_reply (fs_rename s parent name newparent newname flags (from_system_time clock))"

section \<open>The session\<close>

text \<open>A request with what it carries; requests that read the clock carry the readings.\<close>

datatype request =
    Q_Init
  | Q_Destroy
  | Q_Readdir u64 i64 "listed list \<Rightarrow> listed \<Rightarrow> bool"
  | Q_Lookup u64 bytes
  | Q_Getattr u64
  | Q_Statfs "i64 \<times> i64 \<times> i64"
  | Q_Mkdir u64 bytes u32 u32 u32 u32 SystemTime
  | Q_Create u64 bytes u32 u32 u32 u32 SystemTime
  | Q_Symlink u64 bytes bytes u32 u32 SystemTime
  | Q_Readlink u64
  | Q_Link u64 u64 bytes SystemTime
  | Q_Setattr u64 "u32 option" "u32 option" "u32 option" "u64 option" "TimeOrNow option" "TimeOrNow option"
      SystemTime SystemTime SystemTime SystemTime
  | Q_Getxattr u64 bytes u32
  | Q_Listxattr u64 u32
  | Q_Setxattr u64 bytes
  | Q_Removexattr u64 bytes
  | Q_Open u64
  | Q_Release u64
  | Q_Flush u64
  | Q_Fsync u64
  | Q_Read u64 i64 u32
  | Q_Write u64 i64 bytes SystemTime
  | Q_Fallocate u64 i64 i64 u32 SystemTime
  | Q_Unlink u64 bytes SystemTime
  | Q_Rmdir u64 bytes SystemTime
  | Q_Mknod u64 bytes u32 u32 u32 u32 SystemTime
  | Q_Rename u64 bytes u64 bytes u32 SystemTime

fun handle :: "request \<Rightarrow> Shared \<Rightarrow> (reply \<times> Shared) option" where
  "handle Q_Init s = Some (R_Config (fuse_init s), s)"
| "handle Q_Destroy s = map_option (\<lambda>s. (R_Done, s)) (destroy s)"
| "handle (Q_Readdir i off full) s = Some (answer (\<lambda>es _. R_Listing es) (fuse_readdir (add_listed full) [] s i off))"
| "handle (Q_Lookup p n) s = fuse_lookup s p n"
| "handle (Q_Getattr i) s = fuse_getattr s i"
| "handle (Q_Statfs pr) s = fuse_statfs pr s"
| "handle (Q_Mkdir p n m um u g c) s = Some (fuse_mkdir s p n m um u g c)"
| "handle (Q_Create p n m um u g c) s = fuse_create s p n m um u g c"
| "handle (Q_Symlink p n t u g c) s = Some (fuse_symlink s p n t u g c)"
| "handle (Q_Readlink i) s = Some (fuse_readlink s i)"
| "handle (Q_Link i p n c) s = Some (fuse_link s i p n c)"
| "handle (Q_Setattr i m u g sz a t c1 c2 c3 c4) s = fuse_setattr s i m u g sz a t c1 c2 c3 c4"
| "handle (Q_Getxattr i n sz) s = fuse_getxattr s i n sz"
| "handle (Q_Listxattr i sz) s = fuse_listxattr s i sz"
| "handle (Q_Setxattr i n) s = fuse_setxattr s i n"
| "handle (Q_Removexattr i n) s = fuse_removexattr s i n"
| "handle (Q_Open i) s = fuse_open s i"
| "handle (Q_Release fh) s = fuse_release s fh"
| "handle (Q_Flush fh) s = fuse_flush s fh"
| "handle (Q_Fsync fh) s = fuse_fsync s fh"
| "handle (Q_Read fh off sz) s = fuse_read s fh off sz"
| "handle (Q_Write fh off d c) s = fuse_write s fh off d c"
| "handle (Q_Fallocate i off len m c) s = fuse_fallocate s i off len m c"
| "handle (Q_Unlink p n c) s = fuse_unlink s p n c"
| "handle (Q_Rmdir p n c) s = Some (fuse_rmdir s p n c)"
| "handle (Q_Mknod p n m um u g c) s = Some (fuse_mknod s p n m um u g c)"
| "handle (Q_Rename p n q m fl c) s = fuse_rename s p n q m fl c"

end
