(* ===== verification/Link_Counts.thy ===== *)
theory Link_Counts
  imports Directories
begin

text \<open>
  Link counts: the count of a file is the number of its names, the count of a directory two more than
  the number of its subdirectories. The storage calls keep both exact, so the data of a file goes when
  its last name does and not before.
\<close>

section \<open>Counts\<close>

definition links_ok :: "tables \<Rightarrow> bool" where
  "links_ok t \<longleftrightarrow> (\<forall>i r. map_of (t_inodes t) i = Some r \<longrightarrow> r_nlink r =
     (if r_kind r = DIR then 2 + int (card {x \<in> set (t_dirents t). d_parent (snd x) = i \<and> kinds t (d_child (snd x)) = Some DIR})
      else int (card {x \<in> set (t_dirents t). d_child (snd x) = i})))"

text \<open>What an entry adds to the count of an inode, and the count that is due.\<close>

definition weight :: "kinds \<Rightarrow> i64 \<times> dirent_row \<Rightarrow> i64 \<Rightarrow> int" where
  "weight K x j = (if K j = Some DIR then of_bool (d_parent (snd x) = j \<and> K (d_child (snd x)) = Some DIR)
     else of_bool (d_child (snd x) = j))"

definition due :: "kinds \<Rightarrow> entry_set \<Rightarrow> i64 \<Rightarrow> int" where
  "due K D j = (if K j = Some DIR then 2 else 0) + (\<Sum>x \<in> D. weight K x j)"

text \<open>Every count is off by \<open>f\<close>.\<close>

definition links_off :: "tables \<Rightarrow> (i64 \<Rightarrow> int) \<Rightarrow> bool" where
  "links_off t f \<longleftrightarrow> (\<forall>j n. nlinks t j = Some n \<longrightarrow> n = due (kinds t) (set (t_dirents t)) j + f j)"

lemma due_card:
  "finite D \<Longrightarrow> due K D j = (if K j = Some DIR then 2 + int (card {x \<in> D. d_parent (snd x) = j \<and> K (d_child (snd x)) = Some DIR})
     else int (card {x \<in> D. d_child (snd x) = j}))"
proof -
  assume D: "finite D"
  have "(\<Sum>x \<in> D. of_bool (P x)) = int (card {x \<in> D. P x})" for P
    by (subst sum_of_bool_eq) (simp_all add: D Int_def)
  then show ?thesis by (simp add: due_def weight_def)
qed

lemma links_ok_iff: "links_ok t \<longleftrightarrow> links_off t (\<lambda>_. 0)"
  unfolding links_ok_def links_off_def by (auto simp: due_card nlinks_def kinds_def)

lemma links_off_mono: "links_off t f \<Longrightarrow> (\<And>j. nlinks t j \<noteq> None \<Longrightarrow> f j = g j) \<Longrightarrow> links_off t g"
  by (auto simp: links_off_def)

lemma weight_nonneg: "0 \<le> weight K x j"
  by (simp add: weight_def)

lemma due_insert: "finite D \<Longrightarrow> x \<notin> D \<Longrightarrow> due K (insert x D) j = due K D j + weight K x j"
  by (simp add: due_def)

lemma due_remove: "finite D \<Longrightarrow> x \<in> D \<Longrightarrow> due K (D - {x}) j = due K D j - weight K x j"
  by (simp add: due_def sum_diff1)

lemma due_other:
  assumes "\<And>x. x \<in> D \<Longrightarrow> d_child (snd x) \<noteq> i" "j \<noteq> i"
  shows "due (K(i := k)) D j = due K D j"
  using assms by (auto simp: due_def weight_def intro!: sum.cong)

section \<open>Statements\<close>

lemma nlinks_meta [simp]:
  "nlinks (touch_dir t ino now) = nlinks t" "nlinks (set_size t ino n now) = nlinks t" "nlinks (delete_dirent t p m) = nlinks t"
  "nlinks (t\<lparr>t_dirents := ds\<rparr>) = nlinks t" "nlinks (delete_chunk_range t ino) = nlinks t" "nlinks (upsert_chunk t key d) = nlinks t"
  "nlinks (cut_chunks t a b c) = nlinks t"
  unfolding nlinks_def[abs_def]
  by (simp_all add: touch_dir_def set_size_def delete_dirent_def delete_chunk_range_def upsert_chunk_def cut_chunks_def tbl_simps
      option.map_comp comp_def fun_eq_iff split: prod.split)

lemma links_off_cong: "nlinks t' = nlinks t \<Longrightarrow> kinds t' = kinds t \<Longrightarrow> set (t_dirents t') = set (t_dirents t) \<Longrightarrow> links_off t' f = links_off t f"
  by (simp add: links_off_def)

lemma off_touch [simp]: "links_off (touch_dir t ino now) f = links_off t f"
  by (rule links_off_cong) simp_all

lemma off_add:
  assumes "links_off t f"
  shows "links_off (add_directory_nlink t ino x) (\<lambda>j. f j + (if j = i64_of_u64 ino then x else 0))"
proof -
  have "nlinks (add_directory_nlink t ino x) j = map_option (\<lambda>n. if j = i64_of_u64 ino then n + x else n) (nlinks t j)" for j
    by (simp add: nlinks_def add_directory_nlink_def tbl_simps option.map_comp comp_def)
  with assms show ?thesis by (auto simp: links_off_def)
qed

lemma off_set:
  assumes "links_off t f"
  shows "links_off (set_nlink t ino l now) (f(i64_of_u64 ino := i64_of_u32 l - due (kinds t) (set (t_dirents t)) (i64_of_u64 ino)))"
proof -
  have "nlinks (set_nlink t ino l now) j = map_option (\<lambda>n. if j = i64_of_u64 ino then i64_of_u32 l else n) (nlinks t j)" for j
    by (simp add: nlinks_def set_nlink_def tbl_simps option.map_comp comp_def)
  with assms show ?thesis by (auto simp: links_off_def)
qed

lemma delete_dirent_set:
  assumes t: "tree_ok t" and e: "(rid, entry p n c) \<in> set (t_dirents t)"
  shows "set (t_dirents (delete_dirent t p n)) = set (t_dirents t) - {(rid, entry p n c)}"
proof -
  have uniq: "(rid', d) = (rid, entry p n c)" if "(rid', d) \<in> set (t_dirents t)" "d_parent d = i64_of_u64 p" "d_name d = n" for rid' d
  proof -
    have d: "d = entry p n (d_child d)" by (rule entry_eta[OF that(2,3)])
    then have "(rid', entry p n (d_child d)) \<in> set (t_dirents t)" using that(1) by simp
    from entry_unique[OF t e this] d show ?thesis by simp
  qed
  have "x \<in> set (t_dirents (delete_dirent t p n)) \<longleftrightarrow> x \<in> set (t_dirents t) - {(rid, entry p n c)}" for x
    using uniq[of "fst x" "snd x"] by (cases x) (auto simp: delete_dirent_entries)
  then show ?thesis by blast
qed

lemma off_delete_dirent:
  assumes t: "tree_ok t" and e: "(rid, entry p n c) \<in> set (t_dirents t)" and f: "links_off t f"
  shows "links_off (delete_dirent t p n) (\<lambda>j. f j + weight (kinds t) (rid, entry p n c) j)"
  using f by (simp add: links_off_def delete_dirent_set[OF t e] due_remove[OF _ e])

lemma nlinks_delete:
  assumes "tbl_ok (t_inodes t)"
  shows "nlinks (delete_inode_rows t ino) = (nlinks t)(i64_of_u64 ino := None)"
  using assms by (auto simp: nlinks_def fun_eq_iff delete_inode_rows_def delete_inode_row_def Let_def map_of_tbl_delete split: option.splits)

text \<open>The row of an inode that no entry mentions.\<close>

lemma off_gone:
  assumes tb: "tbl_ok (t_inodes t)" and f: "links_off t f"
    and free: "\<And>x. x \<in> set (t_dirents t) \<Longrightarrow> d_parent (snd x) \<noteq> i64_of_u64 ino \<and> d_child (snd x) \<noteq> i64_of_u64 ino"
  shows "links_off (delete_inode_rows t ino) f" "set (t_dirents (delete_inode_rows t ino)) = set (t_dirents t)"
proof -
  show D: "set (t_dirents (delete_inode_rows t ino)) = set (t_dirents t)" using free by (force simp: delete_inode_rows_entries)
  have "due ((kinds t)(i64_of_u64 ino := None)) (set (t_dirents t)) j = due (kinds t) (set (t_dirents t)) j" if "j \<noteq> i64_of_u64 ino" for j
    by (rule due_other) (use free that in auto)
  then show "links_off (delete_inode_rows t ino) f"
    using f unfolding links_off_def D delete_inode_rows_kinds[OF tb] nlinks_delete[OF tb] by auto
qed

section \<open>Counts as 32-bit numbers\<close>

definition few_names :: "tables \<Rightarrow> bool" where
  "few_names t \<longleftrightarrow> length (t_dirents t) < 2 ^ 32 - 1"

lemma count_bound:
  assumes "few_names t" "K j \<noteq> Some DIR"
  shows "0 \<le> due K (set (t_dirents t)) j" "due K (set (t_dirents t)) j < 2 ^ 32 - 1"
proof -
  have "card {x \<in> set (t_dirents t). d_child (snd x) = j} \<le> card (set (t_dirents t))" by (rule card_mono) auto
  also have "\<dots> \<le> length (t_dirents t)" by (rule card_length)
  finally show "due K (set (t_dirents t)) j < 2 ^ 32 - 1" using assms by (simp add: due_card few_names_def)
  show "0 \<le> due K (set (t_dirents t)) j" using assms(2) by (simp add: due_card)
qed

lemma u32_count:
  assumes "0 \<le> n" "n < 2 ^ 32 - 1"
  shows "i64_of_u32 (u32_of_i64 n + 1) = n + 1" "1 < u32_of_i64 n \<longleftrightarrow> 1 < n" "u32_of_i64 n = 0 \<longleftrightarrow> n = 0"
    "1 \<le> n \<Longrightarrow> i64_of_u32 (u32_of_i64 n - 1) = n - 1"
proof -
  have u: "uint (word_of_int n :: u32) = n" using assms by (simp add: unsigned_of_int take_bit_int_eq_self)
  show "i64_of_u32 (u32_of_i64 n + 1) = n + 1" using u assms by (simp add: i64_of_u32_def u32_of_i64_def uint_word_ariths)
  show "1 < u32_of_i64 n \<longleftrightarrow> 1 < n" using u by (simp add: u32_of_i64_def word_less_def)
  show "u32_of_i64 n = 0 \<longleftrightarrow> n = 0" using u by (simp add: u32_of_i64_def word_uint_eq_iff)
  show "i64_of_u32 (u32_of_i64 n - 1) = n - 1" if "1 \<le> n" using u assms that by (simp add: i64_of_u32_def u32_of_i64_def uint_word_ariths)
qed

lemma from_row_nlink: "inode_from_row i row = Inr inode \<Longrightarrow> i_nlink inode = u32_of_i64 (r_nlink row)"
  by (auto simp: inode_from_row_def split: sum.splits)

text \<open>A lookup reads the stored count.\<close>

lemma lookup_nlink:
  assumes ok: "names_ok db" and l: "lookup db p n = (Inr target, db')"
  obtains rid k where "(rid, entry p n (i64_of_u64 (i_ino target))) \<in> set (t_dirents (tabs db))"
    "kinds (tabs db) (i64_of_u64 (i_ino target)) = Some (kind_as_i64 (i_kind target))"
    "nlinks (tabs db) (i64_of_u64 (i_ino target)) = Some k" "i_nlink target = u32_of_i64 k"
proof -
  let ?c = "i64_of_u64 (i_ino target)" and ?db = "db\<lparr>faults := []\<rparr>"
  obtain rid where e: "(rid, entry p n ?c) \<in> set (t_dirents (tabs db))" "kinds (tabs db) ?c = Some (kind_as_i64 (i_kind target))"
    by (rule lookup_child[OF ok l])
  have t: "tree_ok (tabs ?db)" using ok by (simp add: names_ok_def)
  have f: "faults ?db = []" and e': "(rid, entry p n ?c) \<in> set (t_dirents (tabs ?db))" using e by simp_all
  have "lookup ?db p n = (Inr target, ?db)" using l by (auto simp: lookup_def query_no_fault split: sum.splits dest!: query_Inr)
  moreover obtain row inode where "map_of (t_inodes (tabs ?db)) ?c = Some row" "inode_from_row ?c row = Inr inode" "lookup ?db p n = (Inr inode, ?db)"
    by (rule lookup_found[OF t f lookup_name_ok[OF l] e'])
  ultimately show thesis using that[OF e] from_row_nlink by (simp add: nlinks_def)
qed

section \<open>Removing an entry\<close>

lemma dropped_dir:
  assumes t: "tree_ok t" and off: "links_off t (\<lambda>_. 0)" and e: "(rid, entry q m (i64_of_u64 ino)) \<in> set (t_dirents t)"
    and k: "kinds t (i64_of_u64 ino) = Some DIR"
    and empty: "\<forall>x \<in> set (t_dirents t). d_parent (snd x) \<noteq> i64_of_u64 ino"
  defines "t' \<equiv> delete_inode_rows (delete_dirent t q m) ino"
  shows "links_off t' (\<lambda>j. if j = i64_of_u64 q then 1 else 0)"
    and "set (t_dirents t') = set (t_dirents t) - {(rid, entry q m (i64_of_u64 ino))}"
proof -
  let ?K = "kinds t" and ?D = "set (t_dirents t)" and ?y = "(rid, entry q m (i64_of_u64 ino))" and ?u = "delete_dirent t q m"
  have u: "links_off ?u (weight ?K ?y)" using off_delete_dirent[OF t e off] by simp
  have D: "set (t_dirents ?u) = ?D - {?y}" by (rule delete_dirent_set[OF t e])
  have tb: "tbl_ok (t_inodes ?u)" and tr: "tree ?K ?D" using t by (simp_all add: tree_ok_def)
  have "closed ?K (snd ?y)" using tr e unfolding tree_def by blast
  then have q: "?K (i64_of_u64 q) = Some DIR" by (simp add: closed_def)
  have free: "d_parent (snd x) \<noteq> i64_of_u64 ino \<and> d_child (snd x) \<noteq> i64_of_u64 ino" if "x \<in> set (t_dirents ?u)" for x
    using that empty k tr e onlyD[of "same_dir ?K" ?D x ?y] unfolding D tree_def by (auto simp: same_dir_def)
  note gone = off_gone[OF tb u free]
  show "links_off t' (\<lambda>j. if j = i64_of_u64 q then 1 else 0)"
    unfolding t'_def by (rule links_off_mono[OF gone(1)]) (use k q nlinks_delete[OF tb, of ino] in \<open>auto simp: weight_def split: if_splits\<close>)
  show "set (t_dirents t') = ?D - {?y}" using gone(2) D by (simp add: t'_def)
qed

text \<open>A file that loses a name: its count goes down by one, or its rows go with its last name.\<close>

lemma dropped_file:
  fixes now :: Timestamp and op :: bool
  assumes t: "tree_ok t" and off: "links_off t (\<lambda>_. 0)" and few: "few_names t"
    and e: "(rid, entry q m (i64_of_u64 (i_ino target))) \<in> set (t_dirents t)"
    and k: "kinds t (i64_of_u64 (i_ino target)) = Some (kind_as_i64 (i_kind target))" "i_kind target \<noteq> Directory"
    and n: "nlinks t (i64_of_u64 (i_ino target)) = Some k" "i_nlink target = u32_of_i64 k"
  defines "t' \<equiv> drop_unlinked_inode (delete_dirent t q m) target now op"
  shows "links_off t' (\<lambda>_. 0)" and "set (t_dirents t') = set (t_dirents t) - {(rid, entry q m (i64_of_u64 (i_ino target)))}"
    and "1 < i_nlink target \<longleftrightarrow> (\<exists>x \<in> set (t_dirents t'). d_child (snd x) = i64_of_u64 (i_ino target))"
proof -
  let ?c = "i64_of_u64 (i_ino target)" and ?K = "kinds t" and ?D = "set (t_dirents t)"
  let ?y = "(rid, entry q m ?c)" and ?u = "delete_dirent t q m"
  have u: "links_off ?u (weight ?K ?y)" using off_delete_dirent[OF t e off] by simp
  have D: "set (t_dirents ?u) = ?D - {?y}" by (rule delete_dirent_set[OF t e])
  have tb: "tbl_ok (t_inodes ?u)" using t by (simp add: tree_ok_def)
  note nd = kind_not_dir[OF k(2)]
  have kd: "?K ?c \<noteq> Some DIR" using k(1) nd by simp
  have kdue: "k = due ?K ?D ?c" using off n(1) by (simp add: links_off_def)
  have b: "0 \<le> k" "k < 2 ^ 32 - 1" using count_bound[where K = ?K and j = ?c, OF few kd] kdue by simp_all
  have w1: "weight ?K ?y ?c = 1" using kd by (simp add: weight_def)
  have w0: "weight ?K ?y j = 0" if "j \<noteq> ?c" for j using that kd by (auto simp: weight_def)
  have rest: "due ?K (?D - {?y}) ?c = k - 1" using due_remove[OF _ e] kdue w1 by simp
  have sum: "(\<Sum>x \<in> ?D - {?y}. weight ?K x ?c) = k - 1" using rest kd by (simp add: due_def)
  have ge: "1 \<le> k" using sum sum_nonneg[of "?D - {?y}" "\<lambda>x. weight ?K x ?c"] weight_nonneg by simp
  have more: "1 < i_nlink target \<longleftrightarrow> 1 < k" using u32_count(2)[OF b] n(2) by simp
  have "1 < k \<longleftrightarrow> \<not> (\<forall>x \<in> ?D - {?y}. weight ?K x ?c = 0)"
    using sum ge sum_nonneg_eq_0_iff[of "?D - {?y}" "\<lambda>x. weight ?K x ?c"] weight_nonneg by auto
  then have names: "1 < k \<longleftrightarrow> (\<exists>x \<in> ?D - {?y}. d_child (snd x) = ?c)" using kd by (simp add: weight_def)
  have "links_off t' (\<lambda>_. 0) \<and> set (t_dirents t') = ?D - {?y}"
  proof (cases "1 < i_nlink target \<or> op")
    case True
    then have t': "t' = set_nlink ?u (i_ino target) (i_nlink target - 1) now"
      using k(2) u32_count(3)[OF b] ge n(2) by (simp add: t'_def drop_unlinked_inode_def Let_def)
    have "links_off t' ((weight ?K ?y)(?c := i64_of_u32 (i_nlink target - 1) - due ?K (?D - {?y}) ?c))"
      using off_set[OF u, of "i_ino target" "i_nlink target - 1" now] t' D by simp
    then have "links_off t' (\<lambda>_. 0)"
      by (rule links_off_mono) (use rest u32_count(4)[OF b ge] n(2) w0 in auto)
    then show ?thesis using t' D by simp
  next
    case False
    have free: "d_parent (snd x) \<noteq> ?c \<and> d_child (snd x) \<noteq> ?c" if "x \<in> set (t_dirents ?u)" for x
    proof -
      have x: "x \<in> ?D - {?y}" using that D by simp
      then have "(fst x, snd x) \<in> ?D" by simp
      from not_below_file[OF t this k(1) nd] show ?thesis using x names more False by auto
    qed
    note gone = off_gone[OF tb u free]
    have t': "t' = delete_inode_rows ?u (i_ino target)" using False k(2) by (simp add: t'_def drop_unlinked_inode_def)
    have "links_off t' (\<lambda>_. 0)"
      unfolding t' by (rule links_off_mono[OF gone(1)]) (use w0 nlinks_delete[OF tb, of "i_ino target"] in \<open>auto split: if_splits\<close>)
    then show ?thesis using gone(2) D t' by simp
  qed
  then show "links_off t' (\<lambda>_. 0)" and D': "set (t_dirents t') = ?D - {?y}" by blast+
  show "1 < i_nlink target \<longleftrightarrow> (\<exists>x \<in> set (t_dirents t'). d_child (snd x) = ?c)" unfolding D' more names ..
qed

section \<open>Moving an entry\<close>

lemma moved_set:
  assumes t: "tree_ok t" and mv: "move_dirent t p n q m = Inr t'" and e: "(rid, entry p n c) \<in> set (t_dirents t)"
  shows "set (t_dirents t') = insert (rid, entry q m c) (set (t_dirents t) - {(rid, entry p n c)})"
    and "t_inodes t' = t_inodes t" "kinds t (i64_of_u64 q) \<noteq> None"
    and "(rid, entry q m c) \<notin> set (t_dirents t) - {(rid, entry p n c)}"
proof -
  let ?D = "set (t_dirents t)" and ?x = "(rid, entry p n c)"
  let ?hit = "\<lambda>d :: dirent_row. d_parent d = i64_of_u64 p \<and> d_name d = n"
  let ?mv = "\<lambda>(rid, d). (rid, if ?hit d then d\<lparr>d_parent := i64_of_u64 q, d_name := m\<rparr> else d)"
  have ex: "list_ex (\<lambda>(_, d). ?hit d) (t_dirents t)" using e by (force simp: list_ex_iff)
  have t': "t' = t\<lparr>t_dirents := map ?mv (t_dirents t)\<rparr>" and q: "kinds t (i64_of_u64 q) \<noteq> None"
    using mv ex by (auto simp: move_dirent_def Let_def kinds_def split: if_splits)
  have "?mv y = y" if "y \<in> ?D - {?x}" for y
    using delete_dirent_set[OF t e] that by (cases y) (auto simp: delete_dirent_entries set_eq_iff)
  then have E: "?mv ` (?D - {?x}) = ?D - {?x}" by (simp cong: image_cong_simp)
  have "?mv ` ?D = ?mv ` insert ?x (?D - {?x})" using e by (simp add: insert_absorb)
  then show "set (t_dirents t') = insert (rid, entry q m c) (?D - {?x})" unfolding image_insert E t' by simp
  show "t_inodes t' = t_inodes t" "kinds t (i64_of_u64 q) \<noteq> None" using t' q by simp_all
  have dist: "distinct (map fst (t_dirents t))" using t by (intro tbl_ok_distinct) (simp add: tree_ok_def)
  show "(rid, entry q m c) \<notin> ?D - {?x}" using eq_key_imp_eq_value[OF dist e, of "entry q m c"] by auto
qed

lemma moved_links:
  assumes t: "tree_ok t" and mv: "move_dirent t p n q m = Inr t'" and e: "(rid, entry p n c) \<in> set (t_dirents t)" and f: "links_off t f"
  shows "links_off t' (\<lambda>j. f j + weight (kinds t) (rid, entry p n c) j - weight (kinds t) (rid, entry q m c) j)"
proof -
  note ms = moved_set[OF t mv e]
  have "due (kinds t) (set (t_dirents t')) j = due (kinds t) (set (t_dirents t)) j - weight (kinds t) (rid, entry p n c) j + weight (kinds t) (rid, entry q m c) j" for j
    unfolding ms(1) using due_insert[OF _ ms(4)] due_remove[OF _ e] by simp
  then show ?thesis using f ms(2) by (simp add: links_off_def nlinks_def kinds_def)
qed

lemma weight_moved:
  assumes "K (i64_of_u64 p) = Some DIR" "K (i64_of_u64 q) = Some DIR"
  shows "weight K (rid, entry p n c) j - weight K (rid, entry q m c) j =
    (if K c = Some DIR then (if j = i64_of_u64 p then 1 else 0) - (if j = i64_of_u64 q then 1 else 0) else 0)"
  using assms by (auto simp: weight_def)

section \<open>The storage calls\<close>

lemma create_links:
  assumes ok: "names_ok db" and l: "links_ok (tabs db)" and c: "create_node db p n node uid gid now = (Inr inode, db')"
  shows "links_ok (tabs db')"
proof -
  let ?i = "i64_of_u64 (i_ino inode)" and ?t = "tabs db" and ?t' = "tabs db'" and ?p = "i64_of_u64 p"
  have t: "tree_ok ?t" "rowids_fresh (new_rowid db)" using ok by (simp_all add: names_ok_def)
  obtain rid where B: "kinds ?t ?p = Some DIR" "kinds ?t ?i = None" "rid \<notin> fst ` set (t_dirents ?t)"
      "kinds ?t' = (kinds ?t)(?i \<mapsto> kind_as_i64 (node_kind node))"
      "set (t_dirents ?t') = insert (rid, entry p n ?i) (set (t_dirents ?t))"
      "nlinks ?t' ?i = Some (if node_kind node = Directory then 2 else 1)"
      "\<forall>j. j \<noteq> ?i \<longrightarrow> nlinks ?t' j = map_option (\<lambda>k. if node_kind node = Directory \<and> j = ?p then k + 1 else k) (nlinks ?t j)"
    using create_node_born(1)[OF c t] unfolding born_def Let_def by (elim exE conjE) (rule that, assumption+)
  have tr: "tree (kinds ?t) (set (t_dirents ?t))" using t by (simp add: tree_ok_def)
  have free: "d_child (snd x) \<noteq> ?i \<and> d_parent (snd x) \<noteq> ?i" if "x \<in> set (t_dirents ?t)" for x
    using tr that B(2) unfolding tree_def closed_def by force
  have new: "(rid, entry p n ?i) \<notin> set (t_dirents ?t)" using B(3) by force
  have off: "links_off ?t (\<lambda>_. 0)" using l by (simp add: links_ok_iff)
  have w: "weight (kinds ?t') x ?i = 0" if "x \<in> set (t_dirents ?t)" for x using free[OF that] by (auto simp: weight_def)
  have "due (kinds ?t') (set (t_dirents ?t)) ?i = (if node_kind node = Directory then 2 else 0)"
    using w by (simp add: due_def B(4)) (cases node; simp)
  then have here: "due (kinds ?t') (set (t_dirents ?t')) ?i = (if node_kind node = Directory then 2 else 1)"
    using B(1,2) unfolding B(5) due_insert[OF finite_set new] by (cases node) (auto simp: weight_def B(4))
  have there: "due (kinds ?t') (set (t_dirents ?t')) j = due (kinds ?t) (set (t_dirents ?t)) j + (if node_kind node = Directory \<and> j = ?p then 1 else 0)"
    if "j \<noteq> ?i" for j
    using due_other[of "set (t_dirents ?t)" ?i j "kinds ?t" "Some (kind_as_i64 (node_kind node))"] free that B(1,2)
    unfolding B(5) due_insert[OF finite_set new] B(4) by (cases node) (auto simp: weight_def)
  have "k = due (kinds ?t') (set (t_dirents ?t')) j" if k: "nlinks ?t' j = Some k" for j k
  proof (cases "j = ?i")
    case True
    then show ?thesis using k B(6) here by simp
  next
    case False
    then obtain k0 where "nlinks ?t j = Some k0" "k = (if node_kind node = Directory \<and> j = ?p then k0 + 1 else k0)" using k B(7) by auto
    then show ?thesis using off there[OF False] by (auto simp: links_off_def)
  qed
  then show ?thesis by (simp add: links_ok_iff links_off_def)
qed

lemma link_links:
  assumes ok: "names_ok db" and l: "links_ok (tabs db)" and few: "few_names (tabs db)" and c: "link db ino p n now = (Inr x, db')"
  shows "links_ok (tabs db')"
proof -
  let ?i = "i64_of_u64 ino" and ?t = "tabs db"
  obtain i0 db1 db2 where s: "get_inode db ino = (Inr i0, db1)" "i_kind i0 \<noteq> Directory" "inode_kind_of db1 p = (Inr Directory, db2)"
    and tr: "transaction db2 (\<lambda>t. case insert_dirent (new_rowid db2) t p n ino of Inl e \<Rightarrow> Inl e
        | Inr t \<Rightarrow> let new_nlink = i_nlink i0 + 1; t = touch_dir (set_nlink t ino new_nlink now) p now
            in Inr (i0\<lparr>i_nlink := new_nlink, i_ctime := now\<rparr>, t)) = (Inr x, db')"
    using c unfolding link_def by (auto simp: and_then_Inr_iff split: sum.splits if_splits)
  note g = get_inode_Inr[OF s(1)] and k = inode_kind_of_Inr[OF s(3)]
  have T: "tabs db2 = ?t" "new_rowid db2 = new_rowid db" using g k by simp_all
  obtain t1 where t1: "insert_dirent (new_rowid db) ?t p n ino = Inr t1" "tabs db' = touch_dir (set_nlink t1 ino (i_nlink i0 + 1) now) p now"
    using transaction_Inr[OF tr] T by (auto simp: Let_def split: sum.splits)
  have t: "tbl_ok (t_dirents ?t)" "rowids_fresh (new_rowid db)" using ok by (simp_all add: names_ok_def tree_ok_def)
  obtain rid where r: "new_rowid db (map fst (t_dirents ?t)) = Some rid" "t1 = ?t\<lparr>t_dirents := tbl_put rid (entry p n ?i) (t_dirents ?t)\<rparr>"
    by (rule insert_dirent_Inr[OF t1(1)])
  note D = insert_dirent_entries[OF t r(1)]
  have new: "(rid, entry p n ?i) \<notin> set (t_dirents ?t)" using D(3) by force
  have kd: "kinds ?t ?i \<noteq> Some DIR" using g(1) kind_not_dir[OF s(2)] by simp
  have off: "links_off ?t (\<lambda>_. 0)" using l by (simp add: links_ok_iff)
  obtain k0 where n: "nlinks ?t ?i = Some k0" "i_nlink i0 = u32_of_i64 k0"
    using s(1) unfolding get_inode_def by (auto simp: nlinks_def split: option.splits dest!: query_Inr from_row_nlink)
  have due: "k0 = due (kinds ?t) (set (t_dirents ?t)) ?i" using off n(1) by (simp add: links_off_def)
  have w: "weight (kinds ?t) (rid, entry p n ?i) j = (if j = ?i then 1 else 0)" for j using kd by (auto simp: weight_def)
  have K1: "kinds t1 = kinds ?t" "nlinks t1 = nlinks ?t" by (simp_all add: r(2) kinds_def)
  have D1: "due (kinds ?t) (set (t_dirents t1)) j = due (kinds ?t) (set (t_dirents ?t)) j + (if j = ?i then 1 else 0)" for j
    using due_insert[OF finite_set new] w by (simp add: r(2) D(1))
  have off1: "links_off t1 (\<lambda>j. if j = ?i then - 1 else 0)" using off by (auto simp: links_off_def K1 D1)
  have "i64_of_u32 (i_nlink i0 + 1) = k0 + 1" unfolding n(2) due by (rule u32_count(1)) (rule count_bound[where K = "kinds ?t" and j = ?i, OF few kd])+
  then have "links_off (set_nlink t1 ino (i_nlink i0 + 1) now) (\<lambda>_. 0)"
    by (intro links_off_mono[OF off_set[OF off1]]) (auto simp: K1 D1 due)
  then show ?thesis by (simp add: links_ok_iff t1(2))
qed

lemma unlink_links:
  assumes ok: "names_ok db" and l: "links_ok (tabs db)" and few: "few_names (tabs db)"
    and lk: "lookup db p n = (Inr target, db1)" and u: "unlink_entry db1 p n target op now = (Inr x, db')"
  shows "links_ok (tabs db')"
    and "1 < i_nlink target \<longleftrightarrow> (\<exists>y \<in> set (t_dirents (tabs db')). d_child (snd y) = i64_of_u64 (i_ino target))"
    and "set (t_dirents (tabs db')) = {(rid, d) \<in> set (t_dirents (tabs db)). \<not> (d_parent d = i64_of_u64 p \<and> d_name d = n)}"
proof -
  have off: "links_off (tabs db) (\<lambda>_. 0)" using l by (simp add: links_ok_iff)
  have t: "tree_ok (tabs db)" "tabs db1 = tabs db" using ok same_lookup[OF lk] by (simp_all add: names_ok_def same_rows_def)
  have k: "i_kind target \<noteq> Directory" using u by (auto simp: unlink_entry_def)
  have d: "tabs db' = touch_dir (drop_unlinked_inode (delete_dirent (tabs db) p n) target now op) p now"
    using u k t(2) by (auto simp: unlink_entry_def dest!: transaction_Inr)
  obtain rid c where r: "(rid, entry p n (i64_of_u64 (i_ino target))) \<in> set (t_dirents (tabs db))"
      "kinds (tabs db) (i64_of_u64 (i_ino target)) = Some (kind_as_i64 (i_kind target))"
      "nlinks (tabs db) (i64_of_u64 (i_ino target)) = Some c" "i_nlink target = u32_of_i64 c"
    by (rule lookup_nlink[OF ok lk])
  note dl = dropped_file[OF t(1) off few r(1,2) k r(3,4), of now op]
  show "links_ok (tabs db')" using dl(1) by (simp add: links_ok_iff d)
  show "1 < i_nlink target \<longleftrightarrow> (\<exists>y \<in> set (t_dirents (tabs db')). d_child (snd y) = i64_of_u64 (i_ino target))"
    using dl(3) by (simp add: d)
  show "set (t_dirents (tabs db')) = {(rid, d) \<in> set (t_dirents (tabs db)). \<not> (d_parent d = i64_of_u64 p \<and> d_name d = n)}"
    using dl(2) delete_dirent_set[OF t(1) r(1)] by (simp add: d delete_dirent_entries)
qed

lemma remove_dir_links:
  assumes ok: "names_ok db" and l: "links_ok (tabs db)" and r: "remove_dir db p n now = (Inr (), db')"
  shows "links_ok (tabs db')"
proof -
  have off: "links_off (tabs db) (\<lambda>_. 0)" and t: "tree_ok (tabs db)" using l ok by (simp_all add: links_ok_iff names_ok_def)
  obtain target db1 where s: "lookup db p n = (Inr target, db1)" "i_kind target = Directory"
    "\<forall>(rid, d) \<in> set (t_dirents (tabs db)). d_parent d \<noteq> i64_of_u64 (i_ino target)"
    "tabs db' = add_directory_nlink (touch_dir (delete_inode_rows (delete_dirent (tabs db) p n) (i_ino target)) p now) p (-1)"
    by (rule remove_dir_Inr[OF ok r])
  obtain rid where e: "(rid, entry p n (i64_of_u64 (i_ino target))) \<in> set (t_dirents (tabs db))"
    "kinds (tabs db) (i64_of_u64 (i_ino target)) = Some (kind_as_i64 (i_kind target))" by (rule lookup_child[OF ok s(1)])
  let ?t = "delete_inode_rows (delete_dirent (tabs db) p n) (i_ino target)"
  have "links_off ?t (\<lambda>j. if j = i64_of_u64 p then 1 else 0)"
    by (rule dropped_dir(1)[OF t off e(1)]) (use e(2) s(2,3) in auto)
  then have "links_off (touch_dir ?t p now) (\<lambda>j. if j = i64_of_u64 p then 1 else 0)" by simp
  from off_add[OF this, of p "- 1"] have "links_off (tabs db') (\<lambda>_. 0)"
    unfolding s(4) by (rule links_off_mono) simp
  then show ?thesis by (simp add: links_ok_iff)
qed

text \<open>The entry that a rename replaces.\<close>

lemma replaced_links:
  fixes now :: Timestamp and op :: bool
  assumes ok: "names_ok db" and l: "links_ok (tabs db)" and few: "few_names (tabs db)" and same: "same_rows db db3"
    and x: "lookup db3 q m = (Inr x, db4)" and rp: "replaceable db4 source (Some x) = (Inr (), db5)"
  defines "t \<equiv> drop_unlinked_inode (delete_dirent (tabs db) q m) x now op"
  shows "links_off t (\<lambda>j. if i_kind x = Directory \<and> j = i64_of_u64 q then 1 else 0)"
    and "\<exists>rid. set (t_dirents t) = set (t_dirents (tabs db)) - {(rid, entry q m (i64_of_u64 (i_ino x)))}" and "tree_ok t"
proof -
  have T: "tabs db3 = tabs db" "names_ok db3" using same same_names[OF same ok] by (simp_all add: same_rows_def)
  have T4: "tabs db4 = tabs db" "names_ok db4" using same_lookup[OF x] same_names[OF same_lookup[OF x] T(2)] T(1) by (simp_all add: same_rows_def)
  have off: "links_off (tabs db) (\<lambda>_. 0)" and tr: "tree_ok (tabs db)" using l ok by (simp_all add: links_ok_iff names_ok_def)
  obtain rid c where r: "(rid, entry q m (i64_of_u64 (i_ino x))) \<in> set (t_dirents (tabs db))"
      "kinds (tabs db) (i64_of_u64 (i_ino x)) = Some (kind_as_i64 (i_kind x))"
      "nlinks (tabs db) (i64_of_u64 (i_ino x)) = Some c" "i_nlink x = u32_of_i64 c"
    using lookup_nlink[OF T(2) x] unfolding T(1) by blast
  have one: "i64_of_u64 (i_ino x) \<noteq> 1" by (rule lookup_child[OF T(2) x])
  show "tree_ok t" unfolding t_def by (rule drop_unlinked_tree[OF delete_dirent_tree[OF tr] one])
  have "links_off t (\<lambda>j. if i_kind x = Directory \<and> j = i64_of_u64 q then 1 else 0) \<and>
      set (t_dirents t) = set (t_dirents (tabs db)) - {(rid, entry q m (i64_of_u64 (i_ino x)))}"
  proof (cases "i_kind x = Directory")
    case True
    have empty: "\<forall>y \<in> set (t_dirents (tabs db)). d_parent (snd y) \<noteq> i64_of_u64 (i_ino x)"
      using replaceable_empty[OF T4(2) rp True] T4(1) by auto
    have t: "t = delete_inode_rows (delete_dirent (tabs db) q m) (i_ino x)" using True by (simp add: t_def drop_unlinked_inode_def)
    have kd: "kinds (tabs db) (i64_of_u64 (i_ino x)) = Some DIR" using r(2) True by simp
    show ?thesis unfolding t using dropped_dir[OF tr off r(1) kd empty] True by simp
  next
    case False
    show ?thesis unfolding t_def using dropped_file(1,2)[OF tr off few r(1,2) False r(3,4), of now op] False by simp
  qed
  then show "links_off t (\<lambda>j. if i_kind x = Directory \<and> j = i64_of_u64 q then 1 else 0)"
    and "\<exists>rid. set (t_dirents t) = set (t_dirents (tabs db)) - {(rid, entry q m (i64_of_u64 (i_ino x)))}" by blast+
qed

lemma replaced_base:
  fixes now :: Timestamp and is_open :: "u64 \<Rightarrow> bool"
  assumes ok: "names_ok db" and l: "links_ok (tabs db)" and few: "few_names (tabs db)" and same: "same_rows db db3"
    and x: "lookup_opt db3 q m = (Inr existing, db4)" and rp: "replaceable db4 source existing = (Inr (), db5)"
    and e: "(rid, entry p n c) \<in> set (t_dirents (tabs db))" and other: "\<not> (p = q \<and> n = m)"
  defines "t \<equiv> (case existing of None \<Rightarrow> tabs db | Some x \<Rightarrow> drop_unlinked_inode (delete_dirent (tabs db) q m) x now (is_open (i_ino x)))"
  shows "links_off t (\<lambda>j. if (case existing of None \<Rightarrow> False | Some x \<Rightarrow> i_kind x = Directory) \<and> j = i64_of_u64 q then 1 else 0)"
    and "(rid, entry p n c) \<in> set (t_dirents t)" and "tree_ok t" and "kinds t \<subseteq>\<^sub>m kinds (tabs db)"
proof -
  have tr: "tree_ok (tabs db)" using ok by (simp add: names_ok_def)
  have "links_off t (\<lambda>j. if (case existing of None \<Rightarrow> False | Some x \<Rightarrow> i_kind x = Directory) \<and> j = i64_of_u64 q then 1 else 0) \<and>
    (rid, entry p n c) \<in> set (t_dirents t) \<and> tree_ok t \<and> kinds t \<subseteq>\<^sub>m kinds (tabs db)"
  proof (cases existing)
    case None
    then show ?thesis using l tr e by (simp add: t_def links_ok_iff)
  next
    case (Some y)
    have t: "t = drop_unlinked_inode (delete_dirent (tabs db) q m) y now (is_open (i_ino y))" using Some by (simp add: t_def)
    note rl = replaced_links[OF ok l few same lookup_opt_Some[OF x[unfolded Some]] rp[unfolded Some], of now "is_open (i_ino y)", folded t]
    obtain rid' where D: "set (t_dirents t) = set (t_dirents (tabs db)) - {(rid', entry q m (i64_of_u64 (i_ino y)))}" using rl(2) by blast
    have "entry p n c \<noteq> entry q m (i64_of_u64 (i_ino y))" using other by auto
    then have "(rid, entry p n c) \<in> set (t_dirents t)" unfolding D using e by simp
    then show ?thesis using rl(1,3) drop_unlinked_less(1)[OF tr] Some t by simp
  qed
  then show "links_off t (\<lambda>j. if (case existing of None \<Rightarrow> False | Some x \<Rightarrow> i_kind x = Directory) \<and> j = i64_of_u64 q then 1 else 0)"
    and "(rid, entry p n c) \<in> set (t_dirents t)" and "tree_ok t" and "kinds t \<subseteq>\<^sub>m kinds (tabs db)" by blast+
qed

text \<open>The rest of the transaction of a rename: times, and the counts of the two directories.\<close>

lemma renamed_counts:
  assumes f: "links_off t f"
  shows "links_off (touch_dir t p now) f"
    and "links_off (add_directory_nlink (add_directory_nlink t p (-1)) q 1) (\<lambda>j. f j - (if j = i64_of_u64 p then 1 else 0) + (if j = i64_of_u64 q then 1 else 0))"
    and "links_off (add_directory_nlink t q (-1)) (\<lambda>j. f j - (if j = i64_of_u64 q then 1 else 0))"
  using f off_add[OF off_add[OF f, of p "-1"], of q 1] off_add[OF f, of q "-1"]
  by (auto elim!: links_off_mono)

lemma dir_kind: "kind_as_i64 k = 2 \<longleftrightarrow> k = Directory"
  by (cases k) simp_all

lemma renamed_total:
  fixes p q :: u64 and sdir tdir :: bool and now :: Timestamp
  assumes t1: "links_off t1 (\<lambda>j. (if tdir \<and> j = i64_of_u64 q then 1 else 0) +
     (if sdir then (if j = i64_of_u64 p then 1 else 0) - (if j = i64_of_u64 q then 1 else 0) else 0))"
  defines "t2 \<equiv> if q \<noteq> p then touch_dir (touch_dir t1 p now) q now else touch_dir t1 p now"
  defines "t3 \<equiv> if sdir \<and> p \<noteq> q then add_directory_nlink (add_directory_nlink t2 p (-1)) q 1 else t2"
  shows "links_ok (if tdir then add_directory_nlink t3 q (-1) else t3)"
proof -
  let ?f = "\<lambda>j. (if tdir \<and> j = i64_of_u64 q then 1 else 0 :: int)"
  let ?g = "\<lambda>j. if sdir then (if j = i64_of_u64 p then 1 else 0) - (if j = i64_of_u64 q then 1 else 0) else (0 :: int)"
  have t2: "links_off t2 (\<lambda>j. ?f j + ?g j)" using t1 unfolding t2_def by (cases "q = p") simp_all
  have t3: "links_off t3 ?f"
  proof (cases "sdir \<and> p \<noteq> q")
    case True
    then show ?thesis unfolding t3_def using renamed_counts(2)[OF t2, of p q] by (auto elim!: links_off_mono)
  next
    case False
    show ?thesis unfolding t3_def if_not_P[OF False] by (rule links_off_mono[OF t2]) (use False in auto)
  qed
  then show ?thesis unfolding links_ok_iff using renamed_counts(3)[OF t3, of q] by (auto elim!: links_off_mono)
qed

lemma rename_links:
  assumes ok: "names_ok db" and l: "links_ok (tabs db)" and few: "few_names (tabs db)"
    and r: "rename_entry db p n q m noreplace is_open now = Some (Inr existing, db')"
  shows "links_ok (tabs db')"
proof (cases "p = q \<and> n = m")
  case True
  then have "same_rows db db'" using rename_same_name(2)[OF ok, of p n noreplace is_open now existing db'] r by simp
  then show ?thesis using l by (simp add: same_rows_def)
next
  case other: False
  let ?T = "tabs db"
  have tr: "tree_ok ?T" using ok by (simp add: names_ok_def)
  obtain source db1 db3 db4 db5 where R: "lookup db p n = (Inr source, db1)" "same_rows db db3" "lookup_opt db3 q m = (Inr existing, db4)"
    "replaceable db4 source existing = (Inr (), db5)" "rename_rows ?T p n q m source existing is_open now = Inr (tabs db')"
    by (rule rename_Inr[OF ok r other])
  let ?c = "i64_of_u64 (i_ino source)" and ?tdir = "case existing of None \<Rightarrow> False | Some x \<Rightarrow> i_kind x = Directory"
  obtain rid where e: "(rid, entry p n ?c) \<in> set (t_dirents ?T)" "kinds ?T ?c = Some (kind_as_i64 (i_kind source))"
    by (rule lookup_child[OF ok R(1)])
  define t0 where "t0 = (case existing of None \<Rightarrow> ?T | Some x \<Rightarrow> drop_unlinked_inode (delete_dirent ?T q m) x now (is_open (i_ino x)))"
  have t0: "links_off t0 (\<lambda>j. if ?tdir \<and> j = i64_of_u64 q then 1 else 0)" "(rid, entry p n ?c) \<in> set (t_dirents t0)" "tree_ok t0"
    "kinds t0 \<subseteq>\<^sub>m kinds ?T"
    using replaced_base[OF ok l few R(2,3,4) e(1) other] unfolding t0_def by blast+
  obtain t1 where mv: "move_dirent t0 p n q m = Inr t1"
    using R(5) unfolding rename_rows_def Let_def t0_def[symmetric] by (auto split: sum.splits)
  define sdir where "sdir \<longleftrightarrow> i_kind source = Directory"
  define t2 where "t2 = (if q \<noteq> p then touch_dir (touch_dir t1 p now) q now else touch_dir t1 p now)"
  define t3 where "t3 = (if sdir \<and> p \<noteq> q then add_directory_nlink (add_directory_nlink t2 p (-1)) q 1 else t2)"
  have t': "tabs db' = (if ?tdir then add_directory_nlink t3 q (-1) else t3)"
    using R(5) mv unfolding rename_rows_def Let_def t0_def[symmetric] t3_def t2_def sdir_def by (simp cong: if_cong)
  have K1: "kinds (tabs db') = kinds t0" "set (t_dirents (tabs db')) = set (t_dirents t1)"
    using moved_set(2)[OF t0(3) mv t0(2)] by (simp_all add: t' t3_def t2_def kinds_def[of t1] kinds_def[of t0])
  have tr': "tree (kinds t0) (set (t_dirents t1))"
    using rename_entry_safe[OF ok, of p n q m noreplace is_open now] r unfolding K1[symmetric] by (simp add: safe_def names_ok_def tree_ok_def)
  have "closed (kinds t0) (entry q m ?c)" "closed (kinds t0) (entry p n ?c)"
    using tr' t0(2,3) moved_set(1)[OF t0(3) mv t0(2)] unfolding tree_ok_def tree_def by force+
  then have K: "kinds t0 (i64_of_u64 p) = Some DIR" "kinds t0 (i64_of_u64 q) = Some DIR" "kinds t0 ?c = kinds ?T ?c"
    using t0(4) by (auto simp: closed_def map_le_def dom_def)
  have "links_off t1 (\<lambda>j. (if ?tdir \<and> j = i64_of_u64 q then 1 else 0) +
      (if sdir then (if j = i64_of_u64 p then 1 else 0) - (if j = i64_of_u64 q then 1 else 0) else 0))"
    using moved_links[OF t0(3) mv t0(2,1)] weight_moved[OF K(1,2), of rid n ?c _ m] K(3) e(2)
    by (simp add: add_diff_eq[symmetric] dir_kind sdir_def)
  then show ?thesis unfolding t' t3_def t2_def by (rule renamed_total)
qed

end
