(* ===== verification/Link_Runs.thy ===== *)
theory Link_Runs
  imports Link_Counts
begin

text \<open>
  Link counts from start-up on: start-up recomputes the counts of directories and deletes the inodes
  without a name, and every storage call afterwards keeps all counts exact.
\<close>

section \<open>Calls that touch no name\<close>

definition same_links :: "tables \<Rightarrow> tables \<Rightarrow> bool" where
  "same_links t t' \<longleftrightarrow> nlinks t' = nlinks t \<and> kinds t' = kinds t \<and> t_dirents t' = t_dirents t"

lemma same_links_refl [simp]: "same_links t t"
  by (simp add: same_links_def)

lemma same_links_trans: "same_links t u \<Longrightarrow> same_links u v \<Longrightarrow> same_links t v"
  by (simp add: same_links_def)

lemma same_links_ok: "same_links t t' \<Longrightarrow> links_ok t' = links_ok t"
  unfolding links_ok_iff by (rule links_off_cong) (simp_all add: same_links_def)

lemma same_links_chunks [simp]:
  "same_links t (set_size t ino sz now)" "same_links t (delete_chunk_range t ino)" "same_links t (upsert_chunk t key d)"
  "same_links t (cut_chunks t a b c)"
  by (simp_all add: same_links_def set_size_def delete_chunk_range_def upsert_chunk_def cut_chunks_def kinds_def nlinks_def fun_eq_iff
      tbl_simps option.map_comp comp_def split: prod.split)

lemma same_links_size: "same_links t u \<Longrightarrow> set_size u ino sz now = v \<Longrightarrow> same_links t v"
  using same_links_trans[OF _ same_links_chunks(1)] by blast

lemma write_pieces_links: "write_pieces ino span data ks t = Some t' \<Longrightarrow> same_links t t'"
proof (induction ks arbitrary: t)
  case (Cons k ks)
  then obtain d where "write_pieces ino span data ks (upsert_chunk t (chunk_key ino k) d) = Some t'"
    by (auto simp: Let_def bind_eq_Some_conv split: if_splits)
  from Cons.IH[OF this] show ?case by (rule same_links_trans[OF same_links_chunks(3)])
qed simp

lemma write_all_links: "write_all ino writes sz n t = Some (sz', n', t') \<Longrightarrow> same_links t t'"
proof (induction writes arbitrary: sz n t)
  case (Cons w ws)
  obtain off data where w: "w = (off, data)" by fastforce
  show ?case
  proof (cases "span_new off (length data)")
    case None
    then show ?thesis using Cons w by auto
  next
    case (Some sp)
    then obtain t1 where t1: "write_pieces ino sp data (span_chunks sp) t = Some t1"
      "write_all ino ws (max sz (off + of_nat (length data))) (n + length data) t1 = Some (sz', n', t')"
      using Cons.prems w by (auto simp: bind_eq_Some_conv)
    show ?thesis by (rule same_links_trans[OF write_pieces_links[OF t1(1)] Cons.IH[OF t1(2)]])
  qed
qed simp

lemma write_batch_links:
  assumes "write_file_batch_at db ino writes now = Some (r, db')"
  shows "same_links (tabs db) (tabs db')"
proof -
  obtain h db1 where h: "inode_head db ino = (h, db1)" by fastforce
  have t1: "tabs db1 = tabs db" using same_query[OF h[unfolded inode_head_def]] by (simp add: same_rows_def)
  have tx: "same_links (tabs db1) (tabs d)" if "try_transaction db1 (\<lambda>t. do {
             (new_size, written, t) \<leftarrow> write_all ino writes sz 0 t;
             Some (Inr (of_nat written :: u32, set_size t ino new_size now)) }) = Some (q, d)" for sz q d
    using try_transaction_Some[OF that] by (cases q) (auto simp: bind_eq_Some_conv
        dest!: write_all_links intro: same_links_size)
  show ?thesis using assms h t1 tx unfolding write_file_batch_at_def
    by (cases h) (auto split: option.splits if_splits)
qed

lemma replace_links: "same_links (tabs db) (tabs (snd (replace_chunks db ino sz chunks now)))"
proof -
  have f: "same_links t (fold (\<lambda>(index, data) t. upsert_chunk t (chunk_key ino index) data) chunks t)" for t
    by (induction chunks arbitrary: t) (auto intro: same_links_trans[OF same_links_chunks(3)])
  show ?thesis
    by (cases "replace_chunks db ino sz chunks now"; cases "fst (replace_chunks db ino sz chunks now)")
      (auto simp: replace_chunks_def Let_def dest!: transaction_Inr transaction_Inl intro: same_links_size[OF f])
qed

lemma truncate_links: "same_links (tabs db) (tabs (snd (truncate_file db ino sz now)))"
proof (cases "truncate_file db ino sz now")
  case (Pair r db')
  obtain h db1 where h: "inode_kind_of db ino = (h, db1)" by fastforce
  have t1: "tabs db1 = tabs db" using same_kind_of[OF h] by (simp add: same_rows_def)
  show ?thesis
  proof (cases r)
    case (Inl e)
    then have "tabs db' = tabs db" using Pair h t1 by (cases h)
        (auto simp: truncate_file_def split: option.splits if_splits dest!: transaction_Inl)
    then show ?thesis using Pair by simp
  next
    case (Inr u)
    then show ?thesis using Pair h t1 by (cases h)
        (auto simp: truncate_file_def Let_def split: option.splits if_splits prod.splits dest!: transaction_Inr
          intro: same_links_size[OF same_links_chunks(2)] same_links_size[OF same_links_chunks(4)])
  qed
qed

text \<open>What \<open>update_metadata\<close> does to the rows: nothing to kinds, sizes and counts.\<close>

lemma update_metadata_rows:
  assumes "update_metadata d ino u now = (r, d')"
  obtains f where "\<And>r. r_kind (f r) = r_kind r \<and> r_size (f r) = r_size r \<and> r_nlink (f r) = r_nlink r"
    "tabs d' = (tabs d)\<lparr>t_inodes := tbl_update (i64_of_u64 ino) f (t_inodes (tabs d))\<rparr>"
proof -
  obtain q d1 where q: "get_inode d ino = (q, d1)" by fastforce
  have t1: "tabs d1 = tabs d" using same_query[OF q[unfolded get_inode_def]] by (simp add: same_rows_def)
  have same: thesis if "tabs d' = tabs d"
    by (rule \<open>\<And>f. (\<And>r. r_kind (f r) = r_kind r \<and> r_size (f r) = r_size r \<and> r_nlink (f r) = r_nlink r) \<Longrightarrow>
      tabs d' = (tabs d)\<lparr>t_inodes := tbl_update (i64_of_u64 ino) f (t_inodes (tabs d))\<rparr> \<Longrightarrow> thesis\<close>[of "\<lambda>r. r"])
      (use that in \<open>simp_all add: tbl_update_def\<close>)
  show thesis
  proof (cases q)
    case (Inr inode)
    define f where "f = (\<lambda>r :: inode_row. r\<lparr>r_mode := i64_of_u32 (case_option (i_mode inode) id (mu_mode u)), r_uid := i64_of_u32 (case_option (i_uid inode) id (mu_uid u)),
       r_gid := i64_of_u32 (case_option (i_gid inode) id (mu_gid u)), r_atime_ns := to_ns (case_option (i_atime inode) id (mu_atime u)),
       r_mtime_ns := to_ns (case_option (i_mtime inode) id (mu_mtime u)), r_ctime_ns := to_ns now\<rparr>)"
    obtain e d2 where e: "execute d1 (\<lambda>t. t\<lparr>t_inodes := tbl_update (i64_of_u64 ino) f (t_inodes t)\<rparr>) = (e, d2)" by fastforce
    have "tabs d' = tabs d2"
      using assms q Inr e by (cases e) (auto simp: update_metadata_def f_def[symmetric] get_inode_def dest: query_frame)
    then have "tabs d' = tabs d \<or> tabs d' = (tabs d)\<lparr>t_inodes := tbl_update (i64_of_u64 ino) f (t_inodes (tabs d))\<rparr>"
      using execute_tabs[OF e] t1 by (cases e) simp_all
    then show thesis using same that(1)[of f] by (auto simp: f_def)
  qed (use assms q t1 same in \<open>simp add: update_metadata_def\<close>)
qed

lemma metadata_links: "same_links (tabs db) (tabs (snd (update_metadata db ino u now)))"
  by (cases "update_metadata db ino u now", simp, erule update_metadata_rows)
    (simp add: same_links_def nlinks_def kinds_def tbl_simps option.map_comp comp_def fun_eq_iff)

section \<open>Deleting a file\<close>

lemma delete_links:
  assumes t: "tree_ok t" and l: "links_ok t" and k: "kinds t (i64_of_u64 ino) \<noteq> Some DIR"
  shows "links_ok (delete_inode_rows t ino)"
proof -
  let ?i = "i64_of_u64 ino" and ?K = "kinds t" and ?D = "set (t_dirents t)" and ?D' = "set (t_dirents (delete_inode_rows t ino))"
  have tb: "tbl_ok (t_inodes t)" using t by (simp add: tree_ok_def)
  have par: "d_parent (snd x) \<noteq> ?i" if "x \<in> ?D" for x
    using t that k unfolding tree_ok_def tree_def by (auto simp: closed_def)
  have D: "?D' = {x \<in> ?D. d_child (snd x) \<noteq> ?i}" using par by (auto simp: delete_inode_rows_entries)
  have "due (?K(?i := None)) ?D' j = due ?K ?D j" if j: "j \<noteq> ?i" for j
  proof -
    have "due (?K(?i := None)) ?D' j = due ?K ?D' j" by (rule due_other) (use D j in auto)
    moreover have "(\<Sum>x \<in> ?D'. weight ?K x j) = (\<Sum>x \<in> ?D. weight ?K x j)"
      by (rule sum.mono_neutral_left) (use D j k in \<open>auto simp: weight_def\<close>)
    ultimately show ?thesis by (simp add: due_def)
  qed
  then show ?thesis using l unfolding links_ok_iff links_off_def delete_inode_rows_kinds[OF tb] nlinks_delete[OF tb] by auto
qed

lemma delete_inode_links:
  assumes "names_ok db" "links_ok (tabs db)" "kinds (tabs db) (i64_of_u64 ino) \<noteq> Some DIR" "delete_inode db ino = (Inr x, db')"
  shows "links_ok (tabs db')"
  using assms delete_links[of "tabs db" ino] by (auto simp: delete_inode_def names_ok_def dest!: transaction_Inr)

section \<open>Start-up\<close>

text \<open>What start-up relies on: the stored count of every file is the number of its names.\<close>

definition files_linked :: "tables \<Rightarrow> bool" where
  "files_linked t \<longleftrightarrow> (\<forall>i r. map_of (t_inodes t) i = Some r \<and> r_kind r \<noteq> DIR \<longrightarrow>
     r_nlink r = int (card {x \<in> set (t_dirents t). d_child (snd x) = i}))"

lemma filter_map_filter:
  "length (filter P (List.map_filter f xs)) = length (filter (\<lambda>x. case f x of None \<Rightarrow> False | Some y \<Rightarrow> P y) xs)"
  by (induction xs) (auto simp: List.map_filter_simps split: option.splits)

lemma subdirs_card:
  assumes "tbl_ok (t_dirents t)"
  shows "length (filter (\<lambda>(_, _, c). r_kind c = DIR) (join_children (\<lambda>_ d. d_parent d = i) t)) =
    card {x \<in> set (t_dirents t). d_parent (snd x) = i \<and> kinds t (d_child (snd x)) = Some DIR}"
proof -
  have d: "distinct (t_dirents t)"
    using assms unfolding tbl_ok_def by (metis distinct_map strict_sorted_iff)
  have eq: "(case (case x of (rid, d) \<Rightarrow> if d_parent d = i then map_option (\<lambda>r. (rid, d, r)) (map_of (t_inodes t) (d_child d)) else None) of
      None \<Rightarrow> False | Some (_, _, c) \<Rightarrow> r_kind c = DIR) \<longleftrightarrow> d_parent (snd x) = i \<and> kinds t (d_child (snd x)) = Some DIR" for x
    by (auto simp: kinds_def split: prod.splits option.splits)
  show ?thesis unfolding join_children_def filter_map_filter eq
    using distinct_card[OF distinct_filter[OF d]] by (simp del: distinct_filter)
qed

lemma recompute_row:
  "map_of (t_inodes (recompute_directory_nlink t)) i = map_option (\<lambda>r. if r_kind r = DIR then r\<lparr>r_nlink := 2 +
     int (length (filter (\<lambda>(_, _, c). r_kind c = DIR) (join_children (\<lambda>_ d. d_parent d = i) t)))\<rparr> else r) (map_of (t_inodes t) i)"
proof -
  have "map_of (map (\<lambda>(k, r). (k, g k r)) xs) i = map_option (g i) (map_of xs i)" for g :: "i64 \<Rightarrow> inode_row \<Rightarrow> inode_row" and xs
    by (induction xs) auto
  then show ?thesis by (simp add: recompute_directory_nlink_def Let_def del: kind_as_i64.simps)
qed

lemma recompute_links:
  assumes t: "tree_ok t" and f: "files_linked t"
  shows "links_ok (recompute_directory_nlink t)"
proof -
  have D: "t_dirents (recompute_directory_nlink t) = t_dirents t" by (simp add: recompute_directory_nlink_def Let_def)
  have tb: "tbl_ok (t_dirents t)" using t by (simp add: tree_ok_def)
  show ?thesis unfolding links_ok_def recompute_row recompute_kinds D subdirs_card[OF tb]
  proof (intro allI impI, goal_cases)
    case (1 i r)
    then obtain r0 where r0: "map_of (t_inodes t) i = Some r0" by auto
    show ?case
    proof (cases "r_kind r0 = DIR")
      case False
      then have "r_nlink r0 = int (card {x \<in> set (t_dirents t). d_child (snd x) = i})" using f r0 unfolding files_linked_def by blast
      then show ?thesis using 1 r0 False by simp
    qed (use 1 r0 in auto)
  qed
qed

text \<open>A row that start-up takes for an orphan is a file without a name.\<close>

lemma orphan_unnamed:
  assumes l: "links_ok t" and r: "map_of (t_inodes t) i = Some r"
  shows "r_nlink r = 0 \<longleftrightarrow> r_kind r \<noteq> DIR \<and> (\<forall>x \<in> set (t_dirents t). d_child (snd x) \<noteq> i)"
proof -
  have "r_nlink r = (if r_kind r = DIR then 2 + int (card {x \<in> set (t_dirents t). d_parent (snd x) = i \<and> kinds t (d_child (snd x)) = Some DIR})
      else int (card {x \<in> set (t_dirents t). d_child (snd x) = i}))" using l r unfolding links_ok_def by blast
  moreover have "card {x \<in> set (t_dirents t). d_child (snd x) = i} = 0 \<longleftrightarrow> (\<forall>x \<in> set (t_dirents t). d_child (snd x) \<noteq> i)"
    by (auto simp: card_eq_0_iff; blast)
  ultimately show ?thesis by auto
qed

lemma selected_keys:
  assumes "tbl_ok t"
  shows "i \<in> set (map fst (filter (\<lambda>(k, r). P k r) t)) \<longleftrightarrow> (\<exists>r. map_of t i = Some r \<and> P i r)"
proof -
  have d: "distinct (map fst t)" using assms by (simp add: tbl_ok_def strict_sorted_iff)
  have "i \<in> set (map fst (filter (\<lambda>(k, r). P k r) t)) \<longleftrightarrow> (\<exists>r. (i, r) \<in> set t \<and> P i r)" by force
  then show ?thesis using map_of_eq_Some_iff[OF d] by simp
qed

lemma orphans_deleted:
  assumes "names_ok db" "links_ok (tabs db)" "delete_orphans os db = (Inr (), db')"
    "\<forall>i \<in> set os. in_i64 i \<and> kinds (tabs db) i \<noteq> Some DIR \<and> (\<forall>x \<in> set (t_dirents (tabs db)). d_child (snd x) \<noteq> i)"
  shows "links_ok (tabs db') \<and> set (t_dirents (tabs db')) = set (t_dirents (tabs db)) \<and>
    kinds (tabs db') = (\<lambda>i. if i \<in> set os then None else kinds (tabs db) i)"
  using assms
proof (induction os arbitrary: db)
  case (Cons i os)
  let ?u = "u64_of_i64 i"
  have i: "i64_of_u64 ?u = i" "kinds (tabs db) (i64_of_u64 ?u) \<noteq> Some DIR" using Cons.prems(4) by (simp_all add: i64_u64_i64)
  obtain db1 db2 where s: "execute db (\<lambda>t. delete_chunk_range t ?u) = (Inr (), db1)"
    "execute db1 (\<lambda>t. delete_inode_row t ?u) = (Inr (), db2)" "delete_orphans os db2 = (Inr (), db')"
    using Cons.prems(3) by (auto simp: and_then_Inr_iff)
  have t2: "tabs db2 = delete_inode_rows (tabs db) ?u" "new_rowid db2 = new_rowid db"
    using execute_tabs[OF s(1)] execute_tabs[OF s(2)] by (simp_all add: delete_inode_rows_def)
  have tr: "tree_ok (tabs db)" using Cons.prems(1) by (simp add: names_ok_def)
  have tb: "tbl_ok (t_inodes (tabs db))" and one: "i64_of_u64 ?u \<noteq> 1" using tr i by (auto simp: tree_ok_def tree_def)
  have n2: "names_ok db2" using Cons.prems(1) delete_inode_rows_tree[OF tr one] t2 by (simp add: names_ok_def)
  have par: "d_parent (snd x) \<noteq> i" if "x \<in> set (t_dirents (tabs db))" for x
    using tr that i unfolding tree_ok_def tree_def by (auto simp: closed_def)
  have D: "set (t_dirents (tabs db2)) = set (t_dirents (tabs db))"
    using par Cons.prems(4) i(1) by (force simp: t2 delete_inode_rows_entries)
  have K: "kinds (tabs db2) = (kinds (tabs db))(i := None)" using delete_inode_rows_kinds[OF tb, of ?u] i(1) by (simp add: t2)
  have l2: "links_ok (tabs db2)" using delete_links[OF tr Cons.prems(2) i(2)] by (simp add: t2)
  have "\<forall>j \<in> set os. in_i64 j \<and> kinds (tabs db2) j \<noteq> Some DIR \<and> (\<forall>x \<in> set (t_dirents (tabs db2)). d_child (snd x) \<noteq> j)"
    using Cons.prems(4) by (simp add: K D)
  from Cons.IH[OF n2 l2 s(3) this] show ?case by (auto simp: K D fun_eq_iff)
qed simp

lemma startup_links:
  assumes s: "startable db0" and f: "files_linked (tabs db0)" and i: "initialize db0 uid gid now = (Inr (), db)"
  shows "links_ok (tabs db)" and "set (t_dirents (tabs db)) = set (t_dirents (tabs db0))"
    and "i \<noteq> 1 \<Longrightarrow> kinds (tabs db) i = (if kinds (tabs db0) i \<noteq> Some DIR \<and> (\<forall>x \<in> set (t_dirents (tabs db0)). d_child (snd x) \<noteq> i)
      then None else kinds (tabs db0) i)"
proof -
  obtain t db4 where T: "tree_ok t" "t_dirents t = t_dirents (tabs db0)" "rowids_fresh (new_rowid db0)"
    "\<And>i. i \<noteq> 1 \<Longrightarrow> map_of (t_inodes t) i = map_of (t_inodes (tabs db0)) i"
    "tabs db4 = recompute_directory_nlink t" "new_rowid db4 = new_rowid db0"
    "delete_orphans (map fst (filter (\<lambda>(ino, r). r_nlink r = 0 \<and> ino \<noteq> 1) (t_inodes (recompute_directory_nlink t)))) db4 = (Inr (), db)"
    by (rule initialize_stages[OF s i]) (rule that, assumption+)
  let ?u = "recompute_directory_nlink t"
  let ?os = "map fst (filter (\<lambda>(ino, r). r_nlink r = 0 \<and> ino \<noteq> 1) (t_inodes ?u))"
  have one: "kinds t 1 = Some DIR" using T(1) by (simp add: tree_ok_def tree_def)
  have "files_linked t" unfolding files_linked_def T(2)
  proof (intro allI impI)
    fix i r assume r: "map_of (t_inodes t) i = Some r \<and> r_kind r \<noteq> DIR"
    then have "i \<noteq> 1" using one by (auto simp: kinds_def)
    then show "r_nlink r = int (card {x \<in> set (t_dirents (tabs db0)). d_child (snd x) = i})"
      using r f T(4)[of i] by (simp add: files_linked_def)
  qed
  then have l: "links_ok ?u" by (rule recompute_links[OF T(1)])
  have D: "t_dirents ?u = t_dirents (tabs db0)" by (simp add: recompute_directory_nlink_def Let_def T(2))
  have tu: "tree_ok ?u" using T(1) by simp
  have os: "i \<in> set ?os \<longleftrightarrow> i \<noteq> 1 \<and> (\<exists>r. map_of (t_inodes ?u) i = Some r \<and> r_nlink r = 0)" for i
    using selected_keys[of "t_inodes ?u" i "\<lambda>i r. r_nlink r = 0 \<and> i \<noteq> 1"] tu unfolding tree_ok_def by blast
  have kindu: "kinds t i = map_option r_kind (map_of (t_inodes ?u) i)" for i using recompute_kinds[of t] by (simp add: kinds_def fun_eq_iff)
  have os': "i \<in> set ?os \<longleftrightarrow> kinds t i \<noteq> None \<and> kinds t i \<noteq> Some DIR \<and> (\<forall>x \<in> set (t_dirents (tabs db0)). d_child (snd x) \<noteq> i)" for i
  proof (cases "map_of (t_inodes ?u) i")
    case None
    then show ?thesis unfolding os using kindu[of i] by simp
  next
    case (Some r)
    have "r_kind r = DIR" if "i = 1" using that kindu[of 1] Some one by simp
    then show ?thesis unfolding os using kindu[of i] Some orphan_unnamed[OF l Some] D by auto
  qed
  have n4: "names_ok db4" using T(3,6) tu by (simp add: names_ok_def T(5))
  have pre: "\<forall>i \<in> set ?os. in_i64 i \<and> kinds (tabs db4) i \<noteq> Some DIR \<and> (\<forall>x \<in> set (t_dirents (tabs db4)). d_child (snd x) \<noteq> i)"
  proof
    fix i assume i: "i \<in> set ?os"
    show "in_i64 i \<and> kinds (tabs db4) i \<noteq> Some DIR \<and> (\<forall>x \<in> set (t_dirents (tabs db4)). d_child (snd x) \<noteq> i)"
      using orphans_in_range[OF tu i] iffD1[OF os' i] by (simp add: T(5) D)
  qed
  have fin: "links_ok (tabs db) \<and> set (t_dirents (tabs db)) = set (t_dirents (tabs db4)) \<and>
    kinds (tabs db) = (\<lambda>i. if i \<in> set ?os then None else kinds (tabs db4) i)"
    by (rule orphans_deleted[OF n4 _ T(7) pre]) (use l T(5) in simp)
  then show "links_ok (tabs db)" "set (t_dirents (tabs db)) = set (t_dirents (tabs db0))" by (simp_all add: T(5) D)
  assume "i \<noteq> 1"
  then have Ki: "kinds t i = kinds (tabs db0) i" using T(4) by (simp add: kinds_def)
  have K: "kinds (tabs db) i = (if i \<in> set ?os then None else kinds (tabs db0) i)" using fin Ki unfolding T(5) recompute_kinds by (simp only:)
  show "kinds (tabs db) i = (if kinds (tabs db0) i \<noteq> Some DIR \<and> (\<forall>x \<in> set (t_dirents (tabs db0)). d_child (snd x) \<noteq> i)
      then None else kinds (tabs db0) i)" unfolding K os' Ki by auto
qed

section \<open>Sequences of calls\<close>

text \<open>What keeps the counts exact: \<open>delete_inode\<close> is for files, and there are fewer names than a
  32-bit count can hold.\<close>

fun fits :: "storage_call \<Rightarrow> tables \<Rightarrow> bool" where
  "fits (DeleteInode ino) t \<longleftrightarrow> kinds t (i64_of_u64 ino) \<noteq> Some DIR"
| "fits (Link ino p n now) t \<longleftrightarrow> few_names t"
| "fits (Unlink p n op now) t \<longleftrightarrow> few_names t"
| "fits (Rename p n q m noreplace opened now) t \<longleftrightarrow> few_names t"
| "fits c t \<longleftrightarrow> True"

inductive counted_runs :: "Db \<Rightarrow> Db \<Rightarrow> bool" for db where
  counted_start: "counted_runs db db"
| counted_call: "counted_runs db d \<Longrightarrow> fits c (tabs d) \<Longrightarrow> run_call c d = Some (r, d') \<Longrightarrow> counted_runs db d'"

lemma fits_spares_root: "names_ok db \<Longrightarrow> fits c (tabs db) \<Longrightarrow> spares_root c"
  by (cases c) (auto simp: names_ok_def tree_ok_def tree_def i64_of_u64_def)

lemma no_value_Inr: "no_value m = (Inr u, db') \<Longrightarrow> \<exists>x. m = (Inr x, db')"
  by (cases m; cases "fst m") (auto simp: no_value_def)

lemma ok_links:
  assumes ok: "names_ok db" and l: "links_ok (tabs db)" and f: "fits c (tabs db)" and r: "run_call c db = Some (Inr u, db')"
  shows "links_ok (tabs db')"
proof (cases c)
  case (Unlink p n op now)
  then obtain target db1 where "lookup db p n = (Inr target, db1)" "unlink_entry db1 p n target op now = (Inr (), db')"
    using r by (auto simp: and_then_Inr_iff)
  then show ?thesis using unlink_links(1)[OF ok l] f Unlink by simp
next
  case (Rename p n q m nr opened now)
  then show ?thesis using r f by (auto dest!: no_value_Inr intro: rename_links[OF ok l])
next
  case (WriteBatch ino writes now)
  then show ?thesis using r l by (auto dest!: no_value_Inr write_batch_links simp: same_links_ok)
next
  case (Create p n node uid gid now)
  then show ?thesis using r by (auto dest!: no_value_Inr intro: create_links[OF ok l])
next
  case (Link ino p n now)
  then show ?thesis using r f by (auto dest!: no_value_Inr intro: link_links[OF ok l])
next
  case (Metadata ino u now)
  then show ?thesis using r l same_links_ok[OF metadata_links[of db ino u now]] by (auto dest!: no_value_Inr)
next
  case (RemoveDir p n now)
  then show ?thesis using r by (auto intro: remove_dir_links[OF ok l])
next
  case (ReplaceChunks ino sz chunks now)
  then show ?thesis using r l same_links_ok[OF replace_links[of db ino sz chunks now]] by simp
next
  case (Truncate ino sz now)
  then show ?thesis using r l same_links_ok[OF truncate_links[of db ino sz now]] by simp
next
  case (DeleteInode ino)
  then show ?thesis using r f by (auto intro: delete_inode_links[OF ok l])
qed

lemma call_links:
  assumes ok: "names_ok db" and l: "links_ok (tabs db)" and f: "fits c (tabs db)" and r: "run_call c db = Some (r, db')"
  shows "links_ok (tabs db')"
proof (cases r)
  case (Inr u)
  then show ?thesis using ok_links[OF ok l f] r by simp
next
  case (Inl e)
  show ?thesis
  proof (cases "\<exists>ino u now. c = Metadata ino u now")
    case True
    then obtain ino u now where "c = Metadata ino u now" by blast
    then have "db' = snd (update_metadata db ino u now)" using r by simp (metis no_value_snd snd_conv)
    then show ?thesis using l same_links_ok[OF metadata_links[of db ino u now]] by simp
  next
    case False
    then have "tabs db' = tabs db" using failed_call_same[OF ok] r Inl by (simp add: same_rows_def)
    then show ?thesis using l by simp
  qed
qed

lemma counted_ok:
  assumes "counted_runs db db'" "names_ok db" "links_ok (tabs db)"
  shows "names_ok db' \<and> links_ok (tabs db')"
  using assms by (induction rule: counted_runs.induct) (auto dest: call_names call_links fits_spares_root)

text \<open>The counts of start-up and of every storage call after it are exact: the count of a file is
  the number of its names, and the count of a directory is two more than the number of its
  subdirectories. The database start-up is given has exact counts for its files, there are fewer names
  than a 32-bit count holds, and \<open>delete_inode\<close> is called for files only.\<close>

theorem link_counts_exact:
  assumes "startable db0" "files_linked (tabs db0)" "initialize db0 uid gid now = (Inr (), db)" "counted_runs db db'"
  shows "links_ok (tabs db')"
  using counted_ok[OF assms(4) initialize_names[OF assms(1,3)] startup_links(1)[OF assms(1-3)]] by simp

text \<open>C7. Start-up clears what a crash left of files that were deleted while open, and nothing else: no
  name is lost, and an inode goes if and only if it is a file without a name.\<close>

theorem startup_clears_orphans:
  assumes "startable db0" "files_linked (tabs db0)" "initialize db0 uid gid now = (Inr (), db)"
  shows "set (t_dirents (tabs db)) = set (t_dirents (tabs db0)) \<and> kinds (tabs db) 1 = Some DIR \<and>
    (\<forall>i. i \<noteq> 1 \<longrightarrow> kinds (tabs db) i =
      (if kinds (tabs db0) i \<noteq> Some DIR \<and> (\<forall>x \<in> set (t_dirents (tabs db0)). d_child (snd x) \<noteq> i)
       then None else kinds (tabs db0) i))"
proof -
  have "kinds (tabs db) 1 = Some DIR" using initialize_names[OF assms(1,3)] by (simp add: names_ok_def tree_ok_def tree_def)
  then show ?thesis using startup_links(2,3)[OF assms] by simp
qed

end
