(* ===== verification/Served.thy ===== *)
theory Served
  imports Mounted Requests Link_Runs
begin

text \<open>
  Every request of the kernel is answered and leaves the mount in order. A property of the database
  that queries, chunk writes and truncations keep is kept by everything the buffers do; the
  directory tree is such a property.
\<close>

section \<open>What buffering keeps of the database\<close>

text \<open>\<open>kept_by I s s'\<close>: \<open>I\<close> still holds, no inode was opened, and nothing about shutting down has changed.\<close>

definition kept_by :: "(Db \<Rightarrow> bool) \<Rightarrow> Shared \<Rightarrow> Shared \<Rightarrow> bool" where
  "kept_by I s s' \<longleftrightarrow> (I (db s) \<longrightarrow> I (db s')) \<and> live (inodes (table s')) \<subseteq> live (inodes (table s)) \<and>
     oi_kind (inodes (table s')) = oi_kind (inodes (table s)) \<and> closing (table s') = closing (table s) \<and> last_flush s' = last_flush s"

lemma kept_by_refl [simp]: "kept_by I s s"
  by (simp add: kept_by_def)

lemma kept_by_trans: "kept_by I s t \<Longrightarrow> kept_by I t u \<Longrightarrow> kept_by I s u"
  unfolding kept_by_def by auto

text \<open>A change of the table alone.\<close>

lemma kept_by_table:
  "live (inodes t) \<subseteq> live (inodes (table s)) \<Longrightarrow> oi_kind (inodes t) = oi_kind (inodes (table s)) \<Longrightarrow> closing t = closing (table s) \<Longrightarrow>
    kept_by I s (s\<lparr>table := t\<rparr>)"
  by (simp add: kept_by_def)

lemma inodes_remove_kept:
  "inodes_remove ins w = Some ins' \<Longrightarrow> live ins' \<subseteq> live ins \<and> oi_kind ins' = oi_kind ins"
  by (auto simp: inodes_remove_def Let_def bind_eq_Some_conv live_def map_remove_def)

lemma free_kept:
  assumes "free_if_idle t w = Some t'"
  shows "live (inodes t') \<subseteq> live (inodes t) \<and> oi_kind (inodes t') = oi_kind (inodes t) \<and> closing t' = closing t"
proof -
  from assms consider "t' = t" | ins where "inodes_remove (inodes t) w = Some ins" "t' = t\<lparr>inodes := ins\<rparr>"
    by (auto simp: free_if_idle_def Let_def bind_eq_Some_conv split: if_splits)
  then show ?thesis by cases (use inodes_remove_kept in auto)
qed

lemma free_kept_by: "free_if_idle (table s) w = Some t \<Longrightarrow> kept_by I s (s\<lparr>table := t\<rparr>)"
  by (rule kept_by_table) (use free_kept in blast)+

text \<open>\<open>steps I s m\<close>: whatever state \<open>m\<close> ends in, it is kept.\<close>

definition steps :: "(Db \<Rightarrow> bool) \<Rightarrow> Shared \<Rightarrow> ('r \<times> Shared) option \<Rightarrow> bool" where
  "steps I s m \<longleftrightarrow> (\<forall>r s'. m = Some (r, s') \<longrightarrow> kept_by I s s')"

lemma steps_Some [simp]: "steps I s (Some (r, s')) \<longleftrightarrow> kept_by I s s'"
  by (simp add: steps_def)

lemma steps_None [simp]: "steps I s None"
  by (simp add: steps_def)

lemma steps_bind:
  assumes "\<And>a. m = Some a \<Longrightarrow> steps I s (f a)"
  shows "steps I s (Option.bind m f)"
  using assms by (cases m) simp_all

lemma steps_if: "(b \<Longrightarrow> steps I s x) \<Longrightarrow> (\<not> b \<Longrightarrow> steps I s y) \<Longrightarrow> steps I s (if b then x else y)"
  by simp

lemma steps_prod: "(\<And>a b. m = (a, b) \<Longrightarrow> steps I s (f a b)) \<Longrightarrow> steps I s (case m of (a, b) \<Rightarrow> f a b)"
  by (cases m) simp

lemma steps_sum:
  "(\<And>a. r = Inl a \<Longrightarrow> steps I s (f a)) \<Longrightarrow> (\<And>b. r = Inr b \<Longrightarrow> steps I s (g b)) \<Longrightarrow> steps I s (case r of Inl a \<Rightarrow> f a | Inr b \<Rightarrow> g b)"
  by (cases r) simp_all

lemma steps_option:
  "(r = None \<Longrightarrow> steps I s x) \<Longrightarrow> (\<And>b. r = Some b \<Longrightarrow> steps I s (g b)) \<Longrightarrow> steps I s (case r of None \<Rightarrow> x | Some b \<Rightarrow> g b)"
  by (cases r) simp_all

lemmas steps_intros = steps_bind steps_if steps_prod steps_sum steps_option

lemma steps_from: "kept_by I s s1 \<Longrightarrow> steps I s1 m \<Longrightarrow> steps I s m"
  unfolding steps_def by (blast intro: kept_by_trans)

lemma steps_then:
  assumes m: "steps I s m" and f: "\<And>a s1. kept_by I s s1 \<Longrightarrow> m = Some (Inr a, s1) \<Longrightarrow> steps I s1 (f a s1)"
  shows "steps I s (try_then m f)"
proof (cases m)
  case (Some a)
  obtain r s1 where a: "a = (r, s1)" by (cases a)
  have k: "kept_by I s s1" using m Some a by simp
  show ?thesis using f[OF k] k Some a by (cases r) (auto intro: steps_from)
qed simp

text \<open>\<open>ends P m\<close>: whatever state \<open>m\<close> ends in satisfies \<open>P\<close>.\<close>

definition ends :: "(Shared \<Rightarrow> bool) \<Rightarrow> ('r \<times> Shared) option \<Rightarrow> bool" where
  "ends P m \<longleftrightarrow> (\<forall>r s'. m = Some (r, s') \<longrightarrow> P s')"

lemma ends_simps [simp]: "ends P (Some (r, s)) \<longleftrightarrow> P s" "ends P None"
  by (simp_all add: ends_def)

lemma ends_then: "ends P m \<Longrightarrow> (\<And>a s1. m = Some (Inr a, s1) \<Longrightarrow> P s1 \<Longrightarrow> ends P (f a s1)) \<Longrightarrow> ends P (try_then m f)"
  by (cases m; cases "fst (the m)") auto

lemma ends_bind: "(\<And>a. m = Some a \<Longrightarrow> ends P (f a)) \<Longrightarrow> ends P (Option.bind m f)"
  by (cases m) simp_all

lemma ends_steps: "steps I s m \<Longrightarrow> (\<And>s'. kept_by I s s' \<Longrightarrow> P s') \<Longrightarrow> ends P m"
  by (auto simp: steps_def ends_def)

lemma ends_reply [simp]: "ends P (answers f m) \<longleftrightarrow> ends P m" "ends P (Some (answer f m')) \<longleftrightarrow> ends P (Some m')"
  by (cases m; auto simp: answers_def answer_def ends_def split: sum.splits)
    (cases m'; auto simp: answer_def ends_def split: sum.splits)

lemma ends_attr [simp]: "ends P (Some (to_attr m)) \<longleftrightarrow> ends P (Some m)"
  by (cases m; cases "fst m") (auto simp: to_attr_def)

lemma read_chunk_same:
  assumes "read_chunk_into d ino index dst = Some (r, d')"
  shows "same_rows d d'"
proof -
  obtain q d1 where q: "query d (\<lambda>t. Inr (map_of (t_chunks t) (chunk_key ino index))) = (q, d1)" by fastforce
  then have "d' = d1" using assms
    by (cases q) (auto simp: read_chunk_into_def Let_def bind_eq_Some_conv split: option.splits)
  then show ?thesis using same_query[OF q] by simp
qed

lemma same_sync: "sync_durable d = (r, d') \<Longrightarrow> same_rows d d'"
  by (auto simp: sync_durable_def same_rows_def pop_fault_def split: list.splits option.splits)

text \<open>A property of the database that its own operations on file data keep.\<close>

locale stored =
  fixes I :: "Db \<Rightarrow> bool"
  assumes same: "I d \<Longrightarrow> same_rows d d' \<Longrightarrow> I d'"
    and replace: "I d \<Longrightarrow> I (snd (replace_chunks d ino sz chunks now))"
    and truncate: "I d \<Longrightarrow> I (snd (truncate_file d ino sz now))"
begin

lemma same_kept: "same_rows (db s) d \<Longrightarrow> kept_by I s (s\<lparr>db := d\<rparr>)"
  by (auto simp: kept_by_def intro: same)

lemma table_kept:
  "live (inodes t) = live (inodes (table s)) \<Longrightarrow> oi_kind (inodes t) = oi_kind (inodes (table s)) \<Longrightarrow> closing t = closing (table s) \<Longrightarrow>
    kept_by I s (s\<lparr>table := t\<rparr>)"
  by (simp add: kept_by_def)

lemma moved_kept:
  "same_rows (db s) d \<Longrightarrow> live (inodes t) = live (inodes (table s)) \<Longrightarrow> oi_kind (inodes t) = oi_kind (inodes (table s)) \<Longrightarrow>
    closing t = closing (table s) \<Longrightarrow> kept_by I s (s\<lparr>db := d, table := t\<rparr>)"
  by (auto simp: kept_by_def intro: same)

lemma on_db_kept: "(I (db s) \<Longrightarrow> I (snd (f (db s)))) \<Longrightarrow> kept_by I s (snd (on_db s f))"
  by (auto simp: on_db_def kept_by_def split: prod.splits sum.splits)

lemma flush_slot_steps: "steps I s (flush_slot s w u)"
proof -
  have "kept_by I s s1" "table s1 = table s" if "on_db s (\<lambda>d. replace_chunks d ino sz chunks now) = (r, s1)" for ino sz chunks now r s1
    using on_db_kept[of s "\<lambda>d. replace_chunks d ino sz chunks now"] replace that by (auto simp: on_db_def split: prod.splits sum.splits)
  then show ?thesis unfolding flush_slot_def Let_def
    by (intro steps_intros) (auto simp: kept_by_def live_def)
qed

lemma flush_free_steps:
  "steps I s (try_then (flush_slot s w u) (\<lambda>_ s. do { t \<leftarrow> free_if_idle (table s) w; Some (Inr (), s\<lparr>table := t\<rparr>) }))"
  by (intro steps_then flush_slot_steps steps_bind) (simp add: free_kept_by)

lemma flush_kept: "flush_slot s w u = Some (r, s1) \<Longrightarrow> kept_by I s s1"
  using flush_slot_steps[of s w u] by (simp add: steps_def)

lemma flush_slots_steps: "steps I s (flush_slots ws fe s)"
proof (induction ws arbitrary: fe s)
  case (Cons w ws)
  show ?case
  proof (cases "flush_slot s w Skip")
    case (Some a)
    obtain r s1 where a: "flush_slot s w Skip = Some (r, s1)" using Some by (cases a) auto
    have "steps I s1 (do { t \<leftarrow> free_if_idle (table s1) w; flush_slots ws fe (s1\<lparr>table := t\<rparr>) })"
      by (intro steps_bind steps_from[OF free_kept_by Cons])
    then show ?thesis using a flush_kept[OF a] Cons by (cases r) (auto intro: steps_from)
  qed simp
qed simp

lemma flush_all_steps: "steps I s (flush_all s)"
  unfolding flush_all_def
proof (rule steps_bind)
  fix x assume f: "flush_slots (live_slots (inodes (table s))) None s = Some x"
  obtain fe s1 where x: "x = (fe, s1)" by (cases x)
  have k: "kept_by I s s1" using flush_slots_steps[of s "live_slots (inodes (table s))" None] f x by simp
  obtain r d where d: "sync_durable (db s1) = (r, d)" by fastforce
  have "kept_by I s (s1\<lparr>db := d\<rparr>)" by (rule kept_by_trans[OF k same_kept[OF same_sync[OF d]]])
  then show "steps I s (case x of (first_error, s) \<Rightarrow>
      let (synced, s) = on_db s sync_durable in Some (case first_error of None \<Rightarrow> synced | Some errno \<Rightarrow> Inl errno, s))"
    using x d by (cases r) (simp_all add: on_db_def)
qed

lemma alloc_chunk_kept:
  assumes "alloc_chunk s w = Some y"
  shows "kept_by I s (snd y)"
proof (rule alloc_chunk.raw_induct[OF _ assms, of "\<lambda>s w y. kept_by I s (snd y)"], goal_cases)
  case (1 rec s w y)
  have rec: "steps I s1 (rec s1 w1)" for s1 w1 using 1(1)[of s1 w1] by (auto simp: steps_def)
  have "steps I s (Some y)" unfolding 1(2)[symmetric]
  proof (intro steps_intros, goal_cases)
    case (3 a claimed ar b victim c r s1 x t)
    have "kept_by I s (s1\<lparr>table := t\<rparr>)" using kept_by_trans[OF flush_kept free_kept_by] 3 by blast
    then show ?case by (rule steps_from[OF _ rec])
  next
    case (4 a claimed ar b victim c r s1 x)
    show ?case by (rule steps_from[OF flush_kept rec]) (use 4 in simp)
  qed (auto simp: table_kept dest: flush_kept)
  then show ?case by (cases y) simp
qed

lemma alloc_chunk_steps: "steps I s (alloc_chunk s w)"
  using alloc_chunk_kept by (fastforce simp: steps_def)

lemma chunk_buffer_steps: "steps I s (chunk_buffer s w ino index p)"
  unfolding chunk_buffer_def Let_def
  by (intro steps_intros steps_then alloc_chunk_steps) (auto intro!: table_kept moved_kept dest: read_chunk_same)

lemma write_chunks_steps: "steps I s (write_chunks w ino span data ks s)"
proof (induction ks arbitrary: s)
  case (Cons k ks)
  show ?case unfolding write_chunks.simps Let_def
    by (intro steps_then chunk_buffer_steps steps_bind steps_from[OF _ Cons]) (auto intro!: table_kept simp: set_idx_def split: if_splits)
qed simp

lemma write_slot_steps: "steps I s (write_slot s w offset data now)"
  unfolding write_slot_def Let_def
  by (intro steps_intros steps_then steps_from[OF _ write_chunks_steps]) (auto intro!: table_kept simp: set_idx_def split: if_splits)

lemma truncate_steps: "steps I s (truncate_locked s ino sz now)"
proof -
  have on: "kept_by I s1 s2" if "on_db s1 (\<lambda>d. truncate_file d ino sz now) = (r, s2)" for r s1 s2
    using on_db_kept[of s1 "\<lambda>d. truncate_file d ino sz now"] truncate that by simp
  have "steps I s1 (do {
            sizes \<leftarrow> set_idx (oi_size (inodes (table s1))) (unat slot) sz;
            t \<leftarrow> free_if_idle ((table s1)\<lparr>inodes := (inodes (table s1))\<lparr>oi_size := sizes\<rparr>\<rparr>) slot;
            Some (Inr (), s1\<lparr>table := t\<rparr>)
          })" for s1 slot
    by (intro steps_bind) (auto simp: kept_by_def dest!: free_kept)
  moreover have "steps I s1 (Some (on_db s1 (\<lambda>d. truncate_file d ino sz now)))" for s1
    using on[of s1] by (cases "on_db s1 (\<lambda>d. truncate_file d ino sz now)") simp
  ultimately show ?thesis unfolding truncate_locked_def Let_def
    by (intro steps_then steps_option flush_slot_steps steps_Some[THEN iffD2] kept_by_refl)
qed

end

interpretation names: stored names_ok
  by unfold_locales (auto intro: same_names names_replace_chunks names_truncate)

lemma kept_mounted: "mounted s \<Longrightarrow> kept_by names_ok s s' \<Longrightarrow> running {} s' \<Longrightarrow> mounted s'"
  by (auto simp: mounted_def kept_by_def regular_slots_def)

section \<open>Answers\<close>

text \<open>\<open>answered X s m\<close>: \<open>m\<close> returns, leaves a mount in order, and changes the contents of no inode outside \<open>X\<close>.\<close>

definition answered :: "u64 set \<Rightarrow> Shared \<Rightarrow> ('r \<times> Shared) option \<Rightarrow> bool" where
  "answered X s m \<longleftrightarrow> (\<exists>r s'. m = Some (r, s') \<and> mounted s' \<and> (\<forall>i. i \<notin> X \<longrightarrow> content s' i = content s i))"

lemma answered_Some [simp]: "answered X s (Some (r, s')) \<longleftrightarrow> mounted s' \<and> (\<forall>i. i \<notin> X \<longrightarrow> content s' i = content s i)"
  by (simp add: answered_def)

lemma answered_then:
  assumes "answered X s m" "\<And>a s1. m = Some (Inr a, s1) \<Longrightarrow> mounted s1 \<Longrightarrow> (\<forall>i. i \<notin> X \<longrightarrow> content s1 i = content s i) \<Longrightarrow> answered X s1 (f a s1)"
  shows "answered X s (try_then m f)"
proof -
  obtain r s1 where m: "m = Some (r, s1)" "mounted s1" "\<forall>i. i \<notin> X \<longrightarrow> content s1 i = content s i" using assms(1) by (auto simp: answered_def)
  then show ?thesis using assms(2)[of _ s1] by (cases r) (auto simp: answered_def)
qed

lemma answered_reply [simp]: "answered X s (answers f m) \<longleftrightarrow> answered X s m"
  by (cases m) (auto simp: answers_def answered_def answer_def split: sum.splits)

lemma answered_answer [simp]: "answered X s (Some (answer f m)) \<longleftrightarrow> answered X s (Some m)"
  by (cases m) (auto simp: answered_def answer_def split: sum.splits)

lemma served_answered:
  assumes "serves s P m" "\<And>a s' i. P a s' \<Longrightarrow> i \<notin> X \<Longrightarrow> content s' i = content s i"
  shows "answered X s m"
proof -
  obtain r s' where "m = Some (r, s')" "mounted s'" "case r of Inl e \<Rightarrow> content s' = content s \<and> table s' = table s | Inr a \<Rightarrow> P a s'"
    by (rule servesE[OF assms(1)])
  then show ?thesis using assms(2) by (cases r) auto
qed

lemma query_answered:
  assumes "mounted s" "\<And>r d. f (db s) = (r, d) \<Longrightarrow> same_rows (db s) d"
  shows "answered X s (Some (on_db s f))"
  using mounted_same[OF assms(1)] assms(2) by (auto simp: on_db_def split: prod.splits sum.splits)

lemma kept_answered:
  assumes "mounted s" "m = Some (r, s')" "running {} s'" "steps names_ok s m" "\<And>i. i \<notin> X \<Longrightarrow> content s' i = content s i"
  shows "answered X s m"
  using assms kept_mounted[OF assms(1) _ assms(3)] by simp

section \<open>Queries\<close>

lemma overlay_returns:
  assumes "mounted s" shows "\<exists>attr'. overlay_attr (table s) attr = Some attr'"
proof (cases "inodes_find (inodes (table s)) (at_ino attr)")
  case (Some w)
  have iok: "inodes_ok (inodes (table s))" using assms by (simp add: mounted_def running_def buffers_ok_def)
  show ?thesis using Some live_columns[OF iok find_live(1)[OF iok Some]] by (simp add: overlay_attr_def Let_def)
qed (simp add: overlay_attr_def)

lemma with_overlay_answered:
  assumes m: "mounted s" and q: "\<And>r d. f (db s) = (r, d) \<Longrightarrow> same_rows (db s) d"
  shows "answered X s (with_overlay (on_db s f))"
  unfolding with_overlay_def
proof (rule answered_then[OF query_answered[where f = f, OF m q]])
  fix inode s1 assume "mounted s1"
  then obtain attr where "overlay_attr (table s1) (file_attr_from_inode inode) = Some attr" using overlay_returns by blast
  then show "answered X s1 (do { attr \<leftarrow> overlay_attr (table s1) (file_attr_from_inode inode); Some (Inr attr, s1) })"
    using \<open>mounted s1\<close> by simp
qed

lemma getattr_answered: "mounted s \<Longrightarrow> answered X s (getattr s ino)"
  unfolding getattr_def get_inode_def by (erule with_overlay_answered) (rule same_query)

lemma lookup_answered: "mounted s \<Longrightarrow> answered X s (fs_lookup s p n)"
  unfolding fs_lookup_def by (erule with_overlay_answered) (rule same_lookup)

lemma same_usage: "volume_usage pragmas d = (r, d') \<Longrightarrow> same_rows d d'"
  by (auto simp: volume_usage_def and_then_def split: prod.splits sum.splits dest!: same_query intro: same_rows_trans)

lemma statfs_answered: "mounted s \<Longrightarrow> answered X s (statfs pragmas s)"
  unfolding statfs_def by (rule answered_then[OF query_answered]) (simp_all add: same_usage Let_def)

lemma same_read_symlink: "read_symlink d ino = (r, d') \<Longrightarrow> same_rows d d'"
  by (auto simp: read_symlink_def and_then_def split: prod.splits sum.splits if_splits dest!: same_kind_of same_query intro: same_rows_trans)

lemma readlink_answered: "mounted s \<Longrightarrow> answered X s (Some (readlink s ino))"
  unfolding readlink_def by (erule query_answered) (rule same_read_symlink)

lemma same_parent_of_dir: "parent_of_dir d ino = (r, d') \<Longrightarrow> same_rows d d'"
  by (auto simp: parent_of_dir_def same_rows_def split: if_splits dest!: query_frame)

lemma same_read_dir: "read_dir_after d ino after emit st = (r, d') \<Longrightarrow> same_rows d d'"
  by (auto simp: read_dir_after_def split: prod.splits sum.splits if_splits option.splits dest!: same_kind_of same_query intro: same_rows_trans)

lemma emit_children_db: "\<exists>d. same_rows (db s) d \<and> snd (emit_children s ino offset emit st) = s\<lparr>db := d\<rparr>"
  by (auto simp: emit_children_def split: prod.splits sum.splits dest!: same_read_dir)

text \<open>Listing a directory, whose reply goes to a buffer of the session, is a query as well.\<close>

lemma readdir_db:
  fixes buffer :: 'a
  shows "\<exists>d. same_rows (db s) d \<and> snd (fuse_readdir add buffer s ino offset) = s\<lparr>db := d\<rparr>"
proof -
  obtain r d1 where p: "parent_of_dir (db s) ino = (r, d1)" by fastforce
  note same = same_parent_of_dir[OF p]
  let ?P = "\<lambda>m :: ((errno + unit) \<times> 'a) \<times> Shared. \<exists>d. same_rows (db s) d \<and> snd m = s\<lparr>db := d\<rparr>"
  have children: "?P (emit_children (s\<lparr>db := d1\<rparr>) ino offset add st)" for st
    using emit_children_db[of "s\<lparr>db := d1\<rparr>" ino offset add st] same by (auto intro: same_rows_trans)
  have here: "?P (x, s\<lparr>db := d1\<rparr>)" for x using same by auto
  obtain q where q: "(case parent_of_dir (db s) ino of (Inr parent, d) \<Rightarrow> (Inr parent, d) | (Inl NotFound, d) \<Rightarrow> (Inr ino, d)
      | (Inl error, d) \<Rightarrow> (Inl error, d)) = (q, d1)"
    using p by (cases r; cases "projl r") simp_all
  have "?P (readdir_stream s ino offset add buffer)"
  proof (cases q)
    case (Inl e)
    then show ?thesis using here by (simp add: readdir_stream_def q)
  next
    case (Inr parent)
    obtain f1 st1 where e1: "(if offset < DOT then add buffer ino DOT FT_Directory [46] else (False, buffer)) = (f1, st1)" by fastforce
    obtain f2 st2 where e2: "(if offset < DOTDOT then add st1 parent DOTDOT FT_Directory [46, 46] else (False, st1)) = (f2, st2)" by fastforce
    have "readdir_stream s ino offset add buffer = (if f1 then ((Inr (), st1), s\<lparr>db := d1\<rparr>)
        else if f2 then ((Inr (), st2), s\<lparr>db := d1\<rparr>) else emit_children (s\<lparr>db := d1\<rparr>) ino offset add st2)"
      by (simp only: readdir_stream_def q Inr e1 e2 Let_def prod.case sum.case)
    then show ?thesis using here children by simp
  qed
  moreover have "snd (fuse_readdir add buffer s ino offset) = snd (readdir_stream s ino offset add buffer)"
    by (simp add: fuse_readdir_def split: prod.splits sum.splits)
  ultimately show ?thesis by simp
qed

lemma readdir_answered:
  assumes "mounted s"
  shows "mounted (snd (fuse_readdir add buffer s ino offset))" "content (snd (fuse_readdir add buffer s ino offset)) = content s"
  using readdir_db[of s add buffer ino offset] mounted_same[OF assms] by auto

lemma readdir_request_answered: "mounted s \<Longrightarrow> answered X s (Some (answer f (fuse_readdir add buffer s ino offset)))"
  using readdir_answered[of s add buffer ino offset]
  by (cases "fuse_readdir add buffer s ino offset"; cases "fst (fuse_readdir add buffer s ino offset)") (auto simp: answer_def)

lemma xattr_answered:
  assumes "mounted s"
  shows "answered X s (getxattr s ino n)" "answered X s (listxattr s ino)" "answered X s (setxattr s ino n)" "answered X s (removexattr s ino n)"
  unfolding getxattr_def listxattr_def setxattr_def removexattr_def by (rule answered_then[OF getattr_answered[OF assms]]; simp)+

section \<open>Open files\<close>

lemma handle_content:
  assumes m: "mounted s" and h: "handle_ino s fh = Some ino"
  obtains w c where "handles_get (handles (table s)) fh = Some w" "content s ino = Some c"
proof -
  have iok: "inodes_ok (inodes (table s))" and run: "running {} s" using m by (simp_all add: mounted_def running_def buffers_ok_def)
  obtain w where w: "handles_get (handles (table s)) fh = Some w" "ino_of (inodes (table s)) w = ino" using h by (auto simp: handle_ino_def)
  have "inodes_find (inodes (table s)) ino = Some w" using live_find[OF iok handle_live[OF run w(1)]] w(2) by simp
  then show thesis using mounted_slot(4)[OF m] w(1) that by blast
qed

lemma no_handle: "handle_ino s fh = None \<longleftrightarrow> handles_get (handles (table s)) fh = None"
  by (simp add: handle_ino_def)

lemma read_fh_answered:
  assumes m: "mounted s" shows "answered X s (read_fh s fh offset n)"
proof (cases "handle_ino s fh")
  case None
  then show ?thesis using m by (simp add: read_fh_def no_handle)
next
  case (Some ino)
  obtain w c where w: "handles_get (handles (table s)) fh = Some w" "content s ino = Some c" by (rule handle_content[OF m Some])
  have i: "ino_of (inodes (table s)) w = ino" using Some w(1) by (simp add: handle_ino_def)
  have run: "running {} s" by (rule mountedD[OF m])
  obtain r d' where r: "read_slot s w offset n = Some (r, s\<lparr>db := d'\<rparr>)" "tabs d' = tabs (db s)" "new_rowid d' = new_rowid (db s)"
    using read_slot_spec[OF run handle_live[OF run w(1)], of c offset n] w(2) i by blast
  then show ?thesis using mounted_same[OF m, of d'] w(1) by (simp add: read_fh_def same_rows_def)
qed

lemma write_fh_answered:
  assumes m: "mounted s" and fit: "unat offset + length data < 2 ^ 64"
  shows "answered {i. handle_ino s fh = Some i} s (write_fh s fh offset data now)"
proof (cases "handle_ino s fh")
  case None
  then show ?thesis using m by (simp add: write_fh_def no_handle)
next
  case (Some ino)
  obtain w c where w: "handles_get (handles (table s)) fh = Some w" "content s ino = Some c" by (rule handle_content[OF m Some])
  obtain r s' where r: "write_fh s fh offset data now = Some (r, s')" "running {} s'" "written s ino offset data c r s'"
    using write_fh_spec[OF mountedD(1)[OF m] Some w(2) fit] by blast
  show ?thesis
  proof (rule kept_answered[OF m r(1,2)])
    show "steps names_ok s (write_fh s fh offset data now)" using w(1) names.write_slot_steps by (simp add: write_fh_def)
    show "content s' i = content s i" if "i \<notin> {i. handle_ino s fh = Some i}" for i
      using r(3) that Some by (auto simp: written_def split: sum.splits)
  qed
qed

lemma flush_fh_steps: "steps names_ok s (flush_fh s fh)"
  using names.flush_slot_steps by (simp add: flush_fh_def split: option.split)

lemma flush_fh_answered:
  assumes m: "mounted s" shows "answered X s (flush_fh s fh)"
proof (cases "handle_ino s fh")
  case None
  then show ?thesis using m by (simp add: flush_fh_def no_handle)
next
  case (Some ino)
  obtain r s' where "flush_fh s fh = Some (r, s')" "running {} s'" "content s' = content s"
    using flush_fh_spec[OF mountedD(1)[OF m] Some] by blast
  then show ?thesis using kept_answered[OF m _ _ flush_fh_steps] by simp
qed

lemma sync_fh_answered: "mounted s \<Longrightarrow> answered X s (sync_fh s fh)"
  unfolding sync_fh_def by (rule answered_then[OF flush_fh_answered]) (auto intro!: query_answered same_sync)

lemma no_content:
  assumes m: "mounted s" and c: "content s ino = None"
  shows "no_slot s ino" "kinds (tabs (db s)) (i64_of_u64 ino) \<noteq> Some (kind_as_i64 RegularFile)"
proof -
  show n: "no_slot s ino" using mounted_slot(4)[OF m] c unfolding no_slot_def by fastforce
  then have "file_bytes (tabs (db s)) ino = None" using c by (simp add: no_slot_def content_def content_in_def)
  then show "kinds (tabs (db s)) (i64_of_u64 ino) \<noteq> Some (kind_as_i64 RegularFile)"
    by (auto simp: file_bytes_def kinds_def inode_row_of_def)
qed

lemma slot_for_answered:
  assumes m: "mounted s" and room: "room s" and k: "kinds (tabs (db s)) (i64_of_u64 ino) \<in> {None, Some (kind_as_i64 RegularFile)}"
  shows "serves s (\<lambda>w s'. w \<in> live (inodes (table s')) \<and> content s' = content s \<and> handles (table s') = handles (table s)) (slot_for s ino)"
proof (cases "inodes_find (inodes (table s)) ino")
  case (Some w)
  then show ?thesis using m mounted_slot(1)[OF m Some] by (simp add: serves_def slot_for_def)
next
  case None
  obtain r d where h: "inode_head (db s) ino = (r, d)" by fastforce
  have same: "same_rows (db s) d" using same_query[OF h[unfolded inode_head_def]] .
  note md = mounted_same[OF m same]
  show ?thesis
  proof (cases r)
    case (Inl e)
    then show ?thesis using None h same_db[OF m same] by (simp add: slot_for_def on_db_def)
  next
    case (Inr x)
    have "kinds (tabs (db s)) (i64_of_u64 ino) \<noteq> None"
      using query_Inr[OF h[unfolded inode_head_def Inr]] by (auto simp: kinds_def split: option.splits)
    then obtain c where c: "content s ino = Some c" using no_content(2)[OF m] k by fastforce
    then have "file_bytes (tabs (db s)) ino = Some c" using None by (simp add: content_def content_in_def)
    then obtain sz where x: "x = (RegularFile, sz)" "unat sz = length c" using inode_head_run[of "db s" ino c] h Inr by auto
    let ?s = "s\<lparr>db := d\<rparr>"
    have fb: "file_bytes (tabs (db ?s)) ino = Some c" using c None same by (simp add: content_def content_in_def same_rows_def)
    have ok: "data_ok (tabs (db ?s))" using mountedD(1)[OF md(1)] by (simp add: running_def)
    have sl: "slot_ok (tabs (db ?s)) (arena (table ?s)) ino RegularFile sz []" by (rule clean_slot_ok[OF ok fb x(2)])
    have "room ?s" "no_slot ?s ino" using room None by (simp_all add: no_slot_def)
    then obtain w t where i: "inodes_insert (inodes (table ?s)) ino RegularFile sz = Some (w, t)" "w \<in> live t"
      "mounted (?s\<lparr>table := (table ?s)\<lparr>inodes := t\<rparr>\<rparr>)" "content (?s\<lparr>table := (table ?s)\<lparr>inodes := t\<rparr>\<rparr>) = content ?s"
      by (rule slot_inserted[OF md(1) _ _ sl])
    then show ?thesis using None h Inr x(1) md(2) by (simp add: serves_def slot_for_def on_db_def)
  qed
qed

lemma open_answered:
  assumes m: "mounted s" and op: "openable s" and k: "kinds (tabs (db s)) (i64_of_u64 ino) \<in> {None, Some (kind_as_i64 RegularFile)}"
  shows "answered X s (fs_open s ino)"
proof -
  have room: "room s" using op by (simp add: openable_def)
  obtain r s1 where r: "slot_for s ino = Some (r, s1)" "mounted s1" "case r of Inl e \<Rightarrow> content s1 = content s \<and> table s1 = table s
    | Inr w \<Rightarrow> w \<in> live (inodes (table s1)) \<and> content s1 = content s \<and> handles (table s1) = handles (table s)"
    by (rule servesE[OF slot_for_answered[OF m room k]])
  show ?thesis
  proof (cases r)
    case (Inr w)
    then have w: "w \<in> live (inodes (table s1))" and h: "length (h_slot (handles (table s1))) < 2 ^ 32 - 1"
      using r(3) op by (simp_all add: openable_def)
    obtain fh s' where "open_slot (table s1) w = Some (fh, table s')" "s1\<lparr>table := table s'\<rparr> = s'" "mounted s'" "content s' = content s1"
      by (rule slot_opened[OF r(2) w h])
    then show ?thesis using r(1,3) Inr by (simp add: fs_open_def)
  qed (use r in \<open>simp add: fs_open_def\<close>)
qed

lemma truncate_answered:
  assumes m: "mounted s"
  shows "answered {ino} s (truncate_locked s ino sz now)"
proof (cases "content s ino")
  case None
  note n = no_content[OF m None]
  obtain r d where t: "truncate_file (db s) ino sz now = (r, d)" by fastforce
  obtain q d1 where q: "inode_kind_of (db s) ino = (q, d1)" by fastforce
  have "q \<noteq> Inr RegularFile" using inode_kind_of_Inr(1)[of "db s" ino RegularFile d1] q n(2) by blast
  then have "isl r" "d = d1"
    using t q by (cases q; simp add: truncate_file_def; cases "projr q"; auto)+
  then show ?thesis using mounted_same[OF m same_kind_of[OF q]] n(1) t
    by (cases r) (simp_all add: truncate_locked_def no_slot_def on_db_def)
next
  case (Some c)
  obtain r s' where r: "truncate_locked s ino sz now = Some (r, s')" "running {} s'" "resized s ino sz c r s'"
    using truncate_locked_spec[OF mountedD(1)[OF m] Some] by blast
  show ?thesis
  proof (rule kept_answered[OF m r(1,2) names.truncate_steps])
    show "content s' i = content s i" if "i \<notin> {ino}" for i using r(3) that by (auto simp: resized_def split: sum.splits)
  qed
qed

section \<open>Attributes and sizes\<close>

lemma persist_answered:
  assumes m: "mounted s" and w: "w \<in> live (inodes (table s))"
  shows "answered X s (try_then (flush_slot s w Persist) (\<lambda>_ s. do { t \<leftarrow> free_if_idle (table s) w; Some (Inr (), s\<lparr>table := t\<rparr>) }))"
proof -
  obtain r s1 where r: "flush_slot s w Persist = Some (r, s1)" "running {} s1" "flushed s s1"
    using flush_slot_spec[OF mountedD(1)[OF m] w] by blast
  have "live (inodes (table s1)) = live ((inodes (table s))\<lparr>oi_dirty := oi_dirty (inodes (table s1))\<rparr>)" using r(3) by (simp add: flushed_def)
  then have c: "content s1 = content s" and w1: "w \<in> live (inodes (table s1))" using r(3) w by (simp_all add: flushed_def)
  obtain t where t: "free_if_idle (table s1) w = Some t" "running {} (s1\<lparr>table := t\<rparr>)" "content (s1\<lparr>table := t\<rparr>) = content s1"
    using free_idle[OF r(2) w1] by blast
  let ?m = "try_then (flush_slot s w Persist) (\<lambda>_ s. do { t \<leftarrow> free_if_idle (table s) w; Some (Inr (), s\<lparr>table := t\<rparr>) })"
  obtain q s' where q: "?m = Some (q, s')" "running {} s'" "content s' = content s" using r t c by (cases r) auto
  show ?thesis by (rule kept_answered[OF m q(1,2) names.flush_free_steps]) (simp add: q(3))
qed

lemma update_metadata_data: "update_metadata d ino u now = (r, d') \<Longrightarrow> keeps_data (tabs d) (tabs d')"
  by (erule update_metadata_rows) (simp add: heads_update)

lemma metadata_answered:
  assumes m: "mounted s"
  shows "answered X s (Some (to_attr (on_db s (\<lambda>d. update_metadata d ino u now))))"
proof -
  obtain r d where r: "update_metadata (db s) ino u now = (r, d)" by fastforce
  have "names_ok d" using names_update_metadata[OF mountedD(2)[OF m], of ino u now] r by simp
  then show ?thesis using mounted_meta[OF m update_metadata_data[OF r]] r by (cases r) (simp_all add: to_attr_eq)
qed

lemma setattr_answered:
  assumes m: "mounted s"
  shows "answered (if sz = None then {} else {ino}) s (setattr s ino mode uid gid sz atime mtime now1 now2)"
  unfolding setattr_def
proof (rule answered_then)
  show "answered (if sz = None then {} else {ino}) s (case inodes_find (inodes (table s)) ino of None \<Rightarrow> Some (Inr (), s)
     | Some slot \<Rightarrow> try_then (flush_slot s slot Persist) (\<lambda>_ s. do { t \<leftarrow> free_if_idle (table s) slot; Some (Inr (), s\<lparr>table := t\<rparr>) }))"
    using m persist_answered[OF m mounted_slot(1)[OF m]] by (simp split: option.split)
  fix a s1 assume m1: "mounted s1"
  show "answered (if sz = None then {} else {ino}) s1
     (try_then (case sz of None \<Rightarrow> Some (Inr (), s1) | Some sz \<Rightarrow> truncate_locked s1 ino sz now1) (\<lambda>_ s.
       Some (to_attr (on_db s (\<lambda>d. update_metadata d ino
         \<lparr>mu_mode = mode, mu_uid = uid, mu_gid = gid, mu_atime = map_option from_system_time atime,
          mu_mtime = map_option from_system_time mtime\<rparr> now2)))))"
    by (rule answered_then) (use m1 truncate_answered[OF m1] metadata_answered in \<open>auto split: option.split\<close>)
qed

lemma fallocate_answered:
  assumes m: "mounted s"
  shows "answered {ino} s (fallocate s ino offset len mode now)"
proof -
  have sz: "answered {ino} s1 (case inodes_find (inodes (table s1)) ino of
       Some slot \<Rightarrow> do { sz \<leftarrow> idx (oi_size (inodes (table s1))) (unat slot); Some (Inr sz, s1) }
     | None \<Rightarrow> Some (and_then (on_db s1 (\<lambda>d. inode_head d ino)) (\<lambda>(_, sz) s. (Inr sz, s))))" if m1: "mounted s1" for s1
  proof (cases "inodes_find (inodes (table s1)) ino")
    case (Some w)
    have iok: "inodes_ok (inodes (table s1))" using m1 by (simp add: mounted_def running_def buffers_ok_def)
    show ?thesis using Some m1 live_columns(3)[OF iok find_live(1)[OF iok Some]] by simp
  next
    case None
    obtain r d where h: "inode_head (db s1) ino = (r, d)" by fastforce
    then show ?thesis using mounted_same[OF m1 same_query[OF h[unfolded inode_head_def]]] None by (cases r) (auto simp: on_db_def)
  qed
  have trunc: "answered {ino} s1 (if e \<le> k then Some (Inr (), s1) else truncate_locked s1 ino e now)" if "mounted s1" for s1 e k
    using that truncate_answered[OF that] by simp
  show ?thesis unfolding fallocate_def Let_def
    by (simp add: m, intro impI conjI answered_then[OF query_answered[OF m same_kind_of]])
      (auto intro: answered_then sz trunc)
qed

section \<open>Closing\<close>

lemma discard_kept:
  assumes "discard_slot t w = Some t'"
  shows "live (inodes t') \<subseteq> live (inodes t) \<and> oi_kind (inodes t') = oi_kind (inodes t) \<and> closing t' = closing t"
proof -
  from assms obtain ds ins ar where "inodes_remove ((inodes t)\<lparr>oi_dirty := ds\<rparr>) w = Some ins" "t' = t\<lparr>inodes := ins, arena := ar\<rparr>"
    by (auto simp: discard_slot_def bind_eq_Some_conv release_into_def)
  then show ?thesis using inodes_remove_kept[of "(inodes t)\<lparr>oi_dirty := ds\<rparr>" w ins] by simp
qed

lemma release_steps:
  assumes no_root: "\<And>w ino. handles_get (handles (table s)) fh = Some w \<Longrightarrow> idx (oi_ino (inodes (table s))) (unat w) = Some ino \<Longrightarrow> ino \<noteq> 1"
  shows "steps names_ok s (release_fh s fh)"
proof (cases "handles_get (handles (table s)) fh")
  case (Some w)
  have gone: "steps names_ok s (Some (on_db (s\<lparr>table := t\<rparr>) (\<lambda>d. delete_inode d ino)))"
    if "live (inodes t) \<subseteq> live (inodes (table s))" "oi_kind (inodes t) = oi_kind (inodes (table s))" "closing t = closing (table s)" "ino \<noteq> 1" for t ino
    using names_delete_inode[of "db s" ino] that by (auto simp: on_db_def kept_by_def split: prod.splits sum.splits)
  show ?thesis using Some unfolding release_fh_def handles_release_def Let_def
    by (simp, intro steps_intros gone steps_from[OF _ names.flush_free_steps])
      (auto dest!: discard_kept dest: no_root intro!: names.table_kept)
qed (simp add: release_fh_def handles_release_def)

lemma release_answered:
  assumes m: "mounted s"
  shows "answered {i. handle_ino s fh = Some i \<and> unlinked_open s i} s (release_fh s fh)"
proof (cases "handles_get (handles (table s)) fh")
  case None
  then show ?thesis using m by (simp add: release_fh_def handles_release_def)
next
  case (Some w)
  let ?ino = "ino_of (inodes (table s)) w"
  have run: "running {} s" and iok: "inodes_ok (inodes (table s))" using m by (simp_all add: mounted_def running_def buffers_ok_def)
  note lw = handle_live[OF run Some]
  have find: "inodes_find (inodes (table s)) ?ino = Some w" by (rule live_find[OF iok lw])
  have "?ino \<noteq> 1" using file_not_root[OF mountedD(2)[OF m] mounted_slot(3)[OF m find]] by (auto simp: i64_of_u64_def)
  then have steps: "steps names_ok s (release_fh s fh)"
    using Some live_columns(1)[OF iok lw] by (intro release_steps) auto
  show ?thesis
  proof (cases "refs_of (inodes (table s)) w = 1 \<and> gone_of (inodes (table s)) w")
    case True
    then obtain r s' where r: "release_fh s fh = Some (r, s')" "running {} s'" "\<forall>i. i \<noteq> ?ino \<longrightarrow> content s' i = content s i"
      using release_last_gone[OF run Some] by (fastforce split: sum.splits)
    have "handle_ino s fh = Some ?ino" "unlinked_open s ?ino"
      using Some find True by (simp_all add: handle_ino_def unlinked_open_def)
    then show ?thesis by (intro kept_answered[OF m r(1,2) steps] r(3)[rule_format]) auto
  next
    case False
    then obtain r s' where r: "release_fh s fh = Some (r, s')" "running {} s'" "content s' = content s"
      using release_kept[OF run Some] by blast
    then show ?thesis by (intro kept_answered[OF m r(1,2) steps]) simp
  qed
qed

text \<open>\<^verbatim>\<open>destroy\<close> flushes everything.\<close>

lemma destroy_answered:
  assumes m: "mounted s"
  shows "answered X s (map_option (\<lambda>s. (R_Done, s)) (destroy s))"
proof -
  obtain r t where t: "flush_all s = Some (r, t)" "running {} t" "content t = content s" using flush_all_spec[OF mountedD(1)[OF m]] by blast
  have "kept_by names_ok s t" using names.flush_all_steps[of s] t(1) by simp
  then have "mounted t" by (rule kept_mounted[OF m _ t(2)])
  then have "mounted (record_flush t r)" by (simp add: record_flush_def mounted_def running_def regular_slots_def)
  moreover have "content (record_flush t r) = content s" using t(3) by (simp add: record_flush_def content_def)
  ultimately show ?thesis using t(1) by (simp add: destroy_def)
qed

section \<open>Requests\<close>

text \<open>What the kernel and the host promise of a request: it opens regular files only (other kinds have requests of
  their own), the offset of a write is an \<^verbatim>\<open>i64\<close> and its length a 32-bit number, and opening finds a free slot and handle number, of which there
  are \<open>2 ^ 32 - 1\<close>.\<close>

fun sendable :: "request \<Rightarrow> Shared \<Rightarrow> bool" where
  "sendable (Q_Open i) s \<longleftrightarrow> openable s \<and> kinds (tabs (db s)) (i64_of_u64 i) \<in> {None, Some (kind_as_i64 RegularFile)}"
| "sendable (Q_Create p n m um u g c) s \<longleftrightarrow> openable s"
| "sendable (Q_Write fh off d c) s \<longleftrightarrow> in_i64 off \<and> length d < 2 ^ 32"
| "sendable _ s \<longleftrightarrow> True"

text \<open>The inodes whose contents a request may change: the file it writes or resizes, a file that does not exist
  yet, the file whose entry it removes or replaces unless that is open, and a file without a name when its
  handle is closed.\<close>

fun concerns :: "request \<Rightarrow> Shared \<Rightarrow> u64 set" where
  "concerns (Q_Write fh off d c) s = {i. handle_ino s fh = Some i}"
| "concerns (Q_Setattr i m u g (Some sz) a t c1 c2 c3 c4) s = {i}"
| "concerns (Q_Fallocate i off len m c) s = {i}"
| "concerns (Q_Create p n m um u g c) s = {i. content s i = None}"
| "concerns (Q_Mknod p n m um u g c) s = {i. content s i = None}"
| "concerns (Q_Unlink p n c) s = {i. named s p n i \<and> \<not> open_now s i}"
| "concerns (Q_Rename p n q m fl c) s = {i. named s q m i \<and> \<not> open_now s i}"
| "concerns (Q_Release fh) s = {i. handle_ino s fh = Some i \<and> unlinked_open s i}"
| "concerns _ s = {}"

lemma node_answered:
  assumes m: "mounted s" and X: "node_kind node = RegularFile \<Longrightarrow> {i. content s i = None} \<subseteq> X"
  shows "answered X s (Some (to_attr (on_db s (\<lambda>d. create_node d p n node uid gid now))))"
  by (rule served_answered[OF create_serves[OF m]]) (use X in auto)

lemma mknod_answered: "mounted s \<Longrightarrow> answered {i. content s i = None} s (Some (fuse_mknod s p n m um u g c))"
  using node_answered[where node = "NewFile _"] by (simp add: fuse_mknod_def Let_def create_def create_file_def)

lemma create_answered: "mounted s \<Longrightarrow> openable s \<Longrightarrow> answered {i. content s i = None} s (create_open s p n m um u g now)"
  by (rule served_answered[OF create_open_serves]) auto

lemma unlink_answered: "mounted s \<Longrightarrow> answered {i. named s p n i \<and> \<not> open_now s i} s (unlink s p n now)"
proof (rule served_answered[OF unlink_serves])
  fix a s' i assume m: "mounted s" and i: "i \<notin> {i. named s p n i \<and> \<not> open_now s i}"
  assume "\<exists>target d. lookup (db s) p n = (Inr target, d) \<and> i_kind target \<noteq> Directory \<and>
      content s' = (if deleted s target then (content s)(i_ino target := None) else content s) \<and> handle_ino s' = handle_ino s \<and>
      (\<not> 1 < i_nlink target \<and> open_now s (i_ino target) \<longrightarrow> unlinked_open s' (i_ino target))"
  then obtain target d where t: "lookup (db s) p n = (Inr target, d)" "i_kind target \<noteq> Directory"
    "content s' = (if deleted s target then (content s)(i_ino target := None) else content s)" by blast
  then show "content s' i = content s i"
    using i lookup_named[OF mountedD(2)[OF m] t(1), of s] by (auto simp: deleted_def)
qed

lemma rename_answered: "mounted s \<Longrightarrow> answered {i. named s q m i \<and> \<not> open_now s i} s (fs_rename s p n q m fl now)"
  by (rule served_answered[OF rename_serves]) auto

lemma request_served:
  assumes m: "mounted s" and q: "sendable q s"
  shows "answered (concerns q s) s (handle q s)"
proof (cases q)
  case (Q_Setattr i m u g sz a t c1 c2 c3 c4)
  then show ?thesis using setattr_answered[OF m, of sz i] by (cases sz) (simp_all add: fuse_setattr_def)
next
  case (Q_Write fh off d c)
  have "unat (u64_of_i64 off) + length d < 2 ^ 64" if "\<not> off < 0"
  proof -
    have "off \<le> i64_MAX" "length d < 2 ^ 32" using q Q_Write by (simp_all add: in_i64_def)
    then show ?thesis using that by (simp add: u64_of_i64_def i64_MAX_def unsigned_of_int take_bit_int_eq_self)
  qed
  then show ?thesis using m Q_Write write_fh_answered[OF m] by (simp add: fuse_write_def)
next
  case (Q_Mkdir p n mo um u g c)
  then show ?thesis using node_answered[OF m, of "NewDirectory (mo AND NOT um)"] by (simp add: fuse_mkdir_def mkdir_def create_dir_def)
next
  case (Q_Symlink p n t u g c)
  then show ?thesis using node_answered[OF m, of "NewSymlink t"] by (simp add: fuse_symlink_def symlink_def create_symlink_def)
next
  case (Q_Rmdir p n c)
  then show ?thesis using served_answered[OF rmdir_serves[OF m]] by (simp add: fuse_rmdir_def)
next
  case (Q_Link i p n c)
  then show ?thesis using served_answered[OF link_serves[OF m]] by (simp add: fuse_link_def)
next
  case Q_Destroy
  then show ?thesis using destroy_answered[OF m] by simp
next
  case (Q_Readdir i off full)
  then show ?thesis using readdir_request_answered[OF m] by simp
qed (use m q in \<open>simp_all add: fuse_lookup_def lookup_answered fuse_getattr_def getattr_answered fuse_statfs_def statfs_answered
    fuse_create_def create_answered fuse_readlink_def readlink_answered fuse_getxattr_def fuse_listxattr_def fuse_setxattr_def
    fuse_removexattr_def xattr_answered fuse_open_def open_answered fuse_release_def release_answered fuse_flush_def flush_fh_answered
    fuse_fsync_def sync_fh_answered fuse_read_def read_fh_answered fuse_fallocate_def fallocate_answered fuse_unlink_def unlink_answered
    mknod_answered fuse_rename_def rename_answered\<close>)

text \<open>C2. Every request of the kernel is answered, session start, listings and \<^verbatim>\<open>destroy\<close> included: on a mount in order no handler panics or runs forever,
  whatever faults SQLite has in store; the mount stays in order (buffers, open files, data rows and the
  directory tree), and the contents of no file change but those the request is about.\<close>

theorem request_answered:
  assumes "mounted s" "sendable q s"
  shows "\<exists>reply s'. handle q s = Some (reply, s') \<and> mounted s' \<and> (\<forall>i. i \<notin> concerns q s \<longrightarrow> content s' i = content s i)"
  using request_served[OF assms] by (simp add: answered_def)

section \<open>Names removed under open files\<close>

lemma handle_open:
  assumes m: "mounted s" and h: "handle_ino s fh = Some ino"
  shows "open_now s ino"
proof -
  have run: "running {} s" and iok: "inodes_ok (inodes (table s))" and hm: "handles_match (inodes (table s)) (handles (table s))"
    using m by (simp_all add: mounted_def running_def buffers_ok_def)
  obtain w where w: "handles_get (handles (table s)) fh = Some w" "ino_of (inodes (table s)) w = ino" using h by (auto simp: handle_ino_def)
  note lw = handle_live[OF run w(1)]
  have "refs_of (inodes (table s)) w \<noteq> 0" using handles_no_refs[OF hm lw] w(1) by blast
  then show ?thesis using live_find[OF iok lw] w(2) by (auto simp: open_now_def)
qed

lemma unlink_handles: "mounted s \<Longrightarrow> unlink s p n now = Some (r, s') \<Longrightarrow> handle_ino s' = handle_ino s"
  using unlink_serves[of s p n now] by (cases r) (auto simp: serves_def handle_ino_def fun_eq_iff)

lemma rename_handles: "mounted s \<Longrightarrow> fs_rename s p n q m fl now = Some (r, s') \<Longrightarrow> handle_ino s' = handle_ino s"
  using rename_serves[of s q m p n fl now] by (cases r) (auto simp: serves_def handle_ino_def fun_eq_iff)

lemma answers_state: "answers f m = Some (reply, s') \<Longrightarrow> \<exists>r. m = Some (r, s')"
  by (cases m; cases "fst (the m)") (auto simp: answers_def answer_def)

text \<open>C3. A file that is open outlives its names: whatever entry is unlinked, or replaced by a rename, a
  handle that was open stands for the same inode afterwards, its contents are the same, buffered writes
  included, and a read through the handle returns them.\<close>

theorem open_file_outlives_name:
  assumes m: "mounted s" and h: "handle_ino s fh = Some ino" and c: "content s ino = Some c"
    and q: "handle q s = Some (reply, s')" "(\<exists>p n clock. q = Q_Unlink p n clock) \<or> (\<exists>p n p' n' fl clock. q = Q_Rename p n p' n' fl clock)"
  shows "handle_ino s' fh = Some ino \<and> content s' ino = Some c \<and>
    (faults (db s') = [] \<longrightarrow> (\<exists>s''. read_fh s' fh offset sz = Some (Inr (pread offset sz c), s'')))"
proof -
  have "sendable q s" "ino \<notin> concerns q s" using q(2) handle_open[OF m h] by auto
  with request_served[OF m, of q] q(1) have c': "mounted s'" "content s' ino = Some c" using c by (auto simp: answered_def)
  have h': "handle_ino s' fh = Some ino"
    using q h by (auto simp: fuse_unlink_def fuse_rename_def dest!: answers_state unlink_handles[OF m] rename_handles[OF m])
  obtain r s'' where r: "read_fh s' fh offset sz = Some (r, s'')" "case r of Inl e \<Rightarrow> faults (db s') \<noteq> [] | Inr out \<Rightarrow> out = pread offset sz c"
    using read_fh_spec[OF mountedD(1)[OF c'(1)] h' c'(2)] by blast
  show ?thesis using h' c'(2) r by (cases r) auto
qed

section \<open>Sessions\<close>

text \<open>A session serves one request after another.\<close>

fun serve :: "request list \<Rightarrow> Shared \<Rightarrow> (reply list \<times> Shared) option" where
  "serve [] s = Some ([], s)"
| "serve (q # qs) s = do {
     (reply, s) \<leftarrow> handle q s;
     (replies, s) \<leftarrow> serve qs s;
     Some (reply # replies, s)
   }"

fun all_sendable :: "request list \<Rightarrow> Shared \<Rightarrow> bool" where
  "all_sendable [] s \<longleftrightarrow> True"
| "all_sendable (q # qs) s \<longleftrightarrow> sendable q s \<and> (case handle q s of None \<Rightarrow> True | Some (_, s) \<Rightarrow> all_sendable qs s)"

lemma served_session:
  "mounted s \<Longrightarrow> all_sendable qs s \<Longrightarrow> \<exists>replies s'. serve qs s = Some (replies, s') \<and> length replies = length qs \<and> mounted s'"
proof (induction qs arbitrary: s)
  case (Cons q qs)
  obtain r s1 where r: "handle q s = Some (r, s1)" "mounted s1" using request_served[OF Cons(2), of q] Cons(3) by (auto simp: answered_def)
  with Cons(1)[OF r(2)] Cons(3) show ?case by auto
qed simp

text \<open>C4. A session is answered to its end: from a mount of a database with sound rows and a sound directory
  tree, every sequence of requests, in any order and listings included, gets one reply each and leaves the mount in order.\<close>

theorem session_answered:
  assumes "data_ok (tabs d)" "names_ok d" "visits_all order" "budget \<le> 2 ^ 48"
    and "all_sendable qs (with_write_buffer order d budget)"
  shows "\<exists>replies s'. serve qs (with_write_buffer order d budget) = Some (replies, s') \<and> length replies = length qs \<and> mounted s'"
  by (rule served_session[OF fresh_mounted[OF assms(1-4)] assms(5)])

end
