(* ===== verification/Closing.thy ===== *)
theory Closing
  imports Served
begin

text \<open>
  The end of a mount: once the flush for shutdown has run, no request makes a buffer dirty again, so
  that what the flush stored stays the whole of what readers see, whatever requests are still served,
  until the last result of a flush is read.
\<close>

section \<open>Buffers at rest\<close>

text \<open>Every open file is clean, or was unlinked while open and is flushed no more.\<close>

definition rests :: "OpenInodes \<Rightarrow> bool" where
  "rests ins \<longleftrightarrow> (\<forall>w \<in> live ins. dirty_of ins w = [] \<or> gone_of ins w)"

lemma nth_update: "xs[i := x] ! j = (if i = j \<and> i < length xs then x else xs ! j)"
  by (cases "i < length xs") (auto simp: list_update_beyond)

lemma restsI:
  assumes "rests ins" "live ins' \<subseteq> live ins"
    and "\<And>w. w \<in> live ins' \<Longrightarrow> dirty_of ins' w = [] \<or> dirty_of ins' w = dirty_of ins w \<and> (gone_of ins w \<longrightarrow> gone_of ins' w)"
  shows "rests ins'"
  unfolding rests_def
proof
  fix w assume w: "w \<in> live ins'"
  then have "dirty_of ins w = [] \<or> gone_of ins w" using assms(1,2) by (auto simp: rests_def)
  then show "dirty_of ins' w = [] \<or> gone_of ins' w" using assms(3)[OF w] by auto
qed

lemma rests_frame [simp]:
  "rests (ins\<lparr>oi_size := z\<rparr>) = rests ins" "rests (ins\<lparr>oi_mtime := m\<rparr>) = rests ins" "rests (ins\<lparr>oi_refs := r\<rparr>) = rests ins"
  by (simp_all add: rests_def)

lemma rests_flushed: "rests ins \<Longrightarrow> rests (ins\<lparr>oi_dirty := (oi_dirty ins)[i := []]\<rparr>)"
  by (erule restsI) (auto simp: nth_update)

lemma rests_unlinked: "rests ins \<Longrightarrow> rests (ins\<lparr>oi_unlinked := (oi_unlinked ins)[i := True]\<rparr>)"
  by (erule restsI) (auto simp: nth_update)

lemma rests_removed:
  assumes r: "rests ins" and d: "dirty_of ins w = []" and rm: "inodes_remove ins w = Some ins'"
  shows "rests ins'"
proof -
  have "live ins' \<subseteq> live ins" using inodes_remove_kept[OF rm] by simp
  moreover have "dirty_of ins' u = [] \<or> dirty_of ins' u = dirty_of ins u \<and> (gone_of ins u \<longrightarrow> gone_of ins' u)" for u
    using rm d by (auto simp: inodes_remove_def Let_def bind_eq_Some_conv set_idx_def nth_update split: if_splits)
  ultimately show ?thesis using restsI[OF r] by blast
qed

lemma rests_freed:
  assumes r: "rests (inodes t)" and f: "free_if_idle t w = Some t'"
  shows "rests (inodes t') \<and> closing t' = closing t"
proof -
  from f consider "t' = t" | ins d where "idx (oi_dirty (inodes t)) (unat w) = Some d" "dirty_is_empty d" "inodes_remove (inodes t) w = Some ins"
      "t' = t\<lparr>inodes := ins\<rparr>"
    by (auto simp: free_if_idle_def Let_def bind_eq_Some_conv split: if_splits)
  then show ?thesis
  proof cases
    case 1
    then show ?thesis using r by simp
  next
    case 2
    then have "dirty_of (inodes t) w = []" by (simp add: idx_def dirty_is_empty_def split: if_splits)
    then show ?thesis using rests_removed[OF r _ 2(3)] 2(4) by simp
  qed
qed

lemma rests_discarded:
  assumes r: "rests (inodes t)" and d: "discard_slot t w = Some t'"
  shows "rests (inodes t') \<and> closing t' = closing t"
proof -
  let ?ins = "(inodes t)\<lparr>oi_dirty := (oi_dirty (inodes t))[unat w := []]\<rparr>"
  from d obtain ins ar where i: "inodes_remove ?ins w = Some ins" "t' = t\<lparr>inodes := ins, arena := ar\<rparr>" "unat w < length (oi_dirty (inodes t))"
    by (auto simp: discard_slot_def bind_eq_Some_conv release_into_def set_idx_def split: if_splits)
  have "rests ins" by (rule rests_removed[OF rests_flushed[OF r] _ i(1)]) (use i(3) in simp)
  then show ?thesis using i(2) by simp
qed

lemma rests_entry_removed: "rests (inodes t) \<Longrightarrow> entry_removed t target = Some t' \<Longrightarrow> rests (inodes t') \<and> closing t' = closing t"
  by (auto simp: entry_removed_def bind_eq_Some_conv set_idx_def intro: rests_unlinked dest: rests_discarded split: if_splits option.splits)

text \<open>A new slot is clean.\<close>

lemma rests_inserted:
  assumes iok: "inodes_ok ins" and r: "rests ins" and i: "inodes_insert ins ino kind sz = Some (w, ins')"
  shows "rests ins'"
proof -
  have lv: "live ins' \<subseteq> insert w (live ins)"
    using i by (auto simp: inodes_insert_def Let_def bind_eq_Some_conv live_def map_insert_def split: if_splits)
  have cols: "length (oi_dirty ins) = slot_count ins" "length (oi_unlinked ins) = slot_count ins" "slot_count ins < 2 ^ 32"
    using inodes_ok_columns[OF iok] by (simp_all add: columns_ok_def)
  have free: "dirty_of ins (last (oi_free ins)) = []" if "oi_free ins \<noteq> []" using iok that by (simp add: inodes_ok_def)
  have new: "dirty_of ins' u = [] \<or> u \<noteq> w \<and> dirty_of ins' u = dirty_of ins u \<and> gone_of ins' u = gone_of ins u"
    if u: "u = w \<or> u \<in> live ins" for u
  proof (cases "oi_free ins = []")
    case True
    then have g: "oi_dirty ins' = oi_dirty ins @ [[]]" "oi_unlinked ins' = oi_unlinked ins @ [False]" "w = of_nat (slot_count ins)"
      using i by (auto simp: inodes_insert_def Let_def)
    have "unat w = slot_count ins" using cols(3) unfolding g(3) by (simp add: unat_of_nat)
    then show ?thesis using g(1,2) cols u live_columns(6,7)[OF iok, of u] by (auto simp: nth_append)
  next
    case False
    then have g: "oi_dirty ins' = oi_dirty ins" "oi_unlinked ins' = (oi_unlinked ins)[unat w := False]" "w = last (oi_free ins)"
      using i by (auto simp: inodes_insert_def Let_def bind_eq_Some_conv set_idx_def split: if_splits)
    then show ?thesis using free[OF False] by (cases "u = w") (simp_all add: nth_update word_unat_eq_iff)
  qed
  show ?thesis
    unfolding rests_def
  proof
    fix u assume "u \<in> live ins'"
    then have u: "u = w \<or> u \<in> live ins" using lv by blast
    then have "dirty_of ins u = [] \<or> gone_of ins u \<or> u = w" using r by (auto simp: rests_def)
    then show "dirty_of ins' u = [] \<or> gone_of ins' u" using new[OF u] by auto
  qed
qed

section \<open>Requests after the flush\<close>

text \<open>Writes are refused, the last flush ended in \<open>l\<close>, and if that was a success the buffers are at rest.\<close>

definition shut :: "errno + unit \<Rightarrow> Shared \<Rightarrow> bool" where
  "shut l s \<longleftrightarrow> closing (table s) \<and> last_flush s = l \<and> (l = Inr () \<longrightarrow> rests (inodes (table s)))"

lemma shut_db [simp]: "shut l (s\<lparr>db := d\<rparr>) = shut l s"
  by (simp add: shut_def)

lemma shut_table: "shut l s \<Longrightarrow> closing t = closing (table s) \<Longrightarrow> (rests (inodes (table s)) \<Longrightarrow> rests (inodes t)) \<Longrightarrow> shut l (s\<lparr>table := t\<rparr>)"
  by (auto simp: shut_def)

lemma shut_on_db: "shut l s \<Longrightarrow> ends (shut l) (Some (on_db s f))" "shut l s \<Longrightarrow> on_db s f = (r, s') \<Longrightarrow> shut l s'"
  by (auto simp: on_db_def ends_def split: prod.splits sum.splits)

lemma on_db_frame: "on_db s f = (r, s') \<Longrightarrow> table s' = table s \<and> last_flush s' = last_flush s"
  by (auto simp: on_db_def split: prod.splits sum.splits)

lemma ends_if: "(b \<Longrightarrow> ends P x) \<Longrightarrow> (\<not> b \<Longrightarrow> ends P y) \<Longrightarrow> ends P (if b then x else y)"
  by simp

lemma ends_prod: "(\<And>a b. m = (a, b) \<Longrightarrow> ends P (f a b)) \<Longrightarrow> ends P (case m of (a, b) \<Rightarrow> f a b)"
  by (cases m) simp

lemma ends_sum:
  "(\<And>a. r = Inl a \<Longrightarrow> ends P (f a)) \<Longrightarrow> (\<And>b. r = Inr b \<Longrightarrow> ends P (g b)) \<Longrightarrow> ends P (case r of Inl a \<Rightarrow> f a | Inr b \<Rightarrow> g b)"
  by (cases r) simp_all

lemma ends_option:
  "(r = None \<Longrightarrow> ends P x) \<Longrightarrow> (\<And>b. r = Some b \<Longrightarrow> ends P (g b)) \<Longrightarrow> ends P (case r of None \<Rightarrow> x | Some b \<Rightarrow> g b)"
  by (cases r) simp_all

lemmas ends_intros = ends_bind ends_if ends_prod ends_sum ends_option

lemma shut_free: "shut l s \<Longrightarrow> ends (shut l) (do { t \<leftarrow> free_if_idle (table s) w; Some (Inr (), s\<lparr>table := t\<rparr>) })"
  by (rule ends_bind) (auto intro!: shut_table dest: rests_freed free_kept)

lemma shut_flush_slot: "shut l s \<Longrightarrow> ends (shut l) (flush_slot s w u)"
  unfolding flush_slot_def Let_def
  by (intro ends_intros) (auto simp: shut_def set_idx_def release_into_def split: if_splits dest!: on_db_frame intro: rests_flushed)

lemma shut_flush_free: "shut l s \<Longrightarrow> ends (shut l) (try_then (flush_slot s w u)
    (\<lambda>_ s. do { t \<leftarrow> free_if_idle (table s) w; Some (Inr (), s\<lparr>table := t\<rparr>) }))"
  by (rule ends_then[OF shut_flush_slot shut_free])

text \<open>Queries and changes of the database alone leave the table as it is.\<close>

lemma shut_overlay: "shut l s \<Longrightarrow> ends (shut l) (with_overlay (on_db s f))"
  unfolding with_overlay_def by (rule ends_then[OF shut_on_db(1)]) (auto intro: ends_bind)

lemma shut_meta: "shut l s \<Longrightarrow> ends (shut l) (Some (to_attr (on_db s f)))"
  using shut_on_db(1) by simp

lemma shut_getattr: "shut l s \<Longrightarrow> ends (shut l) (getattr s ino)"
  unfolding getattr_def by (rule shut_overlay)

lemma shut_statfs: "shut l s \<Longrightarrow> ends (shut l) (statfs pragmas s)"
  unfolding statfs_def by (rule ends_then[OF shut_on_db(1)]) (simp_all add: Let_def)

lemma shut_xattr:
  assumes "shut l s"
  shows "ends (shut l) (getxattr s ino n)" "ends (shut l) (listxattr s ino)" "ends (shut l) (setxattr s ino n)" "ends (shut l) (removexattr s ino n)"
  unfolding getxattr_def listxattr_def setxattr_def removexattr_def by (rule ends_then[OF shut_getattr[OF assms]]; simp)+

lemma shut_readdir: "shut l s \<Longrightarrow> ends (shut l) (Some (fuse_readdir add buffer s ino offset))"
proof -
  assume sh: "shut l s"
  obtain d where d: "snd (fuse_readdir add buffer s ino offset) = s\<lparr>db := d\<rparr>" using readdir_db[of s add buffer ino offset] by blast
  obtain r s1 where r: "fuse_readdir add buffer s ino offset = (r, s1)" by fastforce
  show ?thesis using sh d r by simp
qed

text \<open>Opening makes clean slots, reading changes nothing, and writing is refused.\<close>

lemma shut_slot_for:
  assumes m: "mounted s" and sh: "shut l s"
  shows "ends (shut l) (slot_for s ino)"
proof -
  have iok: "inodes_ok (inodes (table s))" using mountedD(1)[OF m] by (simp add: running_def buffers_ok_def)
  have "ends (shut l) (case x of (kind, sz) \<Rightarrow> do { (slot, ins) \<leftarrow> inodes_insert (inodes (table s1)) ino kind sz;
      Some (Inr slot, s1\<lparr>table := (table s1)\<lparr>inodes := ins\<rparr>\<rparr>) })"
    if "on_db s (\<lambda>d. inode_head d ino) = (Inr x, s1)" "shut l s1" for x s1
  proof (cases x)
    case (Pair kind sz)
    have "table s1 = table s" using on_db_frame[OF that(1)] by simp
    then show ?thesis using Pair that(2) rests_inserted[OF iok]
      by (auto simp: ends_def bind_eq_Some_conv intro!: shut_table)
  qed
  then show ?thesis unfolding slot_for_def
    by (intro ends_intros ends_then[OF shut_on_db(1)[OF sh]]) (use sh in auto)
qed

lemma shut_open_slot: "shut l s \<Longrightarrow> ends (shut l) (do { (fh, t) \<leftarrow> open_slot (table s) w; Some (Inr (f fh), s\<lparr>table := t\<rparr>) })"
  by (auto simp: ends_def bind_eq_Some_conv open_slot_def set_idx_def intro!: shut_table split: if_splits)

lemma shut_open: "mounted s \<Longrightarrow> shut l s \<Longrightarrow> ends (shut l) (fs_open s ino)"
  unfolding fs_open_def using shut_open_slot[where f = id] by (intro ends_then[OF shut_slot_for]) simp_all

lemma shut_create: "mounted s \<Longrightarrow> shut l s \<Longrightarrow> ends (shut l) (create_open s p n mode umask uid gid now)"
proof -
  assume m: "mounted s" and sh: "shut l s"
  have iok: "inodes_ok (inodes (table s))" using mountedD(1)[OF m] by (simp add: running_def buffers_ok_def)
  have c: "Some (create s p n mode umask uid gid now) = Some (to_attr (on_db s (\<lambda>d. create_file d p n (mode AND NOT umask) uid gid now)))"
    by (simp add: create_def)
  have tb: "table s1 = table s" if "create s p n mode umask uid gid now = (r, s1)" for r s1
    using that on_db_frame[of s] by (auto simp: create_def to_attr_def and_then_def split: prod.splits sum.splits)
  have "ends (shut l) (do { (slot, ins) \<leftarrow> inodes_insert (inodes (table s1)) ino RegularFile 0;
       (fh, t) \<leftarrow> open_slot ((table s1)\<lparr>inodes := ins\<rparr>) slot; Some (Inr (attr, fh), s1\<lparr>table := t\<rparr>) })"
    if "create s p n mode umask uid gid now = (Inr attr, s1)" "shut l s1" for attr s1 ino
    using that(2) tb[OF that(1)] rests_inserted[OF iok]
    by (auto simp: ends_def bind_eq_Some_conv open_slot_def set_idx_def intro!: shut_table split: if_splits)
  then show ?thesis unfolding create_open_def by (intro ends_then) (use c shut_meta[OF sh] in auto)
qed

lemma write_slot_refused: "closing (table s) \<Longrightarrow> write_slot s w offset data now = Some (q, s') \<Longrightarrow> s' = s \<and> isl q"
proof -
  assume c: "closing (table s)" and w: "write_slot s w offset data now = Some (q, s')"
  obtain kind where k: "idx (oi_kind (inodes (table s))) (unat w) = Some kind" using w by (auto simp: write_slot_def Let_def bind_eq_Some_conv)
  show ?thesis using c w k by (cases "regular_file_error kind") (auto simp: write_slot_def)
qed

lemma write_fh_refused: "closing (table s) \<Longrightarrow> write_fh s fh offset data now = Some (q, s') \<Longrightarrow> s' = s \<and> isl q"
  by (auto simp: write_fh_def split: option.splits dest: write_slot_refused)

lemma shut_read_slot: "shut l s \<Longrightarrow> ends (shut l) (read_slot s w offset n)"
  unfolding read_slot_def Let_def by (intro ends_intros) simp_all

text \<open>Flushing, truncating and removing only clean slots or forget them.\<close>

lemma shut_truncate: "shut l s \<Longrightarrow> ends (shut l) (truncate_locked s ino sz now)"
proof -
  assume sh: "shut l s"
  have fr: "ends (shut l) (do {
            sizes \<leftarrow> set_idx (oi_size (inodes (table s1))) (unat slot) sz;
            t \<leftarrow> free_if_idle ((table s1)\<lparr>inodes := (inodes (table s1))\<lparr>oi_size := sizes\<rparr>\<rparr>) slot;
            Some (Inr (), s1\<lparr>table := t\<rparr>)
          })" if "shut l s1" for s1 slot
    using that by (intro ends_bind) (auto intro!: shut_table dest: rests_freed[rotated] free_kept)
  show ?thesis unfolding truncate_locked_def Let_def
    by (intro ends_then ends_option shut_on_db(1) fr) (auto intro: shut_flush_slot sh)
qed

lemma shut_setattr: "shut l s \<Longrightarrow> ends (shut l) (setattr s ino mode uid gid sz atime mtime now1 now2)"
  unfolding setattr_def by (intro ends_then ends_option shut_flush_free shut_meta shut_truncate) simp_all

lemma shut_fallocate: "shut l s \<Longrightarrow> ends (shut l) (fallocate s ino offset len mode now)"
proof -
  assume sh: "shut l s"
  have sz: "ends (shut l) (case inodes_find (inodes (table s1)) ino of
       Some slot \<Rightarrow> do { sz \<leftarrow> idx (oi_size (inodes (table s1))) (unat slot); Some (Inr sz, s1) }
     | None \<Rightarrow> Some (and_then (on_db s1 (\<lambda>d. inode_head d ino)) (\<lambda>(_, sz) s. (Inr sz, s))))" if "shut l s1" for s1
  proof (intro ends_option ends_bind)
    obtain r s2 where o: "on_db s1 (\<lambda>d. inode_head d ino) = (r, s2)" by fastforce
    then show "ends (shut l) (Some (and_then (on_db s1 (\<lambda>d. inode_head d ino)) (\<lambda>(_, sz) s. (Inr sz, s))))"
      using shut_on_db(2)[OF that o] by (cases r) (auto simp: and_then_def split: prod.splits)
  qed (use that in simp)
  show ?thesis unfolding fallocate_def Let_def
    by (intro ends_if ends_then[OF shut_on_db(1)] ends_then[OF sz] shut_truncate) (simp_all add: sh)
qed

lemma shut_release: "shut l s \<Longrightarrow> ends (shut l) (release_fh s fh)"
proof (cases "handles_get (handles (table s)) fh")
  case (Some w)
  assume sh: "shut l s"
  have t: "shut l (s\<lparr>table := (table s)\<lparr>handles := hs, inodes := (inodes (table s))\<lparr>oi_refs := rs\<rparr>\<rparr>\<rparr>)" for hs rs
    using sh by (auto intro: shut_table)
  have gone: "ends (shut l) (Some (on_db (s\<lparr>table := t\<rparr>) f))"
    if "discard_slot ((table s)\<lparr>handles := hs, inodes := (inodes (table s))\<lparr>oi_refs := rs\<rparr>\<rparr>) w = Some t" for t hs rs f
  proof -
    have "rests (inodes t) \<and> closing t = closing (table s)" if "rests (inodes (table s))"
      using rests_discarded[OF _ \<open>discard_slot _ w = Some t\<close>] that by simp
    then show ?thesis using sh discard_kept[OF that] by (intro shut_on_db(1) shut_table) auto
  qed
  show ?thesis using Some unfolding release_fh_def handles_release_def Let_def
    by simp (intro ends_intros gone shut_flush_free; simp add: t)
qed (simp add: release_fh_def handles_release_def)

lemma shut_entry_removed: "shut l s \<Longrightarrow> ends (shut l) (do { t \<leftarrow> entry_removed (table s) target; Some (Inr (), s\<lparr>table := t\<rparr>) })"
proof (rule ends_bind)
  fix t assume sh: "shut l s" and t: "entry_removed (table s) target = Some t"
  have "closing t = closing (table s)"
    using t discard_kept by (auto simp: entry_removed_def bind_eq_Some_conv split: if_splits option.splits)
  then show "ends (shut l) (Some (Inr (), s\<lparr>table := t\<rparr>))" using sh rests_entry_removed[OF _ t] by (auto intro!: shut_table)
qed

lemma shut_unlink: "shut l s \<Longrightarrow> ends (shut l) (unlink s p n now)"
  unfolding unlink_def by (intro ends_then[OF shut_on_db(1)] ends_bind shut_entry_removed)

lemma shut_rename:
  assumes sh: "shut l s"
  shows "ends (shut l) (fs_rename s p n q m fl now)"
proof -
  have "shut l (s\<lparr>db := d, table := t\<rparr>)" if "entry_removed (table s) target = Some t" for d t target
    using shut_entry_removed[of l "s\<lparr>db := d\<rparr>" target] sh that by simp
  then show ?thesis unfolding fs_rename_def Let_def by (intro ends_intros) (simp_all add: sh)
qed

lemma shut_request:
  assumes m: "mounted s" and sh: "shut l s" and q: "q \<noteq> Q_Destroy"
  shows "ends (shut l) (handle q s)"
proof (cases q)
  case (Q_Write fh off d c)
  have "closing (table s)" using sh by (simp add: shut_def)
  then have "ends (shut l) (write_fh s fh u d c)" for u
    unfolding ends_def using sh write_fh_refused[of s fh u d c] by blast
  then show ?thesis using Q_Write sh by (simp add: fuse_write_def)
next
  case (Q_Read fh off sz)
  then show ?thesis using sh shut_read_slot[OF sh] by (simp add: fuse_read_def read_fh_def split: option.split)
next
  case (Q_Flush fh)
  then show ?thesis using sh shut_flush_slot[OF sh] by (simp add: fuse_flush_def flush_fh_def split: option.split)
next
  case (Q_Fsync fh)
  have "ends (shut l) (flush_fh s fh)" using sh shut_flush_slot[OF sh] by (simp add: flush_fh_def split: option.split)
  then show ?thesis using Q_Fsync by (auto simp: fuse_fsync_def sync_fh_def intro!: ends_then shut_on_db(1))
qed (use sh q m in \<open>simp_all add: fuse_lookup_def fs_lookup_def fuse_getattr_def getattr_def fuse_statfs_def shut_statfs shut_overlay
    shut_readdir fuse_mkdir_def mkdir_def fuse_create_def shut_create fuse_symlink_def symlink_def fuse_link_def fs_link_def
    fuse_readlink_def readlink_def fuse_setattr_def shut_setattr fuse_getxattr_def fuse_listxattr_def fuse_setxattr_def
    fuse_removexattr_def shut_xattr fuse_open_def shut_open fuse_release_def shut_release fuse_fallocate_def shut_fallocate
    fuse_unlink_def shut_unlink fuse_rmdir_def rmdir_def fuse_mknod_def create_def Let_def fuse_rename_def shut_rename
    shut_meta shut_on_db(1)\<close>)

section \<open>The last flush\<close>

lemma flush_all_rests:
  assumes run: "running {} s" and f: "flush_all s = Some (Inr (), t)"
  shows "rests (inodes (table t))"
proof -
  have iok: "inodes_ok (inodes (table s))" using run by (simp add: running_def buffers_ok_def)
  let ?ws = "live_slots (inodes (table s))"
  have ws: "set ?ws = live (inodes (table s))" by (rule live_slots_set[OF iok])
  obtain fe s1 where fs: "flush_slots ?ws None s = Some (fe, s1)" "subsides s s1" "fe = None \<longrightarrow> (\<forall>w \<in> set ?ws. settled s1 w)"
    using flush_slots_spec[OF run live_slots_distinct[OF iok], of None] ws by blast
  have t: "fe = None" "table t = table s1" using f fs(1)
    by (auto simp: flush_all_def split: option.splits prod.splits dest: on_db_frame)
  then show ?thesis using fs(2,3) ws by (auto simp: rests_def subsides_def settled_def)
qed

lemma flush_recorded:
  assumes m: "mounted s" and f: "flush_all s = Some (r, t)"
  shows "mounted (record_flush t r)" "content (record_flush t r) = content s" "last_flush (record_flush t r) = r"
    "closing (table (record_flush t r)) = closing (table s)" "r = Inr () \<Longrightarrow> rests (inodes (table (record_flush t r)))"
proof -
  have t: "running {} t" "content t = content s" using flush_all_spec[OF mountedD(1)[OF m]] f by auto
  have k: "kept_by names_ok s t" using names.flush_all_steps[of s] f by simp
  have "mounted t" by (rule kept_mounted[OF m k t(1)])
  then show "mounted (record_flush t r)" by (simp add: record_flush_def mounted_def running_def regular_slots_def)
  show "content (record_flush t r) = content s" "last_flush (record_flush t r) = r"
    "closing (table (record_flush t r)) = closing (table s)"
    using t(2) k by (simp_all add: record_flush_def content_def kept_by_def)
  show "rests (inodes (table (record_flush t r)))" if "r = Inr ()"
    using flush_all_rests[OF mountedD(1)[OF m]] f that by (simp add: record_flush_def)
qed

lemma destroy_rests:
  assumes "mounted s" "destroy s = Some s'"
  shows "mounted s' \<and> content s' = content s \<and> closing (table s') = closing (table s) \<and> (last_flush s' = Inr () \<longrightarrow> rests (inodes (table s')))"
proof -
  obtain r t where f: "flush_all s = Some (r, t)" "s' = record_flush t r" using assms(2) by (auto simp: destroy_def bind_eq_Some_conv)
  note fr = flush_recorded[OF assms(1) f(1), folded f(2)]
  show ?thesis using fr by simp
qed

lemma refuse_mounted: "mounted s \<Longrightarrow> mounted (refuse_writes s)" "content (refuse_writes s) = content s"
    "unlinked_open (refuse_writes s) = unlinked_open s" "closing (table (refuse_writes s))"
  by (simp_all add: refuse_writes_def mounted_def running_def regular_slots_def content_def unlinked_open_def fun_eq_iff)

lemma shutdown_shut:
  assumes "mounted s" "flush_for_shutdown s = Some (r, t)"
  shows "mounted t \<and> content t = content s \<and> shut r t"
proof -
  obtain t0 where f: "flush_all (refuse_writes s) = Some (r, t0)" "t = record_flush t0 r"
    using assms(2) by (auto simp: flush_for_shutdown_def bind_eq_Some_conv)
  note fr = flush_recorded[OF refuse_mounted(1)[OF assms(1)] f(1), folded f(2)]
  show ?thesis using fr by (simp add: refuse_mounted shut_def)
qed

text \<open>At rest, the database holds every named file as its readers see it.\<close>

lemma rests_stored:
  "mounted s \<Longrightarrow> rests (inodes (table s)) \<Longrightarrow> \<not> unlinked_open s ino \<Longrightarrow> file_bytes (tabs (db s)) ino = content s ino"
  by (rule settled_stored[OF mountedD(1)]) (auto simp: rests_def settled_def)

text \<open>The inodes whose contents the requests of a closing session may change: those of \<open>concerns\<close>, except
  that its writes are refused.\<close>

fun changed :: "request list \<Rightarrow> Shared \<Rightarrow> u64 set" where
  "changed [] s = {}"
| "changed (q # qs) s = (case q of Q_Write _ _ _ _ \<Rightarrow> {} | _ \<Rightarrow> concerns q s) \<union>
     (case handle q s of None \<Rightarrow> {} | Some (_, s) \<Rightarrow> changed qs s)"

lemma shut_answered:
  assumes m: "mounted s" and sh: "shut l s" and q: "sendable q s" and h: "handle q s = Some (r, s')"
  shows "mounted s'" "\<exists>l'. shut l' s'" "i \<notin> (case q of Q_Write _ _ _ _ \<Rightarrow> {} | _ \<Rightarrow> concerns q s) \<Longrightarrow> content s' i = content s i"
proof -
  have a: "mounted s'" "\<forall>i. i \<notin> concerns q s \<longrightarrow> content s' i = content s i"
    using request_served[OF m q] h by (auto simp: answered_def)
  have c: "closing (table s)" using sh by (simp add: shut_def)
  show "mounted s'" by (rule a)
  show "\<exists>l'. shut l' s'"
  proof (cases "q = Q_Destroy")
    case True
    then have "destroy s = Some s'" using h by auto
    then show ?thesis using destroy_rests[OF m] c by (auto simp: shut_def)
  next
    case False
    then show ?thesis using shut_request[OF m sh] h by (auto simp: ends_def)
  qed
  show "content s' i = content s i" if "i \<notin> (case q of Q_Write _ _ _ _ \<Rightarrow> {} | _ \<Rightarrow> concerns q s)"
  proof (cases "\<exists>fh off d k. q = Q_Write fh off d k")
    case True
    then obtain fh off d k where q: "q = Q_Write fh off d k" by blast
    have "s' = s" using h write_fh_refused[OF c] unfolding q by (auto simp: fuse_write_def split: if_splits dest!: answers_state)
    then show ?thesis by simp
  next
    case False
    then show ?thesis using that a(2) by (cases q) auto
  qed
qed

lemma served_shut:
  "mounted s \<Longrightarrow> shut l s \<Longrightarrow> all_sendable qs s \<Longrightarrow> serve qs s = Some (rs, s') \<Longrightarrow>
    mounted s' \<and> (\<exists>l'. shut l' s') \<and> (\<forall>i. i \<notin> changed qs s \<longrightarrow> content s' i = content s i)"
proof (induction qs arbitrary: s l rs)
  case (Cons q qs)
  obtain r s1 rs1 where h: "handle q s = Some (r, s1)" "serve qs s1 = Some (rs1, s')" using Cons(5) by (auto simp: bind_eq_Some_conv)
  have q: "sendable q s" "all_sendable qs s1" using Cons(4) h(1) by simp_all
  note a = shut_answered[OF Cons(2,3) q(1) h(1)]
  obtain l' where l': "shut l' s1" using a(2) by blast
  from Cons.IH[OF a(1) l' q(2) h(2)] show ?case using a(3) h(1) by simp
qed auto

section \<open>Nothing acknowledged is lost\<close>

lemma fs_write_refused:
  assumes c: "closing (table s)" and d: "data \<noteq> []" and w: "fs_write s ino offset data now = Some (q, s')"
  shows "isl q \<and> tabs (db s') = tabs (db s)"
proof -
  have sl: "closing (table s1) \<and> tabs (db s1) = tabs (db s)" if "slot_for s ino = Some (r, s1)" for r s1
    using that c by (auto simp: slot_for_def bind_eq_Some_conv on_db_def inode_head_def split: option.splits prod.splits sum.splits dest!: query_frame)
  obtain r s1 where s1: "slot_for s ino = Some (r, s1)" using w d by (cases "slot_for s ino") (auto simp: fs_write_def)
  show ?thesis
  proof (cases r)
    case (Inl e)
    then show ?thesis using w d s1 sl[OF s1] by (auto simp: fs_write_def)
  next
    case (Inr slot)
    obtain t s2 where "write_slot s1 slot offset data now = Some (q, s2)" "s' = s2\<lparr>table := t\<rparr>"
      using w d s1 Inr by (auto simp: fs_write_def bind_eq_Some_conv)
    then show ?thesis using write_slot_refused[of s1 slot offset data now q s2] sl[OF s1] by simp
  qed
qed

text \<open>C9. Shutdown keeps every acknowledged write to a file that still has a name: the flush for shutdown
  always returns and records its result, and when it reports success the database holds of every file
  what its readers saw, except of a file unlinked while open, whose contents nobody can reach once its
  last handle is closed. It reports success unless SQLite fails. From then on no write is acknowledged:
  whatever requests are served after it, a write through any handle is refused and changes nothing, and
  so is a write by inode, which stores nothing.\<close>

theorem shutdown_keeps_writes:
  assumes "mounted s"
  shows "\<exists>r s'. flush_for_shutdown s = Some (r, s') \<and> mounted s' \<and> content s' = content s \<and>
    flush_failure s' = (case r of Inl e \<Rightarrow> Some e | Inr _ \<Rightarrow> None) \<and>
    (faults (db s) = [] \<longrightarrow> r = Inr ()) \<and>
    (r = Inr () \<longrightarrow> (\<forall>ino. \<not> unlinked_open s ino \<longrightarrow> file_bytes (tabs (db s')) ino = content s ino)) \<and>
    (\<forall>qs replies s2 offset data now q s3. all_sendable qs s' \<and> serve qs s' = Some (replies, s2) \<longrightarrow>
       (\<forall>fh. write_fh s2 fh offset data now = Some (q, s3) \<longrightarrow> isl q \<and> s3 = s2) \<and>
       (\<forall>ino. data \<noteq> [] \<and> fs_write s2 ino offset data now = Some (q, s3) \<longrightarrow> isl q \<and> tabs (db s3) = tabs (db s2)))"
proof -
  obtain r t where f: "flush_all (refuse_writes s) = Some (r, t)" "faults (db s) = [] \<longrightarrow> r = Inr ()"
    "r = Inr () \<longrightarrow> (\<forall>ino. \<not> unlinked_open s ino \<longrightarrow> file_bytes (tabs (db t)) ino = content s ino)"
    using flush_all_spec[OF mountedD(1)[OF refuse_mounted(1)[OF assms]]] refuse_mounted(2,3) by (auto simp: refuse_writes_def)
  let ?s' = "record_flush t r"
  have fl: "flush_for_shutdown s = Some (r, ?s')" using f(1) by (simp add: flush_for_shutdown_def)
  note sh = shutdown_shut[OF assms fl]
  have "closing (table s2)" if "all_sendable qs ?s'" "serve qs ?s' = Some (replies, s2)" for qs replies s2
    using served_shut[OF _ _ that] sh by (auto simp: shut_def)
  then have "\<forall>qs replies s2 offset data now q s3. all_sendable qs ?s' \<and> serve qs ?s' = Some (replies, s2) \<longrightarrow>
       (\<forall>fh. write_fh s2 fh offset data now = Some (q, s3) \<longrightarrow> isl q \<and> s3 = s2) \<and>
       (\<forall>ino. data \<noteq> [] \<and> fs_write s2 ino offset data now = Some (q, s3) \<longrightarrow> isl q \<and> tabs (db s3) = tabs (db s2))"
    using write_fh_refused fs_write_refused by blast
  moreover have "flush_failure ?s' = (case r of Inl e \<Rightarrow> Some e | Inr _ \<Rightarrow> None)" "db (record_flush t q) = db t" for q
    by (simp_all add: record_flush_def flush_failure_def)
  ultimately show ?thesis using fl sh f(2,3) by (intro exI[of _ r] exI[of _ ?s']) simp
qed

end
