(* ===== verification/Served_Examples.thy ===== *)
theory Served_Examples
  imports Closing Directory_Examples
begin

text \<open>
  The mount of the database of \<open>Directory_Examples\<close>, and the applications of the theorems on requests to it.
\<close>

lemma grown_data: "data_ok (tabs grown_db)" "file_bytes (tabs grown_db) 3 = Some []"
proof -
  have "tbl_ok (t_inodes (tabs grown_db))" by (simp add: grown tbl_ok_def)
  then show "data_ok (tabs grown_db)" by (auto simp: data_ok_def grown inode_row_ok_def dir_row_def leaf_row_def row_size_def u64_of_i64_def tbl_ok_def split: if_splits)
  show "file_bytes (tabs grown_db) 3 = Some []" by (simp add: file_bytes_def inode_row_of_def grown leaf_row_def row_size_def u64_of_i64_def)
qed

lemma grown_mounted: "mounted grown_mount" "openable grown_mount" "content grown_mount 3 = Some []" "db grown_mount = grown_db"
    "\<not> closing (table grown_mount)"
proof -
  show "mounted grown_mount" unfolding grown_mount_def by (rule fresh_mounted[OF grown_data(1) grown_names visits_all_id]) simp
  show "openable grown_mount" "content grown_mount 3 = Some []" "db grown_mount = grown_db" "\<not> closing (table grown_mount)"
    using mounted_ok[OF grown_data(1) visits_all_id, of 65536] grown_data(2) by (simp_all add: grown_mount_def)
qed

theorem request_answered_witness:
  "\<exists>reply s'. handle (Q_Mkdir 1 [104] 493 0 0 0 0) grown_mount = Some (reply, s') \<and> mounted s' \<and> content s' = content grown_mount"
  using request_answered[OF grown_mounted(1), of "Q_Mkdir 1 [104] 493 0 0 0 0"] by (auto simp: fun_eq_iff simp del: handle.simps)

theorem session_answered_witness:
  "\<exists>replies s'. serve [Q_Open 3, Q_Write 0 0 [7, 8] 0, Q_Unlink 2 [102] 0, Q_Release 0] grown_mount = Some (replies, s') \<and>
     length replies = 4 \<and> mounted s'"
proof -
  have "all_sendable [Q_Open 3, Q_Write 0 0 [7, 8] 0, Q_Unlink 2 [102] 0, Q_Release 0] grown_mount"
    using grown_mounted(2,4) grown_kinds(3) by (simp add: in_i64_def i64_MIN_def i64_MAX_def del: handle.simps split: option.split)
  from session_answered[OF grown_data(1) grown_names visits_all_id, of 65536, folded grown_mount_def, OF _ this]
  obtain replies s' where "serve [Q_Open 3, Q_Write 0 0 [7, 8] 0, Q_Unlink 2 [102] 0, Q_Release 0] grown_mount = Some (replies, s')"
    "length replies = 4" "mounted s'" by (auto simp del: serve.simps)
  then show ?thesis by blast
qed

lemma quiet_named:
  assumes m: "mounted s" and h: "handle_ino s fh = Some ino" and q: "quiet s s1" and m1: "mounted s1" and u: "\<not> unlinked_open s ino"
  shows "\<not> unlinked_open s1 ino"
proof -
  have iok: "inodes_ok (inodes (table s))" "inodes_ok (inodes (table s1))" using m m1 by (simp_all add: mounted_def running_def buffers_ok_def)
  obtain w where w: "inodes_find (inodes (table s)) ino = Some w" "refs_of (inodes (table s)) w \<noteq> 0"
    using handle_open[OF m h] by (auto simp: open_now_def)
  have "w \<in> live (inodes (table s1))" "ino_of (inodes (table s1)) w = ino" "gone_of (inodes (table s1)) w = gone_of (inodes (table s)) w"
    using q w(2) find_live[OF iok(1) w(1)] by (auto simp: quiet_def keeps_def)
  then show ?thesis using u w(1) live_find[OF iok(2)] by (auto simp: unlinked_open_def)
qed

text \<open>The file opened and two bytes written to it, not yet flushed.\<close>

lemma held_file:
  obtains s fh where "mounted s" "handle_ino s fh = Some 3" "content s 3 = Some [7, 8]" "faults (db s) = []" "\<not> unlinked_open s 3"
proof -
  have "\<exists>s. fs_open grown_mount 3 = Some (Inr 0, s) \<and> faults (db s) = [] \<and> \<not> closing (table s) \<and> handle_ino s 0 = Some 3 \<and>
      \<not> unlinked_open s 3"
    by (simp add: fs_open_def slot_for_def grown_mount_def with_write_buffer_def table_new_def inodes_default_def inodes_find_def
        on_db_def inode_head_def query_def pop_fault_def grown leaf_row_def
        kind_from_i64_def inodes_insert_def open_slot_def handles_alloc_def handles_default_def Let_def
        handles_get_def handle_ino_def idx_def NO_SLOT_def map_insert_def unlinked_open_def)
  then obtain s where o: "fs_open grown_mount 3 = Some (Inr 0, s)" and fs: "faults (db s) = []" "\<not> closing (table s)" and fh: "handle_ino s 0 = Some 3"
    and u: "\<not> unlinked_open s 3"
    by blast
  have ms: "mounted s" and c: "content s 3 = Some []"
    using open_answered[OF grown_mounted(1,2), of 3 "{}"] grown_kinds(3) grown_mounted(3,4) o(1) by (simp_all add: answered_def)
  obtain q s1 where w: "write_fh s 0 0 [7, 8] 0 = Some (q, s1)" "quiet s s1" "written s 3 0 [7, 8] [] q s1"
    using write_fh_spec[OF mountedD(1)[OF ms] fh c, of 0 "[7, 8]" 0] by auto
  have "mounted s1" using write_fh_answered[OF ms, of 0 "[7, 8]" 0 0] w(1) by (simp add: answered_def)
  moreover have "handle_ino s1 0 = Some 3" using quiet_handles[OF mountedD(1)[OF ms] w(2)] fh by simp
  moreover have "content s1 3 = Some [7, 8]" using w(3) fs by (auto simp: written_def pwrite_def write_at_def max_size_def CHUNK_SIZE_def split: sum.splits)
  moreover have "faults (db s1) = []" using w(2) fs(1) by (simp add: quiet_def)
  moreover have "\<not> unlinked_open s1 3" by (rule quiet_named[OF ms fh w(2) \<open>mounted s1\<close> u])
  ultimately show thesis by (rule that)
qed

theorem open_file_outlives_name_witness:
  "\<exists>s fh reply s'. mounted s \<and> content s 3 = Some [7, 8] \<and> handle (Q_Unlink 2 [102] 0) s = Some (reply, s') \<and>
     handle_ino s' fh = Some 3 \<and> content s' 3 = Some [7, 8]"
proof -
  obtain s fh where s: "mounted s" "handle_ino s fh = Some 3" "content s 3 = Some [7, 8]" using held_file by metis
  obtain reply s' where r: "handle (Q_Unlink 2 [102] 0) s = Some (reply, s')"
    using request_served[OF s(1), of "Q_Unlink 2 [102] 0"] by (auto simp: answered_def simp del: handle.simps)
  with open_file_outlives_name[OF s r] s show ?thesis by blast
qed

theorem shutdown_keeps_writes_witness:
  "\<exists>s fh s' e. mounted s \<and> handle_ino s fh = Some 3 \<and> flush_for_shutdown s = Some (Inr (), s') \<and>
     file_bytes (tabs (db s')) 3 = Some [7, 8] \<and> write_fh s' fh 0 [9] 0 = Some (Inl e, s')"
proof -
  obtain s fh where s: "mounted s" "handle_ino s fh = Some 3" "content s 3 = Some [7, 8]" "faults (db s) = []" "\<not> unlinked_open s 3"
    by (rule held_file)
  obtain s' where f: "flush_for_shutdown s = Some (Inr (), s')" "mounted s'" "file_bytes (tabs (db s')) 3 = Some [7, 8]"
    and refused: "\<forall>qs replies s2 offset data now q s3. all_sendable qs s' \<and> serve qs s' = Some (replies, s2) \<longrightarrow>
       (\<forall>fh. write_fh s2 fh offset data now = Some (q, s3) \<longrightarrow> isl q \<and> s3 = s2)"
    using shutdown_keeps_writes[OF s(1)] s(3-5) by metis
  obtain q s3 where w: "write_fh s' fh 0 [9] 0 = Some (q, s3)"
    using write_fh_answered[OF f(2), of 0 "[9]" fh 0] by (auto simp: answered_def)
  have "isl q \<and> s3 = s'" using refused[rule_format, of "[]" "[]" s'] w by simp
  then show ?thesis using s(1,2) f(1,3) w by (cases q) auto
qed

end
