(* ===== verification/Mount_Proofs.thy ===== *)
theory Mount_Proofs
  imports Mounting Served_Examples
begin

text \<open>
  What mounting promises: the option list keeps the kernel's permission checks on and never widens
  access unasked, and a clean exit means that every acknowledged write is stored, requests served during
  the shutdown included.
\<close>

section \<open>Options\<close>

text \<open>An option that a token or a flag can ask for.\<close>

fun option_ok :: "MountOption \<Rightarrow> bool" where
  "option_ok (CUSTOM t) = (\<not> str_contains t (lit ''default_permissions''))"
| "option_ok _ = True"

lemma parse_option_ok: "parse_option raw = Inr x \<Longrightarrow> option_ok x"
proof -
  assume p: "parse_option raw = Inr x"
  show ?thesis
  proof (cases x)
    case (CUSTOM t)
    then have "t = trim raw \<and> \<not> (str_contains (trim raw) (lit ''default_permissions'') \<and> trim raw \<noteq> lit ''default_permissions'') \<and>
        trim raw \<noteq> lit ''default_permissions''"
      using p unfolding parse_option_def Let_def by (auto split: if_splits option.splits)
    then show ?thesis using CUSTOM by auto
  qed simp_all
qed

lemma parse_tokens_ok: "parse_tokens ts = Inr xs \<Longrightarrow> x \<in> set xs \<Longrightarrow> option_ok x"
  by (induction ts arbitrary: xs) (auto split: sum.splits dest: parse_option_ok)

lemma requested_ok: "requested_options config = Inr xs \<Longrightarrow> x \<in> set xs \<Longrightarrow> option_ok x"
  by (auto simp: requested_options_def Let_def split: sum.splits if_splits dest: parse_tokens_ok)

text \<open>What the loop keeps of the list: no option twice, one name, at most one subtype, the permission
  checks.\<close>

definition list_ok :: "MountOption list \<Rightarrow> bool" where
  "list_ok xs \<longleftrightarrow> distinct xs \<and> DefaultPermissions \<in> set xs \<and> length (filter is_fsname xs) = 1 \<and>
     length (filter is_subtype xs) \<le> 1 \<and> (\<forall>x \<in> set xs. option_ok x)"

lemma is_fsname_iff: "is_fsname x \<longleftrightarrow> (\<exists>n. x = FSName n)" "is_subtype x \<longleftrightarrow> (\<exists>n. x = Subtype n)"
  by (cases x; simp)+

lemma add_option_cases:
  "add_option xs x = (if is_fsname x then filter (\<lambda>e. \<not> is_fsname e) xs @ [x]
     else if is_subtype x then filter (\<lambda>e. \<not> is_subtype e) xs @ [x]
     else if x \<in> set xs then xs else xs @ [x])"
  by (cases x) simp_all

lemma filter_other: "(\<And>e. P e \<Longrightarrow> \<not> Q e) \<Longrightarrow> filter (\<lambda>x. \<not> Q x \<and> P x) xs = filter P xs"
  by (rule filter_cong) auto

lemma fsname_not_subtype: "is_fsname e \<Longrightarrow> \<not> is_subtype e" "is_subtype e \<Longrightarrow> \<not> is_fsname e"
  by (cases e; simp)+

lemma add_option_ok: "list_ok xs \<Longrightarrow> option_ok x \<Longrightarrow> list_ok (add_option xs x)"
proof -
  assume l: "list_ok xs" and x: "option_ok x"
  consider "is_fsname x" | "is_subtype x" | "\<not> is_fsname x" "\<not> is_subtype x" by blast
  then show ?thesis
  proof cases
    case 1
    then show ?thesis using l x fsname_not_subtype
      by (auto simp: add_option_cases list_ok_def filter_other)
  next
    case 2
    then show ?thesis using l x fsname_not_subtype
      by (auto simp: add_option_cases list_ok_def filter_other)
  next
    case 3
    then show ?thesis using l x by (simp add: add_option_cases list_ok_def)
  qed
qed

lemma add_option_keeps: "y \<in> set xs \<Longrightarrow> \<not> is_fsname y \<Longrightarrow> \<not> is_subtype y \<Longrightarrow> y \<in> set (add_option xs x)"
  by (simp add: add_option_cases)

lemma add_option_adds: "x \<in> set (add_option xs x)"
  by (simp add: add_option_cases)

lemma foldl_option_ok: "list_ok xs \<Longrightarrow> \<forall>x \<in> set ys. option_ok x \<Longrightarrow> list_ok (foldl add_option xs ys)"
  by (induction ys arbitrary: xs) (simp_all add: add_option_ok)

lemma foldl_option_keeps: "y \<in> set xs \<Longrightarrow> \<not> is_fsname y \<Longrightarrow> \<not> is_subtype y \<Longrightarrow> y \<in> set (foldl add_option xs ys)"
  by (induction ys arbitrary: xs) (simp_all add: add_option_keeps)

lemma foldl_option_adds: "y \<in> set ys \<Longrightarrow> \<not> is_fsname y \<Longrightarrow> \<not> is_subtype y \<Longrightarrow> y \<in> set (foldl add_option xs ys)"
  by (induction ys arbitrary: xs) (auto simp: add_option_adds intro: foldl_option_keeps)

lemma add_option_new: "y \<in> set (add_option xs x) \<Longrightarrow> y \<in> set xs \<or> y = x"
  by (auto simp: add_option_cases split: if_splits)

lemma foldl_option_new: "y \<in> set (foldl add_option xs ys) \<Longrightarrow> y \<in> set xs \<or> y \<in> set ys"
  by (induction ys arbitrary: xs) (auto dest: add_option_new)

lemma mount_options_ok: "list_ok mount_options"
  by (simp add: list_ok_def mount_options_def)

text \<open>C23. Whatever the command line asks, an accepted option list keeps the kernel's permission
  checks, has no option that would turn them off, never grants access to both root and everyone,
  unmounts automatically only when wider access was asked for, names the filesystem once, grants
  wider access only when asked, and has every other option asked for.\<close>

theorem mount_options_safe:
  assumes "mount_options_for config = Inr options" "requested_options config = Inr requested"
  shows "DefaultPermissions \<in> set options \<and> (\<forall>t. CUSTOM t \<in> set options \<longrightarrow> \<not> str_contains t (lit ''default_permissions'')) \<and>
    \<not> (AllowOther \<in> set options \<and> AllowRoot \<in> set options) \<and>
    (AutoUnmount \<in> set options \<longrightarrow> AllowOther \<in> set options \<or> AllowRoot \<in> set options) \<and>
    distinct options \<and> length (filter is_fsname options) = 1 \<and> length (filter is_subtype options) \<le> 1 \<and>
    (\<forall>x \<in> set options. x \<in> set mount_options \<or> x \<in> set requested) \<and>
    (\<forall>x \<in> set requested. \<not> is_fsname x \<and> \<not> is_subtype x \<longrightarrow> x \<in> set options)"
proof -
  have o: "options = foldl add_option mount_options requested"
    and c: "\<not> (AllowOther \<in> set options \<and> AllowRoot \<in> set options)"
      "AutoUnmount \<in> set options \<longrightarrow> AllowOther \<in> set options \<or> AllowRoot \<in> set options"
    using assms by (auto simp: mount_options_for_def Let_def split: if_splits)
  have l: "list_ok options" unfolding o using requested_ok[OF assms(2)] by (intro foldl_option_ok mount_options_ok) blast
  have "\<not> str_contains t (lit ''default_permissions'')" if "CUSTOM t \<in> set options" for t
    using l that unfolding list_ok_def by (metis option_ok.simps(1))
  moreover have "x \<in> set mount_options \<or> x \<in> set requested" if "x \<in> set options" for x
    using that unfolding o by (rule foldl_option_new)
  moreover have "x \<in> set options" if "x \<in> set requested" "\<not> is_fsname x" "\<not> is_subtype x" for x
    unfolding o using that by (rule foldl_option_adds)
  ultimately show ?thesis using l c unfolding list_ok_def by blast
qed

definition docker_config :: MountConfig where
  "docker_config = \<lparr>allow_other = True, allow_root = False, auto_unmount = True, extra = [lit ''ro, fsname=x''],
     write_buffer = None, kernel_cache_flag = False\<rparr>"

lemma docker_tokens: "concat (map (str_split 44) (extra docker_config)) = [lit ''ro'', lit '' fsname=x'']"
  by (simp add: docker_config_def lit_def)

lemma docker_parsed: "parse_option (lit ''ro'') = Inr RO" "parse_option (lit '' fsname=x'') = Inr (FSName (lit ''x''))"
  by (simp_all add: parse_option_def lit_def trim_def trim_end_def trim_start_def is_whitespace_def)

lemma docker_options: "requested_options docker_config = Inr [AllowOther, AutoUnmount, RO, FSName (lit ''x'')]"
  "mount_options_for docker_config = Inr [DefaultPermissions, AllowOther, AutoUnmount, RO, FSName (lit ''x'')]"
  unfolding mount_options_for_def requested_options_def docker_tokens
  by (simp_all add: docker_parsed mount_options_def) (simp_all add: docker_config_def)

theorem mount_options_safe_witness:
  "mount_options_for docker_config = Inr [DefaultPermissions, AllowOther, AutoUnmount, RO, FSName (lit ''x'')] \<and>
   DefaultPermissions \<in> set [DefaultPermissions, AllowOther, AutoUnmount, RO, FSName (lit ''x'')]"
  using mount_options_safe[OF docker_options(2,1)] docker_options(2) by blast

section \<open>Leaving\<close>

text \<open>C22. When \<open>mount_dbfs\<close> returns success, the database holds of every file what its readers last saw,
  except of files unlinked while open. The session served the requests \<open>before\<close> on the mount and left the
  state \<open>s\<close>. After a signal the flush for shutdown ran on \<open>s\<close>, and the session went on with any requests
  \<open>later\<close>, writes and \<^verbatim>\<open>destroy\<close> among them or not, until its last result was read; every file that none of
  these removes, resizes or creates reads as in \<open>s\<close>, a file that is only written to included, since the
  writes are refused. After an unmount \<^verbatim>\<open>destroy\<close> ran on \<open>s\<close> and ended the session.\<close>

theorem clean_exit_stored:
  assumes "mounted fs" and "all_sendable before fs" and "serve before fs = Some (replies, s)"
    and "case first_event env of
        Some Shutdown \<Rightarrow> served env fs = s \<and> (\<forall>r t. flush_for_shutdown s = Some (r, t) \<longrightarrow>
          all_sendable later t \<and> (\<exists>replies'. serve later t = Some (replies', finished env t)))
      | _ \<Rightarrow> later = [] \<and> destroy s = Some (served env fs) \<and> finished env (served env fs) = served env fs"
    and "mount_dbfs env euid fs options = Some (Inr (), s')"
  shows "(\<forall>ino. \<not> unlinked_open s' ino \<longrightarrow> file_bytes (tabs (db s')) ino = content s' ino) \<and>
    (\<forall>ino. (\<forall>r t. flush_for_shutdown s = Some (r, t) \<longrightarrow> ino \<notin> changed later t) \<longrightarrow> content s' ino = content s ino)"
proof -
  have m: "mounted s" using served_session[OF assms(1,2)] assms(3) by auto
  have "mounted s' \<and> rests (inodes (table s')) \<and>
    (\<forall>ino. (\<forall>r t. flush_for_shutdown s = Some (r, t) \<longrightarrow> ino \<notin> changed later t) \<longrightarrow> content s' ino = content s ino)"
  proof (cases "first_event env")
    case None
    then show ?thesis using assms(5) by (simp add: mount_dbfs_def split: sum.splits)
  next
    case (Some e)
    show ?thesis
    proof (cases e)
      case Shutdown
      then obtain r t where t: "flush_for_shutdown s = Some (r, t)" "s' = finished env t" "flush_failure s' = None"
        using assms(4,5) Some by (cases "await_session (later_events env)")
          (auto simp: mount_dbfs_def shut_down_def bind_eq_Some_conv Let_def split: sum.splits option.splits)
      then obtain replies' where l: "all_sendable later t" "serve later t = Some (replies', s')"
        using assms(4) Some Shutdown by auto
      have sh: "mounted t" "content t = content s" "shut r t" using shutdown_shut[OF m t(1)] by simp_all
      from served_shut[OF sh(1,3) l] obtain l' where s': "mounted s'" "shut l' s'" "\<forall>i. i \<notin> changed later t \<longrightarrow> content s' i = content t i"
        by blast
      have "rests (inodes (table s'))" using s'(2) t(3) by (auto simp: shut_def flush_failure_def split: sum.splits)
      then show ?thesis using s' sh(2) t(1) by auto
    next
      case (SessionEnded x)
      then have "destroy s = Some s'" "flush_failure s' = None"
        using assms(4,5) Some by (auto simp: mount_dbfs_def Let_def split: sum.splits option.splits)
      then show ?thesis using destroy_rests[OF m, of s'] by (auto simp: flush_failure_def split: sum.splits)
    qed
  qed
  then show ?thesis using rests_stored by blast
qed

lemma record_flush_table: "unlinked_open (record_flush u q) = unlinked_open u"
  by (simp add: unlinked_open_def record_flush_def fun_eq_iff)

text \<open>A signal while a file has buffered data; then a write through its handle and \<^verbatim>\<open>destroy\<close>.\<close>

definition signalled :: "u64 \<Rightarrow> mount_run" where
  "signalled fh = \<lparr>session_new = Inr (), block_signals = Inr (), spawn_waiter = Inr (), spawn_session = Inr (),
     first_event = Some Shutdown, unmounted = Inr (), later_events = [Shutdown], served = (\<lambda>s. s),
     finished = (\<lambda>t. case serve [Q_Write fh 0 [9] 0, Q_Destroy] t of Some (_, s) \<Rightarrow> s | None \<Rightarrow> t)\<rparr>"

theorem clean_exit_stored_witness:
  "\<exists>s fh s'. mounted s \<and> mount_dbfs (signalled fh) 1000 s mount_options = Some (Inr (), s') \<and> file_bytes (tabs (db s')) 3 = Some [7, 8]"
proof -
  obtain s fh where s: "mounted s" "handle_ino s fh = Some 3" "content s 3 = Some [7, 8]" "faults (db s) = []" "\<not> unlinked_open s 3"
    by (rule held_file)
  let ?later = "[Q_Write fh 0 [9] 0, Q_Destroy]"
  obtain r t0 where f: "flush_all (refuse_writes s) = Some (r, t0)" "quiet (refuse_writes s) t0" "\<forall>i. unlinked_open t0 i \<longrightarrow> unlinked_open s i"
    using flush_all_spec[OF mountedD(1)[OF refuse_mounted(1)[OF s(1)]]] by (auto simp: refuse_mounted)
  define t where "t = record_flush t0 r"
  have t: "flush_for_shutdown s = Some (r, t)" using f(1) by (simp add: flush_for_shutdown_def t_def)
  note sh = shutdown_shut[OF s(1) t]
  have tf: "faults (db t) = []" "\<forall>i. unlinked_open t i \<longrightarrow> unlinked_open s i" "closing (table t)"
    using f(2,3) s(4) by (auto simp: t_def record_flush_def quiet_def refuse_writes_def unlinked_open_def)
  obtain e where w: "write_fh t fh 0 [9] 0 = Some (Inl e, t)"
    using write_fh_answered[of t 0 "[9]" fh 0] sh write_fh_refused[OF tf(3), of fh 0 "[9]" 0] by (fastforce simp: answered_def isl_def)
  obtain u where u: "flush_all t = Some (Inr (), u)" "\<forall>i. unlinked_open u i \<longrightarrow> unlinked_open t i"
    using flush_all_spec[of t] sh mountedD(1)[of t] tf(1) by auto
  have h: "handle (Q_Write fh 0 [9] 0) t = Some (R_Error e, t)" "handle Q_Destroy t = Some (R_Done, record_flush u (Inr ()))"
    using w u(1) by (simp_all add: fuse_write_def answers_def answer_def destroy_def u64_of_i64_def)
  have l: "all_sendable ?later t" "serve ?later t = Some ([R_Error e, R_Done], record_flush u (Inr ()))"
    using h by (simp_all add: in_i64_def i64_MIN_def i64_MAX_def del: handle.simps)
  let ?s' = "record_flush u (Inr ())"
  have md: "mount_dbfs (signalled fh) 1000 s mount_options = Some (Inr (), ?s')"
    using t l(2) by (simp add: mount_dbfs_def signalled_def shut_down_def flush_failure_def record_flush_def del: serve.simps)
  have "(\<forall>ino. \<not> unlinked_open ?s' ino \<longrightarrow> file_bytes (tabs (db ?s')) ino = content ?s' ino) \<and>
      (\<forall>ino. (\<forall>r t. flush_for_shutdown s = Some (r, t) \<longrightarrow> ino \<notin> changed ?later t) \<longrightarrow> content ?s' ino = content s ino)"
    by (rule clean_exit_stored[OF s(1) _ _ _ md, of "[]" "[]" s ?later])
      (use t l in \<open>simp_all add: signalled_def del: serve.simps(2)\<close>)
  moreover have "3 \<notin> changed ?later t" using h by (simp del: handle.simps)
  moreover have "\<not> unlinked_open ?s' 3" using s(5) tf(2) u(2) by (metis record_flush_table)
  ultimately have "file_bytes (tabs (db ?s')) 3 = Some [7, 8]" using t s(3) by auto
  then show ?thesis using s(1) md by blast
qed

end
