(* ===== verification/Served_Links.thy ===== *)
theory Served_Links
  imports Served
begin

text \<open>
  Link counts of a mounted file system: every request keeps them exact, so a file that has another name
  keeps its contents when one of its names is removed.
\<close>

section \<open>What a request leaves in the database\<close>

definition counted :: "Db \<Rightarrow> bool" where
  "counted d \<longleftrightarrow> names_ok d \<and> links_ok (tabs d)"

lemma same_counted: "counted d \<Longrightarrow> same_rows d d' \<Longrightarrow> counted d'"
  using same_names[of d d'] by (simp add: counted_def same_rows_def)

text \<open>Every storage call that fits.\<close>

lemma call_counted:
  assumes "counted d" "fits c (tabs d)" "run_call c d = Some (r, d')"
  shows "counted d'"
  using assms call_names[of d c r d'] call_links[of d c r d'] fits_spares_root[of d c] by (simp add: counted_def)

text \<open>Buffers keep the counts: flushing replaces chunks, and neither that nor a change of size touches
  a name.\<close>

interpretation links: stored counted
proof
  fix d ino sz chunks now assume "counted d"
  then show "counted (snd (replace_chunks d ino sz chunks now))"
    using call_counted[of d "ReplaceChunks ino sz chunks now"] by (cases "replace_chunks d ino sz chunks now") simp
next
  fix d ino sz now assume "counted d"
  then show "counted (snd (truncate_file d ino sz now))"
    using call_counted[of d "Truncate ino sz now"] by (cases "truncate_file d ino sz now") simp
qed (rule same_counted)

abbreviation leaves :: "(Db \<Rightarrow> bool) \<Rightarrow> ('r \<times> Shared) option \<Rightarrow> bool" where
  "leaves I \<equiv> ends (\<lambda>s. I (db s))"

lemma leaves_steps: "steps I s m \<Longrightarrow> I (db s) \<Longrightarrow> leaves I m"
  by (erule ends_steps) (simp add: kept_by_def)

lemma leaves_on_db: "I (snd (f (db s))) \<Longrightarrow> leaves I (Some (on_db s f))"
  by (auto simp: on_db_def split: prod.splits sum.splits)

lemma query_counted:
  assumes "counted (db s)" "\<And>r d. f (db s) = (r, d) \<Longrightarrow> same_rows (db s) d"
  shows "leaves counted (Some (on_db s f))"
  using assms by (intro leaves_on_db) (cases "f (db s)", auto intro: same_counted)

lemma call_on_db:
  assumes "counted (db s)" "fits c (tabs (db s))" "run_call c (db s) = Some (no_value (f (db s)))"
  shows "leaves counted (Some (on_db s f))"
  using call_counted[OF assms(1,2)] assms(3) by (intro leaves_on_db) (cases "no_value (f (db s))", simp, metis no_value_snd snd_conv)

section \<open>Requests\<close>

lemma getattr_counted: "counted (db s) \<Longrightarrow> leaves counted (getattr s ino)"
  unfolding getattr_def with_overlay_def get_inode_def
  by (intro ends_then ends_bind query_counted) (auto dest: same_query)

lemma lookup_counted: "counted (db s) \<Longrightarrow> leaves counted (fs_lookup s p n)"
  unfolding fs_lookup_def with_overlay_def by (intro ends_then ends_bind query_counted) (auto dest: same_lookup)

lemma statfs_counted: "counted (db s) \<Longrightarrow> leaves counted (statfs pragmas s)"
  unfolding statfs_def by (rule ends_then[OF query_counted]) (simp_all add: same_usage Let_def)

lemma xattr_counted:
  assumes "counted (db s)"
  shows "leaves counted (getxattr s ino n)" "leaves counted (listxattr s ino)" "leaves counted (setxattr s ino n)"
    "leaves counted (removexattr s ino n)"
  unfolding getxattr_def listxattr_def setxattr_def removexattr_def by (rule ends_then[OF getattr_counted[OF assms]]; simp)+

lemma open_counted:
  assumes "counted (db s)"
  shows "leaves counted (fs_open s ino)"
proof -
  obtain r d where h: "inode_head (db s) ino = (r, d)" by fastforce
  have "counted d" using same_counted[OF assms same_query[OF h[unfolded inode_head_def]]] .
  then have "leaves counted (slot_for s ino)" unfolding slot_for_def on_db_def using assms h
    by (cases r) (auto simp: bind_eq_Some_conv ends_def split: option.splits)
  then show ?thesis unfolding fs_open_def by (intro ends_then ends_bind) (auto simp: ends_def split: prod.splits)
qed

lemma read_counted:
  assumes m: "mounted s" and c: "counted (db s)"
  shows "leaves counted (read_fh s fh offset n)"
proof (cases "handle_ino s fh")
  case None
  then show ?thesis using c by (simp add: read_fh_def no_handle)
next
  case (Some ino)
  obtain w c' where w: "handles_get (handles (table s)) fh = Some w" "content s ino = Some c'" by (rule handle_content[OF m Some])
  have run: "running {} s" by (rule mountedD[OF m])
  obtain r d' where r: "read_slot s w offset n = Some (r, s\<lparr>db := d'\<rparr>)" "tabs d' = tabs (db s)" "new_rowid d' = new_rowid (db s)"
    using read_slot_spec[OF run handle_live[OF run w(1)], of c' offset n] w Some by (auto simp: handle_ino_def)
  then show ?thesis using same_counted[OF c, of d'] w(1) by (simp add: read_fh_def same_rows_def)
qed

lemma write_counted: "counted (db s) \<Longrightarrow> leaves counted (write_fh s fh offset data now)"
  by (rule leaves_steps) (simp_all add: write_fh_def links.write_slot_steps split: option.split)

lemma flush_counted: "counted (db s) \<Longrightarrow> leaves counted (flush_fh s fh)"
  by (rule leaves_steps) (simp_all add: flush_fh_def links.flush_slot_steps split: option.split)

lemma sync_counted: "counted (db s) \<Longrightarrow> leaves counted (sync_fh s fh)"
  unfolding sync_fh_def by (rule ends_then[OF flush_counted]) (auto intro!: query_counted same_sync)

lemma truncate_counted: "counted (db s) \<Longrightarrow> leaves counted (truncate_locked s ino sz now)"
  by (rule leaves_steps[OF links.truncate_steps])

lemma setattr_counted: "counted (db s) \<Longrightarrow> leaves counted (setattr s ino mode uid gid sz atime mtime now1 now2)"
  unfolding setattr_def
proof (intro ends_then)
  assume c: "counted (db s)"
  then show "leaves counted (case inodes_find (inodes (table s)) ino of None \<Rightarrow> Some (Inr (), s)
     | Some slot \<Rightarrow> try_then (flush_slot s slot Persist) (\<lambda>_ s. do { t \<leftarrow> free_if_idle (table s) slot; Some (Inr (), s\<lparr>table := t\<rparr>) }))"
    by (simp add: leaves_steps[OF links.flush_free_steps] split: option.split)
next
  fix s1 :: Shared assume "counted (db s1)"
  then show "leaves counted (case sz of None \<Rightarrow> Some (Inr (), s1) | Some sz \<Rightarrow> truncate_locked s1 ino sz now1)"
    by (simp add: truncate_counted split: option.split)
next
  fix s2 :: Shared assume c: "counted (db s2)"
  let ?u = "\<lparr>mu_mode = mode, mu_uid = uid, mu_gid = gid, mu_atime = map_option from_system_time atime, mu_mtime = map_option from_system_time mtime\<rparr>"
  show "leaves counted (Some (to_attr (on_db s2 (\<lambda>d. update_metadata d ino ?u now2))))"
    using call_on_db[OF c, of "Metadata ino ?u now2" "\<lambda>d. update_metadata d ino ?u now2"] by simp
qed

lemma fallocate_counted:
  assumes c: "counted (db s)"
  shows "leaves counted (fallocate s ino offset len mode now)"
proof -
  have "leaves counted (case inodes_find (inodes (table s1)) ino of
       Some slot \<Rightarrow> do { sz \<leftarrow> idx (oi_size (inodes (table s1))) (unat slot); Some (Inr sz, s1) }
     | None \<Rightarrow> Some (and_then (on_db s1 (\<lambda>d. inode_head d ino)) (\<lambda>(_, sz) s. (Inr sz, s))))" if "counted (db s1)" for s1
  proof -
    obtain r d where h: "inode_head (db s1) ino = (r, d)" by fastforce
    then show ?thesis using that same_counted[OF that same_query[OF h[unfolded inode_head_def]]]
      by (cases r) (auto simp: on_db_def intro: ends_bind split: option.split)
  qed
  moreover have "leaves counted (Some (on_db s (\<lambda>d. inode_kind_of d ino)))" by (rule query_counted[OF c same_kind_of])
  ultimately show ?thesis unfolding fallocate_def Let_def using c by (auto intro!: ends_then truncate_counted)
qed

text \<open>The inode that is deleted when its last handle is closed is a file.\<close>

lemma release_counted:
  assumes m: "mounted s" and c: "counted (db s)"
  shows "leaves counted (release_fh s fh)"
proof (cases "handles_get (handles (table s)) fh")
  case (Some w)
  let ?ino = "ino_of (inodes (table s)) w"
  have run: "running {} s" and iok: "inodes_ok (inodes (table s))" using m by (simp_all add: mounted_def running_def buffers_ok_def)
  note lw = handle_live[OF run Some]
  have "kinds (tabs (db s)) (i64_of_u64 ?ino) \<noteq> Some DIR" using mounted_slot(3)[OF m live_find[OF iok lw]] by simp
  then have gone: "leaves counted (Some (on_db (s\<lparr>table := t\<rparr>) (\<lambda>d. delete_inode d ?ino)))" for t
    using call_counted[of "db s" "DeleteInode ?ino"] c by (intro leaves_on_db) (cases "delete_inode (db s) ?ino", simp)
  have flush: "leaves counted (try_then (flush_slot (s\<lparr>table := t\<rparr>) w Skip) (\<lambda>_ s. do { t \<leftarrow> free_if_idle (table s) w; Some (Inr (), s\<lparr>table := t\<rparr>) }))" for t
    by (rule leaves_steps[OF links.flush_free_steps]) (simp add: c)
  show ?thesis using Some live_columns(1)[OF iok lw] gone flush unfolding release_fh_def handles_release_def Let_def
    by (simp, intro ends_bind) (auto intro!: ends_bind)
qed (use c in \<open>simp add: release_fh_def handles_release_def\<close>)

lemma node_counted: "counted (db s) \<Longrightarrow> leaves counted (Some (on_db s (\<lambda>d. create_node d p n node uid gid now)))"
  by (rule call_on_db[of s "Create p n node uid gid now"]) simp_all

lemma create_counted: "counted (db s) \<Longrightarrow> leaves counted (Some (create s p n mode um uid gid now))"
  using node_counted by (simp add: create_def create_file_def)

lemma create_open_counted: "counted (db s) \<Longrightarrow> leaves counted (create_open s p n mode um uid gid now)"
  unfolding create_open_def by (intro ends_then[OF create_counted] ends_bind) (auto intro!: ends_bind split: prod.split)

lemma readdir_counted:
  assumes c: "counted (db s)"
  shows "leaves counted (Some (answer f (fuse_readdir add buffer s ino offset)))"
proof -
  obtain d where "same_rows (db s) d" "snd (fuse_readdir add buffer s ino offset) = s\<lparr>db := d\<rparr>" using readdir_db[of s add buffer ino offset] by blast
  then show ?thesis using same_counted[OF c] by (cases "fuse_readdir add buffer s ino offset") simp
qed

lemma destroy_counted: "counted (db s) \<Longrightarrow> leaves counted (map_option (\<lambda>s. (R_Done, s)) (destroy s))"
  using leaves_steps[OF links.flush_all_steps, of s]
  by (cases "flush_all s") (auto simp: destroy_def record_flush_def)

lemma unlink_counted:
  assumes c: "counted (db s)" and few: "few_names (tabs (db s))"
  shows "leaves counted (unlink s p n now)"
proof -
  obtain r d1 where l: "lookup (db s) p n = (r, d1)" by fastforce
  have d1: "counted d1" by (rule same_counted[OF c same_lookup[OF l]])
  have "counted d2" if "r = Inr target" "unlink_entry d1 p n target op now = (x, d2)" for target op x d2
    using call_counted[OF c, of "Unlink p n op now"] few l that by simp
  then show ?thesis using l d1 unfolding unlink_def
    by (cases r) (auto simp: on_db_def intro!: ends_bind ends_then split: prod.splits sum.splits)
qed

lemma rename_counted:
  assumes c: "counted (db s)" and few: "few_names (tabs (db s))"
  shows "leaves counted (fs_rename s p n q m fl now)"
proof -
  have d: "counted d" if "rename_entry (db s) p n q m nr is_open now = Some (r, d)" for nr is_open r d
  proof -
    have sf: "safe (db s) (rename_entry (db s) p n q m nr is_open now)" by (rule rename_entry_safe) (use c in \<open>simp add: counted_def\<close>)
    show ?thesis
    proof (cases r)
      case (Inl e)
      then show ?thesis using sf that c same_counted by (auto simp: safe_def)
    next
      case (Inr x)
      then show ?thesis using sf that c few rename_links[of "db s"] by (auto simp: safe_def counted_def)
    qed
  qed
  then show ?thesis unfolding fs_rename_def Let_def using c by (auto intro!: ends_bind split: prod.split sum.split option.split)
qed

lemma request_counted:
  assumes m: "mounted s" and l: "links_ok (tabs (db s))" and few: "few_names (tabs (db s))"
  shows "leaves counted (handle q s)"
proof -
  have c: "counted (db s)" using l mountedD(2)[OF m] by (simp add: counted_def)
  show ?thesis
  proof (cases q)
    case (Q_Rmdir p n clock)
    have "counted (snd (remove_dir (db s) p n t))" for t
      using call_counted[OF c, of "RemoveDir p n t"] by (cases "remove_dir (db s) p n t") simp
    then show ?thesis using Q_Rmdir by (simp add: fuse_rmdir_def rmdir_def leaves_on_db)
  next
    case (Q_Link i p n clock)
    then show ?thesis using c few call_on_db[OF c, of "Link i p n (from_system_time clock)" "\<lambda>d. link d i p n (from_system_time clock)"] by (simp add: fuse_link_def fs_link_def)
  next
    case (Q_Readlink i)
    then show ?thesis using query_counted[OF c same_read_symlink] by (simp add: fuse_readlink_def readlink_def)
  next
    case (Q_Readdir i off full)
    then show ?thesis using readdir_counted[OF c] by simp
  next
    case Q_Destroy
    then show ?thesis using destroy_counted[OF c] by simp
  qed (use c m few in \<open>simp_all add: fuse_lookup_def lookup_counted fuse_getattr_def getattr_counted fuse_statfs_def statfs_counted
    fuse_create_def create_open_counted fuse_getxattr_def fuse_listxattr_def fuse_setxattr_def fuse_setattr_def setattr_counted
    fuse_removexattr_def xattr_counted fuse_open_def open_counted fuse_release_def release_counted fuse_flush_def flush_counted
    fuse_fsync_def sync_counted fuse_read_def read_counted fuse_fallocate_def fallocate_counted fuse_unlink_def unlink_counted
    fuse_mknod_def Let_def create_counted fuse_rename_def rename_counted fuse_write_def write_counted fuse_mkdir_def mkdir_def create_dir_def
    fuse_symlink_def symlink_def create_symlink_def node_counted\<close>)
qed

section \<open>Removing a name\<close>

lemma unlink_call:
  assumes m: "mounted s" and u: "unlink s p n now = Some (Inr (), s')"
  obtains target d where "lookup (db s) p n = (Inr target, d)" "unlink_entry d p n target (open_now s (i_ino target)) now = (Inr (), db s')"
proof -
  have run: "running {} s" using m by (simp add: mounted_def)
  obtain target d where l: "lookup (db s) p n = (Inr target, d)" using u
    by (cases "lookup (db s) p n"; cases "fst (lookup (db s) p n)") (auto simp: unlink_def on_db_def)
  have op: "fs_is_open (table s) (i_ino target) = Some (open_now s (i_ino target))" using fs_is_open_eq[OF run] by simp
  obtain r d2 where r: "unlink_entry d p n target (open_now s (i_ino target)) now = (r, d2)" by fastforce
  then have "r = Inr ()" "db s' = d2" using u l op by (cases r; auto simp: unlink_def on_db_def bind_eq_Some_conv)+
  then show thesis using that[OF l] r by simp
qed

lemma named_child:
  assumes "names_ok (db s)"
  shows "(\<exists>y \<in> set (t_dirents (tabs (db s))). d_child (snd y) = i64_of_u64 ino) \<longleftrightarrow> (\<exists>p n. named s p n ino)"
proof
  assume "\<exists>y \<in> set (t_dirents (tabs (db s))). d_child (snd y) = i64_of_u64 ino"
  then obtain rid d where y: "(rid, d) \<in> set (t_dirents (tabs (db s)))" "d_child d = i64_of_u64 ino" by force
  have t: "tree_ok (tabs (db s))" using assms by (simp add: names_ok_def)
  have "closed (kinds (tabs (db s))) d" using t y(1) unfolding tree_ok_def tree_def by force
  then have "i64_of_u64 (u64_of_i64 (d_parent d)) = d_parent d" by (intro i64_u64_i64 kinds_range(3)[OF t]) (simp add: closed_def)
  then have "named s (u64_of_i64 (d_parent d)) (d_name d) ino" unfolding named_def using y by (intro exI[of _ rid]) (cases d, simp)
  then show "\<exists>p n. named s p n ino" by blast
qed (force simp: named_def)

lemma named_target:
  assumes "names_ok (db s)" "lookup (db s) p n = (Inr target, d)" "named s p n ino"
  shows "ino = i_ino target"
proof -
  have t: "tree_ok (tabs (db s))" using assms(1) by (simp add: names_ok_def)
  obtain rid where "(rid, \<lparr>d_parent = i64_of_u64 p, d_name = n, d_child = i64_of_u64 (i_ino target)\<rparr>) \<in> set (t_dirents (tabs (db s)))"
    by (rule lookup_child[OF assms(1,2)])
  then have "i64_of_u64 ino = i64_of_u64 (i_ino target)" using assms(3) entry_unique(2)[OF t] unfolding named_def by blast
  then show ?thesis by (metis u64_i64_u64)
qed

text \<open>C6. Removing a name removes that name and no other, whatever inode they stand for; the contents of
  the file go if and only if that was its last name and no handle is open on it.\<close>

theorem unlink_exact:
  assumes m: "mounted s" and l: "links_ok (tabs (db s))" and few: "few_names (tabs (db s))"
    and u: "handle (Q_Unlink p n clock) s = Some (R_Ok, s')" and ino: "named s p n ino"
  shows "(\<forall>p' n' i. named s' p' n' i \<longleftrightarrow> named s p' n' i \<and> (p', n') \<noteq> (p, n)) \<and>
    content s' = (if (\<exists>p' n'. named s' p' n' ino) \<or> open_now s ino then content s else (content s)(ino := None))"
proof -
  let ?now = "from_system_time clock"
  have names: "names_ok (db s)" by (rule mountedD[OF m])
  have u': "unlink s p n ?now = Some (Inr (), s')"
  proof (cases "unlink s p n ?now")
    case (Some x)
    then show ?thesis using u by (cases x; cases "fst x") (auto simp: fuse_unlink_def answers_def answer_def)
  qed (use u in \<open>simp add: fuse_unlink_def answers_def\<close>)
  obtain target d where t: "lookup (db s) p n = (Inr target, d)" "unlink_entry d p n target (open_now s (i_ino target)) ?now = (Inr (), db s')"
    by (rule unlink_call[OF m u'])
  note ul = unlink_links[OF names l few t]
  have i: "ino = i_ino target" by (rule named_target[OF names t(1) ino])
  have names': "mounted s'" "i_kind target \<noteq> Directory" "content s' = (if deleted s target then (content s)(i_ino target := None) else content s)"
    using unlink_serves[OF m, of p n ?now] u' t(1) by (auto simp: serves_def)
  have "1 < i_nlink target \<longleftrightarrow> (\<exists>p' n'. named s' p' n' ino)" using ul(2) named_child[OF mountedD(2)[OF names'(1)]] i by simp
  then have "content s' = (if (\<exists>p' n'. named s' p' n' ino) \<or> open_now s ino then content s else (content s)(ino := None))"
    using names'(2,3) i by (auto simp: deleted_def)
  moreover have "named s' p' n' i \<longleftrightarrow> named s p' n' i \<and> (p', n') \<noteq> (p, n)" for p' n' i
    unfolding named_def ul(3) by simp
  ultimately show ?thesis by blast
qed

section \<open>Sessions\<close>

text \<open>Before every request of the session there are fewer names than a 32-bit count holds.\<close>

fun few_along :: "request list \<Rightarrow> Shared \<Rightarrow> bool" where
  "few_along [] s \<longleftrightarrow> True"
| "few_along (q # qs) s \<longleftrightarrow> few_names (tabs (db s)) \<and> (case handle q s of None \<Rightarrow> True | Some (_, s) \<Rightarrow> few_along qs s)"

lemma session_counted:
  "mounted s \<Longrightarrow> links_ok (tabs (db s)) \<Longrightarrow> all_sendable qs s \<Longrightarrow> few_along qs s \<Longrightarrow> serve qs s = Some (replies, s') \<Longrightarrow> links_ok (tabs (db s'))"
proof (induction qs arbitrary: s replies)
  case (Cons q qs)
  obtain r s1 where r: "handle q s = Some (r, s1)" "mounted s1" using request_served[OF Cons(2), of q] Cons(4) by (auto simp: answered_def)
  have "links_ok (tabs (db s1))" using request_counted[OF Cons(2,3), of q] Cons(5) r(1) by (auto simp: ends_def counted_def)
  with Cons r show ?case by (auto simp: bind_eq_Some_conv split: prod.splits simp del: handle.simps)
qed simp

text \<open>Start-up keeps the rows of file data sound.\<close>

lemma root_data:
  assumes ok: "data_ok t" and no: "map_of (t_inodes t) 1 = None" and k: "r_kind root = DIR"
  shows "data_ok (t\<lparr>t_inodes := tbl_put 1 root (t_inodes t)\<rparr>)"
proof -
  let ?t = "t\<lparr>t_inodes := tbl_put 1 root (t_inodes t)\<rparr>"
  have row: "inode_row_of t ino = Some r \<Longrightarrow> inode_row_of ?t ino = Some r" for ino r
    using no by (auto simp: inode_row_of_def map_of_tbl_put)
  have "chunk_owned ?t key x" if "chunk_owned t key x" for key x
    using that row unfolding chunk_owned_def by blast
  moreover have "inode_row_ok i r" if "map_of (t_inodes ?t) i = Some r" for i r
    using that ok k by (auto simp: data_ok_def map_of_tbl_put inode_row_ok_def split: if_splits)
  ultimately show ?thesis using ok by (auto simp: data_ok_def tbl_ok_put)
qed

lemma recompute_keeps_data: "keeps_data t (recompute_directory_nlink t)"
proof -
  have "heads (recompute_directory_nlink t) = heads t"
    by (auto simp: heads_def recompute_row fun_eq_iff option.map_comp comp_def intro: option.map_cong)
  moreover have "map fst (t_inodes (recompute_directory_nlink t)) = map fst (t_inodes t)"
    by (simp add: recompute_directory_nlink_def Let_def comp_def case_prod_beta)
  moreover have "t_chunks (recompute_directory_nlink t) = t_chunks t" by (simp add: recompute_directory_nlink_def Let_def)
  ultimately show ?thesis by (simp add: keeps_data_def tbl_ok_def)
qed

lemma orphans_data:
  "data_ok (tabs d) \<Longrightarrow> \<forall>i \<in> set os. 0 < i \<and> i < 2 ^ 39 \<Longrightarrow> delete_orphans os d = (Inr (), d') \<Longrightarrow> data_ok (tabs d')"
proof (induction os arbitrary: d)
  case (Cons i os)
  let ?u = "u64_of_i64 i"
  obtain d1 d2 where s: "execute d (\<lambda>t. delete_chunk_range t ?u) = (Inr (), d1)"
    "execute d1 (\<lambda>t. delete_inode_row t ?u) = (Inr (), d2)" "delete_orphans os d2 = (Inr (), d')"
    using Cons.prems(3) by (auto simp: and_then_Inr_iff)
  have "unat ?u = nat i" using Cons.prems(2) by (simp add: u64_of_i64_def unsigned_of_int take_bit_int_eq_self)
  then have "valid_ino ?u" using Cons.prems(2) by (simp add: valid_ino_unat nat_less_iff less_imp_le)
  moreover have "tabs d2 = delete_inode_rows (tabs d) ?u"
    using execute_tabs[OF s(1)] execute_tabs[OF s(2)] by (simp add: delete_inode_rows_def)
  ultimately have "data_ok (tabs d2)" using delete_inode_rows_data(1)[OF Cons.prems(1)] by simp
  then show ?case using Cons.IH[OF _ _ s(3)] Cons.prems(2) by simp
qed simp

lemma initialize_data:
  assumes ok: "data_ok (tabs d0)" and i: "initialize d0 uid gid now = (Inr (), d)"
  shows "data_ok (tabs d)"
proof -
  let ?root = "\<lparr>r_kind = DIR, r_mode = 493, r_uid = uid, r_gid = gid, r_size = 0,
          r_atime_ns = to_ns now, r_mtime_ns = to_ns now, r_ctime_ns = to_ns now, r_nlink = 2\<rparr>"
  let ?own = "\<lambda>r. if r_uid r = 0 \<and> r_gid r = 0 then r\<lparr>r_uid := uid, r_gid := gid, r_ctime_ns := to_ns now\<rparr> else r"
  obtain d1 d2 d3 os d4 where q: "execute d0 (\<lambda>t. if map_of (t_inodes t) 1 \<noteq> None then t else t\<lparr>t_inodes := tbl_put 1 ?root (t_inodes t)\<rparr>) = (Inr (), d1)"
    "execute d1 (\<lambda>t. t\<lparr>t_inodes := tbl_update 1 ?own (t_inodes t)\<rparr>) = (Inr (), d2)" "execute d2 recompute_directory_nlink = (Inr (), d3)"
    "query d3 (\<lambda>t. Inr (map fst (filter (\<lambda>(ino, r). r_nlink r = 0 \<and> ino \<noteq> 1) (t_inodes t)))) = (Inr os, d4)" "delete_orphans os d4 = (Inr (), d)"
    using i unfolding initialize_def by (auto simp: and_then_Inr_iff)
  have "data_ok (tabs d1)" using execute_tabs[OF q(1)] ok root_data[OF ok, of ?root] by simp
  moreover have "keeps_data (tabs d1) (tabs d2)" using execute_tabs[OF q(2)] by (simp add: heads_update)
  moreover have "keeps_data (tabs d2) (tabs d4)" using execute_tabs[OF q(3)] query_frame[OF q(4)] recompute_keeps_data by simp
  ultimately have ok4: "data_ok (tabs d4)" using keeps_data_ok(1) by blast
  have "0 < j \<and> j < 2 ^ 39" if j: "j \<in> set os" for j
  proof -
    have tb: "tbl_ok (t_inodes (tabs d3))" using ok4 query_frame[OF q(4)] by (simp add: data_ok_def)
    have "os = map fst (filter (\<lambda>(ino, r). r_nlink r = 0 \<and> ino \<noteq> 1) (t_inodes (tabs d3)))" using query_Inr[OF q(4)] by simp
    then obtain r where "map_of (t_inodes (tabs d3)) j = Some r"
      using j selected_keys[OF tb, of j "\<lambda>i r. r_nlink r = 0 \<and> i \<noteq> 1"] by blast
    then show ?thesis using ok4 query_frame[OF q(4)] by (auto simp: data_ok_def inode_row_ok_def)
  qed
  then show ?thesis using orphans_data[OF ok4 _ q(5)] by blast
qed

lemma links_ok_files: "links_ok t \<Longrightarrow> files_linked t"
  unfolding links_ok_def files_linked_def by presburger

text \<open>C5. A database whose rows are sound and whose stored counts of files are right, as those of an empty one
  are, has exact link counts after start-up (which itself recomputes the counts of directories only), and
  at any moment of any session of requests after it, buffered writes, handles, listings and
  faults of SQLite included: the count of a file is the number of its names, that of a directory two more
  than the number of its subdirectories. The database the session leaves meets the same hypotheses again,
  so that the counts stay exact over any number of mounts, crashes between requests included.\<close>

theorem session_counts_exact:
  assumes "startable d0" "data_ok (tabs d0)" "files_linked (tabs d0)" "initialize d0 uid gid now = (Inr (), d)"
    and "visits_all order" "budget \<le> 2 ^ 48" "all_sendable qs (with_write_buffer order d budget)" "few_along qs (with_write_buffer order d budget)"
  shows "\<exists>replies s'. serve qs (with_write_buffer order d budget) = Some (replies, s') \<and> links_ok (tabs (db s')) \<and>
    startable (db s') \<and> data_ok (tabs (db s')) \<and> files_linked (tabs (db s'))"
proof -
  let ?s = "with_write_buffer order d budget"
  have m: "mounted ?s" by (rule fresh_mounted[OF initialize_data[OF assms(2,4)] initialize_names[OF assms(1,4)] assms(5,6)])
  obtain replies s' where r: "serve qs ?s = Some (replies, s')" "mounted s'" using served_session[OF m assms(7)] by blast
  have "links_ok (tabs (db ?s))" using startup_links(1)[OF assms(1,3,4)] by (simp add: with_write_buffer_def)
  then have "links_ok (tabs (db s'))" by (rule session_counted[OF m _ assms(7,8) r(1)])
  then show ?thesis using r mountedD(1,2)[OF r(2)] links_ok_files by (auto simp: startable_def running_def)
qed

end
