(* ===== verification/Link_Examples.thy ===== *)
theory Link_Examples
  imports Served_Links Served_Examples
begin

text \<open>
  The applications of the theorems on link counts: a file with two names, a file deleted while open whose
  rows a crash left behind, and a session that makes and removes a directory.
\<close>

section \<open>A file with two names\<close>

definition linked_db :: Db where
  "linked_db = snd (link grown_db 3 1 [103] epoch)"

lemma epoch_ns: "from_ns (to_ns epoch) = epoch"
  by (simp add: to_ns_exact in_i64_def exact_ns_def from_ns_def Let_def epoch_def i64_MIN_def i64_MAX_def)

lemma linked: "fst (link grown_db 3 1 [103] epoch) = Inr (new_leaf\<lparr>i_nlink := 2\<rparr>)" "faults linked_db = []"
  "tabs linked_db = \<lparr>t_inodes = [(1, dir_row 3), (2, dir_row 2), (3, leaf_row\<lparr>r_nlink := 2\<rparr>)],
     t_dirents = [(1, Directories.entry 1 [100] 2), (2, Directories.entry 2 [102] 3), (3, Directories.entry 1 [103] 3)], t_chunks = [], t_symlinks = []\<rparr>"
  by (simp_all add: linked_db_def link_def get_inode_def step_simps set_nlink_def grown dir_row_def leaf_row_def new_leaf_def
      inode_from_row_def sql_result_def u32_of_i64_def i64_of_u32_def u64_of_i64_def epoch_ns)

definition linked_mount :: Shared where
  "linked_mount = with_write_buffer (\<lambda>es. es) linked_db 65536"

lemma linked_ok: "names_ok linked_db" "data_ok (tabs linked_db)" "links_ok (tabs linked_db)" "few_names (tabs linked_db)"
proof -
  show "names_ok linked_db" unfolding linked_db_def by (rule names_link[OF grown_names])
  have "tbl_ok (t_inodes (tabs linked_db))" by (simp add: linked tbl_ok_def)
  then show "data_ok (tabs linked_db)"
    by (auto simp: data_ok_def linked inode_row_ok_def dir_row_def leaf_row_def row_size_def u64_of_i64_def tbl_ok_def split: if_splits)
  have "links_ok (tabs started_db)" by (rule startup_links(1)[OF _ _ started(1)]) (simp_all add: startable_def files_linked_def blank_db_def sqlite_rowid_fresh)
  then have "links_ok (tabs grown_db)" by (intro create_links[OF with_dir_names create_links[OF started_names _ make_dir] make_leaf])
  moreover have "few_names (tabs grown_db)" by (simp add: few_names_def grown)
  moreover have "link grown_db 3 1 [103] epoch = (Inr (new_leaf\<lparr>i_nlink := 2\<rparr>), linked_db)" using linked(1) by (simp add: linked_db_def prod_eq_iff)
  ultimately show "links_ok (tabs linked_db)" by (rule link_links[OF grown_names])
  show "few_names (tabs linked_db)" by (simp add: few_names_def linked)
qed

lemma linked_mounted: "mounted linked_mount" "content linked_mount 3 = Some []" "db linked_mount = linked_db"
proof -
  show "mounted linked_mount" unfolding linked_mount_def by (rule fresh_mounted[OF linked_ok(2,1) visits_all_id]) simp
  have "file_bytes (tabs linked_db) 3 = Some []" by (simp add: file_bytes_def inode_row_of_def linked leaf_row_def row_size_def u64_of_i64_def)
  then show "content linked_mount 3 = Some []" "db linked_mount = linked_db"
    using mounted_ok[OF linked_ok(2) visits_all_id, of 65536] by (simp_all add: linked_mount_def)
qed

text \<open>The first name is removed; the file is still there under the second.\<close>

theorem unlink_exact_witness:
  "\<exists>s'. handle (Q_Unlink 2 [102] 0) linked_mount = Some (R_Ok, s') \<and> \<not> named s' 2 [102] 3 \<and> named s' 1 [103] 3 \<and>
     content s' 3 = Some []"
proof -
  have "\<exists>s'. handle (Q_Unlink 2 [102] 0) linked_mount = Some (R_Ok, s')"
    by (simp add: fuse_unlink_def unlink_def on_db_def linked_mount_def with_write_buffer_def lookup_def check_name_def NAME_MAX_def query_no_fault
        linked join_children_def sql_result_def inode_from_row_def kind_from_i64_def leaf_row_def u32_of_i64_def u64_of_i64_def
        table_new_def inodes_default_def inodes_find_def fs_is_open_def unlink_entry_def transaction_no_fault entry_removed_def
        answers_def answer_def)
  then obtain s' where u: "handle (Q_Unlink 2 [102] 0) linked_mount = Some (R_Ok, s')" by blast
  have named: "named linked_mount 2 [102] 3" "named linked_mount 1 [103] 3"
    by (auto simp: named_def linked_mounted(3) linked)
  note ul = unlink_exact[OF linked_mounted(1) _ _ u named(1), unfolded linked_mounted(3), OF linked_ok(3,4)]
  have "named s' p' n' i \<longleftrightarrow> named linked_mount p' n' i \<and> (p', n') \<noteq> (2, [102])" for p' n' i using ul by blast
  then have n: "named s' 1 [103] 3" "\<not> named s' 2 [102] 3" using named by simp_all
  then have "content s' = content linked_mount" using conjunct2[OF ul] by (metis (no_types))
  then show ?thesis using u n linked_mounted(2) by (simp del: handle.simps)
qed

section \<open>What a crash leaves\<close>

text \<open>The file deleted while it was open: its row has no name any more.\<close>

definition crashed_db :: Db where
  "crashed_db = snd (unlink_entry grown_db 2 [102] (stored_times new_leaf) True epoch)"

lemma crashed: "tabs crashed_db = \<lparr>t_inodes = [(1, dir_row 3), (2, dir_row 2), (3, leaf_row\<lparr>r_nlink := 0\<rparr>)],
     t_dirents = [(1, Directories.entry 1 [100] 2)], t_chunks = [], t_symlinks = []\<rparr>" "faults crashed_db = []"
  by (simp_all add: crashed_db_def unlink_entry_def transaction_no_fault grown new_leaf_def stored_times_def drop_unlinked_inode_def
      delete_dirent_def tbl_delete_def set_nlink_def tbl_update_def touch_dir_def dir_row_def leaf_row_def)

theorem startup_clears_orphans_witness:
  "\<exists>d. initialize crashed_db 0 0 epoch = (Inr (), d) \<and> kinds (tabs d) 3 = None \<and> kinds (tabs d) 2 = Some DIR \<and>
     set (t_dirents (tabs d)) = {(1, Directories.entry 1 [100] 2)}"
proof -
  have "names_ok crashed_db" unfolding crashed_db_def by (rule names_unlink_entry[OF grown_names]) (simp add: new_leaf_def stored_times_def)
  then have st: "startable crashed_db" by (simp add: startable_def)
  have f: "files_linked (tabs crashed_db)" by (auto simp: files_linked_def crashed dir_row_def leaf_row_def split: if_splits)
  have "\<exists>d. initialize crashed_db 0 0 epoch = (Inr (), d)"
    by (simp add: initialize_def crashed step_simps recompute_directory_nlink_def join_children_def dir_row_def leaf_row_def)
  then obtain d where i: "initialize crashed_db 0 0 epoch = (Inr (), d)" by blast
  note sc = startup_clears_orphans[OF st f i]
  have "kinds (tabs crashed_db) 2 = Some DIR" "kinds (tabs crashed_db) 3 = Some 1" by (simp_all add: kinds_def crashed dir_row_def leaf_row_def)
  moreover have "kinds (tabs d) 2 = (if kinds (tabs crashed_db) 2 \<noteq> Some DIR \<and> (\<forall>x \<in> set (t_dirents (tabs crashed_db)). d_child (snd x) \<noteq> 2)
       then None else kinds (tabs crashed_db) 2)"
    "kinds (tabs d) 3 = (if kinds (tabs crashed_db) 3 \<noteq> Some DIR \<and> (\<forall>x \<in> set (t_dirents (tabs crashed_db)). d_child (snd x) \<noteq> 3)
       then None else kinds (tabs crashed_db) 3)"
    by (rule conjunct2[OF conjunct2[OF sc], rule_format], simp)+
  moreover have "set (t_dirents (tabs d)) = {(1, Directories.entry 1 [100] 2)}" using conjunct1[OF sc] by (simp add: crashed)
  ultimately show ?thesis using i by (simp add: crashed)
qed

section \<open>A session\<close>

theorem session_counts_exact_witness:
  "\<exists>replies s'. serve [Q_Mkdir 1 [100] 493 0 0 0 0, Q_Rmdir 1 [100] 0] (with_write_buffer (\<lambda>es. es) started_db 65536) = Some (replies, s') \<and>
     links_ok (tabs (db s'))"
proof -
  let ?s = "with_write_buffer (\<lambda>es. es) started_db 65536"
  have st: "startable blank_db" by (simp add: startable_def blank_db_def sqlite_rowid_fresh)
  have f: "files_linked (tabs blank_db)" by (simp add: files_linked_def blank_db_def)
  have ok: "data_ok (tabs blank_db)" by (simp add: data_ok_def blank_db_def tbl_ok_def)
  have t: "from_system_time 0 = epoch" by (simp add: from_system_time_def epoch_def i64_of_u64_def)
  have md: "\<exists>r. handle (Q_Mkdir 1 [100] 493 0 0 0 0) ?s = Some (r, ?s\<lparr>db := with_dir\<rparr>)"
    using make_dir by (simp add: fuse_mkdir_def mkdir_def create_dir_def on_db_def with_write_buffer_def to_attr_def answer_def t)
  then obtain r where md: "handle (Q_Mkdir 1 [100] 493 0 0 0 0) ?s = Some (r, ?s\<lparr>db := with_dir\<rparr>)" by blast
  have "few_along [Q_Mkdir 1 [100] 493 0 0 0 0, Q_Rmdir 1 [100] 0] ?s" "all_sendable [Q_Mkdir 1 [100] 493 0 0 0 0, Q_Rmdir 1 [100] 0] ?s"
    using md by (simp_all add: few_names_def started with_dir with_write_buffer_def del: handle.simps split: option.split)
  from session_counts_exact[OF st ok f started(1) visits_all_id _ this(2,1)] show ?thesis by (auto simp del: serve.simps)
qed

end
