(* ===== verification/Spec2Isabelle.thy ===== *)
theory Spec2Isabelle
  imports Session_Examples Directory_Examples Migration_Examples Mount_Proofs Link_Examples
begin

text \<open>
  Verification of dbfs, a FUSE filesystem that keeps its files in an SQLite database.

  \<^bold>\<open>The program.\<close> The kernel sends requests to a FUSE session (\<^verbatim>\<open>impl Filesystem for Dbfs\<close>, \<^verbatim>\<open>src/src/fuse.rs\<close>),
  which calls the operations of \<^verbatim>\<open>Dbfs\<close>. Written bytes first go to 64 KiB chunks of a bounded arena
  (\<^verbatim>\<open>src/src/arena.rs\<close>), indexed per open inode in a table of open inodes and handles
  (\<^verbatim>\<open>src/src/open_table.rs\<close>); flushes, evictions and shutdown move them into the tables of the storage layer
  (\<^verbatim>\<open>src/src/db.rs\<close>), which keeps inodes, directory entries, chunks and symlink targets and migrates
  databases of older versions. The command line (\<^verbatim>\<open>src/src/cli.rs\<close>) and the mount, with its options, its signal
  handling and its exit status (\<^verbatim>\<open>src/src/run.rs\<close>), surround the session.

  \<^bold>\<open>How it is modelled.\<close> Rust structs are records, enums are datatypes, \<^verbatim>\<open>u32\<close> and \<^verbatim>\<open>u64\<close> are words that wrap around,
  \<^verbatim>\<open>i64\<close> is \<open>int\<close> with its casts and bounds written out (\<open>Prelude\<close>). A method of \<^verbatim>\<open>&mut self\<close> takes the state and
  returns it. A \<^verbatim>\<open>Result\<close> is a sum with the error on the left; a result inside \<open>option\<close> is \<open>None\<close> where the code would
  panic (an index out of range, a slice of the wrong length) or would never return. There is no fuel: the two
  loops that are not structural, \<open>alloc_chunk\<close> (eviction) and \<open>climb\<close> (the ancestors of a directory), are
  \<open>partial_function\<close>s, and that they return is proved. Every method runs under one lock, so an operation is one
  step, and an interleaving of clients is a sequence of operations; the steps of
  \<open>flush_for_shutdown\<close>, refusing writes, flushing and recording the result, are taken together.

  \<^bold>\<open>Theories, in the order of the code.\<close>
  \<^item> \<open>Model\<close> (\<^verbatim>\<open>src/src/model.rs\<close>): timestamps, kinds, inodes; the stored form of a timestamp and its round trips.
  \<^item> \<open>Chunks\<close> (\<^verbatim>\<open>src/src/db.rs\<close>): chunk keys are injective, the pieces of a byte range tile the caller's buffer.
  \<^item> \<open>Arena\<close> (\<^verbatim>\<open>src/src/arena.rs\<close>): the arena, behind the locale \<open>slot_store\<close>, and the dirty index, behind
    \<open>chunk_index\<close>: no stale bytes, the budget is kept, sorted insertion and range search are exact.
  \<^item> \<open>Open_Table\<close> (\<^verbatim>\<open>src/src/open_table.rs\<close>): open inodes as a structure of arrays, behind the locale \<open>slot_map\<close>, and
    handles, behind \<open>handle_map\<close>: live handles and slots never alias, reused ones start afresh.
  \<^item> \<open>Tables\<close>, \<open>Storage\<close> (\<^verbatim>\<open>src/src/db.rs\<close>): the tables, the SQL statements and one definition per method of
    \<^verbatim>\<open>Db\<close>. \<open>File_Store\<close> states what a store of files promises (locale \<open>file_store\<close>: reading, positional writing,
    resizing of byte strings); \<open>File_Data\<close> proves it of the chunk rows, under the invariant \<open>data_ok\<close>.
  \<^item> \<open>Names\<close>, \<open>Tree_Ops\<close>, \<open>Directories\<close>: the directory tree (invariant \<open>names_ok\<close>) under every storage call, what
    lookups find after creating, linking, removing and renaming, that rename returns and never makes a
    cycle, that failed calls change nothing. \<open>Listing\<close>: a listing can be resumed from any offset.
  \<^item> \<open>Migration\<close>, \<open>Migration_Proofs\<close>: the older layouts, \<^verbatim>\<open>migrate\<close> and \<^verbatim>\<open>initialize\<close>; migration keeps what the
    database holds (of files of any size: \<open>sparse_bytes\<close> reads past the size limit), and succeeds exactly on the versions and sizes it supports.
  \<^item> \<open>Fuse\<close>, \<open>Filesystem\<close>, \<open>Requests\<close> (\<^verbatim>\<open>src/src/fuse.rs\<close>): the shared state, flushing, eviction and buffering; the
    operations of \<^verbatim>\<open>Dbfs\<close>; the requests and their replies.
  \<^item> \<open>Write_Back\<close>, \<open>Write_Path\<close>, \<open>Write_Loop\<close>, \<open>Write_Step\<close>, \<open>Buffered\<close>: the contents of a file as a reader sees them
    (\<open>content\<close>: stored chunks under the dirty ones), the invariant \<open>running\<close>, and that flushing and
    eviction leave the contents alone while writing and truncating are the operations of \<open>file_store\<close>, whose second
    instance the buffered filesystem is. A write that SQLite fails has written a prefix.
  \<^item> \<open>Open_Files\<close>, \<open>Sessions\<close>: opening, closing, unlinked files; a step relation of client calls, simulated by a
    plain map from inodes to byte strings.
  \<^item> \<open>Mounted\<close>, \<open>Served\<close>: both invariants at once (\<open>mounted\<close>): operations on names under open files, and every
    request of the session (\<open>handle\<close>: all methods of \<^verbatim>\<open>impl Filesystem\<close>, with \<^verbatim>\<open>init\<close>, listings and \<^verbatim>\<open>destroy\<close>) is answered, keeps
    the mount well formed and changes no other file. The locale
    \<open>stored\<close> says which properties of the database everything in the buffers keeps; the tree is an instance, and so are the
    link counts.
  \<^item> \<open>Closing\<close>: after the flush for shutdown (\<open>shut\<close>: writes are refused and, if the last flush succeeded, no
    buffer of a named file is dirty) every request keeps the buffers at rest, so that nothing acknowledged is lost
    while the session still serves requests.
  \<^item> \<open>Link_Counts\<close>, \<open>Link_Runs\<close>, \<open>Served_Links\<close>: link counts. \<open>links_ok\<close> says that the count of a file is the number of
    its names and that of a directory two more than the number of its subdirectories; the proofs follow how far
    each statement of a transaction takes the counts from what is due. Every storage call, start-up and
    every request keep them exact; start-up deletes the files without a name and nothing else, and removing a
    name deletes the file exactly when it was the last and no handle is open.
  \<^item> \<open>Command_Line\<close> (\<^verbatim>\<open>src/src/cli.rs\<close>), \<open>Mounting\<close>, \<open>Mount_Proofs\<close> (\<^verbatim>\<open>src/src/run.rs\<close>): sizes on the command line,
    mount options, shutdown and the exit status: a clean exit means that all data is stored, but for files
    unlinked while open, which no flush stores and which the last release deletes.
  \<^item> \<open>File_Examples\<close>, \<open>Session_Examples\<close>, \<open>Directory_Examples\<close>, \<open>Migration_Examples\<close>, \<open>Served_Examples\<close>,
    \<open>Link_Examples\<close>: concrete databases
    and mounts, on which the hypotheses of the theorems hold.

  \<^bold>\<open>Parameters.\<close> SQLite is not part of the sources. A transaction is atomic; which statements fail is an arbitrary script
  (\<open>faults\<close>), so the theorems hold for every pattern of failures; the row id of a new directory entry
  is an arbitrary function (\<open>new_rowid\<close>, fresh by \<open>rowids_fresh\<close>, with SQLite's own rule \<open>sqlite_rowid\<close> as its instance).
  The order in which a \<^verbatim>\<open>HashMap\<close> is visited is an argument that visits every key once (\<open>visits_all\<close>). The \<^verbatim>\<open>fuser\<close> session,
  its reply buffer for listings, the clock, \<^verbatim>\<open>clap\<close>, threads and signals are arguments of the definitions that use them.

  \<^bold>\<open>Bounds.\<close> \<open>room\<close> and \<open>openable\<close> ask for a free slot and handle number, of which there are \<open>2 ^ 32 - 1\<close>; the write
  buffer is at most \<open>2 ^ 48\<close> bytes, so that its chunks have 32-bit numbers; offsets of requests are \<^verbatim>\<open>i64\<close> and lengths of
  writes 32-bit, as in the FUSE protocol. \<open>sendable\<close> adds that the kernel opens regular files only. \<open>data_ok\<close> bounds inode
  numbers by \<open>2 ^ 39\<close>, the limit \<^verbatim>\<open>create_node\<close> enforces. \<open>few_names\<close> keeps the number of names below what a 32-bit link count
  holds; \<open>files_linked\<close> asks that the stored counts of files are right when start-up begins, which recomputes those of
  directories only: an empty database meets it, and every session leaves a database that meets it.

  \<^bold>\<open>Not modelled.\<close> \<^verbatim>\<open>src/examples/bench_io.rs\<close> is a timing program over the library. \<^verbatim>\<open>src/src/lib.rs\<close> and
  \<^verbatim>\<open>src/src/main.rs\<close> declare modules and call \<^verbatim>\<open>run\<close>. Opening the SQLite connection with its pragmas, preparing statements and
  the unit tests in the source files are left out, and so is the thread that waits for signals but for the
  order of its effects.
\<close>

end
